(* ===== verification/Prelude.thy ===== *)
theory Prelude
  imports Main "HOL-Library.Word"
begin

text \<open>
  What the components share: the machine integers of the source, the result of a Go call
  (a value, an \<^verbatim>\<open>error\<close>, or a run-time panic), slice accesses that panic out of range, and
  the predicate \<open>holds\<close> with which the safety proofs walk through a call.
\<close>

unbundle bit_operations_syntax

section \<open>Machine integers\<close>

text \<open>
  \<open>i32\<close> and \<open>i64\<close> are two's complement words read with \<open>sint\<close>; the type only documents how
  the source declares the variable. Go's \<^verbatim>\<open>int\<close> is 64 bits wide; where the source uses it as a
  length, a count or an index it is a \<open>nat\<close>.
\<close>

type_synonym byte = "8 word"
type_synonym u16 = "16 word"
type_synonym u32 = "32 word"
type_synonym u64 = "64 word"
type_synonym i32 = "32 word"
type_synonym i64 = "64 word"

section \<open>Results of Go calls\<close>

text \<open>
  An error is one of the sentinel values the source compares with \<open>==\<close> or returns by name, a
  message of \<^verbatim>\<open>errors.New\<close> or \<^verbatim>\<open>fmt.Errorf\<close> (its format, without the arguments), or such a
  message wrapped around another error. A panic is not an error: no caller handles it.
\<close>

datatype go_error =
    EOF
  | ErrUnexpectedEOF
  | ErrShortBuffer
  | ErrOverflow32
  | ErrOverflow33
  | ErrOverflow64
  | ErrInvalidByte
  | ErrInvalidMagicNumber
  | ErrInvalidVersion
  | ErrInvalidSectionID
  | Errorf string
  | Wrapf string go_error

datatype 'a outcome = Ok 'a | Err go_error | Panic string

primrec bindO :: "'a outcome \<Rightarrow> ('a \<Rightarrow> 'b outcome) \<Rightarrow> 'b outcome" where
  "bindO (Ok a) f = f a"
| "bindO (Err e) f = Err e"
| "bindO (Panic p) f = Panic p"

lemma bindO_cong [fundef_cong]:
  "m = m' \<Longrightarrow> (\<And>a. m' = Ok a \<Longrightarrow> f a = f' a) \<Longrightarrow> bindO m f = bindO m' f'"
  by (cases m') auto

primrec mapErr :: "(go_error \<Rightarrow> go_error) \<Rightarrow> 'a outcome \<Rightarrow> 'a outcome" where
  "mapErr g (Ok a) = Ok a"
| "mapErr g (Err e) = Err (g e)"
| "mapErr g (Panic p) = Panic p"

definition require :: "bool \<Rightarrow> go_error \<Rightarrow> unit outcome" where
  "require c e = (if c then Ok () else Err e)"

primrec foldO :: "('a \<Rightarrow> 's \<Rightarrow> 's outcome) \<Rightarrow> 'a list \<Rightarrow> 's \<Rightarrow> 's outcome" where
  "foldO f [] s = Ok s"
| "foldO f (x # xs) s = bindO (f x s) (foldO f xs)"

section \<open>Slices\<close>

text \<open>Reads and reslices that panic out of range, as Go's bounds checks do.\<close>

definition index :: "'a list \<Rightarrow> nat \<Rightarrow> 'a outcome" where
  "index xs i = (if i < length xs then Ok (xs ! i) else Panic ''index out of range'')"

definition slice_from :: "'a list \<Rightarrow> nat \<Rightarrow> 'a list outcome" where
  "slice_from xs i = (if i \<le> length xs then Ok (drop i xs) else Panic ''slice bounds out of range'')"

definition slice_to :: "'a list \<Rightarrow> nat \<Rightarrow> 'a list outcome" where
  "slice_to xs i = (if i \<le> length xs then Ok (take i xs) else Panic ''slice bounds out of range'')"

definition slice :: "'a list \<Rightarrow> nat \<Rightarrow> nat \<Rightarrow> 'a list outcome" where
  "slice xs i j =
     (if i \<le> j \<and> j \<le> length xs then Ok (take (j - i) (drop i xs))
      else Panic ''slice bounds out of range'')"

definition store_at :: "'a list \<Rightarrow> nat \<Rightarrow> 'a \<Rightarrow> 'a list outcome" where
  "store_at xs i v = (if i < length xs then Ok (xs[i := v]) else Panic ''index out of range'')"

text \<open>Go's \<^verbatim>\<open>copy(dst[i:], src)\<close> for \<open>i \<le> length dst\<close>: as many elements as fit.\<close>

definition copy_at :: "'a list \<Rightarrow> nat \<Rightarrow> 'a list \<Rightarrow> 'a list" where
  "copy_at dst i src =
     (let n = min (length dst - i) (length src)
      in take i dst @ take n src @ drop (i + n) dst)"

section \<open>Reasoning about outcomes\<close>

text \<open>
  \<open>holds P m\<close>: the call does not panic, and a value it returns satisfies \<open>P\<close>. The collection
  \<open>wp\<close> turns it into conditions on the parts of a call.
\<close>

definition holds :: "('a \<Rightarrow> bool) \<Rightarrow> 'a outcome \<Rightarrow> bool" where
  "holds P m = (case m of Ok a \<Rightarrow> P a | Err _ \<Rightarrow> True | Panic _ \<Rightarrow> False)"

definition panics :: "'a outcome \<Rightarrow> bool" where
  "panics m = (\<exists>p. m = Panic p)"

named_theorems wp

text \<open>Introduction rules for calls whose result is only bounded, not determined.\<close>

named_theorems wpI

lemma holds_Ok [wp, simp]: "holds P (Ok a) = P a"
  by (simp add: holds_def)

lemma holds_Err [wp, simp]: "holds P (Err e)"
  by (simp add: holds_def)

lemma holds_Panic [wp, simp]: "\<not> holds P (Panic p)"
  by (simp add: holds_def)

lemma holds_bindO [wp]: "holds P (bindO m f) = holds (\<lambda>a. holds P (f a)) m"
  by (cases m) auto

lemma holds_mapErr [wp]: "holds P (mapErr g m) = holds P m"
  by (cases m) auto

lemma holds_require [wp]: "holds P (require c e) = (c \<longrightarrow> P ())"
  by (simp add: require_def)

lemma holds_index [wp]: "holds P (index xs i) = (i < length xs \<and> P (xs ! i))"
  by (simp add: index_def)

lemma holds_slice_from [wp]: "holds P (slice_from xs i) = (i \<le> length xs \<and> P (drop i xs))"
  by (simp add: slice_from_def)

lemma holds_slice_to [wp]: "holds P (slice_to xs i) = (i \<le> length xs \<and> P (take i xs))"
  by (simp add: slice_to_def)

lemma holds_if [wp]: "holds P (if c then m else n) = ((c \<longrightarrow> holds P m) \<and> (\<not> c \<longrightarrow> holds P n))"
  by simp

lemma holds_slice [wp]: "holds P (slice xs i j) = (i \<le> j \<and> j \<le> length xs \<and> P (take (j - i) (drop i xs)))"
  by (auto simp: slice_def)

lemma holds_optionI:
  "(x = None \<Longrightarrow> holds P m) \<Longrightarrow> (\<And>a. x = Some a \<Longrightarrow> holds P (f a)) \<Longrightarrow> holds P (case x of None \<Rightarrow> m | Some a \<Rightarrow> f a)"
  by (cases x) auto

lemma holds_ifI: "(c \<Longrightarrow> holds P m) \<Longrightarrow> (\<not> c \<Longrightarrow> holds P n) \<Longrightarrow> holds P (if c then m else n)"
  by simp

lemma holds_mono: "holds P m \<Longrightarrow> (\<And>a. m = Ok a \<Longrightarrow> P a \<Longrightarrow> Q a) \<Longrightarrow> holds Q m"
  by (cases m) auto

lemma holds_OkD: "holds P m \<Longrightarrow> m = Ok a \<Longrightarrow> P a"
  by simp

lemma holds_of_not_panics: "\<not> panics m \<Longrightarrow> (\<And>a. m = Ok a \<Longrightarrow> P a) \<Longrightarrow> holds P m"
  by (cases m) (auto simp: panics_def)

lemma holds_not_panics: "holds P m \<Longrightarrow> \<not> panics m"
  by (auto simp: panics_def)

lemma holds_True_iff: "holds (\<lambda>_. True) m = (\<not> panics m)"
  by (cases m) (auto simp: panics_def)

lemma holds_conj: "holds P m \<Longrightarrow> holds Q m \<Longrightarrow> holds (\<lambda>a. P a \<and> Q a) m"
  by (cases m) auto

lemma panics_simps [simp]: "panics (Panic p)" "\<not> panics (Ok a)" "\<not> panics (Err e)"
  by (auto simp: panics_def)

lemma panics_code [code]: "panics m = (case m of Panic _ \<Rightarrow> True | _ \<Rightarrow> False)"
  by (cases m) auto

lemma bindO_Ok_iff: "bindO m f = Ok b \<longleftrightarrow> (\<exists>a. m = Ok a \<and> f a = Ok b)"
  by (cases m) auto

lemma mapErr_Ok_iff [simp]: "mapErr g m = Ok a \<longleftrightarrow> m = Ok a"
  by (cases m) auto

lemma require_Ok_iff [simp]: "require c e = Ok u \<longleftrightarrow> c"
  by (simp add: require_def)

lemma require_simps [simp]: "require True e = Ok ()" "require False e = Err e"
  by (simp_all add: require_def)

lemma index_Ok_iff: "index xs i = Ok x \<longleftrightarrow> i < length xs \<and> x = xs ! i"
  by (auto simp: index_def)

lemma slice_from_Ok_iff: "slice_from xs i = Ok ys \<longleftrightarrow> i \<le> length xs \<and> ys = drop i xs"
  by (auto simp: slice_from_def)

lemmas outcome_Ok_iffs = bindO_Ok_iff index_Ok_iff slice_from_Ok_iff

lemma holds_foldO:
  assumes "I s" and "\<And>x s. x \<in> set xs \<Longrightarrow> I s \<Longrightarrow> holds I (f x s)"
  shows "holds I (foldO f xs s)"
  using assms
proof (induction xs arbitrary: s)
  case Nil
  then show ?case by simp
next
  case (Cons x xs)
  have "holds I (f x s)" using Cons.prems by simp
  then show ?case
    unfolding foldO.simps holds_bindO
    by (rule holds_mono) (use Cons in auto)
qed

text \<open>\<open>holds_or p P m\<close>: as \<open>holds\<close>, but the panic \<open>p\<close> is allowed.\<close>

definition holds_or :: "string \<Rightarrow> ('a \<Rightarrow> bool) \<Rightarrow> 'a outcome \<Rightarrow> bool" where
  "holds_or p P m \<longleftrightarrow> m = Panic p \<or> holds P m"

lemma holds_or_simps [wp, simp]:
  "holds_or p P (Ok a) = P a" "holds_or p P (Err e)" "holds_or p P (Panic q) \<longleftrightarrow> p = q"
  by (auto simp: holds_or_def)

lemma holds_or_bindO [wp]: "holds_or p P (bindO m f) = holds_or p (\<lambda>a. holds_or p P (f a)) m"
  by (cases m) auto

lemma holds_or_mapErr [wp]: "holds_or p P (mapErr g m) = holds_or p P m"
  by (cases m) auto

lemma holds_or_require [wp]: "holds_or p P (require c e) = (c \<longrightarrow> P ())"
  by (simp add: require_def)

lemma holds_or_if [wp]:
  "holds_or p P (if c then m else n) = ((c \<longrightarrow> holds_or p P m) \<and> (\<not> c \<longrightarrow> holds_or p P n))"
  by simp

lemma holds_imp_holds_or: "holds P m \<Longrightarrow> holds_or p P m"
  by (simp add: holds_or_def)

lemma holds_or_mono: "holds_or p P m \<Longrightarrow> (\<And>a. m = Ok a \<Longrightarrow> P a \<Longrightarrow> Q a) \<Longrightarrow> holds_or p Q m"
  by (cases m) auto

lemma holds_or_OkD: "holds_or p P m \<Longrightarrow> m = Ok a \<Longrightarrow> P a"
  by simp

section \<open>Lists and words\<close>

lemma length_copy_at [simp]: "i \<le> length dst \<Longrightarrow> length (copy_at dst i src) = length dst"
  by (simp add: copy_at_def Let_def)

lemma copy_at_fits:
  "i + length src \<le> length dst \<Longrightarrow> copy_at dst i src = take i dst @ src @ drop (i + length src) dst"
  by (simp add: copy_at_def Let_def min_absorb2)

lemma nth_copy_at:
  assumes "i + length src \<le> length dst" and "k < length dst"
  shows "copy_at dst i src ! k =
           (if i \<le> k \<and> k < i + length src then src ! (k - i) else dst ! k)"
  using assms by (auto simp: copy_at_fits nth_append min_def)

lemma byte_less_256 [simp]: "unat (b :: byte) < 256"
  using unsigned_less [of b] by simp

lemma or_push_bit_disjoint:
  fixes ret x :: "'a::len word"
  assumes "unat ret < 2 ^ s"
  shows "ret OR push_bit s x = ret + push_bit s x"
proof -
  have "\<not> bit ret n \<or> \<not> bit (push_bit s x) n" for n
  proof (cases "n < s")
    case True then show ?thesis by (simp add: bit_simps)
  next
    case False
    then have "unat ret < 2 ^ n" using assms by (meson leI one_le_numeral order_less_le_trans power_increasing)
    then have "\<not> bit (unat ret) n" by (simp add: bit_nat_def)
    then show ?thesis by (simp add: bit_unsigned_iff)
  qed
  then show ?thesis by (simp add: disjunctive_add)
qed

lemma unat_or_push_bit:
  fixes ret x :: "'a::len word"
  assumes "unat ret < 2 ^ s" and "unat ret + 2 ^ s * unat x < 2 ^ LENGTH('a)"
  shows "unat (ret OR push_bit s x) = unat ret + 2 ^ s * unat x"
proof -
  have "push_bit s x = of_nat (2 ^ s * unat x)"
    by (simp add: push_bit_eq_mult mult.commute)
  then have "ret OR push_bit s x = of_nat (unat ret + 2 ^ s * unat x)"
    unfolding or_push_bit_disjoint [OF assms(1)] by simp
  then show ?thesis using assms(2) by (metis mod_less unat_of_nat)
qed

lemma unat_ucast_up:
  assumes "LENGTH('a) \<le> LENGTH('b)"
  shows "unat (ucast (w :: 'a::len word) :: 'b::len word) = unat w"
proof -
  have "unat w < 2 ^ LENGTH('a)" by (rule unsigned_less)
  also have "\<dots> \<le> 2 ^ LENGTH('b)" using assms by (simp add: power_increasing)
  finally show ?thesis by (simp add: unsigned_ucast_eq take_bit_nat_eq_self)
qed

lemma bit_int_mod: "bit (x :: int) n \<longleftrightarrow> 2 ^ n \<le> x mod 2 ^ Suc n"
proof -
  have *: "x mod 2 ^ Suc n = 2 ^ n * of_bool (bit x n) + x mod 2 ^ n"
    using take_bit_Suc_from_most [of n x] by (simp only: take_bit_eq_mod)
  have "0 \<le> x mod 2 ^ n" "x mod 2 ^ n < 2 ^ n" by simp_all
  then show ?thesis unfolding * by (cases "bit x n") (simp_all add: not_le del: pos_mod_bound)
qed

lemma byte_range:
  assumes "list_all (\<lambda>n. P (word_of_nat n)) [l..<h]" and "l \<le> unat b" and "unat b < h"
  shows "P (b :: byte)"
  using assms by (auto simp: list_all_iff dest!: bspec [of _ _ "unat b"])

lemma less_of_natD [simp]: "(w :: 'a::len word) < of_nat n \<Longrightarrow> unat w < n"
  by (simp add: word_less_nat_alt unsigned_of_nat) (meson less_le_trans take_bit_nat_less_eq_self)

lemma uint_byte: "0 \<le> uint (b :: byte)" "uint (b :: byte) < 256"
  using uint_bounded [of b] by simp_all

section \<open>Little-endian integers\<close>

text \<open>\<^verbatim>\<open>encoding/binary\<close>.\<close>

definition le_get :: "byte list \<Rightarrow> 'a::len word" where
  "le_get bs = foldr (\<lambda>b acc. ucast b OR push_bit 8 acc) bs 0"

definition le_put :: "nat \<Rightarrow> 'a::len word \<Rightarrow> byte list" where
  "le_put n v = map (\<lambda>i. ucast (drop_bit (8 * i) v)) [0..<n]"

lemma bit_le_get:
  "bit (le_get bs :: 'a::len word) k \<longleftrightarrow> k < LENGTH('a) \<and> k div 8 < length bs \<and> bit (bs ! (k div 8)) (k mod 8)"
proof (induction bs arbitrary: k)
  case Nil
  then show ?case by (simp add: le_get_def)
next
  case (Cons b bs)
  have e: "le_get (b # bs) = (ucast b OR push_bit 8 (le_get bs) :: 'a word)" by (simp add: le_get_def)
  show ?case
  proof (cases "k < 8")
    case True
    then show ?thesis unfolding e by (auto simp: bit_simps)
  next
    case False
    then have "k div 8 = Suc ((k - 8) div 8)" "k mod 8 = (k - 8) mod 8"
      by (simp_all add: le_div_geq le_mod_geq)
    moreover have "\<not> bit b k" using bit_imp_le_length [of b k] False by auto
    ultimately show ?thesis using False unfolding e by (auto simp: bit_simps Cons.IH)
  qed
qed

lemma le_get_put: "8 * n = LENGTH('a) \<Longrightarrow> le_get (le_put n v) = (v :: 'a::len word)"
  by (rule bit_word_eqI) (auto simp: bit_le_get le_put_def bit_simps)

lemma length_le_put [simp]: "length (le_put n v) = n"
  by (simp add: le_put_def)

end
