(* ===== verification/DescriptorTable.thy ===== *)
theory DescriptorTable
  imports Prelude
begin

text \<open>
  \<^verbatim>\<open>internal/descriptor/table.go\<close>: the table of file descriptors, a list of 64-bit occupancy masks
  over a list of items, and the partial map from keys to items that it implements.
\<close>

section \<open>The table\<close>

text \<open>
  \<open>OnesCount64\<close> and \<open>TrailingZeros64\<close> are \<^verbatim>\<open>math/bits\<close>. A key is an \<^verbatim>\<open>int32\<close>; Go evaluates
  \<open>t.items[key]\<close> by panicking on a negative key. The zero value of the item type is the
  argument \<open>zero\<close>. Neither slice ever shrinks, so the elements \<^verbatim>\<open>slices.Grow\<close> uncovers are zero.
\<close>

type_synonym key = i32

record 'item table =
  masks :: "u64 list"
  items :: "'item list"

definition OnesCount64 :: "u64 \<Rightarrow> nat" where
  "OnesCount64 m = length (filter (bit m) [0..<64])"

definition TrailingZeros64 :: "u64 \<Rightarrow> nat" where
  "TrailingZeros64 m = length (takeWhile (\<lambda>i. \<not> bit m i) [0..<64])"

definition at_key :: "'a list \<Rightarrow> key \<Rightarrow> 'a outcome" where
  "at_key xs k = (if sint k < 0 then Panic ''index out of range'' else index xs (unat k))"

definition store_key :: "'a list \<Rightarrow> key \<Rightarrow> 'a \<Rightarrow> 'a list outcome" where
  "store_key xs k v = (if sint k < 0 then Panic ''index out of range'' else store_at xs (unat k) v)"

definition Table_Len :: "'item table \<Rightarrow> nat" where
  "Table_Len t = foldl (\<lambda>n m. n + OnesCount64 m) 0 (masks t)"

definition Table_grow :: "'item \<Rightarrow> nat \<Rightarrow> 'item table \<Rightarrow> 'item table" where
  "Table_grow zero n t =
     t\<lparr>masks := masks t @ replicate n 0, items := items t @ replicate (n * 64) zero\<rparr>"

fun Insert_scan :: "u64 list \<Rightarrow> nat \<Rightarrow> (nat \<times> u64) option" where
  "Insert_scan [] idx = None"
| "Insert_scan (m # ms) idx =
     (if NOT m \<noteq> 0 then Some (idx, m) else Insert_scan ms (idx + 1))"

definition Insert_slot :: "'item \<Rightarrow> 'item table \<Rightarrow> nat \<Rightarrow> u64 \<Rightarrow> ((key \<times> bool) \<times> 'item table) outcome" where
  "Insert_slot item t idx m =
     (let shift = TrailingZeros64 (NOT m);
          key = of_nat idx * 64 + of_nat shift
      in bindO (store_key (items t) key item) (\<lambda>items'.
         bindO (store_at (masks t) idx (m OR push_bit shift 1)) (\<lambda>masks'.
         Ok ((key, 0 \<le>s key), t\<lparr>masks := masks', items := items'\<rparr>))))"

function Insert_from :: "'item \<Rightarrow> 'item \<Rightarrow> 'item table \<Rightarrow> nat \<Rightarrow> ((key \<times> bool) \<times> 'item table) outcome" where
  "Insert_from zero item t offset =
     (case Insert_scan (drop offset (masks t)) offset of
        Some (idx, m) \<Rightarrow> Insert_slot item t idx m
      | None \<Rightarrow> Insert_from zero item (Table_grow zero 1 t) (length (masks t)))"
  by pat_completeness auto

termination
  by (relation "measure (\<lambda>(_, _, t, offset). if Insert_scan (drop offset (masks t)) offset = None then 1 else 0)")
    (auto simp: Table_grow_def)

declare Insert_from.simps [simp del]

definition Table_Insert :: "'item \<Rightarrow> 'item \<Rightarrow> 'item table \<Rightarrow> ((key \<times> bool) \<times> 'item table) outcome" where
  "Table_Insert zero item t = Insert_from zero item t 0"

definition Table_Lookup :: "'item table \<Rightarrow> key \<Rightarrow> 'item option outcome" where
  "Table_Lookup t key =
     (if sint key < 0 then Ok None
      else if unat key < length (items t) then
        bindO (index (masks t) (unat key div 64)) (\<lambda>m.
          if m AND push_bit (unat key mod 64) 1 \<noteq> 0
          then bindO (index (items t) (unat key)) (\<lambda>item. Ok (Some item))
          else Ok None)
      else Ok None)"

definition Table_InsertAt :: "'item \<Rightarrow> 'item \<Rightarrow> key \<Rightarrow> 'item table \<Rightarrow> (bool \<times> 'item table) outcome" where
  "Table_InsertAt zero item key t =
     (if sint key < 0 then Ok (False, t)
      else
        let i = unat key div 64;
            diff = int i - int (length (masks t)) + 1;
            t = (if 0 < diff then Table_grow zero (nat diff) t else t);
            shift = unat key mod 64
        in bindO (index (masks t) i) (\<lambda>m.
           bindO (store_at (masks t) i (m OR push_bit shift 1)) (\<lambda>masks'.
           bindO (store_key (items t) key item) (\<lambda>items'.
           Ok (True, t\<lparr>masks := masks', items := items'\<rparr>)))))"

definition Table_Delete :: "'item \<Rightarrow> key \<Rightarrow> 'item table \<Rightarrow> 'item table outcome" where
  "Table_Delete zero key t =
     (if sint key < 0 then Ok t
      else if unat key div 64 < length (masks t) then
        let shift = unat key mod 64
        in bindO (index (masks t) (unat key div 64)) (\<lambda>m.
             if m AND push_bit shift 1 \<noteq> 0 then
               bindO (store_key (items t) key zero) (\<lambda>items'.
               bindO (store_at (masks t) (unat key div 64) (m AND NOT (push_bit shift 1))) (\<lambda>masks'.
               Ok (t\<lparr>masks := masks', items := items'\<rparr>)))
             else Ok t)
      else Ok t)"

text \<open>
  \<^verbatim>\<open>Range\<close>: the callback \<open>f\<close> threads a state \<open>'s\<close> of its own; the flag of the result says
  whether the iteration goes on.
\<close>

fun Range_mask :: "(key \<Rightarrow> 'item \<Rightarrow> 's \<Rightarrow> bool \<times> 's) \<Rightarrow> 'item table \<Rightarrow> nat \<Rightarrow> u64 \<Rightarrow> nat list \<Rightarrow> 's \<Rightarrow>
    (bool \<times> 's) outcome" where
  "Range_mask f t i m [] s = Ok (True, s)"
| "Range_mask f t i m (j # js) s =
     (if m AND push_bit j 1 = 0 then Range_mask f t i m js s
      else
        let key = of_nat i * 64 + of_nat j
        in bindO (at_key (items t) key) (\<lambda>item.
           case f key item s of
             (False, s') \<Rightarrow> Ok (False, s')
           | (True, s') \<Rightarrow> Range_mask f t i m js s'))"

fun Range_masks :: "(key \<Rightarrow> 'item \<Rightarrow> 's \<Rightarrow> bool \<times> 's) \<Rightarrow> 'item table \<Rightarrow> nat \<Rightarrow> u64 list \<Rightarrow> 's \<Rightarrow>
    (bool \<times> 's) outcome" where
  "Range_masks f t i [] s = Ok (True, s)"
| "Range_masks f t i (m # ms) s =
     (if m = 0 then Range_masks f t (i + 1) ms s
      else bindO (Range_mask f t i m [0..<64] s) (\<lambda>(go, s').
             if go then Range_masks f t (i + 1) ms s' else Ok (False, s')))"

definition Table_Range :: "(key \<Rightarrow> 'item \<Rightarrow> 's \<Rightarrow> bool \<times> 's) \<Rightarrow> 'item table \<Rightarrow> 's \<Rightarrow> 's outcome" where
  "Table_Range f t s = bindO (Range_masks f t 0 (masks t) s) (\<lambda>(go, s'). Ok s')"

definition Table_Reset :: "'item \<Rightarrow> 'item table \<Rightarrow> 'item table" where
  "Table_Reset zero t =
     t\<lparr>masks := replicate (length (masks t)) 0, items := replicate (length (items t)) zero\<rparr>"

section \<open>The map it implements\<close>

definition wf_table :: "'item table \<Rightarrow> bool" where
  "wf_table t \<longleftrightarrow> length (items t) = 64 * length (masks t) \<and> length (items t) \<le> 2 ^ 31"

definition occupied :: "'item table \<Rightarrow> nat \<Rightarrow> bool" where
  "occupied t k \<longleftrightarrow> k div 64 < length (masks t) \<and> bit (masks t ! (k div 64)) (k mod 64)"

definition abs_table :: "'item table \<Rightarrow> nat \<rightharpoonup> 'item" where
  "abs_table t k = (if occupied t k then Some (items t ! k) else None)"

lemma mask_test: "(m :: u64) AND 2 ^ j = 0 \<longleftrightarrow> \<not> bit m j"
  by (rule and_exp_eq_0_iff_not_bit)

lemma occupied_less: "wf_table t \<Longrightarrow> occupied t k \<Longrightarrow> k < length (items t)"
  by (auto simp: wf_table_def occupied_def)

lemma wf_table_div: "wf_table t \<Longrightarrow> k div 64 < length (masks t) \<longleftrightarrow> k < length (items t)"
  by (auto simp: wf_table_def)

lemma unat_key: "k < 2 ^ 31 \<Longrightarrow> unat (of_nat k :: key) = k" "k < 2 ^ 31 \<Longrightarrow> sint (of_nat k :: key) = int k"
  by (simp_all add: unsigned_of_nat take_bit_nat_eq_self signed_of_nat signed_take_bit_int_eq_self)

lemma nonneg_unat: "0 \<le> sint (key :: key) \<Longrightarrow> sint key = int (unat key) \<and> unat key < 2 ^ 31"
proof -
  assume "0 \<le> sint key"
  moreover have "sint key < 2 ^ 31" using sint_range_size [of key] by (simp add: word_size)
  ultimately have "uint key = sint key \<and> sint key < 2 ^ 31"
    unfolding uint_sint by (simp add: take_bit_int_eq_self)
  with \<open>0 \<le> sint key\<close> show ?thesis by (simp add: nat_less_iff unat_eq_nat_uint)
qed

lemma key_overflow: "sint (of_nat (2 ^ 31) :: key) < 0"
  by simp

lemma Table_Lookup_abs:
  assumes "wf_table t"
  shows "Table_Lookup t key = Ok (if sint key < 0 then None else abs_table t (unat key))"
  using wf_table_div [OF assms, of "unat key"]
  by (auto simp: Table_Lookup_def abs_table_def occupied_def mask_test index_def)

lemma abs_table_set:
  assumes "wf_table t" "k < length (items t)"
  shows "abs_table (t\<lparr>masks := (masks t)[k div 64 := masks t ! (k div 64) OR 2 ^ (k mod 64)],
                      items := (items t)[k := v]\<rparr>) = (abs_table t)(k \<mapsto> v)"
proof
  fix x
  have k: "k div 64 < length (masks t)" using assms wf_table_div by blast
  have ne: "x div 64 = k div 64 \<and> x mod 64 = k mod 64 \<longleftrightarrow> x = k"
    by (metis div_mult_mod_eq)
  show "abs_table (t\<lparr>masks := (masks t)[k div 64 := masks t ! (k div 64) OR 2 ^ (k mod 64)],
                      items := (items t)[k := v]\<rparr>) x = ((abs_table t)(k \<mapsto> v)) x"
    using k assms(2) ne by (cases "x = k") (auto simp: abs_table_def occupied_def nth_list_update bit_simps)
qed

lemma abs_table_clear:
  assumes "wf_table t" "k < length (items t)"
  shows "abs_table (t\<lparr>masks := (masks t)[k div 64 := masks t ! (k div 64) AND NOT (2 ^ (k mod 64))],
                      items := (items t)[k := v]\<rparr>) = (abs_table t)(k := None)"
proof
  fix x
  have k: "k div 64 < length (masks t)" using assms wf_table_div by blast
  have ne: "x div 64 = k div 64 \<and> x mod 64 = k mod 64 \<longleftrightarrow> x = k"
    by (metis div_mult_mod_eq)
  show "abs_table (t\<lparr>masks := (masks t)[k div 64 := masks t ! (k div 64) AND NOT (2 ^ (k mod 64))],
                      items := (items t)[k := v]\<rparr>) x = ((abs_table t)(k := None)) x"
    using k assms(2) ne by (cases "x = k") (auto simp: abs_table_def occupied_def nth_list_update bit_simps)
qed

lemma wf_table_grow:
  "wf_table t \<Longrightarrow> length (items t) + n * 64 \<le> 2 ^ 31 \<Longrightarrow> wf_table (Table_grow zero n t)"
  by (simp add: wf_table_def Table_grow_def)

lemma abs_table_grow: "wf_table t \<Longrightarrow> abs_table (Table_grow zero n t) = abs_table t"
  by (rule ext) (auto simp: abs_table_def occupied_def Table_grow_def nth_append wf_table_def)

lemma length_grow [simp]:
  "length (masks (Table_grow zero n t)) = length (masks t) + n"
  "length (items (Table_grow zero n t)) = length (items t) + n * 64"
  by (simp_all add: Table_grow_def)

lemma wf_table_update: "wf_table (t\<lparr>masks := (masks t)[i := m], items := (items t)[k := v]\<rparr>) = wf_table t"
  by (simp add: wf_table_def)

section \<open>Insertion takes the least free key\<close>

definition least_free :: "'item table \<Rightarrow> nat \<Rightarrow> bool" where
  "least_free t k \<longleftrightarrow> \<not> occupied t k \<and> (\<forall>k' < k. occupied t k')"

lemma TrailingZeros64:
  assumes "m \<noteq> 0"
  shows "TrailingZeros64 m < 64" "bit m (TrailingZeros64 m)" "j < TrailingZeros64 m \<Longrightarrow> \<not> bit m j"
proof -
  let ?P = "\<lambda>i. \<not> bit m i"
  obtain i where i: "bit m i" using assms by (metis bit_eq_iff bit_0_eq bot_apply bot_bool_def)
  then have "i < 64" using bit_imp_le_length [of m i] by simp
  then have "\<exists>i \<in> set [0..<64]. \<not> ?P i" using i by (auto intro!: bexI [of _ i])
  then have l: "length (takeWhile ?P [0..<64]) < length [0..<64]"
  proof -
    obtain ys x zs where "[0..<64] = ys @ x # zs" "\<not> ?P x" "\<forall>y \<in> set ys. ?P y"
      using split_list_first_prop [OF \<open>\<exists>i \<in> set [0..<64]. \<not> ?P i\<close>] by blast
    then show ?thesis by (simp del: upt.simps)
  qed
  then show "TrailingZeros64 m < 64" by (simp add: TrailingZeros64_def)
  show "bit m (TrailingZeros64 m)"
    using nth_length_takeWhile [OF l] l by (simp add: TrailingZeros64_def)
  show "\<not> bit m j" if "j < TrailingZeros64 m"
  proof -
    have j: "j < length (takeWhile ?P [0..<64])" using that by (simp add: TrailingZeros64_def)
    then have "takeWhile ?P [0..<64] ! j = j" using l by (simp add: takeWhile_nth)
    then show ?thesis using nth_mem [OF j] set_takeWhileD [of j ?P "[0..<64]"] by simp
  qed
qed

lemma Insert_scan_Some:
  "Insert_scan ms i = Some (j, m) \<Longrightarrow>
     \<exists>n. j = i + n \<and> n < length ms \<and> ms ! n = m \<and> NOT m \<noteq> 0 \<and> (\<forall>n' < n. NOT (ms ! n') = 0)"
proof (induction ms arbitrary: i)
  case (Cons a ms)
  show ?case
  proof (cases "NOT a = 0")
    case True
    then have "Insert_scan ms (i + 1) = Some (j, m)" using Cons.prems by simp
    from Cons.IH [OF this] obtain n where "j = i + 1 + n" "n < length ms" "ms ! n = m" "NOT m \<noteq> 0"
      "\<forall>n' < n. NOT (ms ! n') = 0" by blast
    with True show ?thesis by (intro exI [of _ "Suc n"]) (simp add: All_less_Suc2)
  next
    case False
    with Cons.prems show ?thesis by (intro exI [of _ 0]) simp
  qed
qed simp

lemma Insert_scan_None: "Insert_scan ms i = None \<Longrightarrow> m \<in> set ms \<Longrightarrow> NOT m = 0"
  by (induction ms arbitrary: i) (auto split: if_splits)

lemma full_mask: "NOT (m :: u64) = 0 \<Longrightarrow> j < 64 \<Longrightarrow> bit m j"
  using bit_not_iff [of m j] by simp

lemma least_free_slot:
  assumes "Insert_scan (masks t) 0 = Some (j, m)"
  shows "j < length (masks t)" "masks t ! j = m" "TrailingZeros64 (NOT m) < 64"
    "least_free t (j * 64 + TrailingZeros64 (NOT m))"
proof -
  from Insert_scan_Some [OF assms]
  have j: "j < length (masks t)" "masks t ! j = m" "NOT m \<noteq> 0" "\<forall>n < j. NOT (masks t ! n) = 0" by auto
  note z = TrailingZeros64 [OF j(3)]
  show "j < length (masks t)" "masks t ! j = m" "TrailingZeros64 (NOT m) < 64" using j z by auto
  let ?k = "j * 64 + TrailingZeros64 (NOT m)"
  have k: "?k div 64 = j" "?k mod 64 = TrailingZeros64 (NOT m)" using z(1) by auto
  have "occupied t k'" if "k' < ?k" for k'
  proof (cases "k' div 64 = j")
    case True
    then have "k' mod 64 < TrailingZeros64 (NOT m)" using that by (metis add_less_cancel_left div_mult_mod_eq)
    then have "bit m (k' mod 64)" using z(3) [of "k' mod 64"] by (simp add: bit_not_iff)
    then show ?thesis using True j by (simp add: occupied_def)
  next
    case False
    then have "k' div 64 < j" using that z(1) by (metis div_le_mono k(1) le_neq_implies_less less_imp_le)
    then show ?thesis using j full_mask [of "masks t ! (k' div 64)"] by (simp add: occupied_def)
  qed
  moreover have "\<not> occupied t ?k" using z(2) j unfolding occupied_def k by (simp add: bit_not_iff)
  ultimately show "least_free t ?k" by (simp add: least_free_def)
qed

lemma least_free_full:
  assumes "wf_table t" "Insert_scan (masks t) 0 = None"
  shows "least_free t (length (items t))"
proof -
  have "occupied t k" if "k < length (items t)" for k
    using that wf_table_div [OF assms(1), of k] Insert_scan_None [OF assms(2)] full_mask
    by (simp add: occupied_def)
  moreover have "\<not> occupied t (length (items t))" using assms(1) by (simp add: occupied_def wf_table_def)
  ultimately show ?thesis by (simp add: least_free_def)
qed

lemma Insert_slot_Ok:
  assumes "wf_table t" "j < length (masks t)" "sh < 64" "TrailingZeros64 (NOT (masks t ! j)) = sh"
  shows "\<exists>t'. Insert_slot item t j (masks t ! j) = Ok ((of_nat (j * 64 + sh), True), t') \<and>
           wf_table t' \<and> abs_table t' = (abs_table t)(j * 64 + sh \<mapsto> item)"
proof -
  let ?k = "j * 64 + sh"
  let ?t = "t\<lparr>masks := (masks t)[j := masks t ! j OR 2 ^ sh], items := (items t)[?k := item]\<rparr>"
  have k: "?k div 64 = j" "?k mod 64 = sh" using assms(3) by auto
  then have kl: "?k < length (items t)" using assms(2) wf_table_div [OF assms(1), of ?k] by simp
  then have "?k < 2 ^ 31" using assms(1) by (simp add: wf_table_def)
  note u = unat_key [OF this]
  have e: "(of_nat j * 64 + of_nat sh :: key) = of_nat ?k" by simp
  have "Insert_slot item t j (masks t ! j) = Ok ((of_nat ?k, True), ?t)"
    unfolding Insert_slot_def Let_def assms(4) e store_key_def store_at_def u
    using assms(2) kl by (simp add: word_sle_eq u del: of_nat_add of_nat_mult)
  moreover have "wf_table ?t" using assms(1) by (simp add: wf_table_update)
  moreover have "abs_table ?t = (abs_table t)(?k \<mapsto> item)"
    using abs_table_set [OF assms(1) kl, of item] unfolding k .
  ultimately show ?thesis by blast
qed

lemma Insert_grown:
  "Insert_scan (masks t) 0 = None \<Longrightarrow>
   Table_Insert zero item t = Insert_slot item (Table_grow zero 1 t) (length (masks t)) 0"
  unfolding Table_Insert_def by (subst Insert_from.simps, simp, subst Insert_from.simps, simp add: Table_grow_def)

lemma TrailingZeros64_all [simp]: "TrailingZeros64 (- 1) = 0"
  using TrailingZeros64(3) [of "- 1" 0] by fastforce

lemma least_free_unique: "least_free t k \<Longrightarrow> least_free t k' \<Longrightarrow> k = k'"
  by (metis least_free_def linorder_neqE_nat)

lemma Table_Insert_Ok:
  assumes wf: "wf_table t" and free: "least_free t k" and k: "k < 2 ^ 31"
  shows "\<exists>t'. Table_Insert zero item t = Ok ((of_nat k, True), t') \<and>
           wf_table t' \<and> abs_table t' = (abs_table t)(k \<mapsto> item)"
proof (cases "Insert_scan (masks t) 0")
  case (Some jm)
  obtain j m where jm: "jm = (j, m)" by fastforce
  note s = least_free_slot [OF Some [unfolded jm]]
  have "k = j * 64 + TrailingZeros64 (NOT m)" using least_free_unique [OF free s(4)] .
  moreover have "Table_Insert zero item t = Insert_slot item t j m"
    unfolding Table_Insert_def by (subst Insert_from.simps) (simp add: Some jm)
  ultimately show ?thesis using Insert_slot_Ok [OF wf s(1), of _ item] s by auto
next
  case None
  let ?t = "Table_grow zero 1 t" and ?n = "length (masks t)"
  have kn: "k = length (items t)" using least_free_unique [OF free least_free_full [OF wf None]] .
  then have k64: "k = 64 * ?n" using wf by (simp add: wf_table_def)
  then have "64 * ?n < 64 * 2 ^ 25" using k by simp
  then have "wf_table ?t" using wf kn k64 by (intro wf_table_grow) auto
  moreover have "masks ?t ! ?n = 0" by (simp add: Table_grow_def)
  ultimately show ?thesis
    using Insert_slot_Ok [of ?t ?n 0 item] k64
    by (simp add: Insert_grown [OF None] abs_table_grow [OF wf] mult.commute)
qed

lemma Table_Insert_full:
  assumes "wf_table t" and "least_free t k" and "\<not> k < 2 ^ 31"
  shows "panics (Table_Insert zero item t)"
proof -
  have scan: "Insert_scan (masks t) 0 = None"
  proof (rule ccontr)
    assume "Insert_scan (masks t) 0 \<noteq> None"
    then obtain j m where "Insert_scan (masks t) 0 = Some (j, m)" by fastforce
    note s = least_free_slot [OF this]
    have "k < length (items t)" unfolding least_free_unique [OF assms(2) s(4)]
      using s(1,3) wf_table_div [OF assms(1), symmetric] by simp
    then show False using assms(1,3) by (simp add: wf_table_def)
  qed
  have "k = length (items t)"
    using least_free_unique [OF assms(2) least_free_full [OF assms(1) scan]] .
  then have "length (masks t) * 64 = 2 ^ 31" using assms(1,3) by (simp add: wf_table_def)
  then have "(of_nat (length (masks t)) * 64 :: key) = of_nat (2 ^ 31)"
    by (metis of_nat_mult of_nat_numeral)
  then show ?thesis
    unfolding Insert_grown [OF scan] Insert_slot_def Let_def bit.compl_zero TrailingZeros64_all store_key_def
    using key_overflow by (simp add: panics_def)
qed

lemma Table_InsertAt_abs:
  assumes "wf_table t"
  shows "\<exists>t'. Table_InsertAt zero item key t = Ok (0 \<le> sint key, t') \<and> wf_table t' \<and>
           abs_table t' = (if 0 \<le> sint key then (abs_table t)(unat key \<mapsto> item) else abs_table t)"
proof (cases "sint key < 0")
  case True
  then show ?thesis using assms by (auto simp: Table_InsertAt_def)
next
  case False
  define k where "k = unat key"
  define diff where "diff = int (k div 64) - int (length (masks t)) + 1"
  define t1 where "t1 = (if 0 < diff then Table_grow zero (nat diff) t else t)"
  have k31: "k < 2 ^ 31" using False nonneg_unat [of key] unfolding k_def by simp
  then have "k div 64 < 2 ^ 25" by simp
  then have wf1: "wf_table t1" using assms wf_table_grow [OF assms]
    unfolding t1_def diff_def by (auto simp: wf_table_def)
  have abs1: "abs_table t1 = abs_table t" using abs_table_grow [OF assms] by (simp add: t1_def)
  have kd: "k div 64 < length (masks t1)" by (auto simp: t1_def diff_def)
  then have kl: "k < length (items t1)" using wf_table_div [OF wf1] by blast
  have "Table_InsertAt zero item key t = Ok (True, t1\<lparr>masks := (masks t1)[k div 64 := masks t1 ! (k div 64) OR 2 ^ (k mod 64)], items := (items t1)[k := item]\<rparr>)"
    using False kd kl unfolding Table_InsertAt_def Let_def k_def [symmetric] diff_def [symmetric] t1_def [symmetric]
    by (simp add: index_def store_at_def store_key_def k_def)
  then show ?thesis
    using False abs_table_set [OF wf1 kl, of item] wf1 by (simp add: abs1 wf_table_update k_def)
qed

lemma Table_Delete_abs:
  assumes "wf_table t"
  shows "\<exists>t'. Table_Delete zero key t = Ok t' \<and> wf_table t' \<and>
           abs_table t' = (if 0 \<le> sint key then (abs_table t)(unat key := None) else abs_table t)"
proof (cases "0 \<le> sint key \<and> occupied t (unat key)")
  case True
  then have kl: "unat key < length (items t)" using occupied_less [OF assms] by blast
  have "Table_Delete zero key t = Ok (t\<lparr>masks := (masks t)[unat key div 64 := masks t ! (unat key div 64) AND NOT (2 ^ (unat key mod 64))], items := (items t)[unat key := zero]\<rparr>)"
    using True kl by (simp add: Table_Delete_def occupied_def index_def store_at_def store_key_def mask_test Let_def)
  then show ?thesis using True abs_table_clear [OF assms kl, of zero] assms by (simp add: wf_table_update)
next
  case False
  then have "Table_Delete zero key t = Ok t"
    by (auto simp: Table_Delete_def occupied_def index_def mask_test Let_def)
  then show ?thesis using False assms by (auto simp: abs_table_def)
qed

section \<open>Iteration and size\<close>

definition keys :: "'item table \<Rightarrow> nat list" where
  "keys t = filter (occupied t) [0..<length (items t)]"

fun visit :: "(key \<Rightarrow> 'item \<Rightarrow> 's \<Rightarrow> bool \<times> 's) \<Rightarrow> (nat \<times> 'item) list \<Rightarrow> 's \<Rightarrow> bool \<times> 's" where
  "visit f [] s = (True, s)"
| "visit f ((k, v) # es) s = (case f (of_nat k) v s of (go, s') \<Rightarrow> if go then visit f es s' else (False, s'))"

lemma visit_append:
  "visit f (xs @ ys) s = (case visit f xs s of (go, s') \<Rightarrow> if go then visit f ys s' else (False, s'))"
  by (induction f xs s rule: visit.induct) (auto split: prod.splits)

lemma upt_blocks: "[64 * i..<64 * (i + n)] = concat (map (\<lambda>i. map ((+) (64 * i)) [0..<64]) [i..<i + n])"
proof (induction n)
  case (Suc n)
  have "[64 * i..<64 * (i + Suc n)] = [64 * i..<64 * (i + n)] @ [64 * (i + n)..<64 * (i + n) + 64]"
    using upt_add_eq_append [of "64 * i" "64 * (i + n)" 64] by (simp add: algebra_simps)
  also have "[64 * (i + n)..<64 * (i + n) + 64] = map ((+) (64 * (i + n))) [0..<64]"
    using map_add_upt [of "64 * (i + n)" 64] by (simp only: add.commute [of _ "64 * (i + n)"])
  finally show ?case using Suc by simp
qed simp

lemma filter_block:
  assumes "i < length (masks t)"
  shows "filter (occupied t) (map ((+) (64 * i)) [0..<64]) = map ((+) (64 * i)) (filter (bit (masks t ! i)) [0..<64])"
proof -
  have "filter (occupied t \<circ> (+) (64 * i)) [0..<64] = filter (bit (masks t ! i)) [0..<64]"
    using assms by (intro filter_cong) (auto simp: occupied_def)
  then show ?thesis by (simp only: filter_map)
qed

lemma keys_blocks:
  assumes "wf_table t"
  shows "keys t = concat (map (\<lambda>i. map ((+) (64 * i)) (filter (bit (masks t ! i)) [0..<64])) [0..<length (masks t)])"
proof -
  have "[0..<length (items t)] = concat (map (\<lambda>i. map ((+) (64 * i)) [0..<64]) [0..<length (masks t)])"
    using upt_blocks [of 0 "length (masks t)"] assms by (simp add: wf_table_def)
  moreover have "map (filter (occupied t) \<circ> (\<lambda>i. map ((+) (64 * i)) [0..<64])) [0..<length (masks t)] =
      map (\<lambda>i. map ((+) (64 * i)) (filter (bit (masks t ! i)) [0..<64])) [0..<length (masks t)]"
    by (rule map_cong [OF refl]) (simp only: comp_apply filter_block set_upt atLeastLessThan_iff)
  ultimately show ?thesis
    unfolding keys_def by (simp only: filter_concat map_map)
qed

lemma Table_Len_keys: "wf_table t \<Longrightarrow> Table_Len t = length (keys t)"
proof -
  assume "wf_table t"
  have f: "foldl (\<lambda>n m. n + OnesCount64 m) a ms = a + (\<Sum>m\<leftarrow>ms. OnesCount64 m)" for a ms
    by (induction ms arbitrary: a) auto
  have "map OnesCount64 (masks t) = map (\<lambda>i. OnesCount64 (masks t ! i)) [0..<length (masks t)]"
    by (rule nth_equalityI) auto
  then have "Table_Len t = (\<Sum>i\<leftarrow>[0..<length (masks t)]. OnesCount64 (masks t ! i))"
    by (simp only: Table_Len_def f add_0)
  with \<open>wf_table t\<close> show ?thesis
    by (simp add: keys_blocks length_concat comp_def OnesCount64_def)
qed

lemma Range_mask_visit:
  assumes "wf_table t" "i < length (masks t)"
  shows "set js \<subseteq> {..<64} \<Longrightarrow> Range_mask f t i m js s =
    Ok (visit f (map (\<lambda>k. (k, items t ! k)) (map ((+) (64 * i)) (filter (bit m) js))) s)"
proof (induction js arbitrary: s)
  case (Cons j js)
  then have j: "j < 64" by simp
  have il: "64 * i + j < length (items t)" using j assms by (simp add: wf_table_def)
  then have "64 * i + j < 2 ^ 31" using assms by (simp add: wf_table_def)
  note u = unat_key [OF this]
  have e: "(of_nat i * 64 + of_nat j :: key) = of_nat (64 * i + j)" by simp
  have a: "at_key (items t) (of_nat (64 * i + j)) = Ok (items t ! (64 * i + j))"
    unfolding at_key_def u using il by (simp add: index_def)
  show ?case
    using Cons by (simp add: mask_test a Let_def e del: of_nat_add of_nat_mult split: prod.split bool.split)
qed simp

lemma Range_masks_visit:
  assumes "wf_table t"
  shows "i + length ms = length (masks t) \<Longrightarrow> ms = drop i (masks t) \<Longrightarrow> Range_masks f t i ms s =
    Ok (visit f (map (\<lambda>k. (k, items t ! k))
       (concat (map (\<lambda>i. map ((+) (64 * i)) (filter (bit (masks t ! i)) [0..<64])) [i..<length (masks t)]))) s)"
proof (induction ms arbitrary: i s)
  case (Cons m ms)
  from Cons.prems(1) have i: "i < length (masks t)" by simp
  have "m # ms = masks t ! i # drop (Suc i) (masks t)" using Cons.prems(2) Cons_nth_drop_Suc [OF i] by simp
  then have m: "m = masks t ! i" "ms = drop (Suc i) (masks t)" by simp_all
  have u: "[i..<length (masks t)] = i # [Suc i..<length (masks t)]" using i by (rule upt_conv_Cons)
  have b: "Range_masks f t i (m # ms) s = bindO (Range_mask f t i m [0..<64] s)
      (\<lambda>(go, s'). if go then Range_masks f t (i + 1) ms s' else Ok (False, s'))"
  proof (cases "m = 0")
    case True
    then have "Range_mask f t i m [0..<64] s = Ok (True, s)"
      using Range_mask_visit [OF assms i, of "[0..<64]" f m s] by fastforce
    with True show ?thesis by simp
  qed simp
  have "Range_mask f t i m [0..<64] s = Ok (visit f (map (\<lambda>k. (k, items t ! k)) (map ((+) (64 * i)) (filter (bit (masks t ! i)) [0..<64]))) s)"
    using Range_mask_visit [OF assms i, of "[0..<64]" f m s] m by fastforce
  then show ?case
    unfolding b u using Cons.IH [of "Suc i"] Cons.prems(1) m(2)
    by (simp add: visit_append split: prod.split)
qed simp

lemma Table_Range_visit:
  assumes "wf_table t"
  shows "Table_Range f t s = Ok (snd (visit f (map (\<lambda>k. (k, items t ! k)) (keys t)) s))"
  using Range_masks_visit [OF assms, of 0 "masks t" f s]
  by (simp add: Table_Range_def keys_blocks [OF assms] split_def)

section \<open>The interface\<close>

text \<open>
  What the file table of a module relies on: a partial map from descriptors to items in which an
  insertion takes the least free descriptor, as POSIX requires of \<^verbatim>\<open>open\<close>.
\<close>

locale descriptor_map =
  fixes inv :: "'t \<Rightarrow> bool" and fmap :: "'t \<Rightarrow> nat \<rightharpoonup> 'item"
    and insert :: "'item \<Rightarrow> 't \<Rightarrow> ((key \<times> bool) \<times> 't) outcome"
    and insert_at :: "'item \<Rightarrow> key \<Rightarrow> 't \<Rightarrow> (bool \<times> 't) outcome"
    and lookup :: "'t \<Rightarrow> key \<Rightarrow> 'item option outcome"
    and delete :: "key \<Rightarrow> 't \<Rightarrow> 't outcome"
  assumes lookup_law: "inv t \<Longrightarrow> lookup t key = Ok (if sint key < 0 then None else fmap t (unat key))"
    and insert_law: "inv t \<Longrightarrow> fmap t k = None \<Longrightarrow> \<forall>k' < k. fmap t k' \<noteq> None \<Longrightarrow> k < 2 ^ 31 \<Longrightarrow>
      \<exists>t'. insert v t = Ok ((of_nat k, True), t') \<and> inv t' \<and> fmap t' = (fmap t)(k \<mapsto> v)"
    and insert_at_law: "inv t \<Longrightarrow> \<exists>t'. insert_at v key t = Ok (0 \<le> sint key, t') \<and> inv t' \<and>
      fmap t' = (if 0 \<le> sint key then (fmap t)(unat key \<mapsto> v) else fmap t)"
    and delete_law: "inv t \<Longrightarrow> \<exists>t'. delete key t = Ok t' \<and> inv t' \<and>
      fmap t' = (if 0 \<le> sint key then (fmap t)(unat key := None) else fmap t)"
begin

text \<open>A closed descriptor whose predecessors are all open is the next one to be handed out.\<close>

lemma delete_insert_reuse:
  assumes "inv t" "k < 2 ^ 31" "\<forall>k' < k. fmap t k' \<noteq> None"
  shows "\<exists>t1 t2. delete (of_nat k) t = Ok t1 \<and> insert v t1 = Ok ((of_nat k, True), t2) \<and> inv t2 \<and>
           fmap t2 = (fmap t)(k \<mapsto> v)"
proof -
  note u = unat_key [OF assms(2)]
  obtain t1 where t1: "delete (of_nat k) t = Ok t1" "inv t1" "fmap t1 = (fmap t)(k := None)"
    using delete_law [OF assms(1), of "of_nat k"] by (auto simp: u)
  then obtain t2 where "insert v t1 = Ok ((of_nat k, True), t2)" "inv t2" "fmap t2 = (fmap t)(k \<mapsto> v)"
    using insert_law [OF t1(2), of k v] assms(2,3) by auto
  with t1 show ?thesis by blast
qed

text \<open>An insertion never disturbs an open descriptor.\<close>

lemma insert_frame:
  assumes "inv t" "fmap t k = None" "\<forall>k' < k. fmap t k' \<noteq> None" "k < 2 ^ 31" "insert v t = Ok ((key, ok), t')"
  shows "ok \<and> key = of_nat k \<and> lookup t' key = Ok (Some v) \<and> lookup t key = Ok None \<and>
    (\<forall>key'. key' \<noteq> key \<longrightarrow> lookup t' key' = lookup t key')"
proof -
  note u = unat_key [OF assms(4)]
  have t': "ok" "key = of_nat k" "inv t'" "fmap t' = (fmap t)(k \<mapsto> v)"
    using insert_law [OF assms(1-4), of v] assms(5) by auto
  have "unat key' \<noteq> k" if "key' \<noteq> key" for key' using that by (auto simp: t'(2))
  then show ?thesis using t' assms(1,2) by (simp add: lookup_law u)
qed

end

lemma least_free_abs: "least_free t k \<longleftrightarrow> abs_table t k = None \<and> (\<forall>k' < k. abs_table t k' \<noteq> None)"
  by (auto simp: least_free_def abs_table_def)

interpretation tbl: descriptor_map wf_table abs_table "Table_Insert zero" "Table_InsertAt zero"
    Table_Lookup "Table_Delete zero" for zero
  by unfold_locales
    (blast intro: Table_Lookup_abs Table_InsertAt_abs Table_Delete_abs Table_Insert_Ok [unfolded least_free_abs])+

lemma Table_Reset_abs: "wf_table t \<Longrightarrow> wf_table (Table_Reset zero t) \<and> abs_table (Table_Reset zero t) = Map.empty"
  by (auto simp: wf_table_def Table_Reset_def abs_table_def occupied_def fun_eq_iff)

lemma keys_dom: "wf_table t \<Longrightarrow> sorted (keys t) \<and> distinct (keys t) \<and> set (keys t) = dom (abs_table t)"
  using occupied_less [of t] by (auto simp: keys_def abs_table_def sorted_wrt_filter split: if_splits)

section \<open>The descriptor table\<close>

text \<open>
  C26 (insertion). In a well-formed table \<^verbatim>\<open>Insert\<close> stores the item under the least free key, leaves
  every other key alone and keeps the table well-formed. When all \<open>2\<^sup>3\<^sup>1\<close> keys are taken the key
  computation overflows to a negative index and the call panics (the documentation promises
  \<open>false\<close>).
\<close>

theorem Table_Insert_least:
  assumes "wf_table t" and "least_free t k"
  shows "if k < 2 ^ 31 then
           \<exists>t'. Table_Insert zero item t = Ok ((of_nat k, True), t') \<and> wf_table t' \<and>
                abs_table t' = (abs_table t)(k \<mapsto> item)
         else panics (Table_Insert zero item t)"
  using Table_Insert_Ok [OF assms] Table_Insert_full [OF assms] by simp

theorem Table_Insert_least_witness:
  "\<exists>t'. Table_Insert 0 (7 :: nat) \<lparr>masks = [1], items = 5 # replicate 63 0\<rparr> = Ok ((1, True), t') \<and>
     wf_table t' \<and> abs_table t' 1 = Some 7"
proof -
  let ?t = "\<lparr>masks = [1], items = 5 # replicate 63 0\<rparr> :: nat table"
  have "wf_table ?t" by (simp add: wf_table_def)
  moreover have "least_free ?t 1" by (simp add: least_free_def occupied_def bit_simps)
  ultimately obtain t' where "Table_Insert 0 7 ?t = Ok ((of_nat 1, True), t')" "wf_table t'"
    "abs_table t' = (abs_table ?t)(1 \<mapsto> 7)" using Table_Insert_least [of ?t 1 0 7] by auto
  then show ?thesis by simp
qed

text \<open>
  C31 (the table is a map). On a well-formed table \<^verbatim>\<open>Lookup\<close> returns what the map from keys to items has at the key, and
  nothing for a negative key; \<^verbatim>\<open>InsertAt\<close> stores the item at the key and \<^verbatim>\<open>Delete\<close> removes it, both leave every
  other key alone and do nothing for a negative key, which \<^verbatim>\<open>InsertAt\<close> reports; \<^verbatim>\<open>Reset\<close> leaves the empty map. None
  of them panics and all keep the table well-formed.
\<close>

theorem Table_refines_map:
  assumes "wf_table t"
  shows "Table_Lookup t k = Ok (if sint k < 0 then None else abs_table t (unat k)) \<and>
    (\<exists>t'. Table_InsertAt zero item k t = Ok (0 \<le> sint k, t') \<and> wf_table t' \<and>
       abs_table t' = (if 0 \<le> sint k then (abs_table t)(unat k \<mapsto> item) else abs_table t)) \<and>
    (\<exists>t'. Table_Delete zero k t = Ok t' \<and> wf_table t' \<and>
       abs_table t' = (if 0 \<le> sint k then (abs_table t)(unat k := None) else abs_table t)) \<and>
    wf_table (Table_Reset zero t) \<and> abs_table (Table_Reset zero t) = Map.empty"
  using Table_Lookup_abs [OF assms] Table_InsertAt_abs [OF assms] Table_Delete_abs [OF assms] Table_Reset_abs [OF assms]
  by blast

theorem Table_refines_map_witness:
  "Table_Lookup \<lparr>masks = [1], items = 5 # replicate 63 0\<rparr> 0 = Ok (Some (5 :: nat)) \<and>
   (\<exists>t'. Table_InsertAt 0 7 70 \<lparr>masks = [1], items = 5 # replicate 63 0\<rparr> = Ok (True, t') \<and> wf_table t' \<and>
      abs_table t' 70 = Some (7 :: nat) \<and> abs_table t' 0 = Some 5)"
proof -
  let ?t = "\<lparr>masks = [1], items = 5 # replicate 63 0\<rparr> :: nat table"
  have wf: "wf_table ?t" by (simp add: wf_table_def)
  have a: "abs_table ?t 0 = Some 5" by (simp add: abs_table_def occupied_def)
  show ?thesis
    using Table_refines_map [OF wf, of 0 0 0] Table_refines_map [OF wf, of 70 0 7] by (auto simp: a)
qed

text \<open>
  A closed descriptor is reused. When every key below \<open>k\<close> is taken, deleting \<open>k\<close> and inserting
  an item returns \<open>k\<close> again, and the table then differs from the original at \<open>k\<close> only.
\<close>

theorem Table_delete_insert:
  assumes "wf_table t" and "k < 2 ^ 31" and "\<forall>k' < k. abs_table t k' \<noteq> None"
  shows "\<exists>t1 t2. Table_Delete zero (of_nat k) t = Ok t1 \<and>
           Table_Insert zero item t1 = Ok ((of_nat k, True), t2) \<and> wf_table t2 \<and>
           abs_table t2 = (abs_table t)(k \<mapsto> item)"
  using assms by (rule tbl.delete_insert_reuse)

theorem Table_delete_insert_witness:
  "\<exists>t1 t2. Table_Delete 0 0 \<lparr>masks = [1], items = 5 # replicate 63 0\<rparr> = Ok t1 \<and>
     Table_Insert 0 (7 :: nat) t1 = Ok ((0, True), t2) \<and> wf_table t2 \<and> abs_table t2 0 = Some 7"
proof -
  let ?t = "\<lparr>masks = [1], items = 5 # replicate 63 0\<rparr> :: nat table"
  have "wf_table ?t" by (simp add: wf_table_def)
  then show ?thesis using Table_delete_insert [of ?t 0 0 7] by fastforce
qed

text \<open>
  Iteration and size. On a well-formed table \<^verbatim>\<open>Range\<close> never panics and calls \<open>f\<close> on exactly the
  entries of the map, in increasing order of the keys, until \<open>f\<close> returns false; \<^verbatim>\<open>Len\<close> is the number
  of entries.
\<close>

theorem Table_Range_order:
  assumes "wf_table t"
  shows "Table_Range f t s = Ok (snd (visit f (map (\<lambda>k. (k, items t ! k)) (keys t)) s)) \<and>
    sorted (keys t) \<and> distinct (keys t) \<and> set (keys t) = dom (abs_table t) \<and>
    Table_Len t = card (dom (abs_table t))"
  using Table_Range_visit [OF assms] keys_dom [OF assms] Table_Len_keys [OF assms] distinct_card [of "keys t"]
  by metis

theorem Table_Range_order_witness:
  "Table_Range (\<lambda>k v s. (True, s @ [(k, v)])) \<lparr>masks = [2], items = 0 # 5 # replicate 62 0\<rparr> [] =
     Ok [(1, 5 :: nat)]"
proof -
  let ?t = "\<lparr>masks = [2], items = 0 # 5 # replicate 62 0\<rparr> :: nat table"
  have wf: "wf_table ?t" by (simp add: wf_table_def)
  have "occupied ?t k \<longleftrightarrow> k = 1" for k
    using bit_exp_iff [of 1 "k mod 64", where 'a = u64]
    by (auto simp: occupied_def less_Suc_eq bit_simps)
  then have "occupied ?t = (\<lambda>k. k = 1)" by (simp add: fun_eq_iff)
  moreover have "filter (\<lambda>k. k = 1) [0..<64] = [1 :: nat]" by code_simp
  ultimately have "keys ?t = [1]" by (simp add: keys_def)
  then show ?thesis
    using Table_Range_order [OF wf, of "\<lambda>k v s. (True, s @ [(k, v)])" "[]"] by simp
qed

end
