(* ===== verification/ModuleTypes.thy ===== *)
theory ModuleTypes
  imports Prelude
begin

text \<open>
  The data of \<^verbatim>\<open>internal/wasm\<close>: value types with their flag bits, and the records of a decoded
  module (\<^verbatim>\<open>module.go\<close>, \<^verbatim>\<open>table.go\<close>, \<^verbatim>\<open>const_expr.go\<close>), in the order the source declares them.
  The fields of a record carry its initials. A Go pointer that may be nil is an \<open>option\<close>.
\<close>

section \<open>Value types\<close>

type_synonym Index = u32
type_synonym ValueType = u64

abbreviation (input) flagNonNullable :: ValueType where "flagNonNullable \<equiv> 0x100"
abbreviation (input) flagConcreteRef :: ValueType where "flagConcreteRef \<equiv> 0x200"

abbreviation (input) ValueTypeI32 :: ValueType where "ValueTypeI32 \<equiv> 0x7f"
abbreviation (input) ValueTypeI64 :: ValueType where "ValueTypeI64 \<equiv> 0x7e"
abbreviation (input) ValueTypeF32 :: ValueType where "ValueTypeF32 \<equiv> 0x7d"
abbreviation (input) ValueTypeF64 :: ValueType where "ValueTypeF64 \<equiv> 0x7c"
abbreviation (input) ValueTypeV128 :: ValueType where "ValueTypeV128 \<equiv> 0x7b"
abbreviation (input) ValueTypeFuncref :: ValueType where "ValueTypeFuncref \<equiv> 0x70"
abbreviation (input) ValueTypeExternref :: ValueType where "ValueTypeExternref \<equiv> 0x6f"
abbreviation (input) ValueTypeExnref :: ValueType where "ValueTypeExnref \<equiv> 0x69"

definition Kind :: "ValueType \<Rightarrow> byte" where
  "Kind v = ucast v"

definition IsConcreteRef :: "ValueType \<Rightarrow> bool" where
  "IsConcreteRef v \<longleftrightarrow> v AND flagConcreteRef \<noteq> 0"

definition IsRef :: "ValueType \<Rightarrow> bool" where
  "IsRef v \<longleftrightarrow> (let k = Kind v in
     k = Kind ValueTypeFuncref \<or> k = Kind ValueTypeExternref \<or> k = Kind ValueTypeExnref \<or>
     v AND flagConcreteRef \<noteq> 0)"

definition IsNullable :: "ValueType \<Rightarrow> bool" where
  "IsNullable v \<longleftrightarrow> IsRef v \<and> v AND flagNonNullable = 0"

definition TypeIndex :: "ValueType \<Rightarrow> u32" where
  "TypeIndex v = ucast (drop_bit 32 v)"

definition AsNonNullable :: "ValueType \<Rightarrow> ValueType" where
  "AsNonNullable v = v OR flagNonNullable"

definition AsNullable :: "ValueType \<Rightarrow> ValueType" where
  "AsNullable v = v AND NOT flagNonNullable"

definition ValueTypeConcreteRef :: "u32 \<Rightarrow> bool \<Rightarrow> ValueType" where
  "ValueTypeConcreteRef typeIndex nullable =
     (let v = ValueTypeFuncref OR flagConcreteRef OR push_bit 32 (ucast typeIndex)
      in if \<not> nullable then v OR flagNonNullable else v)"

abbreviation (input) RefPrefixNullable :: byte where "RefPrefixNullable \<equiv> 0x63"
abbreviation (input) RefPrefixNonNullable :: byte where "RefPrefixNonNullable \<equiv> 0x64"
abbreviation (input) HeapTypeFunc :: i64 where "HeapTypeFunc \<equiv> - 16"
abbreviation (input) HeapTypeExtern :: i64 where "HeapTypeExtern \<equiv> - 17"
abbreviation (input) HeapTypeExn :: i64 where "HeapTypeExn \<equiv> - 23"

definition isReferenceValueType :: "ValueType \<Rightarrow> bool" where
  "isReferenceValueType vt = IsRef vt"

abbreviation (input) RefTypeFuncref :: ValueType where "RefTypeFuncref \<equiv> ValueTypeFuncref"
abbreviation (input) RefTypeExternref :: ValueType where "RefTypeExternref \<equiv> ValueTypeExternref"

section \<open>Sections\<close>

datatype ExternType = ExternTypeFunc | ExternTypeTable | ExternTypeMemory | ExternTypeGlobal | ExternTypeTag

record FunctionType =
  ft_Params :: "ValueType list"
  ft_Results :: "ValueType list"
  ft_ParamNumInUint64 :: nat
  ft_ResultNumInUint64 :: nat
  ft_RecGroupSize :: nat
  ft_RecGroupPosition :: nat
  ft_string :: string

record ConstantExpression =
  ce_Data :: "byte list"

record Table =
  tab_Min :: u32
  tab_Max :: "u32 option"
  tab_Type :: ValueType
  tab_InitExpr :: "ConstantExpression option"

record Memory =
  mem_Min :: u32
  mem_Cap :: u32
  mem_Max :: u32
  mem_IsMaxEncoded :: bool
  mem_IsShared :: bool

record GlobalType =
  gt_ValType :: ValueType
  gt_Mutable :: bool

record Import =
  imp_Type :: ExternType
  imp_Module :: "byte list"
  imp_Name :: "byte list"
  imp_DescFunc :: Index
  imp_DescTable :: Table
  imp_DescMem :: "Memory option"
  imp_DescGlobal :: GlobalType
  imp_DescTag :: Index
  imp_IndexPerType :: Index

record Tag =
  tag_Type :: Index

record Global =
  glo_Type :: GlobalType
  glo_Init :: ConstantExpression

record Export =
  exp_Type :: ExternType
  exp_Name :: "byte list"
  exp_Index :: Index

record Code =
  code_LocalTypes :: "ValueType list"
  code_Body :: "byte list"
  code_GoFunc :: bool
  code_BodyOffset :: u64

record DataSegment =
  ds_OffsetExpression :: ConstantExpression
  ds_Init :: "byte list"
  ds_Passive :: bool

datatype ElementMode = ElementModeActive | ElementModePassive | ElementModeDeclarative

record ElementSegment =
  es_OffsetExpr :: ConstantExpression
  es_TableIndex :: Index
  es_Init :: "ConstantExpression list"
  es_Type :: ValueType
  es_Mode :: ElementMode

record NameAssoc =
  na_Index :: Index
  na_Name :: "byte list"

record NameMapAssoc =
  nma_Index :: Index
  nma_NameMap :: "NameAssoc list"

record NameSection =
  ns_ModuleName :: "byte list"
  ns_FunctionNames :: "NameAssoc list"
  ns_LocalNames :: "NameMapAssoc list"
  ns_ResultNames :: "NameMapAssoc list"

record CustomSection =
  cs_Name :: "byte list"
  cs_Data :: "byte list"

record Module =
  TypeSection :: "FunctionType list"
  ImportSection :: "Import list"
  ImportFunctionCount :: Index
  ImportGlobalCount :: Index
  ImportMemoryCount :: Index
  ImportTableCount :: Index
  ImportPerModule :: "byte list \<rightharpoonup> Import list"
  FunctionSection :: "Index list"
  TableSection :: "Table list"
  MemorySection :: "Memory option"
  TagSection :: "Tag list"
  ImportTagCount :: Index
  GlobalSection :: "Global list"
  ExportSection :: "Export list"
  Exports :: "byte list \<rightharpoonup> Export"
  StartSection :: "Index option"
  ElementSection :: "ElementSegment list"
  CodeSection :: "Code list"
  DataSection :: "DataSegment list"
  mod_NameSection :: "NameSection option"
  CustomSections :: "CustomSection list"
  DataCountSection :: "u32 option"
  IsHostModule :: bool

text \<open>The zero value \<^verbatim>\<open>Module{}\<close>, with which decoding starts.\<close>

definition emptyModule :: Module where
  "emptyModule =
     \<lparr>TypeSection = [], ImportSection = [], ImportFunctionCount = 0, ImportGlobalCount = 0, ImportMemoryCount = 0,
      ImportTableCount = 0, ImportPerModule = Map.empty, FunctionSection = [], TableSection = [],
      MemorySection = None, TagSection = [], ImportTagCount = 0, GlobalSection = [], ExportSection = [],
      Exports = Map.empty, StartSection = None, ElementSection = [], CodeSection = [], DataSection = [],
      mod_NameSection = None, CustomSections = [], DataCountSection = None, IsHostModule = False\<rparr>"

section \<open>Features\<close>

type_synonym CoreFeatures = u64

abbreviation (input) CoreFeatureBulkMemoryOperations :: CoreFeatures where "CoreFeatureBulkMemoryOperations \<equiv> 1"
abbreviation (input) CoreFeatureMultiValue :: CoreFeatures where "CoreFeatureMultiValue \<equiv> 2"
abbreviation (input) CoreFeatureMutableGlobal :: CoreFeatures where "CoreFeatureMutableGlobal \<equiv> 4"
abbreviation (input) CoreFeatureNonTrappingFloatToIntConversion :: CoreFeatures where
  "CoreFeatureNonTrappingFloatToIntConversion \<equiv> 8"
abbreviation (input) CoreFeatureReferenceTypes :: CoreFeatures where "CoreFeatureReferenceTypes \<equiv> 16"
abbreviation (input) CoreFeatureSignExtensionOps :: CoreFeatures where "CoreFeatureSignExtensionOps \<equiv> 32"
abbreviation (input) CoreFeatureSIMD :: CoreFeatures where "CoreFeatureSIMD \<equiv> 64"
abbreviation (input) CoreFeaturesThreads :: CoreFeatures where "CoreFeaturesThreads \<equiv> 128"
abbreviation (input) CoreFeaturesTailCall :: CoreFeatures where "CoreFeaturesTailCall \<equiv> 256"
abbreviation (input) CoreFeaturesExtendedConst :: CoreFeatures where "CoreFeaturesExtendedConst \<equiv> 512"
abbreviation (input) CoreFeaturesExceptionHandling :: CoreFeatures where "CoreFeaturesExceptionHandling \<equiv> 1024"
abbreviation (input) CoreFeaturesTypedFunctionReferences :: CoreFeatures where
  "CoreFeaturesTypedFunctionReferences \<equiv> 2048"

definition SetEnabled :: "CoreFeatures \<Rightarrow> CoreFeatures \<Rightarrow> bool \<Rightarrow> CoreFeatures" where
  "SetEnabled f feature val = (if val then f OR feature else f AND NOT feature)"

definition IsEnabled :: "CoreFeatures \<Rightarrow> CoreFeatures \<Rightarrow> bool" where
  "IsEnabled f feature \<longleftrightarrow> f AND feature \<noteq> 0"

definition RequireEnabled :: "CoreFeatures \<Rightarrow> CoreFeatures \<Rightarrow> unit outcome" where
  "RequireEnabled f feature = require (f AND feature \<noteq> 0) (Errorf ''feature %q is disabled'')"

lemma holds_RequireEnabled [wp]: "holds P (RequireEnabled f feature) = (f AND feature \<noteq> 0 \<longrightarrow> P ())"
  by (simp add: RequireEnabled_def wp)

section \<open>Function types and declarations\<close>

definition numInUint64 :: "ValueType list \<Rightarrow> nat" where
  "numInUint64 ts = foldl (\<lambda>n tp. if tp = ValueTypeV128 then n + 1 + 1 else n + 1) 0 ts"

definition CacheNumInUint64 :: "FunctionType \<Rightarrow> FunctionType" where
  "CacheNumInUint64 f =
     (let f = (if ft_ParamNumInUint64 f = 0 then f\<lparr>ft_ParamNumInUint64 := numInUint64 (ft_Params f)\<rparr> else f)
      in if ft_ResultNumInUint64 f = 0 then f\<lparr>ft_ResultNumInUint64 := numInUint64 (ft_Results f)\<rparr> else f)"

text \<open>\<^verbatim>\<open>fmt.Sprintf("%d", n)\<close> of a number that is not negative.\<close>

definition digit :: "nat \<Rightarrow> char" where
  "digit n = char_of (48 + n)"

fun decimal :: "nat \<Rightarrow> string" where
  "decimal n = (if n < 10 then [digit n] else decimal (n div 10) @ [digit (n mod 10)])"

declare decimal.simps [simp del]

definition ValueTypeName :: "ValueType \<Rightarrow> string" where
  "ValueTypeName t =
     (if IsConcreteRef t then
        if IsNullable t then ''(ref null '' @ decimal (unat (TypeIndex t)) @ '')''
        else ''(ref '' @ decimal (unat (TypeIndex t)) @ '')''
      else if AsNullable t = ValueTypeI32 then ''i32''
      else if AsNullable t = ValueTypeI64 then ''i64''
      else if AsNullable t = ValueTypeF32 then ''f32''
      else if AsNullable t = ValueTypeF64 then ''f64''
      else if AsNullable t = ValueTypeV128 then ''v128''
      else if AsNullable t = ValueTypeFuncref then (if \<not> IsNullable t then ''(ref func)'' else ''funcref'')
      else if AsNullable t = ValueTypeExternref then (if \<not> IsNullable t then ''(ref extern)'' else ''externref'')
      else if AsNullable t = ValueTypeExnref then (if \<not> IsNullable t then ''(ref exn)'' else ''exnref'')
      else ''unknown'')"

definition recSuffix :: "FunctionType \<Rightarrow> string" where
  "recSuffix f =
     (if ft_RecGroupSize f > 1 then ''|rec'' @ decimal (ft_RecGroupPosition f) @ ''/'' @ decimal (ft_RecGroupSize f) else [])"

text \<open>
  The key of a type is computed once and kept in the type (\<open>ft_string\<close>, empty before): \<open>key\<close> is what a call returns and
  \<open>cacheKey\<close> is the type after it.
\<close>

definition key :: "FunctionType \<Rightarrow> string" where
  "key f =
     (if ft_string f \<noteq> [] then ft_string f
      else concat (map ValueTypeName (ft_Params f)) @ (if length (ft_Params f) = 0 then ''v_'' else ''_'') @
        concat (map ValueTypeName (ft_Results f)) @ (if length (ft_Results f) = 0 then ''v'' else []) @ recSuffix f)"

definition cacheKey :: "FunctionType \<Rightarrow> FunctionType" where
  "cacheKey f = f\<lparr>ft_string := key f\<rparr>"

text \<open>The key that a type has when it is cached before the type's place in a rec group is known.\<close>

definition plainKey :: "FunctionType \<Rightarrow> string" where
  "plainKey f = key (f\<lparr>ft_RecGroupSize := 0, ft_string := []\<rparr>)"

definition key_cached :: "FunctionType \<Rightarrow> bool" where
  "key_cached f \<longleftrightarrow> ft_string f = plainKey f"

lemma key_cached_group [simp]: "key_cached (f\<lparr>ft_RecGroupSize := n, ft_RecGroupPosition := p\<rparr>) = key_cached f"
  by (simp add: key_cached_def plainKey_def key_def recSuffix_def)

lemma key_cached_cacheKey: "ft_RecGroupSize f = 0 \<Longrightarrow> ft_string f = [] \<Longrightarrow> key_cached (cacheKey f)"
  by (simp add: key_cached_def plainKey_def cacheKey_def key_def recSuffix_def)

definition EqualsSignature :: "FunctionType \<Rightarrow> ValueType list \<Rightarrow> ValueType list \<Rightarrow> bool" where
  "EqualsSignature f params results \<longleftrightarrow> ft_Params f = params \<and> ft_Results f = results"

definition EqualsType :: "FunctionType \<Rightarrow> FunctionType \<Rightarrow> bool" where
  "EqualsType f other \<longleftrightarrow>
     (if \<not> EqualsSignature f (ft_Params other) (ft_Results other) then False
      else ft_RecGroupSize f = ft_RecGroupSize other \<and> ft_RecGroupPosition f = ft_RecGroupPosition other)"

record Declarations =
  decl_functions :: "Index list"
  decl_globals :: "GlobalType list"
  decl_memory :: "Memory option"
  decl_tables :: "Table list"
  decl_tags :: "Index list"

definition AllDeclarations_import :: "Declarations \<Rightarrow> Import \<Rightarrow> Declarations" where
  "AllDeclarations_import d imp =
     (case imp_Type imp of
        ExternTypeFunc \<Rightarrow> d\<lparr>decl_functions := decl_functions d @ [imp_DescFunc imp]\<rparr>
      | ExternTypeGlobal \<Rightarrow> d\<lparr>decl_globals := decl_globals d @ [imp_DescGlobal imp]\<rparr>
      | ExternTypeMemory \<Rightarrow> d\<lparr>decl_memory := imp_DescMem imp\<rparr>
      | ExternTypeTable \<Rightarrow> d\<lparr>decl_tables := decl_tables d @ [imp_DescTable imp]\<rparr>
      | ExternTypeTag \<Rightarrow> d\<lparr>decl_tags := decl_tags d @ [imp_DescTag imp]\<rparr>)"

definition AllDeclarations :: "Module \<Rightarrow> Declarations outcome" where
  "AllDeclarations m =
     (let d = foldl AllDeclarations_import
            \<lparr>decl_functions = [], decl_globals = [], decl_memory = None, decl_tables = [], decl_tags = []\<rparr>
            (ImportSection m);
          d = d\<lparr>decl_functions := decl_functions d @ FunctionSection m\<rparr>;
          d = d\<lparr>decl_globals := decl_globals d @ map glo_Type (GlobalSection m)\<rparr>;
          d = d\<lparr>decl_tags := decl_tags d @ map tag_Type (TagSection m)\<rparr>
      in case MemorySection m of
           Some mem \<Rightarrow>
             (if decl_memory d \<noteq> None then Err (Errorf ''at most one table allowed in module'')
              else Ok (d\<lparr>decl_memory := Some mem, decl_tables := decl_tables d @ TableSection m\<rparr>))
         | None \<Rightarrow> Ok (d\<lparr>decl_tables := decl_tables d @ TableSection m\<rparr>))"

section \<open>Section identifiers and counts\<close>

abbreviation (input) SectionIDCustom :: byte where "SectionIDCustom \<equiv> 0"
abbreviation (input) SectionIDType :: byte where "SectionIDType \<equiv> 1"
abbreviation (input) SectionIDImport :: byte where "SectionIDImport \<equiv> 2"
abbreviation (input) SectionIDFunction :: byte where "SectionIDFunction \<equiv> 3"
abbreviation (input) SectionIDTable :: byte where "SectionIDTable \<equiv> 4"
abbreviation (input) SectionIDMemory :: byte where "SectionIDMemory \<equiv> 5"
abbreviation (input) SectionIDGlobal :: byte where "SectionIDGlobal \<equiv> 6"
abbreviation (input) SectionIDExport :: byte where "SectionIDExport \<equiv> 7"
abbreviation (input) SectionIDStart :: byte where "SectionIDStart \<equiv> 8"
abbreviation (input) SectionIDElement :: byte where "SectionIDElement \<equiv> 9"
abbreviation (input) SectionIDCode :: byte where "SectionIDCode \<equiv> 10"
abbreviation (input) SectionIDData :: byte where "SectionIDData \<equiv> 11"
abbreviation (input) SectionIDDataCount :: byte where "SectionIDDataCount \<equiv> 12"
abbreviation (input) SectionIDTag :: byte where "SectionIDTag \<equiv> 13"

definition SectionElementCount :: "Module \<Rightarrow> byte \<Rightarrow> u32 outcome" where
  "SectionElementCount m sectionID =
     (if sectionID = SectionIDCustom then
        Ok (of_nat (length (CustomSections m)) + (if mod_NameSection m \<noteq> None then 1 else 0))
      else if sectionID = SectionIDType then Ok (of_nat (length (TypeSection m)))
      else if sectionID = SectionIDImport then Ok (of_nat (length (ImportSection m)))
      else if sectionID = SectionIDFunction then Ok (of_nat (length (FunctionSection m)))
      else if sectionID = SectionIDTable then Ok (of_nat (length (TableSection m)))
      else if sectionID = SectionIDMemory then Ok (if MemorySection m \<noteq> None then 1 else 0)
      else if sectionID = SectionIDGlobal then Ok (of_nat (length (GlobalSection m)))
      else if sectionID = SectionIDExport then Ok (of_nat (length (ExportSection m)))
      else if sectionID = SectionIDStart then Ok (if StartSection m \<noteq> None then 1 else 0)
      else if sectionID = SectionIDElement then Ok (of_nat (length (ElementSection m)))
      else if sectionID = SectionIDCode then Ok (of_nat (length (CodeSection m)))
      else if sectionID = SectionIDData then Ok (of_nat (length (DataSection m)))
      else if sectionID = SectionIDTag then Ok (of_nat (length (TagSection m)))
      else Panic ''BUG: unknown section'')"

end
