(* ===== verification/MemoryInstance.thy ===== *)
theory MemoryInstance
  imports ModuleTypes
begin

text \<open>
  \<^verbatim>\<open>internal/wasm/memory.go\<close>: linear memories. A Go slice is its data pointer, its bytes, and the
  spare bytes between its length and its capacity. The memory allocator of a host
  (\<^verbatim>\<open>experimental.MemoryAllocator\<close>) and the engine's \<^verbatim>\<open>MemoryGrown\<close> hook are parameters, as is
  the capacity \<^verbatim>\<open>append\<close> chooses when it reallocates. \<^verbatim>\<open>atomicStoreLength\<close> sets the length of a
  shared buffer without a bounds check; it is \<open>reslice_to\<close> here, whose check never fails on a
  well-formed memory. A float is its bit pattern, and the slice
  \<^verbatim>\<open>Read\<close> returns is given by its bytes.
\<close>

section \<open>Byte slices\<close>

record byteslice =
  sl_data :: nat
  sl_bytes :: "byte list"
  sl_spare :: "byte list"

definition sl_cap :: "byteslice \<Rightarrow> nat" where
  "sl_cap s = length (sl_bytes s) + length (sl_spare s)"

definition reslice_to :: "byteslice \<Rightarrow> nat \<Rightarrow> byteslice outcome" where
  "reslice_to s n =
     (if n \<le> sl_cap s then
        let bs = sl_bytes s @ sl_spare s in Ok (s\<lparr>sl_bytes := take n bs, sl_spare := drop n bs\<rparr>)
      else Panic ''slice bounds out of range'')"

definition make_bytes :: "nat \<Rightarrow> nat \<Rightarrow> nat \<Rightarrow> byteslice outcome" where
  "make_bytes fresh n c =
     (if n \<le> c then Ok \<lparr>sl_data = fresh, sl_bytes = replicate n 0, sl_spare = replicate (c - n) 0\<rparr>
      else Panic ''makeslice: cap out of range'')"

text \<open>\<^verbatim>\<open>append(s, make([]byte, n)...)\<close>: in place when the capacity allows it.\<close>

definition append_zeros :: "(nat \<Rightarrow> nat \<Rightarrow> nat) \<Rightarrow> nat \<Rightarrow> byteslice \<Rightarrow> nat \<Rightarrow> byteslice" where
  "append_zeros growcap fresh s n =
     (if n \<le> length (sl_spare s) then
        s\<lparr>sl_bytes := sl_bytes s @ replicate n 0, sl_spare := drop n (sl_spare s)\<rparr>
      else
        \<lparr>sl_data = fresh, sl_bytes = sl_bytes s @ replicate n 0,
         sl_spare = replicate (growcap (sl_cap s) (length (sl_bytes s) + n) - (length (sl_bytes s) + n)) 0\<rparr>)"

section \<open>The memory instance\<close>

abbreviation (input) MemoryPageSize :: u32 where "MemoryPageSize \<equiv> 65536"
abbreviation (input) MemoryLimitPages :: u32 where "MemoryLimitPages \<equiv> 65536"
abbreviation (input) MemoryPageSizeInBits :: nat where "MemoryPageSizeInBits \<equiv> 16"

record ('alloc, 'eng) MemoryInstance =
  mi_Buffer :: byteslice
  mi_Min :: u32
  mi_Cap :: u32
  mi_Max :: u32
  mi_Shared :: bool
  mi_ownerModuleEngine :: 'eng
  mi_expBuffer :: "'alloc option"

definition MemoryPagesToBytesNum :: "u32 \<Rightarrow> u64" where
  "MemoryPagesToBytesNum pages = push_bit MemoryPageSizeInBits (ucast pages)"

definition memoryBytesNumToPages :: "u64 \<Rightarrow> u32" where
  "memoryBytesNumToPages bytesNum = ucast (drop_bit MemoryPageSizeInBits bytesNum)"

definition NewMemoryInstance ::
    "('alloc \<Rightarrow> u64 \<Rightarrow> byteslice option \<times> 'alloc) \<Rightarrow> nat \<Rightarrow> Memory \<Rightarrow> (u64 \<Rightarrow> u64 \<Rightarrow> 'alloc) option \<Rightarrow> 'eng \<Rightarrow>
     ('alloc, 'eng) MemoryInstance outcome" where
  "NewMemoryInstance reallocate fresh memSec allocator moduleEngine =
     (let minBytes = MemoryPagesToBytesNum (mem_Min memSec);
          capBytes = MemoryPagesToBytesNum (mem_Cap memSec);
          maxBytes = MemoryPagesToBytesNum (mem_Max memSec)
      in bindO
           (case allocator of
              Some allocate \<Rightarrow>
                (case reallocate (allocate capBytes maxBytes) minBytes of
                   (buf, expBuffer) \<Rightarrow>
                     let buffer = (case buf of Some b \<Rightarrow> b | None \<Rightarrow> \<lparr>sl_data = 0, sl_bytes = [], sl_spare = []\<rparr>)
                     in bindO (reslice_to buffer (unat minBytes)) (\<lambda>_. Ok (buffer, Some expBuffer)))
            | None \<Rightarrow>
                if mem_IsShared memSec
                then bindO (make_bytes fresh (unat minBytes) (unat maxBytes)) (\<lambda>b. Ok (b, None))
                else bindO (make_bytes fresh (unat minBytes) (unat capBytes)) (\<lambda>b. Ok (b, None)))
           (\<lambda>(buffer, expBuffer).
              Ok \<lparr>mi_Buffer = buffer, mi_Min = mem_Min memSec,
                  mi_Cap = memoryBytesNumToPages (of_nat (sl_cap buffer)),
                  mi_Max = mem_Max memSec, mi_Shared = mem_IsShared memSec,
                  mi_ownerModuleEngine = moduleEngine, mi_expBuffer = expBuffer\<rparr>))"

abbreviation mi_bytes :: "('alloc, 'eng) MemoryInstance \<Rightarrow> byte list" where
  "mi_bytes m \<equiv> sl_bytes (mi_Buffer m)"

definition set_bytes :: "byte list \<Rightarrow> ('alloc, 'eng) MemoryInstance \<Rightarrow> ('alloc, 'eng) MemoryInstance" where
  "set_bytes bs m = m\<lparr>mi_Buffer := (mi_Buffer m)\<lparr>sl_bytes := bs\<rparr>\<rparr>"

definition Memory_Size :: "('alloc, 'eng) MemoryInstance \<Rightarrow> u32" where
  "Memory_Size m = of_nat (length (mi_bytes m))"

definition Memory_Pages :: "('alloc, 'eng) MemoryInstance \<Rightarrow> u32" where
  "Memory_Pages m = memoryBytesNumToPages (of_nat (length (mi_bytes m)))"

definition hasSize :: "('alloc, 'eng) MemoryInstance \<Rightarrow> u32 \<Rightarrow> u64 \<Rightarrow> bool" where
  "hasSize m offset byteCount \<longleftrightarrow> ucast offset + byteCount \<le> (of_nat (length (mi_bytes m)) :: u64)"

text \<open>Reads return the value and the success flag of the source as an \<open>option\<close>.\<close>

definition Memory_ReadByte :: "('alloc, 'eng) MemoryInstance \<Rightarrow> u32 \<Rightarrow> byte option outcome" where
  "Memory_ReadByte m offset =
     (if \<not> hasSize m offset 1 then Ok None
      else bindO (index (mi_bytes m) (unat offset)) (\<lambda>b. Ok (Some b)))"

definition LittleEndian_get :: "nat \<Rightarrow> byte list \<Rightarrow> 'a::len word outcome" where
  "LittleEndian_get n bs = bindO (slice_to bs n) (\<lambda>bs. Ok (le_get bs))"

definition Memory_ReadUint16Le :: "('alloc, 'eng) MemoryInstance \<Rightarrow> u32 \<Rightarrow> u16 option outcome" where
  "Memory_ReadUint16Le m offset =
     (if \<not> hasSize m offset 2 then Ok None
      else bindO (slice (mi_bytes m) (unat offset) (unat (offset + 2))) (\<lambda>bs.
           bindO (LittleEndian_get 2 bs) (\<lambda>v. Ok (Some v))))"

definition Memory_readUint32Le :: "('alloc, 'eng) MemoryInstance \<Rightarrow> u32 \<Rightarrow> u32 option outcome" where
  "Memory_readUint32Le m offset =
     (if \<not> hasSize m offset 4 then Ok None
      else bindO (slice_from (mi_bytes m) (unat offset)) (\<lambda>bs.
           bindO (LittleEndian_get 4 bs) (\<lambda>v. Ok (Some v))))"

definition Memory_readUint64Le :: "('alloc, 'eng) MemoryInstance \<Rightarrow> u32 \<Rightarrow> u64 option outcome" where
  "Memory_readUint64Le m offset =
     (if \<not> hasSize m offset 8 then Ok None
      else bindO (slice_from (mi_bytes m) (unat offset)) (\<lambda>bs.
           bindO (LittleEndian_get 8 bs) (\<lambda>v. Ok (Some v))))"

definition Memory_ReadUint32Le :: "('alloc, 'eng) MemoryInstance \<Rightarrow> u32 \<Rightarrow> u32 option outcome" where
  "Memory_ReadUint32Le m offset = Memory_readUint32Le m offset"

definition Memory_ReadFloat32Le :: "('alloc, 'eng) MemoryInstance \<Rightarrow> u32 \<Rightarrow> u32 option outcome" where
  "Memory_ReadFloat32Le m offset =
     bindO (Memory_readUint32Le m offset) (\<lambda>r. case r of None \<Rightarrow> Ok None | Some v \<Rightarrow> Ok (Some v))"

definition Memory_ReadUint64Le :: "('alloc, 'eng) MemoryInstance \<Rightarrow> u32 \<Rightarrow> u64 option outcome" where
  "Memory_ReadUint64Le m offset = Memory_readUint64Le m offset"

definition Memory_ReadFloat64Le :: "('alloc, 'eng) MemoryInstance \<Rightarrow> u32 \<Rightarrow> u64 option outcome" where
  "Memory_ReadFloat64Le m offset =
     bindO (Memory_readUint64Le m offset) (\<lambda>r. case r of None \<Rightarrow> Ok None | Some v \<Rightarrow> Ok (Some v))"

definition Memory_Read :: "('alloc, 'eng) MemoryInstance \<Rightarrow> u32 \<Rightarrow> u32 \<Rightarrow> byte list option outcome" where
  "Memory_Read m offset byteCount =
     (if \<not> hasSize m offset (ucast byteCount) then Ok None
      else bindO (slice (mi_bytes m) (unat offset) (unat (offset + byteCount))) (\<lambda>bs. Ok (Some bs)))"

text \<open>Writes return the success flag and the memory.\<close>

definition Memory_WriteByte ::
    "('alloc, 'eng) MemoryInstance \<Rightarrow> u32 \<Rightarrow> byte \<Rightarrow> (bool \<times> ('alloc, 'eng) MemoryInstance) outcome" where
  "Memory_WriteByte m offset v =
     (if \<not> hasSize m offset 1 then Ok (False, m)
      else bindO (store_at (mi_bytes m) (unat offset) v) (\<lambda>bs. Ok (True, set_bytes bs m)))"

text \<open>\<^verbatim>\<open>binary.LittleEndian.PutUint<8n>(m.Buffer[offset:], v)\<close>.\<close>

definition LittleEndian_put :: "nat \<Rightarrow> byte list \<Rightarrow> nat \<Rightarrow> 'a::len word \<Rightarrow> byte list outcome" where
  "LittleEndian_put n bs i v =
     bindO (slice_from bs i) (\<lambda>tl. bindO (slice_to tl n) (\<lambda>_. Ok (copy_at bs i (le_put n v))))"

definition Memory_WriteUint16Le ::
    "('alloc, 'eng) MemoryInstance \<Rightarrow> u32 \<Rightarrow> u16 \<Rightarrow> (bool \<times> ('alloc, 'eng) MemoryInstance) outcome" where
  "Memory_WriteUint16Le m offset v =
     (if \<not> hasSize m offset 2 then Ok (False, m)
      else bindO (LittleEndian_put 2 (mi_bytes m) (unat offset) v) (\<lambda>bs. Ok (True, set_bytes bs m)))"

definition Memory_writeUint32Le ::
    "('alloc, 'eng) MemoryInstance \<Rightarrow> u32 \<Rightarrow> u32 \<Rightarrow> (bool \<times> ('alloc, 'eng) MemoryInstance) outcome" where
  "Memory_writeUint32Le m offset v =
     (if \<not> hasSize m offset 4 then Ok (False, m)
      else bindO (LittleEndian_put 4 (mi_bytes m) (unat offset) v) (\<lambda>bs. Ok (True, set_bytes bs m)))"

definition Memory_writeUint64Le ::
    "('alloc, 'eng) MemoryInstance \<Rightarrow> u32 \<Rightarrow> u64 \<Rightarrow> (bool \<times> ('alloc, 'eng) MemoryInstance) outcome" where
  "Memory_writeUint64Le m offset v =
     (if \<not> hasSize m offset 8 then Ok (False, m)
      else bindO (LittleEndian_put 8 (mi_bytes m) (unat offset) v) (\<lambda>bs. Ok (True, set_bytes bs m)))"

definition Memory_WriteUint32Le ::
    "('alloc, 'eng) MemoryInstance \<Rightarrow> u32 \<Rightarrow> u32 \<Rightarrow> (bool \<times> ('alloc, 'eng) MemoryInstance) outcome" where
  "Memory_WriteUint32Le m offset v = Memory_writeUint32Le m offset v"

definition Memory_WriteFloat32Le ::
    "('alloc, 'eng) MemoryInstance \<Rightarrow> u32 \<Rightarrow> u32 \<Rightarrow> (bool \<times> ('alloc, 'eng) MemoryInstance) outcome" where
  "Memory_WriteFloat32Le m offset v = Memory_writeUint32Le m offset v"

definition Memory_WriteUint64Le ::
    "('alloc, 'eng) MemoryInstance \<Rightarrow> u32 \<Rightarrow> u64 \<Rightarrow> (bool \<times> ('alloc, 'eng) MemoryInstance) outcome" where
  "Memory_WriteUint64Le m offset v = Memory_writeUint64Le m offset v"

definition Memory_WriteFloat64Le ::
    "('alloc, 'eng) MemoryInstance \<Rightarrow> u32 \<Rightarrow> u64 \<Rightarrow> (bool \<times> ('alloc, 'eng) MemoryInstance) outcome" where
  "Memory_WriteFloat64Le m offset v = Memory_writeUint64Le m offset v"

definition Memory_Write ::
    "('alloc, 'eng) MemoryInstance \<Rightarrow> u32 \<Rightarrow> byte list \<Rightarrow> (bool \<times> ('alloc, 'eng) MemoryInstance) outcome" where
  "Memory_Write m offset val =
     (if \<not> hasSize m offset (of_nat (length val)) then Ok (False, m)
      else bindO (slice_from (mi_bytes m) (unat offset)) (\<lambda>_.
           Ok (True, set_bytes (copy_at (mi_bytes m) (unat offset) val) m)))"

definition Memory_WriteString ::
    "('alloc, 'eng) MemoryInstance \<Rightarrow> u32 \<Rightarrow> byte list \<Rightarrow> (bool \<times> ('alloc, 'eng) MemoryInstance) outcome" where
  "Memory_WriteString m offset val =
     (if \<not> hasSize m offset (of_nat (length val)) then Ok (False, m)
      else bindO (slice_from (mi_bytes m) (unat offset)) (\<lambda>_.
           Ok (True, set_bytes (copy_at (mi_bytes m) (unat offset) val) m)))"

definition Memory_Grow ::
    "('alloc \<Rightarrow> u64 \<Rightarrow> byteslice option \<times> 'alloc) \<Rightarrow> (nat \<Rightarrow> nat \<Rightarrow> nat) \<Rightarrow> ('eng \<Rightarrow> 'eng) \<Rightarrow> nat \<Rightarrow>
     ('alloc, 'eng) MemoryInstance \<Rightarrow> u32 \<Rightarrow> ((u32 \<times> bool) \<times> ('alloc, 'eng) MemoryInstance) outcome" where
  "Memory_Grow reallocate growcap memoryGrown fresh m delta =
     (let currentPages = Memory_Pages m
      in if delta = 0 then Ok ((currentPages, True), m)
         else
           let newPages = currentPages + delta;
               done = (\<lambda>m. Ok ((currentPages, True),
                               m\<lparr>mi_ownerModuleEngine := memoryGrown (mi_ownerModuleEngine m)\<rparr>))
           in if newPages > mi_Max m \<or> sint delta < 0 then Ok ((0, False), m)
              else
                case mi_expBuffer m of
                  Some e \<Rightarrow>
                    (case reallocate e (MemoryPagesToBytesNum newPages) of
                       (None, e') \<Rightarrow> Ok ((0, False), m\<lparr>mi_expBuffer := Some e'\<rparr>)
                     | (Some buffer, e') \<Rightarrow>
                         let m = m\<lparr>mi_expBuffer := Some e'\<rparr>
                         in if mi_Shared m then
                              (if sl_data buffer \<noteq> sl_data (mi_Buffer m)
                               then Panic ''shared memory cannot move''
                               else done (m\<lparr>mi_Buffer := buffer,
                                            mi_Cap := memoryBytesNumToPages (of_nat (sl_cap buffer))\<rparr>))
                            else done (m\<lparr>mi_Buffer := buffer, mi_Cap := newPages\<rparr>))
                | None \<Rightarrow>
                    if newPages > mi_Cap m then
                      (if mi_Shared m then Panic ''shared memory cannot be grown''
                       else done (m\<lparr>mi_Buffer := append_zeros growcap fresh (mi_Buffer m)
                                                    (unat (MemoryPagesToBytesNum delta)),
                                    mi_Cap := newPages\<rparr>))
                    else bindO (reslice_to (mi_Buffer m) (unat (MemoryPagesToBytesNum newPages))) (\<lambda>b.
                           done (m\<lparr>mi_Buffer := b\<rparr>)))"

section \<open>Well-formed memories\<close>

text \<open>
  A memory without a host allocator: whole pages, within its maximum, a capacity that covers
  \<open>Cap\<close> pages, spare bytes that are zero, and, when it is shared, capacity for the maximum.
\<close>

definition wf_mem :: "('alloc, 'eng) MemoryInstance \<Rightarrow> bool" where
  "wf_mem m \<longleftrightarrow> mi_expBuffer m = None \<and>
     length (mi_bytes m) mod 65536 = 0 \<and> length (mi_bytes m) \<le> 65536 * unat (mi_Max m) \<and>
     unat (mi_Max m) \<le> 65536 \<and> unat (mi_Cap m) \<le> 65536 \<and>
     65536 * unat (mi_Cap m) \<le> sl_cap (mi_Buffer m) \<and>
     set (sl_spare (mi_Buffer m)) \<subseteq> {0} \<and>
     (mi_Shared m \<longrightarrow> mi_Max m \<le> mi_Cap m)"

lemma MemoryPagesToBytesNum_unat: "unat (MemoryPagesToBytesNum p) = 65536 * unat p"
proof -
  have "unat p < 2 ^ 32" using unsigned_less [of p, where 'a = nat] by simp
  then have "65536 * unat p < 2 ^ 64" by simp
  then show ?thesis
    unfolding MemoryPagesToBytesNum_def unsigned_push_bit_eq
    by (simp add: unat_ucast_up push_bit_eq_mult take_bit_nat_eq_self)
qed

lemma memoryBytesNumToPages_of_nat:
  "n < 2 ^ 48 \<Longrightarrow> unat (memoryBytesNumToPages (of_nat n)) = n div 65536"
proof -
  assume "n < 2 ^ 48"
  then have "unat (of_nat n :: u64) = n" "n div 65536 < 2 ^ 32"
    by (simp_all add: unsigned_of_nat take_bit_nat_eq_self)
  then show ?thesis
    unfolding memoryBytesNumToPages_def unsigned_ucast_eq unat_drop_bit_eq
    by (simp add: drop_bit_eq_div take_bit_nat_eq_self)
qed

lemma wf_mem_length: "wf_mem m \<Longrightarrow> length (mi_bytes m) \<le> 2 ^ 32"
  by (auto simp: wf_mem_def)

lemma Memory_Pages_unat:
  "length (mi_bytes m) \<le> 2 ^ 32 \<Longrightarrow> unat (Memory_Pages m) = length (mi_bytes m) div 65536"
  unfolding Memory_Pages_def by (rule memoryBytesNumToPages_of_nat) simp

lemma hasSize_iff:
  assumes "length (mi_bytes m) \<le> 2 ^ 32" "unat n < 2 ^ 63"
  shows "hasSize m offset n \<longleftrightarrow> unat offset + unat n \<le> length (mi_bytes m)"
proof -
  have "unat offset < 2 ^ 32" using unsigned_less [of offset, where 'a = nat] by simp
  then have "unat (ucast offset + n) = unat offset + unat n"
    using assms(2) by (simp add: unat_word_ariths unat_ucast_up)
  moreover have "unat (of_nat (length (mi_bytes m)) :: u64) = length (mi_bytes m)"
    using assms(1) by (simp add: unsigned_of_nat take_bit_nat_eq_self)
  ultimately show ?thesis by (simp add: hasSize_def word_le_nat_alt)
qed

section \<open>Growing\<close>

lemma reslice_to_spare:
  assumes "length (sl_bytes b) + n \<le> sl_cap b" "set (sl_spare b) \<subseteq> {0}"
  shows "reslice_to b (length (sl_bytes b) + n) =
    Ok (b\<lparr>sl_bytes := sl_bytes b @ replicate n 0, sl_spare := drop n (sl_spare b)\<rparr>)"
proof -
  have "take n (sl_spare b) = replicate n 0"
    using assms by (intro replicate_eqI) (auto simp: sl_cap_def dest: in_set_takeD)
  with assms(1) show ?thesis by (simp add: reslice_to_def Let_def)
qed

lemma append_zeros_bytes:
  "sl_bytes (append_zeros growcap fresh b n) = sl_bytes b @ replicate n 0"
  "set (sl_spare b) \<subseteq> {0} \<Longrightarrow> set (sl_spare (append_zeros growcap fresh b n)) \<subseteq> {0}"
  by (auto simp: append_zeros_def dest: in_set_dropD)

lemma page_arith: "n mod 65536 = 0 \<Longrightarrow> 65536 * (n div 65536 + d) = n + 65536 * (d :: nat)"
proof -
  assume "n mod 65536 = 0"
  then have "65536 * (n div 65536) = n" using mult_div_mod_eq [of 65536 n] by (simp only: add_0_right)
  then show ?thesis by (simp only: distrib_left)
qed

lemma sint32_neg: "sint (w :: 32 word) < 0 \<longleftrightarrow> 2 ^ 31 \<le> unat w"
proof -
  have uw: "2 ^ 31 \<le> unat w \<longleftrightarrow> 2 ^ 31 \<le> uint w"
    using of_nat_le_iff [of "2 ^ 31" "unat w", where 'a = int] by simp
  have s: "sint w = signed_take_bit 31 (uint w)" by (simp add: sint_uint)
  show ?thesis
  proof (cases "uint w < 2 ^ 31")
    case True
    then have "sint w = uint w" unfolding s
      by (intro signed_take_bit_int_eq_self order.trans [OF _ uint_ge_0]) simp_all
    then show ?thesis unfolding uw using True by simp
  next
    case False
    have "bit (uint w) 31"
      unfolding bit_int_mod using False uint_bounded [of w] by simp
    then have "sint w < 0" unfolding s by (simp add: signed_take_bit_negative_iff)
    then show ?thesis unfolding uw using False by simp
  qed
qed

lemma Memory_Grow_Ok:
  assumes wf: "wf_mem m" and d: "delta \<noteq> 0"
    and fits: "unat (Memory_Pages m) + unat delta \<le> unat (mi_Max m)"
  shows "\<exists>m'. Memory_Grow reallocate growcap memoryGrown fresh m delta = Ok ((Memory_Pages m, True), m') \<and>
    wf_mem m' \<and> mi_bytes m' = mi_bytes m @ replicate (65536 * unat delta) 0 \<and> mi_Max m' = mi_Max m"
proof -
  let ?n = "length (mi_bytes m)" and ?p = "Memory_Pages m"
  have p: "unat ?p = ?n div 65536" using Memory_Pages_unat [OF wf_mem_length [OF wf]] .
  have max: "unat (mi_Max m) \<le> 65536" using wf by (simp add: wf_mem_def)
  have new: "unat (?p + delta) = unat ?p + unat delta" using fits max by (simp add: unat_word_ariths)
  have small: "unat delta \<le> 65536" using fits max by simp
  then have pos: "\<not> sint delta < 0" unfolding sint32_neg by simp
  have ok: "\<not> ?p + delta > mi_Max m" using fits new by (simp add: word_less_nat_alt)
  have nb: "unat (MemoryPagesToBytesNum (?p + delta)) = ?n + 65536 * unat delta"
    unfolding MemoryPagesToBytesNum_unat new p using wf by (intro page_arith) (simp add: wf_mem_def)
  have fit': "?n + 65536 * unat delta \<le> 65536 * unat (mi_Max m)"
    using nb fits unfolding MemoryPagesToBytesNum_unat new by simp
  have mod': "(?n + 65536 * unat delta) mod 65536 = 0" using wf by (simp add: wf_mem_def)
  let ?done = "\<lambda>m. Ok ((?p, True), m\<lparr>mi_ownerModuleEngine := memoryGrown (mi_ownerModuleEngine m)\<rparr>)"
  show ?thesis
  proof (cases "?p + delta > mi_Cap m")
    case True
    have ns: "\<not> mi_Shared m" using wf True ok by (auto simp: wf_mem_def)
    let ?b = "append_zeros growcap fresh (mi_Buffer m) (65536 * unat delta)"
    have "Memory_Grow reallocate growcap memoryGrown fresh m delta = ?done (m\<lparr>mi_Buffer := ?b, mi_Cap := ?p + delta\<rparr>)"
      using wf d ok pos True ns by (simp add: Memory_Grow_def Let_def wf_mem_def MemoryPagesToBytesNum_unat)
    moreover have "65536 * unat (?p + delta) = ?n + 65536 * unat delta"
      using nb by (simp add: MemoryPagesToBytesNum_unat)
    ultimately show ?thesis
      using wf ns fit' mod' max new fits append_zeros_bytes(2) [of "mi_Buffer m" growcap fresh "65536 * unat delta"]
      by (auto simp: wf_mem_def sl_cap_def append_zeros_bytes(1))
  next
    case False
    have "65536 * unat (?p + delta) \<le> 65536 * unat (mi_Cap m)" using False by (simp add: word_le_nat_alt not_less)
    then have c: "?n + 65536 * unat delta \<le> sl_cap (mi_Buffer m)"
      using wf nb by (simp add: wf_mem_def MemoryPagesToBytesNum_unat)
    let ?b = "(mi_Buffer m)\<lparr>sl_bytes := mi_bytes m @ replicate (65536 * unat delta) 0,
                sl_spare := drop (65536 * unat delta) (sl_spare (mi_Buffer m))\<rparr>"
    have "reslice_to (mi_Buffer m) (?n + 65536 * unat delta) = Ok ?b"
      using c wf by (intro reslice_to_spare) (auto simp: wf_mem_def)
    then have "Memory_Grow reallocate growcap memoryGrown fresh m delta = ?done (m\<lparr>mi_Buffer := ?b\<rparr>)"
      using wf d ok pos False by (simp add: Memory_Grow_def Let_def wf_mem_def nb)
    moreover have "wf_mem (m\<lparr>mi_Buffer := ?b, mi_ownerModuleEngine := memoryGrown (mi_ownerModuleEngine m)\<rparr>)"
      using wf c fit' mod' by (auto simp: wf_mem_def sl_cap_def dest: in_set_dropD)
    ultimately show ?thesis by simp
  qed
qed

lemma Memory_Grow_over:
  assumes "length (mi_bytes m) \<le> 2 ^ 32" and d: "delta \<noteq> 0"
    and big: "\<not> unat (Memory_Pages m) + unat delta \<le> unat (mi_Max m)"
  shows "Memory_Grow reallocate growcap memoryGrown fresh m delta = Ok ((0, False), m)"
proof -
  let ?p = "Memory_Pages m"
  have "unat ?p \<le> 65536" unfolding Memory_Pages_unat [OF assms(1)] using assms(1) by simp
  have "?p + delta > mi_Max m \<or> sint delta < 0"
  proof (cases "unat ?p + unat delta < 2 ^ 32")
    case True
    then have "unat (?p + delta) = unat ?p + unat delta" by (simp add: unat_word_ariths)
    then show ?thesis using big by (simp add: word_less_nat_alt)
  next
    case False
    then have "\<not> unat delta < 2 ^ 31" using \<open>unat ?p \<le> 65536\<close> by simp
    then show ?thesis unfolding sint32_neg by simp
  qed
  then show ?thesis using d by (simp add: Memory_Grow_def Let_def)
qed

lemma Memory_Grow_refused:
  assumes wf: "wf_mem m" and d: "delta \<noteq> 0"
    and big: "\<not> unat (Memory_Pages m) + unat delta \<le> unat (mi_Max m)"
  shows "Memory_Grow reallocate growcap memoryGrown fresh m delta = Ok ((0, False), m)"
  using Memory_Grow_over [OF wf_mem_length [OF wf] d big] .

text \<open>
  A memory of a host allocator: its buffer is the allocator's, with whole pages and within its maximum.
\<close>

definition host_mem :: "('alloc, 'eng) MemoryInstance \<Rightarrow> bool" where
  "host_mem m \<longleftrightarrow> mi_expBuffer m \<noteq> None \<and> length (mi_bytes m) mod 65536 = 0 \<and>
     length (mi_bytes m) \<le> 65536 * unat (mi_Max m) \<and> unat (mi_Max m) \<le> 65536"

lemma Memory_Grow_host:
  assumes host: "host_mem m" and e: "mi_expBuffer m = Some e" and d: "delta \<noteq> 0"
    and fits: "unat (Memory_Pages m) + unat delta \<le> unat (mi_Max m)"
    and r: "reallocate e (MemoryPagesToBytesNum (Memory_Pages m + delta)) = (Some b, e')"
    and len: "length (sl_bytes b) = unat (MemoryPagesToBytesNum (Memory_Pages m + delta))"
    and still: "mi_Shared m \<longrightarrow> sl_data b = sl_data (mi_Buffer m)"
  shows "\<exists>m'. Memory_Grow reallocate growcap memoryGrown fresh m delta = Ok ((Memory_Pages m, True), m') \<and>
    mi_Buffer m' = b \<and> mi_expBuffer m' = Some e' \<and> host_mem m' \<and> mi_Max m' = mi_Max m \<and>
    unat (Memory_Pages m') = unat (Memory_Pages m) + unat delta"
proof -
  let ?p = "Memory_Pages m"
  have max: "unat (mi_Max m) \<le> 65536" using host by (simp add: host_mem_def)
  have new: "unat (?p + delta) = unat ?p + unat delta" using fits max by (simp add: unat_word_ariths)
  have pos: "\<not> sint delta < 0" unfolding sint32_neg using fits max by simp
  have ok: "\<not> ?p + delta > mi_Max m" using fits new by (simp add: word_less_nat_alt)
  have len': "length (sl_bytes b) = 65536 * (unat ?p + unat delta)" using len by (simp add: MemoryPagesToBytesNum_unat new)
  obtain m' where m': "Memory_Grow reallocate growcap memoryGrown fresh m delta = Ok ((?p, True), m')"
    "mi_Buffer m' = b" "mi_expBuffer m' = Some e'" "mi_Max m' = mi_Max m"
    using e d ok pos r still by (cases "mi_Shared m") (auto simp: Memory_Grow_def Let_def)
  have "unat (Memory_Pages m') = unat ?p + unat delta"
    using Memory_Pages_unat [of m'] len' fits max by (simp add: m')
  moreover have "host_mem m'" using len' fits max by (simp add: host_mem_def m')
  ultimately show ?thesis using m' by blast
qed

lemma NewMemoryInstance_wf:
  assumes "mem_Min mt \<le> mem_Max mt" "mem_Max mt \<le> 65536" "mem_Min mt \<le> mem_Cap mt" "mem_Cap mt \<le> 65536"
  shows "\<exists>m. NewMemoryInstance reallocate fresh mt None eng = Ok m \<and> wf_mem m \<and>
    mi_bytes m = replicate (65536 * unat (mem_Min mt)) 0 \<and> mi_Max m = mem_Max mt"
proof -
  have u: "unat (mem_Min mt) \<le> unat (mem_Max mt)" "unat (mem_Max mt) \<le> 65536"
    "unat (mem_Min mt) \<le> unat (mem_Cap mt)" "unat (mem_Cap mt) \<le> 65536"
    using assms by (simp_all add: word_le_nat_alt)
  have c: "memoryBytesNumToPages (of_nat (65536 * unat p)) = p" if "unat p \<le> 65536" for p
  proof -
    have "unat (memoryBytesNumToPages (of_nat (65536 * unat p))) = unat p"
      using that by (subst memoryBytesNumToPages_of_nat) auto
    then show ?thesis by (simp only: unsigned_word_eqI)
  qed
  have c': "memoryBytesNumToPages (65536 * word_of_nat (unat p)) = p" if "unat p \<le> 65536" for p
    using c [OF that] by simp
  show ?thesis
    using u c [of "mem_Max mt"] c [of "mem_Cap mt"]
    by (auto simp: NewMemoryInstance_def Let_def make_bytes_def MemoryPagesToBytesNum_unat wf_mem_def sl_cap_def
        word_le_nat_alt)
qed

section \<open>Reading and writing\<close>

lemma LittleEndian_put_Ok:
  "i + n \<le> length bs \<Longrightarrow> LittleEndian_put n bs i v = Ok (copy_at bs i (le_put n v))"
  by (simp add: LittleEndian_put_def slice_from_def slice_to_def)

lemma LittleEndian_get_copied:
  assumes "i + n \<le> length bs" "8 * n = LENGTH('a)"
  shows "LittleEndian_get n (drop i (copy_at bs i (le_put n v))) = Ok (v :: 'a::len word)"
  using assms by (simp add: LittleEndian_get_def slice_to_def copy_at_fits le_get_put)

lemma mi_bytes_set_bytes [simp]: "mi_bytes (set_bytes bs m) = bs"
  by (simp add: set_bytes_def)

lemma Memory_write32_Ok:
  assumes "length (mi_bytes m) \<le> 2 ^ 32" "unat off + 4 \<le> length (mi_bytes m)"
  shows "Memory_WriteUint32Le m off v = Ok (True, set_bytes (copy_at (mi_bytes m) (unat off) (le_put 4 v)) m)"
    and "Memory_ReadUint32Le (set_bytes (copy_at (mi_bytes m) (unat off) (le_put 4 v)) m) off = Ok (Some v)"
  using assms LittleEndian_get_copied [of "unat off" 4 "mi_bytes m" v]
  by (simp_all add: Memory_WriteUint32Le_def Memory_writeUint32Le_def Memory_ReadUint32Le_def Memory_readUint32Le_def
      hasSize_iff LittleEndian_put_Ok slice_from_def)

lemma Memory_write64_Ok:
  assumes "length (mi_bytes m) \<le> 2 ^ 32" "unat off + 8 \<le> length (mi_bytes m)"
  shows "Memory_WriteUint64Le m off v = Ok (True, set_bytes (copy_at (mi_bytes m) (unat off) (le_put 8 v)) m)"
    and "Memory_ReadUint64Le (set_bytes (copy_at (mi_bytes m) (unat off) (le_put 8 v)) m) off = Ok (Some v)"
  using assms LittleEndian_get_copied [of "unat off" 8 "mi_bytes m" v]
  by (simp_all add: Memory_WriteUint64Le_def Memory_writeUint64Le_def Memory_ReadUint64Le_def Memory_readUint64Le_def
      hasSize_iff LittleEndian_put_Ok slice_from_def)

lemma Memory_write_out_of_range:
  assumes "length (mi_bytes m) \<le> 2 ^ 32"
  shows "\<not> unat off + 4 \<le> length (mi_bytes m) \<Longrightarrow>
      Memory_WriteUint32Le m off v = Ok (False, m) \<and> Memory_ReadUint32Le m off = Ok None"
    and "\<not> unat off + 8 \<le> length (mi_bytes m) \<Longrightarrow>
      Memory_WriteUint64Le m off w = Ok (False, m) \<and> Memory_ReadUint64Le m off = Ok None"
  using assms
  by (simp_all add: Memory_WriteUint32Le_def Memory_writeUint32Le_def Memory_ReadUint32Le_def Memory_readUint32Le_def
      Memory_WriteUint64Le_def Memory_writeUint64Le_def Memory_ReadUint64Le_def Memory_readUint64Le_def hasSize_iff)

lemma unat_add32: "unat a + unat b < 2 ^ 32 \<Longrightarrow> unat (a + b :: u32) = unat a + unat b"
  by (simp add: unat_word_ariths)

lemma Memory_Read_Ok:
  assumes "length (mi_bytes m) \<le> 2 ^ 32" "unat off + unat n \<le> length (mi_bytes m)" "unat off + unat n < 2 ^ 32"
  shows "Memory_Read m off n = Ok (Some (take (unat n) (drop (unat off) (mi_bytes m))))"
proof -
  have "unat n < 2 ^ 32" using unsigned_less [of n, where 'a = nat] by simp
  then show ?thesis
    using assms by (simp add: Memory_Read_def hasSize_iff unat_ucast_up unat_add32 slice_def)
qed

lemma Memory_Read_wraps:
  assumes "length (mi_bytes m) = 2 ^ 32" "n \<noteq> 0" "unat off + unat n = 2 ^ 32"
  shows "panics (Memory_Read m off n)"
proof -
  have un: "unat n < 2 ^ 32" using unsigned_less [of n, where 'a = nat] by simp
  have "unat (off + n) = 0" unfolding unat_word_ariths assms(3) by simp
  moreover have "unat off \<noteq> 0" using un assms(3) by auto
  moreover have "hasSize m off (ucast n)" using assms un by (simp add: hasSize_iff unat_ucast_up)
  ultimately show ?thesis by (simp add: Memory_Read_def slice_def)
qed

section \<open>Linear memories\<close>

text \<open>
  C22 (growing a memory). On a well-formed memory without a host allocator \<^verbatim>\<open>Grow\<close> never panics. Growing by zero changes
  nothing; growing within the maximum appends that many zero pages, keeps the contents and the
  invariant, and returns the previous size; any other request is refused with the memory
  unchanged, whatever \<open>uint32\<close> sum it overflows to.
\<close>

theorem Memory_Grow_spec:
  assumes "wf_mem m"
  shows "if delta = 0 then
           Memory_Grow reallocate growcap memoryGrown fresh m delta = Ok ((Memory_Pages m, True), m)
         else if unat (Memory_Pages m) + unat delta \<le> unat (mi_Max m) then
           \<exists>m'. Memory_Grow reallocate growcap memoryGrown fresh m delta = Ok ((Memory_Pages m, True), m') \<and>
             wf_mem m' \<and> mi_bytes m' = mi_bytes m @ replicate (65536 * unat delta) 0 \<and> mi_Max m' = mi_Max m
         else Memory_Grow reallocate growcap memoryGrown fresh m delta = Ok ((0, False), m)"
  using Memory_Grow_Ok [OF assms] Memory_Grow_refused [OF assms]
  by (simp add: Memory_Grow_def [of _ _ _ _ m 0] Let_def)

theorem Memory_Grow_spec_witness:
  "\<exists>m m'. NewMemoryInstance (\<lambda>_ _. (None, ())) 0
      \<lparr>mem_Min = 0, mem_Cap = 0, mem_Max = 2, mem_IsMaxEncoded = True, mem_IsShared = False\<rparr> None () = Ok m \<and>
    Memory_Grow (\<lambda>_ _. (None, ())) (\<lambda>_ n. n) id 1 m 1 = Ok ((0, True), m') \<and>
    mi_bytes m' = replicate 65536 0"
proof -
  let ?mt = "\<lparr>mem_Min = 0, mem_Cap = 0, mem_Max = 2, mem_IsMaxEncoded = True, mem_IsShared = False\<rparr>"
  obtain m where m: "NewMemoryInstance (\<lambda>_ _. (None, ())) 0 ?mt None () = Ok m" "wf_mem m"
    "mi_bytes m = []" "mi_Max m = 2"
    using NewMemoryInstance_wf [of ?mt "\<lambda>_ _. (None, ())" 0 "()"] by auto
  have p: "unat (Memory_Pages m) = 0" using Memory_Pages_unat [of m] m(3) by simp
  then have "Memory_Pages m = 0" by (simp only: unat_eq_0)
  then show ?thesis
    using Memory_Grow_spec [OF m(2), of 1 "\<lambda>_ _. (None, ())" "\<lambda>_ n. n" id 1] m p by auto
qed

text \<open>
  C23 (growing a memory of a host allocator). When the memory comes from an allocator whose \<^verbatim>\<open>Reallocate\<close> returns nil
  or a buffer of the requested length, growing by zero changes nothing and a request beyond the maximum is refused without asking
  the allocator. Any other request asks it for the new size: when it returns nil the request is refused and the buffer kept; when
  it moves a shared memory the call panics; otherwise its buffer becomes the memory, which then has exactly the requested number of
  pages more, and the previous size is returned.
\<close>

theorem Memory_Grow_allocator:
  assumes "host_mem m" "mi_expBuffer m = Some e"
    and "\<forall>size b e'. reallocate e size = (Some b, e') \<longrightarrow> length (sl_bytes b) = unat size"
  shows "if delta = 0 then
           Memory_Grow reallocate growcap memoryGrown fresh m delta = Ok ((Memory_Pages m, True), m)
         else if unat (Memory_Pages m) + unat delta \<le> unat (mi_Max m) then
           (case reallocate e (MemoryPagesToBytesNum (Memory_Pages m + delta)) of
              (None, e') \<Rightarrow> Memory_Grow reallocate growcap memoryGrown fresh m delta = Ok ((0, False), m\<lparr>mi_expBuffer := Some e'\<rparr>)
            | (Some b, e') \<Rightarrow>
                if mi_Shared m \<and> sl_data b \<noteq> sl_data (mi_Buffer m) then
                  panics (Memory_Grow reallocate growcap memoryGrown fresh m delta)
                else
                  \<exists>m'. Memory_Grow reallocate growcap memoryGrown fresh m delta = Ok ((Memory_Pages m, True), m') \<and>
                    mi_Buffer m' = b \<and> mi_expBuffer m' = Some e' \<and> host_mem m' \<and> mi_Max m' = mi_Max m \<and>
                    unat (Memory_Pages m') = unat (Memory_Pages m) + unat delta)
         else Memory_Grow reallocate growcap memoryGrown fresh m delta = Ok ((0, False), m)"
proof -
  let ?g = "Memory_Grow reallocate growcap memoryGrown fresh m delta" and ?p = "Memory_Pages m"
  have len: "length (mi_bytes m) \<le> 2 ^ 32" using assms(1) by (auto simp: host_mem_def)
  consider "delta = 0" | "delta \<noteq> 0" "\<not> unat ?p + unat delta \<le> unat (mi_Max m)"
    | "delta \<noteq> 0" "unat ?p + unat delta \<le> unat (mi_Max m)" by blast
  then show ?thesis
  proof cases
    case 1
    then show ?thesis by (simp add: Memory_Grow_def Let_def)
  next
    case 2
    then show ?thesis using Memory_Grow_over [OF len 2] by simp
  next
    case 3
    then have "unat (?p + delta) = unat ?p + unat delta" and "\<not> sint delta < 0"
      using assms(1) unfolding sint32_neg by (auto simp: host_mem_def unat_word_ariths)
    then have g: "?g = (case reallocate e (MemoryPagesToBytesNum (?p + delta)) of
        (None, e') \<Rightarrow> Ok ((0, False), m\<lparr>mi_expBuffer := Some e'\<rparr>)
      | (Some b, e') \<Rightarrow> if mi_Shared m \<and> sl_data b \<noteq> sl_data (mi_Buffer m) then Panic ''shared memory cannot move'' else ?g)"
      using 3 assms(2) by (auto simp: Memory_Grow_def Let_def word_less_nat_alt split: prod.splits option.splits)
    obtain o' e' where r: "reallocate e (MemoryPagesToBytesNum (?p + delta)) = (o', e')" by fastforce
    show ?thesis
    proof (cases o')
      case None
      then show ?thesis using 3 r g by simp
    next
      case (Some b)
      show ?thesis
      proof (cases "mi_Shared m \<and> sl_data b \<noteq> sl_data (mi_Buffer m)")
        case True
        then show ?thesis using 3 r g Some by simp
      next
        case False
        then show ?thesis
          using 3 r Some Memory_Grow_host [OF assms(1,2) 3, of reallocate b e' growcap memoryGrown fresh] assms(3) by auto
      qed
    qed
  qed
qed

theorem Memory_Grow_allocator_witness:
  "\<exists>m m' :: (nat, unit) MemoryInstance. 
     Memory_Grow (\<lambda>n size. (if unat size \<le> n then Some \<lparr>sl_data = 7, sl_bytes = replicate (unat size) 1, sl_spare = []\<rparr> else None, n))
       (\<lambda>_ n. n) id 1 m 1 = Ok ((0, True), m') \<and> length (mi_bytes m') = 65536 \<and>
     (\<exists>m2. Memory_Grow (\<lambda>n size. (if unat size \<le> n then Some \<lparr>sl_data = 7, sl_bytes = replicate (unat size) 1, sl_spare = []\<rparr> else None, n))
       (\<lambda>_ n. n) id 1 m 2 = Ok ((0, False), m2))"
proof -
  define m :: "(nat, unit) MemoryInstance" where "m =
    \<lparr>mi_Buffer = \<lparr>sl_data = 7, sl_bytes = [], sl_spare = []\<rparr>, mi_Min = 0, mi_Cap = 0, mi_Max = 3,
     mi_Shared = True, mi_ownerModuleEngine = (), mi_expBuffer = Some 65536\<rparr>"
  define re :: "nat \<Rightarrow> u64 \<Rightarrow> byteslice option \<times> nat" where "re = (\<lambda>n size.
    (if unat size \<le> n then Some \<lparr>sl_data = 7, sl_bytes = replicate (unat size) 1, sl_spare = []\<rparr> else None, n))"
  have h: "host_mem m" "mi_expBuffer m = Some 65536" by (simp_all add: host_mem_def m_def)
  have l: "\<forall>size b e'. re 65536 size = (Some b, e') \<longrightarrow> length (sl_bytes b) = unat size"
    by (auto simp: re_def split: if_splits)
  have p: "unat (Memory_Pages m) = 0" using Memory_Pages_unat [of m] by (simp add: m_def)
  then have "Memory_Pages m = 0" by (simp only: unat_eq_0)
  then have "\<exists>m'. Memory_Grow re (\<lambda>_ n. n) id 1 m 1 = Ok ((0, True), m') \<and> length (mi_bytes m') = 65536"
    "\<exists>m2. Memory_Grow re (\<lambda>_ n. n) id 1 m 2 = Ok ((0, False), m2)"
    using Memory_Grow_allocator [where reallocate = re and delta = 1 and growcap = "\<lambda>_ n. n" and memoryGrown = id and fresh = 1, OF h l]
      Memory_Grow_allocator [where reallocate = re and delta = 2 and growcap = "\<lambda>_ n. n" and memoryGrown = id and fresh = 1, OF h l]
    by (auto simp: re_def m_def MemoryPagesToBytesNum_unat)
  then show ?thesis unfolding re_def by blast
qed

text \<open>
  A new memory is well-formed. A memory type within the limits that \<^verbatim>\<open>Memory.Validate\<close> checks
  instantiates, without a panic, to a well-formed memory of its minimum size filled with zeros; a
  shared one has capacity for its maximum, so it never moves.
\<close>

theorem NewMemoryInstance_spec:
  assumes "mem_Min mt \<le> mem_Max mt" "mem_Max mt \<le> 65536" "mem_Min mt \<le> mem_Cap mt" "mem_Cap mt \<le> 65536"
  shows "\<exists>m. NewMemoryInstance reallocate fresh mt None eng = Ok m \<and> wf_mem m \<and>
    mi_bytes m = replicate (65536 * unat (mem_Min mt)) 0"
  using NewMemoryInstance_wf [OF assms, of reallocate fresh eng] by blast

theorem NewMemoryInstance_spec_witness:
  "\<exists>m. NewMemoryInstance (\<lambda>_ _. (None, ())) 0
      \<lparr>mem_Min = 1, mem_Cap = 1, mem_Max = 2, mem_IsMaxEncoded = True, mem_IsShared = True\<rparr> None () = Ok m \<and>
    wf_mem m \<and> mi_bytes m = replicate 65536 0"
  using NewMemoryInstance_spec [of "\<lparr>mem_Min = 1, mem_Cap = 1, mem_Max = 2, mem_IsMaxEncoded = True, mem_IsShared = True\<rparr>"
      "\<lambda>_ _. (None, ())" 0 "()"]
  by auto

text \<open>
  C30 (stores and loads). In a memory of at most 4 GiB, a 32-bit or 64-bit store succeeds exactly when
  all its bytes are in range, is read back by the load at the same offset, and changes no other
  byte; out of range both report failure and nothing changes.
\<close>

theorem Memory_store_load:
  assumes "length (mi_bytes m) \<le> 2 ^ 32"
  shows "(if unat off + 4 \<le> length (mi_bytes m) then
            \<exists>m'. Memory_WriteUint32Le m off v = Ok (True, m') \<and> Memory_ReadUint32Le m' off = Ok (Some v) \<and>
              length (mi_bytes m') = length (mi_bytes m) \<and>
              (\<forall>i < length (mi_bytes m). i < unat off \<or> unat off + 4 \<le> i \<longrightarrow> mi_bytes m' ! i = mi_bytes m ! i)
          else Memory_WriteUint32Le m off v = Ok (False, m) \<and> Memory_ReadUint32Le m off = Ok None) \<and>
         (if unat off + 8 \<le> length (mi_bytes m) then
            \<exists>m'. Memory_WriteUint64Le m off w = Ok (True, m') \<and> Memory_ReadUint64Le m' off = Ok (Some w) \<and>
              length (mi_bytes m') = length (mi_bytes m) \<and>
              (\<forall>i < length (mi_bytes m). i < unat off \<or> unat off + 8 \<le> i \<longrightarrow> mi_bytes m' ! i = mi_bytes m ! i)
          else Memory_WriteUint64Le m off w = Ok (False, m) \<and> Memory_ReadUint64Le m off = Ok None)"
  using Memory_write32_Ok [OF assms, of off v] Memory_write64_Ok [OF assms, of off w]
    Memory_write_out_of_range [OF assms, of off]
  by (auto simp: nth_copy_at)

theorem Memory_store_load_witness:
  "\<exists>m :: (unit, unit) MemoryInstance. mi_bytes m = replicate 8 0 \<and>
    (\<exists>m'. Memory_WriteUint32Le m 4 0x12345678 = Ok (True, m') \<and> Memory_ReadUint32Le m' 4 = Ok (Some 0x12345678)) \<and>
    Memory_WriteUint32Le m 5 0 = Ok (False, m)"
proof -
  define m :: "(unit, unit) MemoryInstance" where "m =
    \<lparr>mi_Buffer = \<lparr>sl_data = 0, sl_bytes = replicate 8 0, sl_spare = []\<rparr>, mi_Min = 0, mi_Cap = 0, mi_Max = 0,
     mi_Shared = False, mi_ownerModuleEngine = (), mi_expBuffer = None\<rparr>"
  then have "mi_bytes m = replicate 8 0" by simp
  then show ?thesis
    using Memory_store_load [of m 4 "0x12345678" 0] Memory_store_load [of m 5 0 0] by auto
qed

text \<open>
  C36 (reading up to the end of a 4 GiB memory panics). In a memory of the maximum 65536 pages,
  reading \<open>n > 0\<close> bytes that end at the very end of the memory passes the range check, but the 32-bit
  sum \<open>offset+byteCount\<close> of the slice expression wraps to 0 and the call panics; the interface
  promises the bytes.
\<close>

theorem Memory_Read_4GiB_panics:
  assumes "length (mi_bytes m) = 2 ^ 32" "n \<noteq> 0" "unat off + unat n = 2 ^ 32"
  shows "panics (Memory_Read m off n)"
  using assms by (rule Memory_Read_wraps)

theorem Memory_Read_4GiB_panics_witness:
  "\<exists>m :: (unit, unit) MemoryInstance. mi_bytes m = replicate (2 ^ 32) 0 \<and> panics (Memory_Read m 0xffffffff 1)"
proof -
  define m :: "(unit, unit) MemoryInstance" where "m =
    \<lparr>mi_Buffer = \<lparr>sl_data = 0, sl_bytes = replicate (2 ^ 32) 0, sl_spare = []\<rparr>, mi_Min = 65536, mi_Cap = 65536,
     mi_Max = 65536, mi_Shared = False, mi_ownerModuleEngine = (), mi_expBuffer = None\<rparr>"
  then have m: "mi_bytes m = replicate (2 ^ 32) 0" by simp
  then have "length (mi_bytes m) = 2 ^ 32" by (simp only: length_replicate)
  then show ?thesis using Memory_Read_4GiB_panics [of m 1 "0xffffffff"] m by auto
qed

end
