(* ===== verification/MemoryWait.thy ===== *)
theory MemoryWait
  imports Prelude
begin

text \<open>
  Atomic wait and notify of \<^verbatim>\<open>internal/wasm/memory.go\<close>. Each operation runs under the mutex of the
  waiters at its offset and is one step here; a \<^verbatim>\<open>ready\<close> channel is a number, and a caller that has
  released the mutex is blocked until its channel is closed or its timeout fires. \<open>wait_step\<close> is
  the interleaving of any number of callers.
\<close>

section \<open>Operations\<close>

text \<open>
  \<open>ws_waiters\<close> is the \<^verbatim>\<open>sync.Map\<close> from offsets to queues of channels, \<open>ws_next\<close> the next fresh
  channel, \<open>ws_closed\<close> the channels closed so far. A nil list and an empty one behave alike.
\<close>

record wait_state =
  ws_waiters :: "u32 \<rightharpoonup> nat list"
  ws_next :: nat
  ws_closed :: "nat list"

datatype wait_result = Returned u64 | Blocked nat

definition getWaiters :: "u32 \<Rightarrow> wait_state \<Rightarrow> nat list \<times> wait_state" where
  "getWaiters offset s =
     (case ws_waiters s offset of
        Some l \<Rightarrow> (l, s)
      | None \<Rightarrow> ([], s\<lparr>ws_waiters := (ws_waiters s)(offset \<mapsto> [])\<rparr>))"

definition wait_enqueue :: "u32 \<Rightarrow> nat list \<Rightarrow> wait_state \<Rightarrow> (wait_result \<times> wait_state) outcome" where
  "wait_enqueue offset l s =
     (if of_nat (length l + 1) = (2 ^ 32 :: u64) then Panic ''too many waiters''
      else Ok (Blocked (ws_next s),
               s\<lparr>ws_waiters := (ws_waiters s)(offset \<mapsto> l @ [ws_next s]), ws_next := ws_next s + 1\<rparr>))"

definition Wait32 :: "(u32 \<Rightarrow> u32) \<Rightarrow> u32 \<Rightarrow> u32 \<Rightarrow> wait_state \<Rightarrow> (wait_result \<times> wait_state) outcome" where
  "Wait32 reader offset exp s =
     (case getWaiters offset s of (l, s) \<Rightarrow>
        if reader offset \<noteq> exp then Ok (Returned 1, s) else wait_enqueue offset l s)"

definition Wait64 :: "(u32 \<Rightarrow> u64) \<Rightarrow> u32 \<Rightarrow> u64 \<Rightarrow> wait_state \<Rightarrow> (wait_result \<times> wait_state) outcome" where
  "Wait64 reader offset exp s =
     (case getWaiters offset s of (l, s) \<Rightarrow>
        if reader offset \<noteq> exp then Ok (Returned 1, s) else wait_enqueue offset l s)"

text \<open>How a blocked call ends: its channel is closed, or its timeout removes it from the queue.\<close>

definition wait_ready :: "nat \<Rightarrow> wait_state \<Rightarrow> u64 option" where
  "wait_ready ch s = (if ch \<in> set (ws_closed s) then Some 0 else None)"

definition wait_timeout :: "u32 \<Rightarrow> nat \<Rightarrow> wait_state \<Rightarrow> u64 \<times> wait_state" where
  "wait_timeout offset ch s =
     (2, s\<lparr>ws_waiters := (ws_waiters s)(offset \<mapsto>
            remove1 ch (case ws_waiters s offset of Some l \<Rightarrow> l | None \<Rightarrow> []))\<rparr>)"

fun Notify_loop :: "nat list \<Rightarrow> u32 \<Rightarrow> u32 \<Rightarrow> nat list \<Rightarrow> u32 \<times> nat list \<times> nat list" where
  "Notify_loop [] count res closed = (res, [], closed)"
| "Notify_loop (w # ws) count res closed =
     (if res < count then Notify_loop ws count (res + 1) (closed @ [w]) else (res, w # ws, closed))"

definition Notify :: "u32 \<Rightarrow> u32 \<Rightarrow> wait_state \<Rightarrow> u32 \<times> wait_state" where
  "Notify offset count s =
     (case ws_waiters s offset of
        None \<Rightarrow> (0, s)
      | Some l \<Rightarrow>
          (case Notify_loop l count 0 (ws_closed s) of (res, l', closed') \<Rightarrow>
             (res, s\<lparr>ws_waiters := (ws_waiters s)(offset \<mapsto> l'), ws_closed := closed'\<rparr>)))"

section \<open>Interleavings\<close>

text \<open>The callers that are blocked: their channel, their offset, and whether they have a timeout.\<close>

type_synonym blocked = "nat \<rightharpoonup> u32 \<times> bool"

inductive wait_step :: "wait_state \<times> blocked \<Rightarrow> wait_state \<times> blocked \<Rightarrow> bool" where
  wait: "Wait32 reader offset exp s = Ok (Blocked ch, s') \<Longrightarrow>
     wait_step (s, B) (s', B(ch \<mapsto> (offset, timed)))"
| wait64: "Wait64 reader64 offset exp64 s = Ok (Blocked ch, s') \<Longrightarrow>
     wait_step (s, B) (s', B(ch \<mapsto> (offset, timed)))"
| not_equal: "Wait32 reader offset exp s = Ok (Returned r, s') \<Longrightarrow> wait_step (s, B) (s', B)"
| not_equal64: "Wait64 reader64 offset exp64 s = Ok (Returned r, s') \<Longrightarrow> wait_step (s, B) (s', B)"
| notify: "Notify offset count s = (n, s') \<Longrightarrow> wait_step (s, B) (s', B)"
| ready: "B ch = Some (offset, timed) \<Longrightarrow> wait_ready ch s = Some 0 \<Longrightarrow> wait_step (s, B) (s, B(ch := None))"
| timeout: "B ch = Some (offset, True) \<Longrightarrow> wait_timeout offset ch s = (2, s') \<Longrightarrow>
     wait_step (s, B) (s', B(ch := None))"

definition init_wait :: wait_state where
  "init_wait = \<lparr>ws_waiters = Map.empty, ws_next = 0, ws_closed = []\<rparr>"

inductive wait_reachable :: "wait_state \<Rightarrow> blocked \<Rightarrow> bool" where
  init: "wait_reachable init_wait Map.empty"
| step: "wait_reachable s B \<Longrightarrow> wait_step (s, B) (s', B') \<Longrightarrow> wait_reachable s' B'"

definition queue :: "wait_state \<Rightarrow> u32 \<Rightarrow> nat list" where
  "queue s offset = (case ws_waiters s offset of Some l \<Rightarrow> l | None \<Rightarrow> [])"

definition wait_inv :: "wait_state \<Rightarrow> blocked \<Rightarrow> bool" where
  "wait_inv s B \<longleftrightarrow>
     (\<forall>ch \<in> dom B \<union> set (ws_closed s). ch < ws_next s) \<and>
     (\<forall>ch offset timed. B ch = Some (offset, timed) \<longrightarrow> ch \<in> set (ws_closed s) \<or> ch \<in> set (queue s offset)) \<and>
     (\<forall>offset. distinct (queue s offset) \<and>
        (\<forall>ch \<in> set (queue s offset). ch \<notin> set (ws_closed s) \<and> (\<exists>timed. B ch = Some (offset, timed))))"

lemma queue_getWaiters: "getWaiters offset s = (l, s1) \<Longrightarrow>
    l = queue s offset \<and> queue s1 = queue s \<and> ws_next s1 = ws_next s \<and> ws_closed s1 = ws_closed s"
  by (auto simp: getWaiters_def queue_def fun_eq_iff split: option.splits if_splits)

lemma wait_inv_cong: "queue s1 = queue s \<Longrightarrow> ws_next s1 = ws_next s \<Longrightarrow> ws_closed s1 = ws_closed s \<Longrightarrow>
    wait_inv s1 B = wait_inv s B"
  by (simp add: wait_inv_def)

lemma wait_inv_enqueue:
  assumes "wait_inv s B" "wait_enqueue offset (queue s offset) s = Ok (Blocked ch, s')"
  shows "wait_inv s' (B(ch \<mapsto> (offset, timed)))"
proof -
  have s': "ch = ws_next s" "ws_next s' = ws_next s + 1" "ws_closed s' = ws_closed s"
    "queue s' = (queue s)(offset := queue s offset @ [ch])"
    using assms(2) by (auto simp: wait_enqueue_def queue_def split: if_splits)
  have fresh: "ch \<notin> set (queue s off)" "ch \<notin> set (ws_closed s)" "B ch = None" for off
    using assms(1) unfolding wait_inv_def s'(1) by (metis UnI1 UnI2 domIff domI less_irrefl option.exhaust)+
  show ?thesis
    using assms(1) fresh unfolding wait_inv_def s' by (auto simp: less_Suc_eq)
qed

lemma Notify_loop_take:
  "unat res \<le> unat count \<Longrightarrow> Notify_loop l count res closed = (res', l', closed') \<Longrightarrow>
   (let n = min (unat count - unat res) (length l) in
      unat res' = unat res + n \<and> l' = drop n l \<and> closed' = closed @ take n l)"
proof (induction l count res closed rule: Notify_loop.induct)
  case (2 w ws count res closed)
  show ?case
  proof (cases "res < count")
    case True
    have "unat count < 2 ^ 32" using unsigned_less [of count, where 'a = nat] by simp
    then have u: "unat (res + 1) = unat res + 1" using True by (simp add: word_less_nat_alt unat_word_ariths)
    have c: "unat res < unat count" using True by (simp add: word_less_nat_alt)
    then have "min (unat count - unat res) (length (w # ws)) = Suc (min (unat count - unat (res + 1)) (length ws))"
      unfolding u by simp
    then show ?thesis using 2 True u c by (simp add: Let_def)
  next
    case False
    then have "unat res = unat count" using 2 by (simp add: word_less_nat_alt)
    then show ?thesis using 2 False by simp
  qed
qed auto

lemma Notify_take:
  assumes "Notify offset count s = (n, s')"
  shows "unat n = min (unat count) (length (queue s offset)) \<and>
    queue s' = (queue s)(offset := drop (unat n) (queue s offset)) \<and>
    ws_closed s' = ws_closed s @ take (unat n) (queue s offset) \<and> ws_next s' = ws_next s"
proof (cases "ws_waiters s offset")
  case None
  then show ?thesis using assms by (auto simp: Notify_def queue_def fun_eq_iff)
next
  case (Some l)
  obtain res l' closed' where *: "Notify_loop l count 0 (ws_closed s) = (res, l', closed')"
    by (metis prod_cases3)
  have t: "unat res = min (unat count) (length l)" "l' = drop (unat res) l" "closed' = ws_closed s @ take (unat res) l"
    using Notify_loop_take [OF _ *] by (auto simp: Let_def)
  show ?thesis using assms * t Some by (auto simp: Notify_def queue_def fun_eq_iff)
qed

lemma wait_inv_notify:
  assumes inv: "wait_inv s B" and "Notify offset count s = (n, s')"
  shows "wait_inv s' B"
proof -
  define T D where "T = take (unat n) (queue s offset)" and "D = drop (unat n) (queue s offset)"
  have s': "queue s' = (queue s)(offset := D)" "ws_closed s' = ws_closed s @ T" "ws_next s' = ws_next s"
    using Notify_take [OF assms(2)] by (simp_all add: T_def D_def)
  have q: "queue s offset = T @ D" by (simp add: T_def D_def)
  have d: "distinct (T @ D)" using inv by (simp add: wait_inv_def flip: q)
  have B: "\<exists>timed. B ch = Some (off, timed)" if "ch \<in> set (queue s off)" for ch off
    using inv that by (simp add: wait_inv_def)
  have nc: "ch \<notin> set (ws_closed s)" if "ch \<in> set (queue s off)" for ch off
    using inv that by (simp add: wait_inv_def)
  have other: "ch \<notin> set (queue s off)" if "ch \<in> set T" "off \<noteq> offset" for ch off
    using B [of ch off] B [of ch offset] that by (auto simp: q)
  have "\<forall>ch \<in> dom B \<union> set (ws_closed s'). ch < ws_next s'"
    using inv B [of _ offset] unfolding wait_inv_def s' q by (auto simp: dom_def)
  moreover have "\<forall>ch off timed. B ch = Some (off, timed) \<longrightarrow> ch \<in> set (ws_closed s') \<or> ch \<in> set (queue s' off)"
  proof (intro allI impI)
    fix ch off timed
    assume "B ch = Some (off, timed)"
    then have "ch \<in> set (ws_closed s) \<or> ch \<in> set (queue s off)" using inv unfolding wait_inv_def by blast
    then show "ch \<in> set (ws_closed s') \<or> ch \<in> set (queue s' off)"
      unfolding s' by (cases "off = offset") (auto simp: q)
  qed
  moreover have "distinct (queue s' off) \<and> (\<forall>ch \<in> set (queue s' off).
      ch \<notin> set (ws_closed s') \<and> (\<exists>timed. B ch = Some (off, timed)))" for off
  proof (cases "off = offset")
    case True
    then show ?thesis using d B [of _ offset] nc [of _ offset] unfolding s' by (auto simp: q)
  next
    case False
    then show ?thesis using inv other [OF _ False] unfolding wait_inv_def s' by auto
  qed
  ultimately show ?thesis by (simp add: wait_inv_def)
qed

lemma wait_inv_timeout:
  assumes "wait_inv s B" "B ch = Some (offset, timed)" "wait_timeout offset ch s = (r, s')"
  shows "wait_inv s' (B(ch := None))"
proof -
  have s': "ws_next s' = ws_next s" "ws_closed s' = ws_closed s"
    "queue s' = (queue s)(offset := remove1 ch (queue s offset))"
    using assms(3) by (auto simp: wait_timeout_def queue_def fun_eq_iff)
  have other: "ch \<notin> set (queue s off)" if "off \<noteq> offset" for off
    using assms(1,2) that unfolding wait_inv_def by (metis Pair_inject option.inject)
  have "set (remove1 ch (queue s offset)) = set (queue s offset) - {ch}"
    using assms(1) by (intro set_remove1_eq) (simp add: wait_inv_def)
  then show ?thesis
    using assms(1) other unfolding wait_inv_def s' by (auto simp: distinct_remove1)
qed

lemma wait_inv_ready:
  assumes "wait_inv s B" "B ch = Some (offset, timed)" "wait_ready ch s = Some 0"
  shows "wait_inv s (B(ch := None))"
  using assms unfolding wait_inv_def wait_ready_def by (auto split: if_splits)

lemma Wait_cases:
  assumes "Wait32 reader offset exp s = Ok (r, s') \<or> Wait64 reader64 offset exp64 s = Ok (r, s')"
  obtains s1 where "queue s1 = queue s" "ws_next s1 = ws_next s" "ws_closed s1 = ws_closed s"
    "r = Returned 1 \<and> s' = s1 \<or> wait_enqueue offset (queue s1 offset) s1 = Ok (r, s')"
proof -
  obtain l s1 where g: "getWaiters offset s = (l, s1)" by fastforce
  have "r = Returned 1 \<and> s' = s1 \<or> wait_enqueue offset l s1 = Ok (r, s')"
    using assms by (auto simp: Wait32_def Wait64_def g split: if_splits)
  with queue_getWaiters [OF g] that [of s1] show ?thesis by simp
qed

lemma wait_inv_Wait:
  assumes "Wait32 reader offset exp s = Ok (r, s') \<or> Wait64 reader64 offset exp64 s = Ok (r, s')" "wait_inv s B"
  shows "case r of Returned _ \<Rightarrow> wait_inv s' B | Blocked ch \<Rightarrow> wait_inv s' (B(ch \<mapsto> (offset, timed)))"
  using assms(1)
proof (rule Wait_cases)
  fix s1
  assume "queue s1 = queue s" "ws_next s1 = ws_next s" "ws_closed s1 = ws_closed s"
  then have "wait_inv s1 B" using assms(2) wait_inv_cong by blast
  moreover assume "r = Returned 1 \<and> s' = s1 \<or> wait_enqueue offset (queue s1 offset) s1 = Ok (r, s')"
  ultimately show ?thesis
    using wait_inv_enqueue [of s1 B offset _ s' timed]
    by (cases r) (auto simp: wait_enqueue_def split: if_splits)
qed

lemma wait_inv_step: "wait_step (s, B) (s', B') \<Longrightarrow> wait_inv s B \<Longrightarrow> wait_inv s' B'"
proof (induction "(s, B)" "(s', B')" rule: wait_step.induct)
  case (wait reader offset exp ch timed)
  then show ?case using wait_inv_Wait [where r = "Blocked ch"] by fastforce
next
  case (wait64 reader64 offset exp64 ch timed)
  then show ?case using wait_inv_Wait [where r = "Blocked ch"] by fastforce
next
  case (not_equal reader offset exp r)
  then show ?case using wait_inv_Wait [where r = "Returned r"] by fastforce
next
  case (not_equal64 reader64 offset exp64 r)
  then show ?case using wait_inv_Wait [where r = "Returned r"] by fastforce
next
  case (notify offset count n)
  then show ?case using wait_inv_notify by blast
next
  case (ready ch offset timed)
  then show ?case using wait_inv_ready by blast
next
  case (timeout ch offset)
  then show ?case using wait_inv_timeout by blast
qed

lemma wait_inv_reachable: "wait_reachable s B \<Longrightarrow> wait_inv s B"
proof (induction rule: wait_reachable.induct)
  case init
  then show ?case by (simp add: wait_inv_def init_wait_def queue_def)
next
  case (step s B s' B')
  then show ?case using wait_inv_step by blast
qed

section \<open>Wait and notify\<close>

text \<open>
  C25 (the queues hold the blocked callers). Whatever the interleaving of waits, notifications, time-outs and returns, a blocked
  caller is either still in the queue of its offset or has had its channel closed, and a queue holds blocked callers whose channel
  is open, each once. So a notification whose count covers the queue of its offset makes every caller blocked there ready to
  return 0, and a caller without a time-out stops waiting only after a notification closed its channel. A caller with a time-out
  may still return 2 after a notification has counted it, since the time-out has priority.
\<close>

theorem wait_queued_or_ready:
  assumes "wait_reachable s B"
  shows "(\<forall>ch offset timed. B ch = Some (offset, timed) \<longrightarrow>
            wait_ready ch s = Some 0 \<or> ch \<in> set (queue s offset)) \<and>
         (\<forall>offset. distinct (queue s offset) \<and>
            (\<forall>ch \<in> set (queue s offset). wait_ready ch s = None \<and> (\<exists>timed. B ch = Some (offset, timed)))) \<and>
         (\<forall>offset count n s'. Notify offset count s = (n, s') \<longrightarrow> length (queue s offset) \<le> unat count \<longrightarrow>
            queue s' offset = [] \<and> (\<forall>ch timed. B ch = Some (offset, timed) \<longrightarrow> wait_ready ch s' = Some 0)) \<and>
         (\<forall>ch offset s' B'. B ch = Some (offset, False) \<longrightarrow> wait_step (s, B) (s', B') \<longrightarrow> B' ch = None \<longrightarrow>
            wait_ready ch s = Some 0)"
proof (intro conjI)
  note inv = wait_inv_reachable [OF assms]
  show "\<forall>ch offset timed. B ch = Some (offset, timed) \<longrightarrow> wait_ready ch s = Some 0 \<or> ch \<in> set (queue s offset)"
    "\<forall>offset. distinct (queue s offset) \<and>
       (\<forall>ch \<in> set (queue s offset). wait_ready ch s = None \<and> (\<exists>timed. B ch = Some (offset, timed)))"
    using inv by (auto simp: wait_inv_def wait_ready_def)
  show "\<forall>offset count n s'. Notify offset count s = (n, s') \<longrightarrow> length (queue s offset) \<le> unat count \<longrightarrow>
      queue s' offset = [] \<and> (\<forall>ch timed. B ch = Some (offset, timed) \<longrightarrow> wait_ready ch s' = Some 0)"
  proof (intro allI impI)
    fix offset count n s'
    assume n: "Notify offset count s = (n, s')" and "length (queue s offset) \<le> unat count"
    then have q: "queue s' offset = []" using Notify_take [OF n] by simp
    moreover have "wait_inv s' B" using wait_inv_notify [OF inv n] .
    ultimately show "queue s' offset = [] \<and> (\<forall>ch timed. B ch = Some (offset, timed) \<longrightarrow> wait_ready ch s' = Some 0)"
      by (fastforce simp: wait_inv_def wait_ready_def)
  qed
  show "\<forall>ch offset s' B'. B ch = Some (offset, False) \<longrightarrow> wait_step (s, B) (s', B') \<longrightarrow> B' ch = None \<longrightarrow>
      wait_ready ch s = Some 0"
    by (auto elim!: wait_step.cases split: if_splits)
qed

theorem wait_queued_or_ready_witness:
  "\<exists>s s'. Wait32 (\<lambda>_. 5) 8 5 init_wait = Ok (Blocked 0, s) \<and> 0 \<in> set (queue s 8) \<and>
     Notify 8 1 s = (1, s') \<and> wait_ready 0 s = None \<and> wait_ready 0 s' = Some 0"
proof -
  obtain s where s: "Wait32 (\<lambda>_. 5) 8 5 init_wait = Ok (Blocked 0, s)" "ws_closed s = []" "queue s 8 = [0]"
    by (simp add: Wait32_def getWaiters_def wait_enqueue_def init_wait_def queue_def)
  obtain n s' where n: "Notify 8 1 s = (n, s')" by fastforce
  then have "unat n = 1" using Notify_take [OF n] s(3) by simp
  then have "n = 1" by (metis unat_1 unsigned_word_eqI)
  have "wait_reachable s [0 \<mapsto> (8, False)]"
    using wait_reachable.step [OF wait_reachable.init wait_step.wait [OF s(1)]] .
  note w = wait_queued_or_ready [OF this]
  have "wait_ready 0 s' = Some 0"
    using conjunct1 [OF conjunct2 [OF conjunct2 [OF w]], rule_format, of 8 1 n s'] n s(3)
    by (auto split: if_splits)
  then show ?thesis using s n \<open>n = 1\<close> by (auto simp: wait_ready_def)
qed

text \<open>
  C32 (notify wakes the longest waiting). \<^verbatim>\<open>Notify\<close> closes the channels of the first \<open>min count len\<close>
  callers in the queue of its offset, in the order they arrived, returns their number, and leaves
  the others, and the queues of other offsets, as they were.
\<close>

theorem Notify_fifo:
  assumes "Notify offset count s = (n, s')"
  shows "unat n = min (unat count) (length (queue s offset)) \<and>
    ws_closed s' = ws_closed s @ take (unat n) (queue s offset) \<and>
    queue s' = (queue s)(offset := drop (unat n) (queue s offset))"
  using Notify_take [OF assms] by blast

theorem Notify_fifo_witness:
  "\<exists>s'. Notify 8 1 \<lparr>ws_waiters = [8 \<mapsto> [3, 4]], ws_next = 5, ws_closed = []\<rparr> = (1, s') \<and>
     ws_closed s' = [3] \<and> queue s' 8 = [4]"
proof -
  let ?s = "\<lparr>ws_waiters = [8 \<mapsto> [3, 4]], ws_next = 5, ws_closed = []\<rparr>"
  obtain s' where "Notify 8 1 ?s = (1, s')" by (simp add: Notify_def)
  with Notify_fifo [OF this] show ?thesis by (auto simp: queue_def [of ?s])
qed

end
