(* ===== verification/TypeEquivalence.thy ===== *)
theory TypeEquivalence
  imports ModuleTypes
begin

text \<open>
  Structural equivalence of function types and subtyping of references (\<^verbatim>\<open>internal/wasm/module.go\<close>).
  The source compares rec groups under the coinductive assumption recorded in \<open>visited\<close>; the
  specification is the largest relation closed under unfolding. Pointer equality of the two
  modules is the argument \<open>same\<close>.
\<close>

section \<open>The comparison of the source\<close>

type_synonym visited = "(u32 \<times> u32) list"
type_synonym type_cmp = "u32 \<Rightarrow> u32 \<Rightarrow> visited \<Rightarrow> (bool \<times> visited) outcome"

definition groupOf :: "Module \<Rightarrow> u32 \<Rightarrow> (u32 \<times> u32) outcome" where
  "groupOf module t =
     bindO (index (TypeSection module) (unat t)) (\<lambda>ft.
       let size = (of_nat (ft_RecGroupSize ft) :: u32)
       in if size \<le> 1 then Ok (t, 1) else Ok (t - of_nat (ft_RecGroupPosition ft), size))"

definition valueTypesEquivalent :: "type_cmp \<Rightarrow> ValueType \<Rightarrow> ValueType \<Rightarrow> visited \<Rightarrow> (bool \<times> visited) outcome" where
  "valueTypesEquivalent cmp x y v =
     (if IsConcreteRef x \<and> IsConcreteRef y then
        if IsNullable x \<noteq> IsNullable y then Ok (False, v) else cmp (TypeIndex x) (TypeIndex y) v
      else Ok (x = y, v))"

fun valueTypeListsEquivalent :: "type_cmp \<Rightarrow> ValueType list \<Rightarrow> ValueType list \<Rightarrow> visited \<Rightarrow> (bool \<times> visited) outcome" where
  "valueTypeListsEquivalent cmp (x # xs) (y # ys) v =
     bindO (valueTypesEquivalent cmp x y v) (\<lambda>(b, v').
       if \<not> b then Ok (False, v') else valueTypeListsEquivalent cmp xs ys v')"
| "valueTypeListsEquivalent cmp _ _ v = Ok (True, v)"

fun groupMembersEquivalent :: "type_cmp \<Rightarrow> Module \<Rightarrow> Module \<Rightarrow> u32 \<Rightarrow> u32 \<Rightarrow> nat list \<Rightarrow> visited \<Rightarrow> (bool \<times> visited) outcome" where
  "groupMembersEquivalent cmp mx my gxs gys [] v = Ok (True, v)"
| "groupMembersEquivalent cmp mx my gxs gys (i # is) v =
     bindO (index (TypeSection mx) (unat (gxs + of_nat i))) (\<lambda>ftx.
     bindO (index (TypeSection my) (unat (gys + of_nat i))) (\<lambda>fty.
       if length (ft_Params ftx) \<noteq> length (ft_Params fty) \<or> length (ft_Results ftx) \<noteq> length (ft_Results fty)
       then Ok (False, v)
       else
         bindO (valueTypeListsEquivalent cmp (ft_Params ftx) (ft_Params fty) v) (\<lambda>(b, v).
           if \<not> b then Ok (False, v)
           else bindO (valueTypeListsEquivalent cmp (ft_Results ftx) (ft_Results fty) v) (\<lambda>(b, v).
             if \<not> b then Ok (False, v)
             else groupMembersEquivalent cmp mx my gxs gys is v))))"

primrec functionTypesEquivalent :: "nat \<Rightarrow> bool \<Rightarrow> Module \<Rightarrow> Module \<Rightarrow> type_cmp" where
  "functionTypesEquivalent 0 same mx my x y v = Panic ''out of fuel''"
| "functionTypesEquivalent (Suc fuel) same mx my x y v =
     (if x = y \<and> same then Ok (True, v)
      else
        bindO (groupOf mx x) (\<lambda>(gxs, gxsSize).
        bindO (groupOf my y) (\<lambda>(gys, gysSize).
          if gxsSize \<noteq> gysSize then Ok (False, v)
          else if x - gxs \<noteq> y - gys then Ok (False, v)
          else if (gxs, gys) \<in> set v then Ok (True, v)
          else groupMembersEquivalent (functionTypesEquivalent fuel same mx my) mx my gxs gys
                 [0..<unat gxsSize] ((gxs, gys) # v))))"

text \<open>
  A fuel of one more than the number of pairs of types is enough: every nested call adds a pair
  to \<open>visited\<close>.
\<close>

definition equivalenceFuel :: "Module \<Rightarrow> Module \<Rightarrow> nat" where
  "equivalenceFuel mx my = length (TypeSection mx) * length (TypeSection my) + 1"

definition structurallyEquivalentTypesAcrossModules ::
    "bool \<Rightarrow> Module option \<Rightarrow> Module option \<Rightarrow> u32 \<Rightarrow> u32 \<Rightarrow> bool outcome" where
  "structurallyEquivalentTypesAcrossModules same mx my x y =
     (case (mx, my) of
        (Some mx, Some my) \<Rightarrow>
          if unat x \<ge> length (TypeSection mx) \<or> unat y \<ge> length (TypeSection my) then Ok False
          else bindO (functionTypesEquivalent (equivalenceFuel mx my) same mx my x y []) (\<lambda>(b, _). Ok b)
      | _ \<Rightarrow> Ok False)"

definition valueTypesEquivalentAcrossModules ::
    "bool \<Rightarrow> Module option \<Rightarrow> Module option \<Rightarrow> ValueType \<Rightarrow> ValueType \<Rightarrow> bool outcome" where
  "valueTypesEquivalentAcrossModules same mx my x y =
     (if IsConcreteRef x \<or> IsConcreteRef y then
        case (mx, my) of
          (Some mx, Some my) \<Rightarrow>
            bindO (valueTypesEquivalent (functionTypesEquivalent (equivalenceFuel mx my) same mx my) x y []) (\<lambda>(b, _). Ok b)
        | _ \<Rightarrow> Ok False
      else Ok (x = y))"

definition structurallyEquivalentTypes :: "Module \<Rightarrow> u32 \<Rightarrow> u32 \<Rightarrow> bool outcome" where
  "structurallyEquivalentTypes m x y = structurallyEquivalentTypesAcrossModules True (Some m) (Some m) x y"

definition isRefSubtypeOf :: "Module \<Rightarrow> ValueType \<Rightarrow> ValueType \<Rightarrow> bool outcome" where
  "isRefSubtypeOf m actual expected =
     (if actual = expected then Ok True
      else if AsNullable actual = AsNullable expected \<and> IsNullable expected then Ok True
      else if IsConcreteRef actual \<and> IsConcreteRef expected then
        if IsNullable actual \<and> \<not> IsNullable expected then Ok False
        else structurallyEquivalentTypes m (TypeIndex actual) (TypeIndex expected)
      else if IsConcreteRef actual \<and> \<not> IsConcreteRef expected \<and> Kind expected = Kind ValueTypeFuncref \<and>
           (\<not> IsNullable actual \<or> IsNullable expected) then Ok True
      else Ok False)"

definition areRefTypesCompatible :: "Module \<Rightarrow> ValueType \<Rightarrow> ValueType \<Rightarrow> bool outcome" where
  "areRefTypesCompatible m a b =
     bindO (isRefSubtypeOf m a b) (\<lambda>r. if r then Ok True else isRefSubtypeOf m b a)"

definition isRefSubtypeOfAcrossModules ::
    "bool \<Rightarrow> Module \<Rightarrow> Module option \<Rightarrow> ValueType \<Rightarrow> ValueType \<Rightarrow> bool outcome" where
  "isRefSubtypeOfAcrossModules same ma me actual expected =
     (if IsConcreteRef actual \<or> IsConcreteRef expected then
        if IsConcreteRef actual \<and> IsConcreteRef expected then
          if IsNullable actual \<and> \<not> IsNullable expected then Ok False
          else structurallyEquivalentTypesAcrossModules same (Some ma) me (TypeIndex actual) (TypeIndex expected)
        else if IsConcreteRef actual \<and> Kind expected = Kind ValueTypeFuncref \<and>
             (\<not> IsNullable actual \<or> IsNullable expected) then Ok True
        else Ok False
      else isRefSubtypeOf ma actual expected)"

section \<open>Well-formed type sections\<close>

definition typeAt :: "Module \<Rightarrow> u32 \<Rightarrow> FunctionType" where
  "typeAt m t = TypeSection m ! unat t"

definition inRange :: "Module \<Rightarrow> u32 \<Rightarrow> bool" where
  "inRange m t \<longleftrightarrow> unat t < length (TypeSection m)"

definition group :: "Module \<Rightarrow> u32 \<Rightarrow> u32 \<times> u32" where
  "group m t =
     (if (of_nat (ft_RecGroupSize (typeAt m t)) :: u32) \<le> 1 then (t, 1)
      else (t - of_nat (ft_RecGroupPosition (typeAt m t)), of_nat (ft_RecGroupSize (typeAt m t))))"

definition wf_value_type :: "Module \<Rightarrow> ValueType \<Rightarrow> bool" where
  "wf_value_type m v \<longleftrightarrow> (IsConcreteRef v \<longrightarrow> inRange m (TypeIndex v))"

definition wf_types :: "Module \<Rightarrow> bool" where
  "wf_types m \<longleftrightarrow> length (TypeSection m) < 2 ^ 32 \<and>
     (\<forall>ft \<in> set (TypeSection m). list_all (wf_value_type m) (ft_Params ft @ ft_Results ft)) \<and>
     (\<forall>t. inRange m t \<longrightarrow>
        t - fst (group m t) < snd (group m t) \<and> group m (fst (group m t)) = group m t \<and>
        unat (fst (group m t)) + unat (snd (group m t)) \<le> length (TypeSection m))"

lemma groupOf_Ok: "inRange m t \<Longrightarrow> groupOf m t = Ok (group m t)"
  by (simp add: groupOf_def inRange_def index_def group_def typeAt_def Let_def)

lemma wf_types_refs:
  assumes "wf_types m" "inRange m t"
  shows "v \<in> set (ft_Params (typeAt m t)) \<union> set (ft_Results (typeAt m t)) \<Longrightarrow> wf_value_type m v"
  using assms nth_mem [of "unat t" "TypeSection m"]
  unfolding wf_types_def inRange_def typeAt_def list_all_iff by fastforce

lemma wf_types_member:
  assumes "wf_types m" "inRange m t" "i < unat (snd (group m t))"
  shows "inRange m (fst (group m t) + of_nat i)"
proof -
  have b: "unat (fst (group m t)) + unat (snd (group m t)) < 2 ^ 32"
    using assms(1,2) unfolding wf_types_def by fastforce
  then have "unat (fst (group m t) + of_nat i) = unat (fst (group m t)) + i"
    using assms(3) by (simp add: unat_word_ariths unsigned_of_nat take_bit_nat_eq_self)
  then show ?thesis using assms unfolding wf_types_def inRange_def by fastforce
qed

section \<open>The specification\<close>

definition vt_rel :: "(u32 \<Rightarrow> u32 \<Rightarrow> bool) \<Rightarrow> ValueType \<Rightarrow> ValueType \<Rightarrow> bool" where
  "vt_rel R x y \<longleftrightarrow>
     (if IsConcreteRef x \<and> IsConcreteRef y then IsNullable x = IsNullable y \<and> R (TypeIndex x) (TypeIndex y) else x = y)"

definition sig_rel :: "(u32 \<Rightarrow> u32 \<Rightarrow> bool) \<Rightarrow> FunctionType \<Rightarrow> FunctionType \<Rightarrow> bool" where
  "sig_rel R f g \<longleftrightarrow> list_all2 (vt_rel R) (ft_Params f) (ft_Params g) \<and> list_all2 (vt_rel R) (ft_Results f) (ft_Results g)"

definition same_place :: "Module \<Rightarrow> Module \<Rightarrow> u32 \<Rightarrow> u32 \<Rightarrow> bool" where
  "same_place mx my x y \<longleftrightarrow> inRange mx x \<and> inRange my y \<and>
     snd (group mx x) = snd (group my y) \<and> x - fst (group mx x) = y - fst (group my y)"

definition group_rel :: "Module \<Rightarrow> Module \<Rightarrow> (u32 \<Rightarrow> u32 \<Rightarrow> bool) \<Rightarrow> u32 \<Rightarrow> u32 \<Rightarrow> nat \<Rightarrow> bool" where
  "group_rel mx my R gx gy n \<longleftrightarrow> (\<forall>i < n. sig_rel R (typeAt mx (gx + of_nat i)) (typeAt my (gy + of_nat i)))"

text \<open>
  One unfolding: the types are the same type of the same module, or stand at the same place of
  rec groups of the same size whose members have related signatures.
\<close>

definition unfolds :: "bool \<Rightarrow> Module \<Rightarrow> Module \<Rightarrow> (u32 \<Rightarrow> u32 \<Rightarrow> bool) \<Rightarrow> u32 \<Rightarrow> u32 \<Rightarrow> bool" where
  "unfolds same mx my R x y \<longleftrightarrow> same \<and> x = y \<or>
     same_place mx my x y \<and> group_rel mx my R (fst (group mx x)) (fst (group my y)) (unat (snd (group mx x)))"

definition type_equiv :: "bool \<Rightarrow> Module \<Rightarrow> Module \<Rightarrow> u32 \<Rightarrow> u32 \<Rightarrow> bool" where
  "type_equiv same mx my x y \<longleftrightarrow> (\<exists>R. (\<forall>x y. R x y \<longrightarrow> unfolds same mx my R x y) \<and> R x y)"

lemma vt_rel_mono: "vt_rel R x y \<Longrightarrow> (\<And>a b. R a b \<Longrightarrow> S a b) \<Longrightarrow> vt_rel S x y"
  by (auto simp: vt_rel_def split: if_splits)

lemma sig_rel_mono: "sig_rel R f g \<Longrightarrow> (\<And>a b. R a b \<Longrightarrow> S a b) \<Longrightarrow> sig_rel S f g"
  unfolding sig_rel_def by (blast intro: list_all2_mono vt_rel_mono)

lemma group_rel_mono: "group_rel mx my R gx gy n \<Longrightarrow> (\<And>a b. R a b \<Longrightarrow> S a b) \<Longrightarrow> group_rel mx my S gx gy n"
  unfolding group_rel_def by (blast intro: sig_rel_mono)

lemma unfolds_mono: "unfolds same mx my R x y \<Longrightarrow> (\<And>a b. R a b \<Longrightarrow> S a b) \<Longrightarrow> unfolds same mx my S x y"
  unfolding unfolds_def by (blast intro: group_rel_mono)

lemma type_equiv_unfold: "type_equiv same mx my x y \<Longrightarrow> unfolds same mx my (type_equiv same mx my) x y"
proof -
  assume "type_equiv same mx my x y"
  then obtain R where R: "\<forall>x y. R x y \<longrightarrow> unfolds same mx my R x y" "R x y" by (auto simp: type_equiv_def)
  have "R a b \<Longrightarrow> type_equiv same mx my a b" for a b using R(1) by (auto simp: type_equiv_def)
  with R show ?thesis using unfolds_mono by blast
qed

lemma type_equiv_coinduct:
  "R x y \<Longrightarrow> (\<And>x y. R x y \<Longrightarrow> unfolds same mx my R x y) \<Longrightarrow> type_equiv same mx my x y"
  unfolding type_equiv_def by blast

section \<open>Soundness: what was visited is a bisimulation\<close>

definition assumed :: "bool \<Rightarrow> Module \<Rightarrow> Module \<Rightarrow> (u32 \<times> u32) set \<Rightarrow> u32 \<Rightarrow> u32 \<Rightarrow> bool" where
  "assumed same mx my V x y \<longleftrightarrow> same \<and> x = y \<or>
     same_place mx my x y \<and> (fst (group mx x), fst (group my y)) \<in> V"

definition justified :: "bool \<Rightarrow> Module \<Rightarrow> Module \<Rightarrow> (u32 \<times> u32) set \<Rightarrow> u32 \<times> u32 \<Rightarrow> bool" where
  "justified same mx my V p \<longleftrightarrow>
     group_rel mx my (assumed same mx my V) (fst p) (snd p) (unat (snd (group mx (fst p))))"

definition extends :: "bool \<Rightarrow> Module \<Rightarrow> Module \<Rightarrow> visited \<Rightarrow> visited \<Rightarrow> bool" where
  "extends same mx my v v' \<longleftrightarrow> set v \<subseteq> set v' \<and> (\<forall>p \<in> set v' - set v. justified same mx my (set v') p)"

lemma assumed_mono: "assumed same mx my V x y \<Longrightarrow> V \<subseteq> W \<Longrightarrow> assumed same mx my W x y"
  by (auto simp: assumed_def)

lemma justified_mono: "justified same mx my V p \<Longrightarrow> V \<subseteq> W \<Longrightarrow> justified same mx my W p"
  unfolding justified_def by (erule group_rel_mono) (erule assumed_mono)

lemma extends_refl [simp]: "extends same mx my v v"
  by (simp add: extends_def)

lemma extends_trans: "extends same mx my u v \<Longrightarrow> extends same mx my v w \<Longrightarrow> extends same mx my u w"
  unfolding extends_def by (blast intro: justified_mono)

lemma extends_subset: "extends same mx my v v' \<Longrightarrow> set v \<subseteq> set v'"
  by (simp add: extends_def)

definition sound_cmp :: "bool \<Rightarrow> Module \<Rightarrow> Module \<Rightarrow> type_cmp \<Rightarrow> bool" where
  "sound_cmp same mx my cmp \<longleftrightarrow>
     (\<forall>x y v v'. inRange mx x \<longrightarrow> inRange my y \<longrightarrow> cmp x y v = Ok (True, v') \<longrightarrow>
        extends same mx my v v' \<and> assumed same mx my (set v') x y)"

lemma assumed_lists_mono:
  "list_all2 (vt_rel (assumed same mx my V)) xs ys \<Longrightarrow> V \<subseteq> W \<Longrightarrow> list_all2 (vt_rel (assumed same mx my W)) xs ys"
  by (erule list_all2_mono, erule vt_rel_mono) (erule assumed_mono)

lemma sound_value:
  assumes "sound_cmp same mx my cmp" "wf_value_type mx x" "wf_value_type my y"
    "valueTypesEquivalent cmp x y v = Ok (True, v')"
  shows "extends same mx my v v' \<and> vt_rel (assumed same mx my (set v')) x y"
proof (cases "IsConcreteRef x \<and> IsConcreteRef y")
  case True
  then have "inRange mx (TypeIndex x)" "inRange my (TypeIndex y)" using assms(2,3) by (auto simp: wf_value_type_def)
  moreover have "IsNullable x = IsNullable y" "cmp (TypeIndex x) (TypeIndex y) v = Ok (True, v')"
    using assms(4) True by (auto simp: valueTypesEquivalent_def split: if_splits)
  ultimately show ?thesis using assms(1) True unfolding sound_cmp_def vt_rel_def by auto
next
  case False
  then show ?thesis using assms(4) by (auto simp: valueTypesEquivalent_def vt_rel_def)
qed

lemma sound_lists:
  assumes "sound_cmp same mx my cmp"
  shows "length xs = length ys \<Longrightarrow> list_all (wf_value_type mx) xs \<Longrightarrow> list_all (wf_value_type my) ys \<Longrightarrow>
    valueTypeListsEquivalent cmp xs ys v = Ok (True, v') \<Longrightarrow>
    extends same mx my v v' \<and> list_all2 (vt_rel (assumed same mx my (set v'))) xs ys"
proof (induction xs ys arbitrary: v rule: list_induct2)
  case (Cons x xs y ys)
  from Cons.prems obtain v1 where v1: "valueTypesEquivalent cmp x y v = Ok (True, v1)"
    "valueTypeListsEquivalent cmp xs ys v1 = Ok (True, v')"
    by (auto simp: bindO_Ok_iff split: if_splits)
  from v1(1) Cons.prems have e: "extends same mx my v v1" "vt_rel (assumed same mx my (set v1)) x y"
    using sound_value [OF assms] by auto
  from Cons.IH [OF _ _ v1(2)] Cons.prems
  have IH: "extends same mx my v1 v'" "list_all2 (vt_rel (assumed same mx my (set v'))) xs ys" by auto
  have "vt_rel (assumed same mx my (set v')) x y"
    using e(2) by (rule vt_rel_mono) (rule assumed_mono [OF _ extends_subset [OF IH(1)]])
  with e(1) IH show ?case by (auto intro: extends_trans)
qed simp

lemma sound_members:
  assumes "sound_cmp same mx my cmp" "wf_types mx" "wf_types my"
  shows "(\<forall>i \<in> set is. inRange mx (gx + of_nat i) \<and> inRange my (gy + of_nat i)) \<Longrightarrow>
    groupMembersEquivalent cmp mx my gx gy is v = Ok (True, v') \<Longrightarrow>
    extends same mx my v v' \<and> (\<forall>i \<in> set is.
      sig_rel (assumed same mx my (set v')) (typeAt mx (gx + of_nat i)) (typeAt my (gy + of_nat i)))"
proof (induction "is" arbitrary: v)
  case (Cons i "is")
  let ?f = "typeAt mx (gx + of_nat i)" and ?g = "typeAt my (gy + of_nat i)"
  have r: "inRange mx (gx + of_nat i)" "inRange my (gy + of_nat i)" using Cons.prems(1) by auto
  have wf: "list_all (wf_value_type mx) (ft_Params ?f)" "list_all (wf_value_type mx) (ft_Results ?f)"
    "list_all (wf_value_type my) (ft_Params ?g)" "list_all (wf_value_type my) (ft_Results ?g)"
    using wf_types_refs [OF assms(2) r(1)] wf_types_refs [OF assms(3) r(2)] by (auto simp: list_all_iff)
  from Cons.prems(2) r obtain v1 v2 where l: "length (ft_Params ?f) = length (ft_Params ?g)"
      "length (ft_Results ?f) = length (ft_Results ?g)"
    and v1: "valueTypeListsEquivalent cmp (ft_Params ?f) (ft_Params ?g) v = Ok (True, v1)"
    and v2: "valueTypeListsEquivalent cmp (ft_Results ?f) (ft_Results ?g) v1 = Ok (True, v2)"
    and rest: "groupMembersEquivalent cmp mx my gx gy is v2 = Ok (True, v')"
    by (auto simp: bindO_Ok_iff inRange_def index_def typeAt_def split: if_splits)
  note p = sound_lists [OF assms(1) l(1) wf(1,3) v1] and q = sound_lists [OF assms(1) l(2) wf(2,4) v2]
  from Cons.IH [OF _ rest] Cons.prems(1) have IH: "extends same mx my v2 v'"
    "\<forall>i \<in> set is. sig_rel (assumed same mx my (set v')) (typeAt mx (gx + of_nat i)) (typeAt my (gy + of_nat i))"
    by auto
  have sub: "set v1 \<subseteq> set v'" "set v2 \<subseteq> set v'" using q IH(1) extends_subset by blast+
  have "sig_rel (assumed same mx my (set v')) ?f ?g"
    unfolding sig_rel_def
    using assumed_lists_mono [OF conjunct2 [OF p] sub(1)] assumed_lists_mono [OF conjunct2 [OF q] sub(2)] by blast
  with p q IH show ?case by (auto intro: extends_trans)
qed simp

lemma sound_functionTypesEquivalent:
  assumes "wf_types mx" "wf_types my"
  shows "sound_cmp same mx my (functionTypesEquivalent fuel same mx my)"
proof (induction fuel)
  case 0
  then show ?case by (simp add: sound_cmp_def)
next
  case (Suc fuel)
  show ?case unfolding sound_cmp_def
  proof (intro allI impI)
    fix x y v v'
    assume r: "inRange mx x" "inRange my y"
      and ok: "functionTypesEquivalent (Suc fuel) same mx my x y v = Ok (True, v')"
    let ?gx = "fst (group mx x)" and ?gy = "fst (group my y)" and ?n = "unat (snd (group mx x))"
    show "extends same mx my v v' \<and> assumed same mx my (set v') x y"
    proof (cases "x = y \<and> same")
      case True
      then show ?thesis using ok by (auto simp: assumed_def)
    next
      case False
      then have pl: "same_place mx my x y"
        using ok r by (auto simp: groupOf_Ok same_place_def split_def split: if_splits)
      show ?thesis
      proof (cases "(?gx, ?gy) \<in> set v")
        case True
        then have "v' = v" using ok r False by (auto simp: groupOf_Ok split_def split: if_splits)
        with True pl show ?thesis by (simp add: assumed_def)
      next
        case new: False
        then have m: "groupMembersEquivalent (functionTypesEquivalent fuel same mx my) mx my ?gx ?gy [0..<?n] ((?gx, ?gy) # v)
            = Ok (True, v')"
          using ok r False by (auto simp: groupOf_Ok split_def split: if_splits)
        have "\<forall>i \<in> set [0..<?n]. inRange mx (?gx + of_nat i) \<and> inRange my (?gy + of_nat i)"
          using wf_types_member [OF assms(1) r(1)] wf_types_member [OF assms(2) r(2)] pl
          by (auto simp: same_place_def)
        from sound_members [OF Suc.IH assms this m]
        have e: "extends same mx my ((?gx, ?gy) # v) v'" and
          s: "group_rel mx my (assumed same mx my (set v')) ?gx ?gy ?n"
          by (auto simp: group_rel_def)
        have "group mx ?gx = group mx x" using assms(1) r(1) by (auto simp: wf_types_def)
        with s have "justified same mx my (set v') (?gx, ?gy)" by (simp add: justified_def)
        with e have "extends same mx my v v'" by (auto simp: extends_def)
        moreover have "(?gx, ?gy) \<in> set v'" using e by (auto simp: extends_def)
        ultimately show ?thesis using pl by (simp add: assumed_def)
      qed
    qed
  qed
qed

lemma functionTypesEquivalent_sound:
  assumes "wf_types mx" "wf_types my" "inRange mx x" "inRange my y"
    and "functionTypesEquivalent fuel same mx my x y [] = Ok (True, v')"
  shows "type_equiv same mx my x y"
proof -
  have e: "extends same mx my [] v'" "assumed same mx my (set v') x y"
    using sound_functionTypesEquivalent [OF assms(1,2)] assms(3-5) by (auto simp: sound_cmp_def)
  show ?thesis
  proof (rule type_equiv_coinduct [of "assumed same mx my (set v')"])
    show "assumed same mx my (set v') x y" by fact
    fix a b
    assume "assumed same mx my (set v') a b"
    then consider "same \<and> a = b" | "same_place mx my a b" "(fst (group mx a), fst (group my b)) \<in> set v'"
      by (auto simp: assumed_def)
    then show "unfolds same mx my (assumed same mx my (set v')) a b"
    proof cases
      case 2
      then have "justified same mx my (set v') (fst (group mx a), fst (group my b))"
        using e(1) by (simp add: extends_def)
      moreover have "group mx (fst (group mx a)) = group mx a"
        using 2(1) assms(1) by (auto simp: same_place_def wf_types_def)
      ultimately show ?thesis using 2(1) by (simp add: unfolds_def justified_def)
    qed (simp add: unfolds_def)
  qed
qed

section \<open>Completeness: equivalent types are never told apart\<close>

definition complete_cmp :: "bool \<Rightarrow> Module \<Rightarrow> Module \<Rightarrow> type_cmp \<Rightarrow> bool" where
  "complete_cmp same mx my cmp \<longleftrightarrow>
     (\<forall>x y v b v'. cmp x y v = Ok (b, v') \<longrightarrow> type_equiv same mx my x y \<longrightarrow> b)"

lemma complete_lists:
  assumes "complete_cmp same mx my cmp"
  shows "list_all2 (vt_rel (type_equiv same mx my)) xs ys \<Longrightarrow>
    valueTypeListsEquivalent cmp xs ys v = Ok (b, v') \<Longrightarrow> b"
proof (induction xs ys arbitrary: v rule: list_all2_induct)
  case (Cons x xs y ys)
  from Cons.prems obtain b1 v1 where v1: "valueTypesEquivalent cmp x y v = Ok (b1, v1)"
    "(if \<not> b1 then Ok (False, v1) else valueTypeListsEquivalent cmp xs ys v1) = Ok (b, v')"
    by (auto simp: bindO_Ok_iff)
  have c: "cmp (TypeIndex x) (TypeIndex y) v = Ok (b1, v1) \<Longrightarrow> type_equiv same mx my (TypeIndex x) (TypeIndex y) \<Longrightarrow> b1"
    using assms unfolding complete_cmp_def by blast
  have b1
    using v1(1) Cons.hyps(1) c unfolding valueTypesEquivalent_def vt_rel_def
    by (auto split: if_splits)
  with v1(2) Cons.IH show ?case by simp
qed simp

lemma complete_members:
  assumes "complete_cmp same mx my cmp"
  shows "(\<forall>i \<in> set is. sig_rel (type_equiv same mx my) (typeAt mx (gx + of_nat i)) (typeAt my (gy + of_nat i))) \<Longrightarrow>
    groupMembersEquivalent cmp mx my gx gy is v = Ok (b, v') \<Longrightarrow> b"
proof (induction "is" arbitrary: v)
  case (Cons i "is")
  let ?f = "typeAt mx (gx + of_nat i)" and ?g = "typeAt my (gy + of_nat i)"
  have s: "list_all2 (vt_rel (type_equiv same mx my)) (ft_Params ?f) (ft_Params ?g)"
    "list_all2 (vt_rel (type_equiv same mx my)) (ft_Results ?f) (ft_Results ?g)"
    using Cons.prems(1) by (auto simp: sig_rel_def)
  have l: "length (ft_Params ?f) = length (ft_Params ?g)" "length (ft_Results ?f) = length (ft_Results ?g)"
    using s list_all2_lengthD by blast+
  from Cons.prems(2) l obtain b1 v1 b2 v2 where
    v1: "valueTypeListsEquivalent cmp (ft_Params ?f) (ft_Params ?g) v = Ok (b1, v1)" and
    v2: "b1 \<longrightarrow> valueTypeListsEquivalent cmp (ft_Results ?f) (ft_Results ?g) v1 = Ok (b2, v2)" and
    rest: "b1 \<longrightarrow> (if \<not> b2 then Ok (False, v2) else groupMembersEquivalent cmp mx my gx gy is v2) = Ok (b, v')"
    by (auto simp: bindO_Ok_iff index_Ok_iff typeAt_def split: if_splits)
  have b1 using complete_lists [OF assms s(1) v1] .
  moreover have b2 using complete_lists [OF assms s(2)] v2 \<open>b1\<close> by blast
  ultimately show ?case using rest Cons.IH Cons.prems(1) by simp
qed simp

lemma complete_functionTypesEquivalent: "complete_cmp same mx my (functionTypesEquivalent fuel same mx my)"
proof (induction fuel)
  case 0
  then show ?case by (simp add: complete_cmp_def)
next
  case (Suc fuel)
  show ?case unfolding complete_cmp_def
  proof (intro allI impI)
    fix x y v b v'
    assume ok: "functionTypesEquivalent (Suc fuel) same mx my x y v = Ok (b, v')"
      and eq: "type_equiv same mx my x y"
    show b
    proof (cases "x = y \<and> same")
      case True
      then show ?thesis using ok by simp
    next
      case False
      then have pl: "same_place mx my x y" and
        g: "group_rel mx my (type_equiv same mx my) (fst (group mx x)) (fst (group my y)) (unat (snd (group mx x)))"
        using type_equiv_unfold [OF eq] by (auto simp: unfolds_def)
      show ?thesis
      proof (cases "(fst (group mx x), fst (group my y)) \<in> set v")
        case True
        then show ?thesis using ok pl False by (auto simp: groupOf_Ok same_place_def split_def split: if_splits)
      next
        case new: False
        then have "groupMembersEquivalent (functionTypesEquivalent fuel same mx my) mx my (fst (group mx x))
            (fst (group my y)) [0..<unat (snd (group mx x))] ((fst (group mx x), fst (group my y)) # v) = Ok (b, v')"
          using ok pl False by (auto simp: groupOf_Ok same_place_def split_def split: if_splits)
        from complete_members [OF Suc.IH _ this] g show ?thesis by (auto simp: group_rel_def)
      qed
    qed
  qed
qed

section \<open>Totality: the fuel suffices\<close>

definition pairs :: "Module \<Rightarrow> Module \<Rightarrow> (u32 \<times> u32) set" where
  "pairs mx my = Collect (inRange mx) \<times> Collect (inRange my)"

lemma finite_pairs [simp]: "finite (pairs mx my)"
  by (simp add: pairs_def)

lemma card_pairs: "card (pairs mx my) \<le> length (TypeSection mx) * length (TypeSection my)"
proof -
  have "card (Collect (inRange m)) \<le> length (TypeSection m)" for m
  proof -
    have "inj_on unat (Collect (inRange m))" by (rule inj_onI) (rule unsigned_word_eqI)
    moreover have "unat ` Collect (inRange m) \<subseteq> {..<length (TypeSection m)}" by (auto simp: inRange_def)
    ultimately show ?thesis by (metis card_image card_lessThan card_mono finite_lessThan)
  qed
  then show ?thesis by (simp add: pairs_def card_cartesian_product mult_le_mono)
qed

definition total_cmp :: "Module \<Rightarrow> Module \<Rightarrow> nat \<Rightarrow> type_cmp \<Rightarrow> bool" where
  "total_cmp mx my n cmp \<longleftrightarrow>
     (\<forall>x y v. inRange mx x \<longrightarrow> inRange my y \<longrightarrow> card (pairs mx my - set v) < n \<longrightarrow>
        (\<exists>b v'. cmp x y v = Ok (b, v') \<and> set v \<subseteq> set v'))"

lemma card_less_mono: "set v \<subseteq> set v' \<Longrightarrow> card (pairs mx my - set v) < n \<Longrightarrow> card (pairs mx my - set v') < n"
  by (rule le_less_trans [OF card_mono]) auto

lemma total_value:
  assumes "total_cmp mx my n cmp" "wf_value_type mx x" "wf_value_type my y" "card (pairs mx my - set v) < n"
  shows "\<exists>b v'. valueTypesEquivalent cmp x y v = Ok (b, v') \<and> set v \<subseteq> set v'"
  using assms unfolding total_cmp_def valueTypesEquivalent_def wf_value_type_def by auto

lemma total_lists:
  assumes "total_cmp mx my n cmp"
  shows "list_all (wf_value_type mx) xs \<Longrightarrow> list_all (wf_value_type my) ys \<Longrightarrow> card (pairs mx my - set v) < n \<Longrightarrow>
    \<exists>b v'. valueTypeListsEquivalent cmp xs ys v = Ok (b, v') \<and> set v \<subseteq> set v'"
proof (induction xs ys arbitrary: v rule: list_induct2')
  case (4 x xs y ys)
  obtain b1 v1 where v1: "valueTypesEquivalent cmp x y v = Ok (b1, v1)" "set v \<subseteq> set v1"
    using total_value [OF assms, of x y v] "4.prems" by auto
  then have "card (pairs mx my - set v1) < n" using card_less_mono "4.prems"(3) by blast
  then obtain b2 v2 where "valueTypeListsEquivalent cmp xs ys v1 = Ok (b2, v2)" "set v1 \<subseteq> set v2"
    using "4.IH" [of v1] "4.prems" by auto
  with v1 show ?case by (cases b1) auto
qed auto

lemma total_members:
  assumes "total_cmp mx my n cmp" "wf_types mx" "wf_types my"
  shows "(\<forall>i \<in> set is. inRange mx (gx + of_nat i) \<and> inRange my (gy + of_nat i)) \<Longrightarrow>
    card (pairs mx my - set v) < n \<Longrightarrow>
    \<exists>b v'. groupMembersEquivalent cmp mx my gx gy is v = Ok (b, v') \<and> set v \<subseteq> set v'"
proof (induction "is" arbitrary: v)
  case (Cons i "is")
  let ?f = "typeAt mx (gx + of_nat i)" and ?g = "typeAt my (gy + of_nat i)"
  have r: "inRange mx (gx + of_nat i)" "inRange my (gy + of_nat i)" using Cons.prems(1) by auto
  have wf: "list_all (wf_value_type mx) (ft_Params ?f)" "list_all (wf_value_type mx) (ft_Results ?f)"
    "list_all (wf_value_type my) (ft_Params ?g)" "list_all (wf_value_type my) (ft_Results ?g)"
    using wf_types_refs [OF assms(2) r(1)] wf_types_refs [OF assms(3) r(2)] by (auto simp: list_all_iff)
  obtain b1 v1 where v1: "valueTypeListsEquivalent cmp (ft_Params ?f) (ft_Params ?g) v = Ok (b1, v1)" "set v \<subseteq> set v1"
    using total_lists [OF assms(1) wf(1,3) Cons.prems(2)] by blast
  have c1: "card (pairs mx my - set v1) < n" using card_less_mono [OF v1(2) Cons.prems(2)] .
  obtain b2 v2 where v2: "valueTypeListsEquivalent cmp (ft_Results ?f) (ft_Results ?g) v1 = Ok (b2, v2)" "set v1 \<subseteq> set v2"
    using total_lists [OF assms(1) wf(2,4) c1] by blast
  have c2: "card (pairs mx my - set v2) < n" using card_less_mono [OF v2(2) c1] .
  obtain b3 v3 where v3: "groupMembersEquivalent cmp mx my gx gy is v2 = Ok (b3, v3)" "set v2 \<subseteq> set v3"
    using Cons.IH [OF _ c2] Cons.prems(1) by auto
  have ix: "index (TypeSection mx) (unat (gx + of_nat i)) = Ok ?f" "index (TypeSection my) (unat (gy + of_nat i)) = Ok ?g"
    using r by (simp_all add: inRange_def index_def typeAt_def)
  show ?case using v1 v2 v3 by (cases b1; cases b2) (auto simp: ix)
qed auto

lemma total_functionTypesEquivalent:
  assumes "wf_types mx" "wf_types my"
  shows "total_cmp mx my fuel (functionTypesEquivalent fuel same mx my)"
proof (induction fuel)
  case 0
  then show ?case by (simp add: total_cmp_def)
next
  case (Suc fuel)
  show ?case unfolding total_cmp_def
  proof (intro allI impI)
    fix x y v
    assume r: "inRange mx x" "inRange my y" and c: "card (pairs mx my - set v) < Suc fuel"
    let ?p = "(fst (group mx x), fst (group my y))" and ?n = "unat (snd (group mx x))"
    show "\<exists>b v'. functionTypesEquivalent (Suc fuel) same mx my x y v = Ok (b, v') \<and> set v \<subseteq> set v'"
    proof (cases "x = y \<and> same \<or> \<not> same_place mx my x y \<or> ?p \<in> set v")
      case True
      then show ?thesis using r by (auto simp: groupOf_Ok same_place_def split_def)
    next
      case False
      then have pl: "same_place mx my x y" and new: "?p \<notin> set v" by auto
      have mem: "\<forall>i \<in> set [0..<?n]. inRange mx (fst ?p + of_nat i) \<and> inRange my (snd ?p + of_nat i)"
        using wf_types_member [OF assms(1) r(1)] wf_types_member [OF assms(2) r(2)] pl
        by (auto simp: same_place_def)
      have "0 < ?n" using assms(1) r(1) unfolding wf_types_def by (auto simp: word_less_nat_alt)
      then have "?p \<in> pairs mx my" using mem by (auto simp: pairs_def dest: bspec [of _ _ 0])
      then have "card (pairs mx my - set (?p # v)) < card (pairs mx my - set v)"
        using new by (intro psubset_card_mono) auto
      then have "card (pairs mx my - set (?p # v)) < fuel" using c by simp
      from total_members [OF Suc.IH assms mem this] obtain b v' where
        "groupMembersEquivalent (functionTypesEquivalent fuel same mx my) mx my (fst ?p) (snd ?p) [0..<?n] (?p # v) = Ok (b, v')"
        "set (?p # v) \<subseteq> set v'" by blast
      then show ?thesis using r False by (auto simp: groupOf_Ok same_place_def split_def)
    qed
  qed
qed

lemma functionTypesEquivalent_decides:
  assumes "wf_types mx" "wf_types my" "inRange mx x" "inRange my y"
  shows "\<exists>v'. functionTypesEquivalent (equivalenceFuel mx my) same mx my x y [] = Ok (type_equiv same mx my x y, v')"
proof -
  have "card (pairs mx my - set []) < equivalenceFuel mx my"
    using card_pairs [of mx my] by (simp add: equivalenceFuel_def)
  then obtain b v' where r: "functionTypesEquivalent (equivalenceFuel mx my) same mx my x y [] = Ok (b, v')"
    using total_functionTypesEquivalent [OF assms(1,2)] assms(3,4) unfolding total_cmp_def by blast
  have "b \<longleftrightarrow> type_equiv same mx my x y"
    using complete_functionTypesEquivalent r functionTypesEquivalent_sound [OF assms] unfolding complete_cmp_def by metis
  with r show ?thesis by simp
qed

section \<open>Equivalence and subtyping within a module\<close>

lemma same_place_sym: "same_place mx my x y \<Longrightarrow> same_place my mx y x"
  by (auto simp: same_place_def)

lemma same_place_trans: "same_place mx my x y \<Longrightarrow> same_place my mz y z \<Longrightarrow> same_place mx mz x z"
  by (auto simp: same_place_def)

lemma sig_rel_conversep: "sig_rel R f g \<Longrightarrow> sig_rel (R\<inverse>\<inverse>) g f"
  unfolding sig_rel_def
  by (auto simp: list_all2_conv_all_nth vt_rel_def split: if_splits)

lemma vt_rel_compp: "vt_rel R x y \<Longrightarrow> vt_rel S y z \<Longrightarrow> vt_rel (R OO S) x z"
  unfolding vt_rel_def by (auto split: if_splits)

lemma sig_rel_compp: "sig_rel R f g \<Longrightarrow> sig_rel S g h \<Longrightarrow> sig_rel (R OO S) f h"
  unfolding sig_rel_def by (blast intro: list_all2_trans [rotated] vt_rel_compp)

lemma type_equiv_sym: "type_equiv same mx my x y \<Longrightarrow> type_equiv same my mx y x"
proof (rule type_equiv_coinduct [of "(type_equiv same mx my)\<inverse>\<inverse>"])
  fix a b
  assume "(type_equiv same mx my)\<inverse>\<inverse> a b"
  then have "unfolds same mx my (type_equiv same mx my) b a" by (simp add: type_equiv_unfold)
  then show "unfolds same my mx ((type_equiv same mx my)\<inverse>\<inverse>) a b"
    unfolding unfolds_def group_rel_def
    by (auto intro: same_place_sym sig_rel_conversep simp: same_place_def)
qed simp

lemma type_equiv_trans:
  assumes "type_equiv True m m x y" "type_equiv True m m y z"
  shows "type_equiv True m m x z"
proof (rule type_equiv_coinduct [of "type_equiv True m m OO type_equiv True m m"])
  show "(type_equiv True m m OO type_equiv True m m) x z" using assms by blast
  fix a c
  assume "(type_equiv True m m OO type_equiv True m m) a c"
  then obtain b where ab: "type_equiv True m m a b" and bc: "type_equiv True m m b c" by blast
  have refl: "type_equiv True m m a a" for a
    by (rule type_equiv_coinduct [of "(=)"]) (auto simp: unfolds_def)
  have le: "R a b \<Longrightarrow> R = type_equiv True m m \<Longrightarrow> (type_equiv True m m OO type_equiv True m m) a b" for R a b
    using refl by blast
  consider "a = b" | "b = c" | "same_place m m a b" "same_place m m b c"
    "group_rel m m (type_equiv True m m) (fst (group m a)) (fst (group m b)) (unat (snd (group m a)))"
    "group_rel m m (type_equiv True m m) (fst (group m b)) (fst (group m c)) (unat (snd (group m b)))"
    using type_equiv_unfold [OF ab] type_equiv_unfold [OF bc] unfolding unfolds_def by blast
  then show "unfolds True m m (type_equiv True m m OO type_equiv True m m) a c"
  proof cases
    case 1
    then show ?thesis using unfolds_mono [OF type_equiv_unfold [OF bc]] le by blast
  next
    case 2
    then show ?thesis using unfolds_mono [OF type_equiv_unfold [OF ab]] le by blast
  next
    case 3
    then have "snd (group m a) = snd (group m b)" by (simp add: same_place_def)
    then show ?thesis
      using 3 same_place_trans [OF 3(1,2)] sig_rel_compp unfolding unfolds_def group_rel_def by fastforce
  qed
qed

lemma type_equiv_refl: "type_equiv True m m x x"
  by (rule type_equiv_coinduct [of "(=)"]) (auto simp: unfolds_def)

lemma structurallyEquivalentTypes_iff:
  assumes "wf_types m"
  shows "structurallyEquivalentTypes m x y = Ok (inRange m x \<and> inRange m y \<and> type_equiv True m m x y)"
proof (cases "inRange m x \<and> inRange m y")
  case True
  then show ?thesis
    using functionTypesEquivalent_decides [OF assms assms, of x y True]
    by (auto simp: structurallyEquivalentTypes_def structurallyEquivalentTypesAcrossModules_def inRange_def not_le)
next
  case False
  then show ?thesis
    by (auto simp: structurallyEquivalentTypes_def structurallyEquivalentTypesAcrossModules_def inRange_def not_less)
qed

lemma AsNullable_keeps [simp]:
  "IsConcreteRef (AsNullable v) = IsConcreteRef v" "TypeIndex (AsNullable v) = TypeIndex v" "Kind (AsNullable v) = Kind v"
proof -
  have b: "bit (AsNullable v) n \<longleftrightarrow> bit v n \<and> n \<noteq> 8" for n
    using bit_exp_iff [of 8 n, where 'a = int] bit_imp_le_length [of v n]
    by (auto simp: AsNullable_def bit_simps)
  have c: "IsConcreteRef w \<longleftrightarrow> bit w 9" for w
    using and_exp_eq_0_iff_not_bit [of w 9] by (simp add: IsConcreteRef_def)
  show "IsConcreteRef (AsNullable v) = IsConcreteRef v" by (simp add: c b)
  show "TypeIndex (AsNullable v) = TypeIndex v"
    unfolding TypeIndex_def by (rule bit_word_eqI) (auto simp: bit_simps b)
  show "Kind (AsNullable v) = Kind v"
    unfolding Kind_def by (rule bit_word_eqI) (auto simp: bit_simps b)
qed

lemma AsNullable_eqD:
  assumes "AsNullable a = AsNullable b"
  shows "IsConcreteRef a = IsConcreteRef b" "TypeIndex a = TypeIndex b" "Kind a = Kind b"
  using assms by (metis AsNullable_keeps)+

text \<open>The subtype relation \<open>isRefSubtypeOf\<close> computes, rule by rule.\<close>

definition ref_subtype :: "Module \<Rightarrow> ValueType \<Rightarrow> ValueType \<Rightarrow> bool" where
  "ref_subtype m a b \<longleftrightarrow> a = b \<or> AsNullable a = AsNullable b \<and> IsNullable b \<or>
     IsConcreteRef a \<and> (IsNullable a \<longrightarrow> IsNullable b) \<and>
       (if IsConcreteRef b then inRange m (TypeIndex a) \<and> inRange m (TypeIndex b) \<and>
          type_equiv True m m (TypeIndex a) (TypeIndex b)
        else Kind b = Kind ValueTypeFuncref)"

lemma isRefSubtypeOf_iff: "wf_types m \<Longrightarrow> isRefSubtypeOf m a b = Ok (ref_subtype m a b)"
  by (auto simp: isRefSubtypeOf_def ref_subtype_def structurallyEquivalentTypes_iff)

lemma isRefSubtypeOf_holds [wp]: "wf_types m \<Longrightarrow> holds P (isRefSubtypeOf m a b) = P (ref_subtype m a b)"
  by (simp add: isRefSubtypeOf_iff)

lemma holds_areRefTypesCompatible [wp]:
  "wf_types m \<Longrightarrow> holds P (areRefTypesCompatible m a b) = P (ref_subtype m a b \<or> ref_subtype m b a)"
  by (simp add: areRefTypesCompatible_def isRefSubtypeOf_iff)

lemma ref_subtype_trans:
  assumes ab: "ref_subtype m a b" and bc: "ref_subtype m b c"
  shows "ref_subtype m a c"
proof (cases "a = b \<or> b = c")
  case True
  then show ?thesis using assms by auto
next
  case False
  consider (n) "AsNullable a = AsNullable b" "IsNullable b" | (r) "IsConcreteRef a" "IsNullable a \<longrightarrow> IsNullable b"
    "if IsConcreteRef b then inRange m (TypeIndex a) \<and> inRange m (TypeIndex b) \<and>
       type_equiv True m m (TypeIndex a) (TypeIndex b) else Kind b = Kind ValueTypeFuncref"
    using ab False unfolding ref_subtype_def by blast
  then show ?thesis
  proof cases
    case n
    then show ?thesis using bc AsNullable_eqD [OF n(1)] unfolding ref_subtype_def by auto
  next
    case r
    consider (n') "AsNullable b = AsNullable c" "IsNullable c" | (r') "IsConcreteRef b" "IsNullable b \<longrightarrow> IsNullable c"
      "if IsConcreteRef c then inRange m (TypeIndex b) \<and> inRange m (TypeIndex c) \<and>
         type_equiv True m m (TypeIndex b) (TypeIndex c) else Kind c = Kind ValueTypeFuncref"
      using bc False unfolding ref_subtype_def by blast
    then show ?thesis
    proof cases
      case n'
      then show ?thesis using r AsNullable_eqD [OF n'(1)] unfolding ref_subtype_def by auto
    next
      case r'
      then show ?thesis using r type_equiv_trans unfolding ref_subtype_def by (auto split: if_splits)
    qed
  qed
qed

lemma group_singleton: "ft_RecGroupSize (typeAt m t) \<le> 1 \<Longrightarrow> group m t = (t, 1)"
  by (auto simp: group_def le_Suc_eq)

lemma wf_types_singletons:
  assumes "length (TypeSection m) < 2 ^ 32" "\<forall>ft \<in> set (TypeSection m). ft_RecGroupSize ft \<le> 1"
    "\<forall>ft \<in> set (TypeSection m). list_all (wf_value_type m) (ft_Params ft @ ft_Results ft)"
  shows "wf_types m"
proof -
  have "group m t = (t, 1)" if "inRange m t" for t
    using assms(2) that by (intro group_singleton) (auto simp: typeAt_def inRange_def)
  then show ?thesis using assms(1,3) by (auto simp: wf_types_def inRange_def)
qed

section \<open>Type equivalence and subtyping\<close>

text \<open>
  C20 (structural equivalence). On well-formed type sections the comparison terminates without a
  panic and decides the coinductive equivalence: it returns true exactly when both indexes are in
  range and some relation that contains the pair is closed under unfolding rec groups.
\<close>

theorem structurallyEquivalentTypes_decides:
  assumes "wf_types mx" "wf_types my"
  shows "structurallyEquivalentTypesAcrossModules same (Some mx) (Some my) x y =
    Ok (inRange mx x \<and> inRange my y \<and> type_equiv same mx my x y)"
  using functionTypesEquivalent_decides [OF assms, of x y same]
  by (auto simp: structurallyEquivalentTypesAcrossModules_def inRange_def not_le)

theorem structurallyEquivalentTypes_decides_witness:
  "\<exists>m. length (TypeSection m) = 2 \<and>
     structurallyEquivalentTypesAcrossModules True (Some m) (Some m) 0 1 =
       Ok (inRange m 0 \<and> inRange m 1 \<and> type_equiv True m m 0 1) \<and>
     structurallyEquivalentTypesAcrossModules True (Some m) (Some m) 0 1 = Ok True"
proof -
  define ft where "ft = (\<lambda>i. \<lparr>ft_Params = [ValueTypeConcreteRef i True], ft_Results = [], ft_ParamNumInUint64 = 1,
    ft_ResultNumInUint64 = 0, ft_RecGroupSize = 0, ft_RecGroupPosition = 0, ft_string = []\<rparr>)"
  define m where "m = emptyModule\<lparr>TypeSection := [ft 1, ft 0]\<rparr>"
  have t: "TypeSection m = [ft 1, ft 0]" by (simp add: m_def)
  have i: "TypeIndex (ValueTypeConcreteRef 1 True) = 1" "TypeIndex (ValueTypeConcreteRef 0 True) = 0" by code_simp+
  have wf: "wf_types m"
    by (rule wf_types_singletons) (auto simp: t ft_def wf_value_type_def inRange_def i)
  have "structurallyEquivalentTypesAcrossModules True (Some m) (Some m) 0 1 = Ok True"
    unfolding m_def ft_def emptyModule_def by code_simp
  then show ?thesis using structurallyEquivalentTypes_decides [OF wf wf, of True 0 1] t by (intro exI [of _ m]) simp
qed

text \<open>
  C27 (subtyping is a preorder). On a well-formed type section \<^verbatim>\<open>isRefSubtypeOf\<close> never panics, and the
  relation it computes is reflexive and transitive on all value types.
\<close>

theorem isRefSubtypeOf_preorder:
  assumes "wf_types m"
  shows "isRefSubtypeOf m a a = Ok True \<and> \<not> panics (isRefSubtypeOf m a b) \<and>
    (isRefSubtypeOf m a b = Ok True \<longrightarrow> isRefSubtypeOf m b c = Ok True \<longrightarrow> isRefSubtypeOf m a c = Ok True)"
  using ref_subtype_trans [of m a b c] by (simp add: isRefSubtypeOf_iff [OF assms]) (simp add: ref_subtype_def)

theorem isRefSubtypeOf_preorder_witness:
  "isRefSubtypeOf emptyModule (AsNonNullable ValueTypeExternref) ValueTypeExternref = Ok True \<and>
   isRefSubtypeOf emptyModule ValueTypeExternref ValueTypeExternref = Ok True"
proof -
  have wf: "wf_types emptyModule" by (rule wf_types_singletons) (auto simp: emptyModule_def)
  have "isRefSubtypeOf emptyModule (AsNonNullable ValueTypeExternref) ValueTypeExternref = Ok True" by code_simp
  then show ?thesis
    using isRefSubtypeOf_preorder [OF wf, of ValueTypeExternref ValueTypeExternref ValueTypeExternref] by simp
qed

end
