(* ===== verification/TableInstance.thy ===== *)
theory TableInstance
  imports ModuleTypes
begin

text \<open>
  \<^verbatim>\<open>internal/wasm/table.go\<close>: table instances. \<^verbatim>\<open>TableInstance.Grow\<close> fills the new region by copying
  ever larger prefixes of it onto itself; the result is a plain replication.
\<close>

type_synonym Reference = u64

record TableInstance =
  ti_References :: "Reference list"
  ti_Min :: u32
  ti_Max :: "u32 option"
  ti_Type :: ValueType

definition MaximumTableIndex :: u32 where "MaximumTableIndex = 2 ^ 27"

definition ElementSegment_IsActive :: "ElementSegment \<Rightarrow> bool" where
  "ElementSegment_IsActive e \<longleftrightarrow> es_Mode e = ElementModeActive"

definition checkSegmentBounds :: "u32 \<Rightarrow> u64 \<Rightarrow> unit outcome" where
  "checkSegmentBounds mn requireMin =
     (if requireMin > ucast mn then Err (Errorf ''%s[%d].init exceeds min table size'') else Ok ())"

text \<open>The loop \<^verbatim>\<open>for i := 1; i < len(newRegion); i *= 2\<close>.\<close>

function fill_doubling :: "nat \<Rightarrow> 'a list \<Rightarrow> 'a list" where
  "fill_doubling i newRegion =
     (if 0 < i \<and> i < length newRegion
      then fill_doubling (i * 2) (copy_at newRegion i (take i newRegion)) else newRegion)"
  by pat_completeness auto

termination
  by (relation "measure (\<lambda>(i, xs). length xs - i)") auto

declare fill_doubling.simps [simp del]

definition Table_Grow :: "TableInstance \<Rightarrow> u32 \<Rightarrow> Reference \<Rightarrow> (u32 \<times> TableInstance) outcome" where
  "Table_Grow t delta initialRef =
     (let currentLen = (of_nat (length (ti_References t)) :: u32)
      in if delta = 0 then Ok (currentLen, t)
         else
           let newLen = uint currentLen + uint delta
           in if newLen \<ge> uint MaximumTableIndex \<or>
                 (case ti_Max t of Some mx \<Rightarrow> newLen > uint mx | None \<Rightarrow> False)
              then Ok (0xffffffff, t)
              else
                let refs = ti_References t @ replicate (unat delta) 0
                in if initialRef = 0 then Ok (currentLen, t\<lparr>ti_References := refs\<rparr>)
                   else bindO (slice_from refs (unat currentLen)) (\<lambda>newRegion.
                        bindO (store_at newRegion 0 initialRef) (\<lambda>newRegion.
                        Ok (currentLen,
                            t\<lparr>ti_References := take (unat currentLen) refs @ fill_doubling 1 newRegion\<rparr>))))"

lemma fill_doubling_replicate:
  "0 < i \<Longrightarrow> i \<le> length xs \<Longrightarrow> take i xs = replicate i r \<Longrightarrow> fill_doubling i xs = replicate (length xs) r"
proof (induction i xs rule: fill_doubling.induct)
  case (1 i xs)
  show ?case
  proof (cases "i < length xs")
    case False
    then show ?thesis using 1 by (subst fill_doubling.simps) simp
  next
    case True
    let ?ys = "copy_at xs i (take i xs)"
    let ?k = "min (length xs - i) i"
    have ys: "?ys = replicate (i + ?k) r @ drop (i + ?k) xs"
      using True "1.prems" by (simp add: copy_at_def Let_def replicate_add min_def)
    have l: "length ?ys = length xs" using True by simp
    have "fill_doubling (i * 2) ?ys = replicate (length ?ys) r"
    proof (cases "i * 2 \<le> length xs")
      case le: True
      then have "?k = i" by simp
      then have "take (i * 2) ?ys = replicate (i * 2) r" unfolding ys by (simp add: mult_2_right)
      then show ?thesis using "1.IH" [OF conjI [OF "1.prems"(1) True]] "1.prems"(1) le l by simp
    next
      case False
      then have "?k = length xs - i" by simp
      then have "?ys = replicate (length xs) r" unfolding ys using True by simp
      moreover have "\<not> i * 2 < length ?ys" using False l by simp
      ultimately show ?thesis by (subst fill_doubling.simps) simp
    qed
    then show ?thesis using True "1.prems" l by (subst fill_doubling.simps) simp
  qed
qed

section \<open>Growing a table\<close>

text \<open>
  C33 (growing a table). For a table of fewer than \<open>2\<^sup>3\<^sup>2\<close> references \<^verbatim>\<open>Grow\<close> never panics. It appends
  \<open>delta\<close> copies of the reference and returns the old length when the new length stays below
  \<^verbatim>\<open>MaximumTableIndex\<close> and within the declared maximum, or when \<open>delta\<close> is zero; otherwise it returns
  \<open>0xffffffff\<close> and leaves the table alone.
\<close>

theorem Table_Grow_spec:
  assumes "length (ti_References t) < 2 ^ 32"
  shows "Table_Grow t delta r =
    (let n = length (ti_References t); n' = n + unat delta
     in if delta = 0 then Ok (of_nat n, t)
        else if n' < 2 ^ 27 \<and> (case ti_Max t of Some mx \<Rightarrow> n' \<le> unat mx | None \<Rightarrow> True)
        then Ok (of_nat n, t\<lparr>ti_References := ti_References t @ replicate (unat delta) r\<rparr>)
        else Ok (0xffffffff, t))"
proof -
  let ?n = "length (ti_References t)"
  have n: "uint (of_nat ?n :: u32) = int ?n" "unat (of_nat ?n :: u32) = ?n"
    using assms by (simp_all add: unsigned_of_nat take_bit_nat_eq_self uint_nat)
  have d: "uint delta = int (unat delta)" by simp
  have m: "uint MaximumTableIndex = 2 ^ 27" by (simp add: MaximumTableIndex_def)
  have c: "(uint (of_nat ?n :: u32) + uint delta \<ge> uint MaximumTableIndex \<or>
        (case ti_Max t of Some mx \<Rightarrow> uint (of_nat ?n :: u32) + uint delta > uint mx | None \<Rightarrow> False)) \<longleftrightarrow>
      \<not> (?n + unat delta < 2 ^ 27 \<and> (case ti_Max t of Some mx \<Rightarrow> ?n + unat delta \<le> unat mx | None \<Rightarrow> True))"
    unfolding n m by (auto simp: d uint_nat simp del: of_nat_unat split: option.splits)
  have f: "fill_doubling 1 (r # replicate (unat delta - 1) 0) = replicate (unat delta) r" if "delta \<noteq> 0"
  proof -
    have "0 < unat delta" using that by (simp add: unat_gt_0)
    then show ?thesis using fill_doubling_replicate [of 1 "r # replicate (unat delta - 1) 0" r] by simp
  qed
  have s: "store_at (replicate (unat delta) 0) 0 r = Ok (r # replicate (unat delta - 1) 0)" if "delta \<noteq> 0"
  proof -
    have "0 < unat delta" using that by (simp add: unat_gt_0)
    then show ?thesis by (cases "unat delta") (simp_all add: store_at_def)
  qed
  show ?thesis
    unfolding Table_Grow_def Let_def c n(2)
    by (cases "r = 0") (simp_all add: slice_from_def s f [simplified])
qed

theorem Table_Grow_spec_witness:
  "Table_Grow \<lparr>ti_References = [7], ti_Min = 1, ti_Max = Some 4, ti_Type = ValueTypeFuncref\<rparr> 3 9 =
     Ok (1, \<lparr>ti_References = [7, 9, 9, 9], ti_Min = 1, ti_Max = Some 4, ti_Type = ValueTypeFuncref\<rparr>)"
proof -
  let ?t = "\<lparr>ti_References = [7], ti_Min = 1, ti_Max = Some 4, ti_Type = ValueTypeFuncref\<rparr>"
  have "replicate 3 (9 :: Reference) = [9, 9, 9]" by (simp add: numeral_3_eq_3)
  then show ?thesis using Table_Grow_spec [of ?t 3 9] by (simp add: Let_def)
qed

end
