(* ===== verification/Reader.thy ===== *)
theory Reader
  imports Prelude
begin

text \<open>
  Go's \<^verbatim>\<open>bytes.Reader\<close> and the helpers of package \<^verbatim>\<open>io\<close> that the decoders call on it: a byte
  slice and a position. A method returns the value read and the reader after the call; on an
  error the decoders never look at the reader again, so an \<open>Err\<close> carries no reader.
\<close>

record reader =
  rd_s :: "byte list"
  rd_i :: nat

definition NewReader :: "byte list \<Rightarrow> reader" where
  "NewReader b = \<lparr>rd_s = b, rd_i = 0\<rparr>"

definition rest :: "reader \<Rightarrow> byte list" where
  "rest r = drop (rd_i r) (rd_s r)"

definition Len :: "reader \<Rightarrow> nat" where
  "Len r = length (rd_s r) - rd_i r"

definition Size :: "reader \<Rightarrow> nat" where
  "Size r = length (rd_s r)"

definition advance :: "nat \<Rightarrow> reader \<Rightarrow> reader" where
  "advance n r = r\<lparr>rd_i := rd_i r + n\<rparr>"

definition ReadByte :: "reader \<Rightarrow> (byte \<times> reader) outcome" where
  "ReadByte r = (case rest r of [] \<Rightarrow> Err EOF | b # _ \<Rightarrow> Ok (b, advance 1 r))"

definition UnreadByte :: "reader \<Rightarrow> reader outcome" where
  "UnreadByte r =
     (if rd_i r = 0 then Err (Errorf ''bytes.Reader.UnreadByte: at beginning of slice'')
      else Ok (r\<lparr>rd_i := rd_i r - 1\<rparr>))"

text \<open>
  \<^verbatim>\<open>Read\<close> into a fresh buffer of \<open>n\<close> bytes: at the end of the slice it is \<^verbatim>\<open>io.EOF\<close> even for
  \<open>n = 0\<close>; a short read leaves the tail of the buffer zero and is no error.
\<close>

definition Read :: "nat \<Rightarrow> reader \<Rightarrow> (byte list \<times> nat \<times> reader) outcome" where
  "Read n r =
     (if length (rd_s r) \<le> rd_i r then Err EOF
      else let k = min n (Len r)
           in Ok (take k (rest r) @ replicate (n - k) 0, k, advance k r))"

definition ReadFull :: "nat \<Rightarrow> reader \<Rightarrow> (byte list \<times> reader) outcome" where
  "ReadFull n r =
     (if n \<le> Len r then Ok (take n (rest r), advance n r)
      else if Len r = 0 then Err EOF
      else Err ErrUnexpectedEOF)"

text \<open>\<^verbatim>\<open>io.CopyN(io.Discard, r, n)\<close>.\<close>

definition CopyN_Discard :: "nat \<Rightarrow> reader \<Rightarrow> reader outcome" where
  "CopyN_Discard n r = (if n \<le> Len r then Ok (advance n r) else Err EOF)"

text \<open>\<^verbatim>\<open>r.Seek(-n, io.SeekCurrent)\<close>.\<close>

definition Seek_back :: "nat \<Rightarrow> reader \<Rightarrow> reader outcome" where
  "Seek_back n r =
     (if rd_i r < n then Err (Errorf ''bytes.Reader.Seek: negative position'')
      else Ok (r\<lparr>rd_i := rd_i r - n\<rparr>))"

definition ReadAt :: "nat \<Rightarrow> nat \<Rightarrow> reader \<Rightarrow> byte list outcome" where
  "ReadAt n off r =
     (if length (rd_s r) \<le> off then Err EOF
      else if length (rd_s r) < off + n then Err EOF
      else Ok (take n (drop off (rd_s r))))"

section \<open>Laws of the reader\<close>

lemma rest_NewReader [simp]: "rest (NewReader b) = b"
  by (simp add: rest_def NewReader_def)

lemma length_rest [simp]: "length (rest r) = Len r"
  by (simp add: rest_def Len_def)

lemma rest_advance [simp]: "rest (advance n r) = drop n (rest r)"
  by (simp add: rest_def advance_def add.commute)

lemma advance_advance [simp]: "advance m (advance n r) = advance (n + m) r"
  by (simp add: advance_def add.assoc)

lemma advance_0 [simp]: "advance 0 r = r"
  by (simp add: advance_def)

lemma Len_advance [simp]: "Len (advance n r) = Len r - n"
  by (simp add: Len_def advance_def)

lemma Size_advance [simp]: "Size (advance n r) = Size r"
  by (simp add: Size_def advance_def)

lemma rd_s_advance [simp]: "rd_s (advance n r) = rd_s r"
  by (simp add: advance_def)

lemma advance_inj [simp]: "advance m r = advance n r \<longleftrightarrow> m = n"
  by (cases r) (simp add: advance_def)

lemma Len_NewReader [simp]: "Len (NewReader b) = length b"
  by (simp add: Len_def NewReader_def)

lemma UnreadByte_advance [simp]: "0 < n \<Longrightarrow> UnreadByte (advance n r) = Ok (advance (n - 1) r)"
  by (cases r) (simp add: UnreadByte_def advance_def)

lemma Seek_back_advance [simp]: "m \<le> n \<Longrightarrow> Seek_back m (advance n r) = Ok (advance (n - m) r)"
  by (cases r) (simp add: Seek_back_def advance_def)

lemma ReadByte_Cons [simp]: "rest r = b # bs \<Longrightarrow> ReadByte r = Ok (b, advance 1 r)"
  by (simp add: ReadByte_def)

text \<open>
  A decoder only moves its reader forward within the bytes. \<open>consumes r\<close> says so of a result and
  that at least one byte was read; \<open>skips r\<close> also admits none. It is what the termination of the
  loops and the length check of a section rest on.
\<close>

definition consumes :: "reader \<Rightarrow> 'a \<times> reader \<Rightarrow> bool" where
  "consumes r = (\<lambda>(x, r'). \<exists>k. 0 < k \<and> k \<le> Len r \<and> r' = advance k r)"

definition skips :: "reader \<Rightarrow> 'a \<times> reader \<Rightarrow> bool" where
  "skips r = (\<lambda>(x, r'). \<exists>k \<le> Len r. r' = advance k r)"

lemma consumes_advance [simp]: "consumes r (x, advance k r) \<longleftrightarrow> 0 < k \<and> k \<le> Len r"
  by (auto simp: consumes_def)

lemma skips_advance [simp]: "skips r (x, advance k r) \<longleftrightarrow> k \<le> Len r"
  by (auto simp: skips_def)

lemma skips_refl [simp]: "skips r (x, r)"
  using skips_advance [of r x 0] by simp

lemma consumes_skips: "holds (consumes r) m \<Longrightarrow> holds (skips r) m"
  by (erule holds_mono) (auto simp: consumes_def skips_def)

lemma consumes_Len: "consumes r (x, r') \<Longrightarrow> Len r' < Len r"
  by (auto simp: consumes_def)

lemma holds_consumesI:
  "holds (consumes r) m \<Longrightarrow> (\<And>x k. 0 < k \<Longrightarrow> k \<le> Len r \<Longrightarrow> P (x, advance k r)) \<Longrightarrow> holds P m"
  by (erule holds_mono) (auto simp: consumes_def)

lemma holds_skipsI:
  "holds (skips r) m \<Longrightarrow> (\<And>x k. k \<le> Len r \<Longrightarrow> P (x, advance k r)) \<Longrightarrow> holds P m"
  by (erule holds_mono) (auto simp: skips_def)

lemma holds_ReadByte [wpI]: "(\<And>b. 0 < Len r \<Longrightarrow> P (b, advance 1 r)) \<Longrightarrow> holds P (ReadByte r)"
  by (cases "rest r") (auto simp: ReadByte_def simp flip: length_rest)

lemma holds_ReadFull [wpI]:
  "(\<And>buf. n \<le> Len r \<Longrightarrow> length buf = n \<Longrightarrow> P (buf, advance n r)) \<Longrightarrow> holds P (ReadFull n r)"
  by (simp add: ReadFull_def)

lemma holds_Read [wpI]:
  "(\<And>buf k. k \<le> Len r \<Longrightarrow> length buf = n \<Longrightarrow> P (buf, k, advance k r)) \<Longrightarrow> holds P (Read n r)"
  by (simp add: Read_def Let_def)

lemma holds_CopyN_Discard [wpI]: "(n \<le> Len r \<Longrightarrow> P (advance n r)) \<Longrightarrow> holds P (CopyN_Discard n r)"
  by (simp add: CopyN_Discard_def)

lemma holds_ReadAt [wpI]: "(\<And>bs. length bs = n \<Longrightarrow> P bs) \<Longrightarrow> holds P (ReadAt n off r)"
  by (simp add: ReadAt_def)

text \<open>A loop that decodes \<open>n\<close> elements one after the other.\<close>

primrec decodeN :: "nat \<Rightarrow> (reader \<Rightarrow> ('a \<times> reader) outcome) \<Rightarrow> reader \<Rightarrow> ('a list \<times> reader) outcome" where
  "decodeN 0 d r = Ok ([], r)"
| "decodeN (Suc n) d r = bindO (d r) (\<lambda>(x, r). bindO (decodeN n d r) (\<lambda>(xs, r). Ok (x # xs, r)))"

lemma decodeN_holds:
  assumes d: "\<And>r. holds (\<lambda>(x, r'). consumes r (x, r') \<and> Q x) (d r)"
  shows "holds (\<lambda>(xs, r'). (\<exists>k. n \<le> k \<and> k \<le> Len r \<and> r' = advance k r) \<and> length xs = n \<and> (\<forall>x \<in> set xs. Q x))
           (decodeN n d r)"
proof (induction n arbitrary: r)
  case 0
  show ?case by (auto intro: exI [of _ 0])
next
  case (Suc n)
  have step: "holds (\<lambda>(xs, r''). (\<exists>k. Suc n \<le> k \<and> k \<le> Len r \<and> r'' = advance k r) \<and>
                        length xs = Suc n \<and> (\<forall>x \<in> set xs. Q x))
                (bindO (decodeN n d r') (\<lambda>(xs, r). Ok (x # xs, r)))"
    if "consumes r (x, r')" "Q x" for x r'
    unfolding holds_bindO
    by (rule holds_mono [OF Suc.IH]) (use that in \<open>auto simp: consumes_def\<close>)
  show ?case
    unfolding decodeN.simps holds_bindO by (rule holds_mono [OF d]) (use step in auto)
qed

lemma decodeN_skips: "(\<And>r. holds (consumes r) (d r)) \<Longrightarrow> holds (skips r) (decodeN n d r)"
  using decodeN_holds [where d = d and Q = "\<lambda>_. True" and n = n and r = r]
  by (auto simp: skips_def case_prod_unfold elim!: holds_mono)

end
