(* ===== verification/Leb128.thy ===== *)
theory Leb128
  imports Reader
begin

text \<open>
  \<^verbatim>\<open>internal/leb128/leb128.go\<close>: the variable-length integers of the binary format. The closure
  \<^verbatim>\<open>nextByte\<close> the decoders call with \<open>i = 0, 1, 2, \<dots>\<close> is the list of bytes it returns before
  \<^verbatim>\<open>io.EOF\<close>: the slice of a \<^verbatim>\<open>Load\<close> function, the unread bytes of the reader of a \<^verbatim>\<open>Decode\<close>
  function. A decoder returns the value and the number of bytes it read.
\<close>

section \<open>Constants\<close>

definition maxVarintLen32 :: nat where "maxVarintLen32 = 5"
definition maxVarintLen33 :: nat where "maxVarintLen33 = maxVarintLen32"
definition maxVarintLen64 :: nat where "maxVarintLen64 = 10"

definition int33Mask :: i64 where "int33Mask = 0x80"
definition int33Mask2 :: i64 where "int33Mask2 = NOT int33Mask"
definition int33Mask3 :: i64 where "int33Mask3 = 0x40"
definition int33Mask4 :: i64 where "int33Mask4 = 8589934591"
definition int33Mask5 :: i64 where "int33Mask5 = 0x100000000"
definition int33Mask6 :: i64 where "int33Mask6 = int33Mask4 + 1"

section \<open>Encoders\<close>

function EncodeInt64 :: "i64 \<Rightarrow> byte list" where
  "EncodeInt64 value =
     (let b = (ucast (value AND 0x7f) :: byte);
          s = (ucast (value AND 0x40) :: byte);
          value' = signed_drop_bit 7 value;
          b' = (if (value' \<noteq> -1 \<or> s = 0) \<and> (value' \<noteq> 0 \<or> s \<noteq> 0) then b OR 0x80 else b)
      in if b' AND 0x80 = 0 then [b'] else b' # EncodeInt64 value')"
  by pat_completeness auto

function EncodeUint64 :: "u64 \<Rightarrow> byte list" where
  "EncodeUint64 value =
     (let b = (ucast (value AND 0x7f) :: byte);
          value' = drop_bit 7 value;
          b' = (if value' \<noteq> 0 then b OR 0x80 else b)
      in if b' AND 0x80 = 0 then [b'] else b' # EncodeUint64 value')"
  by pat_completeness auto

lemma bit_0x80 [simp]: "bit (0x80 :: int) n \<longleftrightarrow> n = 7"
  using bit_exp_iff [of 7 n, where 'a = int] by simp

lemma and_0x7f: "x AND 0x7f = take_bit 7 (x :: 'a::len word)"
  by (simp add: take_bit_eq_mask mask_eq_exp_minus_1)

lemma take7_byte:
  fixes v :: u64
  shows "(ucast (v AND 0x7f) :: byte) AND 0x80 = 0"
    and "((ucast (v AND 0x7f) :: byte) OR 0x80) AND 0x80 \<noteq> 0"
    and "((ucast (v AND 0x7f) :: byte) OR 0x80) AND 0x7f = ucast (v AND 0x7f)"
    and "(ucast (v AND 0x7f) :: byte) AND 0x7f = ucast (v AND 0x7f)"
proof -
  show "(ucast (v AND 0x7f) :: byte) AND 0x80 = 0"
    by (rule bit_word_eqI) (auto simp: and_0x7f bit_simps)
  have "bit (((ucast (v AND 0x7f) :: byte) OR 0x80) AND 0x80) 7"
    by (simp add: bit_simps)
  then show "((ucast (v AND 0x7f) :: byte) OR 0x80) AND 0x80 \<noteq> 0"
    by (metis bit_0_eq bot_apply bot_bool_def)
  show "((ucast (v AND 0x7f) :: byte) OR 0x80) AND 0x7f = ucast (v AND 0x7f)"
    by (rule bit_word_eqI) (auto simp: and_0x7f bit_simps)
  show "(ucast (v AND 0x7f) :: byte) AND 0x7f = ucast (v AND 0x7f)"
    by (rule bit_word_eqI) (auto simp: and_0x7f bit_simps)
qed

termination EncodeUint64
proof (relation "measure unat")
  fix v :: u64 and b v' b'
  assume b: "b = (ucast (v AND 0x7f) :: byte)" and v': "v' = drop_bit 7 v"
    and b': "b' = (if v' \<noteq> 0 then b OR 0x80 else b)" and c: "b' AND 0x80 \<noteq> 0"
  from b b' c take7_byte(1) have "v' \<noteq> 0" by (auto split: if_splits)
  then have "unat v' \<noteq> 0" by (simp add: unat_eq_0)
  moreover have "unat v' = unat v div 128"
    unfolding v' unat_drop_bit_eq by (simp add: drop_bit_eq_div)
  ultimately show "(v', v) \<in> measure unat" by simp
qed auto

definition sleb_measure :: "i64 \<Rightarrow> nat" where
  "sleb_measure v = nat (if sint v < 0 then - sint v - 1 else sint v)"

termination EncodeInt64
proof (relation "measure sleb_measure")
  fix v :: i64 and b s v' b'
  assume b: "b = (ucast (v AND 0x7f) :: byte)" and s: "s = (ucast (v AND 0x40) :: byte)"
    and v': "v' = signed_drop_bit 7 v"
    and b': "b' = (if (v' \<noteq> -1 \<or> s = 0) \<and> (v' \<noteq> 0 \<or> s \<noteq> 0) then b OR 0x80 else b)"
    and c: "b' AND 0x80 \<noteq> 0"
  from b b' c take7_byte(1) have g: "(v' \<noteq> -1 \<or> s = 0) \<and> (v' \<noteq> 0 \<or> s \<noteq> 0)"
    by (auto split: if_splits)
  have ne: "v \<noteq> 0" "v \<noteq> -1" using g by (auto simp: v' s)
  then have "sint v \<noteq> 0" "sint v \<noteq> -1"
    by (metis signed_eq_0_iff, metis sint_n1 signed_word_eqI)
  moreover have "sint v' = sint v div 128"
    by (simp add: v' sint_signed_drop_bit_eq drop_bit_eq_div)
  ultimately show "(v', v) \<in> measure sleb_measure"
    by (auto simp: sleb_measure_def)
qed auto

declare EncodeInt64.simps [simp del] EncodeUint64.simps [simp del]

definition EncodeInt32 :: "i32 \<Rightarrow> byte list" where
  "EncodeInt32 value = EncodeInt64 (scast value)"

definition EncodeUint32 :: "u32 \<Rightarrow> byte list" where
  "EncodeUint32 value = EncodeUint64 (ucast value)"

section \<open>Decoders of unsigned integers\<close>

primrec decodeUint32_loop :: "byte list \<Rightarrow> nat \<Rightarrow> u32 \<Rightarrow> nat \<Rightarrow> (u32 \<times> nat) outcome" where
  "decodeUint32_loop [] i ret s =
     (if i < maxVarintLen32 then Err EOF else Err ErrOverflow32)"
| "decodeUint32_loop (b # bs) i ret s =
     (if i < maxVarintLen32 then
        if b < 0x80 then
          if i = maxVarintLen32 - 1 \<and> b AND 0xf0 > 0 then Err ErrOverflow32
          else Ok (ret OR push_bit s (ucast b), i + 1)
        else decodeUint32_loop bs (i + 1) (ret OR push_bit s (ucast (b AND 0x7f))) (s + 7)
      else Err ErrOverflow32)"

definition decodeUint32 :: "byte list \<Rightarrow> (u32 \<times> nat) outcome" where
  "decodeUint32 next = decodeUint32_loop next 0 0 0"

definition LoadUint32 :: "byte list \<Rightarrow> (u32 \<times> nat) outcome" where
  "LoadUint32 buf = decodeUint32 buf"

definition DecodeUint32 :: "reader \<Rightarrow> (u32 \<times> nat \<times> reader) outcome" where
  "DecodeUint32 r = bindO (decodeUint32 (rest r)) (\<lambda>(v, n). Ok (v, n, advance n r))"

primrec LoadUint64_loop :: "byte list \<Rightarrow> nat \<Rightarrow> u64 \<Rightarrow> nat \<Rightarrow> (u64 \<times> nat) outcome" where
  "LoadUint64_loop [] i ret s =
     (if i < maxVarintLen64 then Err EOF else Err ErrOverflow64)"
| "LoadUint64_loop (b # bs) i ret s =
     (if i < maxVarintLen64 then
        if b < 0x80 then
          if i = maxVarintLen64 - 1 \<and> b > 1 then Err ErrOverflow64
          else Ok (ret OR push_bit s (ucast b), i + 1)
        else LoadUint64_loop bs (i + 1) (ret OR push_bit s (ucast (b AND 0x7f))) (s + 7)
      else Err ErrOverflow64)"

definition LoadUint64 :: "byte list \<Rightarrow> (u64 \<times> nat) outcome" where
  "LoadUint64 buf = (if buf = [] then Err EOF else LoadUint64_loop buf 0 0 0)"

section \<open>Decoders of signed integers\<close>

primrec decodeInt32_loop :: "byte list \<Rightarrow> nat \<Rightarrow> nat \<Rightarrow> i32 \<Rightarrow> (i32 \<times> nat) outcome" where
  "decodeInt32_loop [] bytesRead shift ret = Err (Wrapf ''readByte failed'' EOF)"
| "decodeInt32_loop (b # bs) bytesRead shift ret =
     (let ret = ret OR push_bit shift (ucast b AND 0x7f);
          shift = shift + 7;
          bytesRead = bytesRead + 1
      in if b AND 0x80 = 0 then
           let ret = (if shift < 32 \<and> b AND 0x40 \<noteq> 0 then ret OR push_bit shift (NOT 0) else ret);
               unused = b AND 0x30
           in if bytesRead > maxVarintLen32 then Err ErrOverflow32
              else if bytesRead = maxVarintLen32 \<and> ret <s 0 \<and> unused \<noteq> 0x30 then Err ErrOverflow32
              else if bytesRead = maxVarintLen32 \<and> 0 \<le>s ret \<and> unused \<noteq> 0 then Err ErrOverflow32
              else Ok (ret, bytesRead)
         else decodeInt32_loop bs bytesRead shift ret)"

definition decodeInt32 :: "byte list \<Rightarrow> (i32 \<times> nat) outcome" where
  "decodeInt32 next = decodeInt32_loop next 0 0 0"

definition LoadInt32 :: "byte list \<Rightarrow> (i32 \<times> nat) outcome" where
  "LoadInt32 buf = decodeInt32 buf"

definition DecodeInt32 :: "reader \<Rightarrow> (i32 \<times> nat \<times> reader) outcome" where
  "DecodeInt32 r = bindO (decodeInt32 (rest r)) (\<lambda>(v, n). Ok (v, n, advance n r))"

primrec decodeInt64_loop :: "byte list \<Rightarrow> nat \<Rightarrow> nat \<Rightarrow> i64 \<Rightarrow> (i64 \<times> nat) outcome" where
  "decodeInt64_loop [] bytesRead shift ret = Err (Wrapf ''readByte failed'' EOF)"
| "decodeInt64_loop (b # bs) bytesRead shift ret =
     (let ret = ret OR push_bit shift (ucast b AND 0x7f);
          shift = shift + 7;
          bytesRead = bytesRead + 1
      in if b AND 0x80 = 0 then
           let ret = (if shift < 64 \<and> b AND 0x40 = 0x40 then ret OR push_bit shift (NOT 0) else ret);
               unused = b AND 0x3e
           in if bytesRead > maxVarintLen64 then Err ErrOverflow64
              else if bytesRead = maxVarintLen64 \<and> ret <s 0 \<and> unused \<noteq> 0x3e then Err ErrOverflow64
              else if bytesRead = maxVarintLen64 \<and> 0 \<le>s ret \<and> unused \<noteq> 0 then Err ErrOverflow64
              else Ok (ret, bytesRead)
         else decodeInt64_loop bs bytesRead shift ret)"

definition decodeInt64 :: "byte list \<Rightarrow> (i64 \<times> nat) outcome" where
  "decodeInt64 next = decodeInt64_loop next 0 0 0"

definition LoadInt64 :: "byte list \<Rightarrow> (i64 \<times> nat) outcome" where
  "LoadInt64 buf = decodeInt64 buf"

definition DecodeInt64 :: "reader \<Rightarrow> (i64 \<times> nat \<times> reader) outcome" where
  "DecodeInt64 r = bindO (decodeInt64 (rest r)) (\<lambda>(v, n). Ok (v, n, advance n r))"

text \<open>
  The block type decoder. \<open>decodeInt33_loop\<close> is the reading loop and returns
  \<open>(ret, shift, bytesRead, b)\<close>; the tail translates the 33 bits and checks for overflow.
\<close>

primrec decodeInt33_loop ::
    "byte list \<Rightarrow> i64 \<Rightarrow> nat \<Rightarrow> nat \<Rightarrow> i64 \<Rightarrow> (i64 \<times> nat \<times> nat \<times> i64) outcome" where
  "decodeInt33_loop [] ret shift bytesRead b0 =
     (if shift < 35 then Err (Wrapf ''readByte failed'' EOF) else Ok (ret, shift, bytesRead, b0))"
| "decodeInt33_loop (rb # bs) ret shift bytesRead b0 =
     (if shift < 35 then
        let b = ucast rb;
            ret = ret OR push_bit shift (b AND int33Mask2);
            shift = shift + 7;
            bytesRead = bytesRead + 1
        in if b AND int33Mask = 0 then Ok (ret, shift, bytesRead, b)
           else decodeInt33_loop bs ret shift bytesRead b
      else Ok (ret, shift, bytesRead, b0))"

definition decodeInt33AsInt64 :: "byte list \<Rightarrow> (i64 \<times> nat) outcome" where
  "decodeInt33AsInt64 next =
     bindO (decodeInt33_loop next 0 0 0 0) (\<lambda>(ret, shift, bytesRead, b).
       let ret = (if shift < 33 \<and> b AND int33Mask3 = int33Mask3
                  then ret OR push_bit shift int33Mask4 else ret);
           ret = ret AND int33Mask4;
           ret = (if 0 <s ret AND int33Mask5 then ret - int33Mask6 else ret);
           unused = b AND 0x20
       in if bytesRead > maxVarintLen33 then Err ErrOverflow33
          else if bytesRead = maxVarintLen33 \<and> ret <s 0 \<and> unused \<noteq> 0x20 then Err ErrOverflow33
          else if bytesRead = maxVarintLen33 \<and> 0 \<le>s ret \<and> unused \<noteq> 0 then Err ErrOverflow33
          else Ok (ret, bytesRead))"

definition DecodeInt33AsInt64 :: "reader \<Rightarrow> (i64 \<times> nat \<times> reader) outcome" where
  "DecodeInt33AsInt64 r = bindO (decodeInt33AsInt64 (rest r)) (\<lambda>(v, n). Ok (v, n, advance n r))"

section \<open>What a LEB128 sequence denotes\<close>

fun uleb_value :: "byte list \<Rightarrow> nat" where
  "uleb_value [] = 0"
| "uleb_value (b # bs) = unat b mod 128 + 128 * uleb_value bs"

fun uleb_wf :: "byte list \<Rightarrow> bool" where
  "uleb_wf [] = False"
| "uleb_wf [b] = (b < 0x80)"
| "uleb_wf (b # bs) = (0x80 \<le> b \<and> uleb_wf bs)"

lemma uleb_wf_Cons: "uleb_wf (b # bs) \<longleftrightarrow> (if b < 0x80 then bs = [] else uleb_wf bs)"
  by (cases bs) (auto simp: not_less)

lemma uleb_wf_prefix:
  "(\<exists>p rs. b # bs = p @ rs \<and> uleb_wf p \<and> Q p rs) \<longleftrightarrow>
     (if b < 0x80 then Q [b] bs else \<exists>p rs. bs = p @ rs \<and> uleb_wf p \<and> Q (b # p) rs)"
  (is "?L \<longleftrightarrow> ?R")
proof
  assume ?L
  then obtain p rs where p: "b # bs = p @ rs" "uleb_wf p" "Q p rs" by blast
  then show ?R by (cases p) (auto simp: uleb_wf_Cons split: if_splits)
next
  assume R: ?R
  show ?L
  proof (cases "b < 0x80")
    case True
    with R show ?thesis by (intro exI [of _ "[b]"] exI [of _ bs]) simp
  next
    case False
    with R obtain p rs where "bs = p @ rs" "uleb_wf p" "Q (b # p) rs" by auto
    with False show ?thesis by (intro exI [of _ "b # p"] exI [of _ rs]) (simp add: uleb_wf_Cons)
  qed
qed

lemma unat_and_0x7f: "unat ((b :: 'a::len word) AND 0x7f) = unat b mod 128"
  unfolding and_0x7f unsigned_take_bit_eq by (simp add: take_bit_eq_mod)

lemma bit_0x40 [simp]: "bit (0x40 :: int) n \<longleftrightarrow> n = 6"
  using bit_exp_iff [of 6 n, where 'a = int] by simp

lemma byte_bit7: "(b :: byte) AND 0x80 = 0 \<longleftrightarrow> b < 0x80"
proof -
  have "b AND 0x80 = 0 \<longleftrightarrow> \<not> bit (uint b) 7"
    using and_exp_eq_0_iff_not_bit [of b 7] bit_uint_iff [of b 7] by simp
  also have "\<dots> \<longleftrightarrow> uint b < 128" unfolding bit_int_mod using uint_byte [of b] by (simp add: not_le)
  finally show ?thesis by (simp add: word_less_def)
qed

lemma byte_bit6: "(b :: byte) AND 0x40 = 0 \<longleftrightarrow> \<not> bit b 6" "(b :: byte) AND 0x40 = 0x40 \<longleftrightarrow> bit b 6"
proof -
  have "b AND 0x40 = (if bit b 6 then 0x40 else 0)"
    by (rule bit_word_eqI) (auto simp: bit_simps)
  then show "b AND 0x40 = 0 \<longleftrightarrow> \<not> bit b 6" "b AND 0x40 = 0x40 \<longleftrightarrow> bit b 6"
    by simp_all
qed

lemma byte_high_nibble: "(b :: byte) AND 0xf0 > 0 \<longleftrightarrow> 16 \<le> unat b"
proof -
  have "b AND NOT (mask 4) = push_bit 4 (drop_bit 4 b)"
    by (rule bit_word_eqI) (auto simp: bit_simps)
  moreover have "NOT (mask 4) = (0xf0 :: byte)" by (simp add: mask_eq_exp_minus_1)
  ultimately have e: "b AND 0xf0 = push_bit 4 (drop_bit 4 b)" by simp
  have "b AND 0xf0 = 0 \<longleftrightarrow> unat b < 16"
  proof
    assume "b AND 0xf0 = 0"
    then have "take_bit 4 b = b" using bits_ident [of 4 b] unfolding e by simp
    then have "unat (take_bit 4 b) = unat b" by simp
    then show "unat b < 16" unfolding unsigned_take_bit_eq take_bit_nat_eq_self_iff by simp
  next
    assume "unat b < 16"
    then have "unat (drop_bit 4 b) = 0" unfolding unat_drop_bit_eq by (simp add: drop_bit_eq_div)
    then have "drop_bit 4 b = 0" by (simp only: unat_eq_0)
    then show "b AND 0xf0 = 0" unfolding e by (simp only: push_bit_of_0)
  qed
  then show ?thesis by (simp only: word_neq_0_conv [symmetric] not_less [symmetric]) 
qed

lemma byte_lt_0x80: "(b :: byte) < 0x80 \<longleftrightarrow> unat b < 128"
  by (simp add: word_less_nat_alt)

section \<open>The unsigned decoders\<close>

text \<open>
  What \<open>decodeUint32\<close> and \<open>LoadUint64\<close> have in common: a loop of at most \<open>mx\<close> rounds over
  7-bit groups with an overflow test \<open>ov\<close> on the last one.
\<close>

locale unsigned_decoder =
  fixes loop :: "byte list \<Rightarrow> nat \<Rightarrow> 'a::len word \<Rightarrow> nat \<Rightarrow> ('a word \<times> nat) outcome"
    and mx :: nat
    and ov :: "byte \<Rightarrow> bool"
  assumes loop_Nil: "loop [] i ret s \<noteq> Ok r"
    and loop_Cons: "loop (b # bs) i ret s = Ok r \<longleftrightarrow> i < mx \<and>
      (if b < 0x80 then \<not> (i = mx - 1 \<and> ov b) \<and> r = (ret OR push_bit s (ucast b), i + 1)
       else loop bs (i + 1) (ret OR push_bit s (ucast (b AND 0x7f))) (s + 7) = Ok r)"
    and mx_bits: "7 * (mx - 1) < LENGTH('a)" "LENGTH('a) \<le> 7 * mx" "8 \<le> LENGTH('a)"
    and ov_iff: "unat b < 128 \<Longrightarrow> ov b \<longleftrightarrow> 2 ^ LENGTH('a) \<le> 2 ^ (7 * (mx - 1)) * unat b"
begin

lemma group_bound:
  assumes "i < mx" and "unat (ret :: 'a word) < 2 ^ (7 * i)" and "unat (b :: byte) < 128"
  shows "unat ret + 2 ^ (7 * i) * unat b < 2 ^ LENGTH('a) \<longleftrightarrow> \<not> (i = mx - 1 \<and> ov b)"
proof (cases "i = mx - 1")
  case True
  define k where "k = LENGTH('a) - 7 * i"
  have k: "(2::nat) ^ LENGTH('a) = 2 ^ (7 * i) * 2 ^ k"
    using mx_bits True by (simp add: k_def flip: power_add)
  have "unat ret + 2 ^ (7 * i) * unat b < 2 ^ LENGTH('a) \<longleftrightarrow> unat b < 2 ^ k"
  proof
    assume "unat b < 2 ^ k"
    then have "2 ^ (7 * i) * Suc (unat b) \<le> 2 ^ (7 * i) * 2 ^ k" by (intro mult_left_mono) auto
    then show "unat ret + 2 ^ (7 * i) * unat b < 2 ^ LENGTH('a)" using assms(2) k by simp
  next
    assume "unat ret + 2 ^ (7 * i) * unat b < 2 ^ LENGTH('a)"
    then have "2 ^ (7 * i) * unat b < (2 ^ (7 * i) * 2 ^ k :: nat)"
      unfolding k by (rule le_less_trans [OF le_add2])
    then show "unat b < 2 ^ k" by (simp only: mult_less_cancel1)
  qed
  then show ?thesis using True ov_iff [OF assms(3)] k by (simp add: not_le)
next
  case False
  have "unat ret + 2 ^ (7 * i) * unat b < 2 ^ (7 * i) + 2 ^ (7 * i) * 127"
    using assms by (intro add_less_le_mono mult_left_mono) auto
  also have "\<dots> = 2 ^ (7 * Suc i)" by (simp add: power_add)
  also have "\<dots> \<le> 2 ^ LENGTH('a)"
    using False assms(1) mx_bits(1) by (intro power_increasing) auto
  finally show ?thesis using False by simp
qed

lemma loop_exact:
  assumes "i \<le> mx" and "unat ret < 2 ^ (7 * i)"
  shows "loop bs i ret (7 * i) = Ok (v, n) \<longleftrightarrow>
    (\<exists>p rs. bs = p @ rs \<and> uleb_wf p \<and> n = i + length p \<and> n \<le> mx \<and>
       unat ret + 2 ^ (7 * i) * uleb_value p < 2 ^ LENGTH('a) \<and>
       unat v = unat ret + 2 ^ (7 * i) * uleb_value p)"
  using assms
proof (induction bs arbitrary: i ret)
  case Nil
  then show ?case by (auto simp: loop_Nil)
next
  case (Cons b bs)
  show ?case
  proof (cases "i < mx")
    case False
    then show ?thesis
      using Cons.prems unfolding uleb_wf_prefix loop_Cons by (auto simp: neq_Nil_conv)
  next
    case i: True
    have low: "unat (ucast (b AND 0x7f) :: 'a word) = unat b mod 128"
      using mx_bits(3) by (simp add: unat_ucast_up unat_and_0x7f)
    show ?thesis
    proof (cases "b < 0x80")
      case True
      then have b: "unat b < 128" by (simp add: byte_lt_0x80)
      have "unat (ucast b :: 'a word) = unat b" using mx_bits(3) by (simp add: unat_ucast_up)
      then show ?thesis
        using True i b group_bound [OF i Cons.prems(2) b]
        unfolding uleb_wf_prefix loop_Cons
        by (auto simp: unat_or_push_bit [OF Cons.prems(2)] word_unat_eq_iff)
    next
      case False
      let ?r = "ret OR push_bit (7 * i) (ucast (b AND 0x7f))"
      have step: "loop (b # bs) i ret (7 * i) = Ok r \<longleftrightarrow> loop bs (Suc i) ?r (7 * Suc i) = Ok r" for r
        using False i by (simp add: loop_Cons add.commute)
      show ?thesis
      proof (cases "Suc i < mx")
        case True
        have less: "unat ret + 2 ^ (7 * i) * (unat b mod 128) < 2 ^ (7 * Suc i)"
        proof -
          have "unat ret + 2 ^ (7 * i) * (unat b mod 128) < 2 ^ (7 * i) + 2 ^ (7 * i) * 127"
            using Cons.prems(2) by (intro add_less_le_mono mult_left_mono) auto
          then show ?thesis by (simp add: power_add)
        qed
        also have "(2::nat) ^ (7 * Suc i) \<le> 2 ^ LENGTH('a)"
          using True mx_bits(1) by (intro power_increasing) auto
        finally have r: "unat ?r = unat ret + 2 ^ (7 * i) * (unat b mod 128)"
          using Cons.prems(2) by (simp add: unat_or_push_bit low)
        from Cons.IH [of "Suc i" ?r] True less show ?thesis
          unfolding step uleb_wf_prefix r using False by (simp add: algebra_simps power_add)
      next
        case last: False
        then have "\<not> Suc i < mx" .
        then have "loop bs (Suc i) ?r (7 * Suc i) \<noteq> Ok (v, n)"
          by (cases bs) (auto simp: loop_Nil loop_Cons)
        then show ?thesis
          unfolding step uleb_wf_prefix using False last by (auto simp: neq_Nil_conv elim: uleb_wf.elims)
      qed
    qed
  qed
qed

end

interpretation u32dec: unsigned_decoder decodeUint32_loop 5 "\<lambda>b. b AND 0xf0 > 0"
proof
  show "unat b < 128 \<Longrightarrow> ((b AND 0xf0) > 0) \<longleftrightarrow> 2 ^ LENGTH(32) \<le> 2 ^ (7 * (5 - 1)) * unat b" for b :: byte
    unfolding byte_high_nibble by simp
qed (auto simp: maxVarintLen32_def)

interpretation u64dec: unsigned_decoder LoadUint64_loop 10 "\<lambda>b. b > 1"
proof
  show "unat b < 128 \<Longrightarrow> (b > 1) \<longleftrightarrow> 2 ^ LENGTH(64) \<le> 2 ^ (7 * (10 - 1)) * unat b" for b :: byte
    by (auto simp: word_less_nat_alt)
qed (auto simp: maxVarintLen64_def)

lemma uleb_value_bound: "uleb_value p < 2 ^ (7 * length p)"
proof (induction p)
  case Nil
  then show ?case by simp
next
  case (Cons b p)
  have "unat b mod 128 + 128 * uleb_value p < 128 + 128 * (2 ^ (7 * length p) - 1)"
    using Cons by (intro add_less_le_mono mult_left_mono) auto
  then show ?case by (simp add: power_add algebra_simps)
qed

section \<open>The unsigned encoder\<close>

lemma EncodeUint64_eq:
  "EncodeUint64 v =
     (if drop_bit 7 v = 0 then [ucast (v AND 0x7f)]
      else (ucast (v AND 0x7f) OR 0x80) # EncodeUint64 (drop_bit 7 v))"
  by (subst EncodeUint64.simps) (simp add: take7_byte Let_def)

lemma unat_drop7: "unat (drop_bit 7 (v :: 'a::len word)) = unat v div 128"
  unfolding unat_drop_bit_eq by (simp add: drop_bit_eq_div)

lemma low7_byte:
  "unat (ucast (v AND 0x7f) :: byte) mod 128 = unat (v :: u64) mod 128"
  "unat ((ucast (v AND 0x7f) :: byte) OR 0x80) mod 128 = unat (v :: u64) mod 128"
  "(ucast (v AND 0x7f) :: byte) < 0x80"
  "\<not> (ucast (v AND 0x7f) :: byte) OR 0x80 < 0x80"
proof -
  have u: "unat (ucast (v AND 0x7f) :: byte) = unat v mod 128"
    by (simp add: unsigned_ucast_eq unat_and_0x7f take_bit_nat_eq_self)
  then show "unat (ucast (v AND 0x7f) :: byte) mod 128 = unat v mod 128" by simp
  show "unat ((ucast (v AND 0x7f) :: byte) OR 0x80) mod 128 = unat v mod 128"
    using u take7_byte(3) [of v] unat_and_0x7f [of "(ucast (v AND 0x7f) :: byte) OR 0x80"] by simp
  show "(ucast (v AND 0x7f) :: byte) < 0x80" by (simp add: byte_lt_0x80 u)
  show "\<not> (ucast (v AND 0x7f) :: byte) OR 0x80 < 0x80"
    using take7_byte(2) [of v] unfolding byte_bit7 .
qed

lemma EncodeUint64_value: "uleb_wf (EncodeUint64 v) \<and> uleb_value (EncodeUint64 v) = unat v"
proof (induction v rule: EncodeUint64.induct)
  case (1 v)
  show ?case
  proof (cases "drop_bit 7 v = 0")
    case True
    then have "unat v div 128 = 0" by (metis unat_drop7 unat_0)
    then have "unat v mod 128 = unat v" by simp
    then show ?thesis by (subst (1 2) EncodeUint64_eq) (simp add: True low7_byte)
  next
    case False
    then have "uleb_wf (EncodeUint64 (drop_bit 7 v)) \<and>
        uleb_value (EncodeUint64 (drop_bit 7 v)) = unat v div 128"
      using "1" by (simp add: take7_byte unat_drop7)
    then show ?thesis
      by (subst (1 2) EncodeUint64_eq) (simp add: False low7_byte uleb_wf_Cons)
  qed
qed

lemma length_EncodeUint64: "unat v < 2 ^ (7 * Suc k) \<Longrightarrow> length (EncodeUint64 v) \<le> Suc k"
proof (induction k arbitrary: v)
  case 0
  then have "drop_bit 7 v = 0" by (simp add: unat_drop7 flip: unat_eq_0)
  then show ?case by (simp add: EncodeUint64_eq)
next
  case (Suc k)
  then have "unat (drop_bit 7 v) < 2 ^ (7 * Suc k)"
    by (simp add: unat_drop7 less_mult_imp_div_less power_add algebra_simps)
  from Suc.IH [OF this] show ?case by (subst EncodeUint64_eq) simp
qed

section \<open>Codecs\<close>

text \<open>
  The contract between an encoder and a decoder of this format, and what every client of the
  format relies on: decoding is not disturbed by what follows, and encodings cannot be confused.
\<close>

locale varint_codec =
  fixes enc :: "'a \<Rightarrow> byte list" and dec :: "byte list \<Rightarrow> ('a \<times> nat) outcome"
  assumes dec_enc: "dec (enc v @ rs) = Ok (v, length (enc v))"
begin

lemma enc_prefix_free: "enc v @ rs = enc w @ rs' \<Longrightarrow> v = w \<and> rs = rs'"
  using dec_enc [of v rs] dec_enc [of w rs'] by auto

lemma enc_inj: "enc v = enc w \<longleftrightarrow> v = w"
  using enc_prefix_free [of v "[]" w "[]"] by auto

lemma concat_enc_inj: "length vs = length ws \<Longrightarrow> concat (map enc vs) @ rs = concat (map enc ws) @ rs' \<Longrightarrow> vs = ws \<and> rs = rs'"
  by (induction vs ws rule: list_induct2) (auto dest!: enc_prefix_free)

end

lemma decodeUint32_iff:
  "decodeUint32 buf = Ok (v, n) \<longleftrightarrow>
     (\<exists>p rs. buf = p @ rs \<and> length p = n \<and> uleb_wf p \<and> n \<le> 5 \<and>
        uleb_value p < 2 ^ 32 \<and> unat v = uleb_value p)"
  using u32dec.loop_exact [of 0 0 buf v n] by (auto simp: decodeUint32_def)

lemma LoadUint64_iff:
  "LoadUint64 buf = Ok (v, n) \<longleftrightarrow>
     (\<exists>p rs. buf = p @ rs \<and> length p = n \<and> uleb_wf p \<and> n \<le> 10 \<and>
        uleb_value p < 2 ^ 64 \<and> unat v = uleb_value p)"
  using u64dec.loop_exact [of 0 0 buf v n]
  by (auto simp: LoadUint64_def u64dec.loop_Nil)

interpretation u32: varint_codec EncodeUint32 LoadUint32
proof
  fix v :: u32 and rs
  have "unat (ucast v :: u64) = unat v" by (simp add: unat_ucast_up)
  moreover have "length (EncodeUint64 (ucast v)) \<le> Suc 4"
    using unsigned_less [of v, where 'a = nat] calculation by (intro length_EncodeUint64) simp
  ultimately show "LoadUint32 (EncodeUint32 v @ rs) = Ok (v, length (EncodeUint32 v))"
    using unsigned_less [of v, where 'a = nat] EncodeUint64_value [of "ucast v"]
    unfolding LoadUint32_def decodeUint32_iff EncodeUint32_def
    by (intro exI [of _ "EncodeUint64 (ucast v)"] exI [of _ rs]) auto
qed

interpretation u64: varint_codec EncodeUint64 LoadUint64
proof
  fix v rs
  have "length (EncodeUint64 v) \<le> Suc 9"
    using unsigned_less [of v, where 'a = nat] by (intro length_EncodeUint64) simp
  then show "LoadUint64 (EncodeUint64 v @ rs) = Ok (v, length (EncodeUint64 v))"
    using unsigned_less [of v, where 'a = nat] EncodeUint64_value [of v]
    unfolding LoadUint64_iff
    by (intro exI [of _ "EncodeUint64 v"] exI [of _ rs]) auto
qed

section \<open>The signed decoders\<close>

fun sleb_value :: "byte list \<Rightarrow> int" where
  "sleb_value [] = 0"
| "sleb_value [b] = int (unat b mod 128) - (if bit b 6 then 128 else 0)"
| "sleb_value (b # bs) = int (unat b mod 128) + 128 * sleb_value bs"

lemma sleb_value_Cons: "bs \<noteq> [] \<Longrightarrow> sleb_value (b # bs) = int (unat b mod 128) + 128 * sleb_value bs"
  by (cases bs) simp_all

locale signed_decoder =
  fixes loop :: "byte list \<Rightarrow> nat \<Rightarrow> nat \<Rightarrow> 'a::len word \<Rightarrow> ('a word \<times> nat) outcome"
    and mx :: nat
    and m :: byte
  assumes loop_Nil: "loop [] i s ret \<noteq> Ok r"
    and loop_Cons: "loop (b # bs) i s ret = Ok r \<longleftrightarrow>
      (let ret = ret OR push_bit s (ucast b AND 0x7f) in
       if b < 0x80 then
         (let ret = (if s + 7 < LENGTH('a) \<and> bit b 6 then ret OR push_bit (s + 7) (- 1) else ret)
          in i + 1 \<le> mx \<and> (i + 1 = mx \<longrightarrow> b AND m = (if ret <s 0 then m else 0)) \<and> r = (ret, i + 1))
       else loop bs (i + 1) (s + 7) ret = Ok r)"
    and wide: "8 \<le> LENGTH('a)"
begin

lemma group_word:
  assumes "unat (ret :: 'a word) < 2 ^ s"
  shows "ret OR push_bit s (ucast (b :: byte) AND 0x7f) = ret + 2 ^ s * of_nat (unat b mod 128)"
    and "unat (ret + 2 ^ s * of_nat (unat b mod 128)) < 2 ^ (s + 7)"
proof -
  have "unat (ucast b AND 0x7f :: 'a word) = unat b mod 128"
    using wide by (simp add: unat_and_0x7f unat_ucast_up)
  then have b: "(ucast b AND 0x7f :: 'a word) = of_nat (unat b mod 128)"
    by (metis of_nat_unat ucast_id)
  show "ret OR push_bit s (ucast b AND 0x7f) = ret + 2 ^ s * of_nat (unat b mod 128)"
    unfolding b or_push_bit_disjoint [OF assms] by (simp add: push_bit_eq_mult mult.commute)
  have "unat (ret + 2 ^ s * of_nat (unat b mod 128)) \<le> unat ret + 2 ^ s * (unat b mod 128)"
  proof -
    have "ret + 2 ^ s * of_nat (unat b mod 128) = of_nat (unat ret + 2 ^ s * (unat b mod 128))" by simp
    then show ?thesis by (metis mod_less_eq_dividend unat_of_nat)
  qed
  also have "\<dots> < 2 ^ s + 2 ^ s * 127"
    using assms by (intro add_less_le_mono mult_left_mono) auto
  also have "\<dots> = 2 ^ (s + 7)" by (simp add: power_add)
  finally show "unat (ret + 2 ^ s * of_nat (unat b mod 128)) < 2 ^ (s + 7)" .
qed

lemma sign_word:
  assumes "unat (ret :: 'a word) < 2 ^ s"
  shows "(if s < LENGTH('a) \<and> P then ret OR push_bit s (- 1) else ret) = ret - (if P then 2 ^ s else 0)"
  using or_push_bit_disjoint [OF assms, of "- 1"] by (simp add: push_bit_eq_mult exp_eq_zero_iff)

lemma loop_exact:
  assumes "unat ret < 2 ^ (7 * i)"
  shows "loop bs i (7 * i) ret = Ok (v, n) \<longleftrightarrow>
    (\<exists>p rs. bs = p @ rs \<and> uleb_wf p \<and> n = i + length p \<and> n \<le> mx \<and>
       v = ret + 2 ^ (7 * i) * of_int (sleb_value p) \<and>
       (n = mx \<longrightarrow> last p AND m = (if v <s 0 then m else 0)))"
  using assms
proof (induction bs arbitrary: i ret)
  case Nil
  then show ?case by (auto simp: loop_Nil)
next
  case (Cons b bs)
  note g = group_word [OF Cons.prems, of b]
  show ?case
  proof (cases "b < 0x80")
    case True
    have *: "ret + 2 ^ (7 * i) * of_nat (unat b mod 128) - (if bit b 6 then 2 ^ (7 * i + 7) else 0) =
        ret + 2 ^ (7 * i) * of_int (sleb_value [b])"
      by (simp add: algebra_simps power_add)
    show ?thesis
      unfolding loop_Cons uleb_wf_prefix g(1) Let_def sign_word [OF g(2)] if_P [OF True] * 
      by (auto simp del: sleb_value.simps)
  next
    case False
    let ?ret = "ret + 2 ^ (7 * i) * of_nat (unat b mod 128)"
    have v: "?ret + 2 ^ (7 * Suc i) * of_int (sleb_value p) = ret + 2 ^ (7 * i) * of_int (sleb_value (b # p))"
      and n: "Suc i + length p = i + length (b # p)"
      and l: "last p = last (b # p)" if "uleb_wf p" for p
      using that by (cases p; simp add: algebra_simps power_add)+
    have s: "7 * i + 7 = 7 * Suc i" by simp
    have "loop bs (Suc i) (7 * Suc i) ?ret = Ok (v, n) \<longleftrightarrow>
       (\<exists>p rs. bs = p @ rs \<and> uleb_wf p \<and> n = i + length (b # p) \<and> n \<le> mx \<and>
         v = ret + 2 ^ (7 * i) * of_int (sleb_value (b # p)) \<and>
         (n = mx \<longrightarrow> last (b # p) AND m = (if v <s 0 then m else 0)))"
      unfolding Cons.IH [OF g(2) [unfolded s]]
      by (intro ex_cong1 conj_cong refl imp_cong) (simp_all only: v n l)
    then show ?thesis
      unfolding loop_Cons uleb_wf_prefix g(1) Let_def if_not_P [OF False] s Suc_eq_plus1 [symmetric] .
  qed
qed

end

lemma sleb_value_byte: "b < 0x80 \<Longrightarrow> sleb_value [b] = (if uint b < 64 then uint b else uint b - 128)"
proof -
  assume b: "b < 0x80"
  then have u: "uint b < 128" by (simp add: word_less_def)
  have "bit b 6 \<longleftrightarrow> bit (uint b) 6" using bit_uint_iff [of b 6] by simp
  also have "\<dots> \<longleftrightarrow> 64 \<le> uint b" unfolding bit_int_mod using u uint_byte [of b] by simp
  finally show ?thesis using u uint_byte [of b] by (simp add: zmod_int)
qed

lemma sle_0_iff: "0 \<le>s x \<longleftrightarrow> \<not> x <s 0" for x :: "'a::len word"
  by (simp add: word_sle_eq word_sless_alt not_less)

lemma signed_checks:
  fixes n mx :: nat
  shows "(if n > mx then Err e else if n = mx \<and> neg \<and> u \<noteq> m then Err e
    else if n = mx \<and> \<not> neg \<and> u \<noteq> z then Err e else Ok x) = Ok r \<longleftrightarrow>
   n \<le> mx \<and> (n = mx \<longrightarrow> u = (if neg then m else z)) \<and> r = x"
  by auto

lemma signed_LENGTHs: "LENGTH(32) = 32" "LENGTH(64) = 64" by simp_all

lemmas signed_loop_simps = signed_LENGTHs Let_def byte_bit6 byte_bit7 sle_0_iff not_not bit.compl_zero
  signed_checks if_True if_False

interpretation i32dec: signed_decoder decodeInt32_loop 5 "0x30"
proof
  show "decodeInt32_loop (b # bs) i s ret = Ok r \<longleftrightarrow>
      (let ret = ret OR push_bit s (ucast b AND 0x7f) in
       if b < 0x80 then
         (let ret = (if s + 7 < LENGTH(32) \<and> bit b 6 then ret OR push_bit (s + 7) (- 1) else ret)
          in i + 1 \<le> 5 \<and> (i + 1 = 5 \<longrightarrow> b AND 0x30 = (if ret <s 0 then 0x30 else 0)) \<and> r = (ret, i + 1))
       else decodeInt32_loop bs (i + 1) (s + 7) ret = Ok r)" for b bs i s ret r
    by (cases "b < 0x80"; simp only: decodeInt32_loop.simps maxVarintLen32_def signed_loop_simps simp_thms)
qed simp_all

interpretation i64dec: signed_decoder decodeInt64_loop 10 "0x3e"
proof
  show "decodeInt64_loop (b # bs) i s ret = Ok r \<longleftrightarrow>
      (let ret = ret OR push_bit s (ucast b AND 0x7f) in
       if b < 0x80 then
         (let ret = (if s + 7 < LENGTH(64) \<and> bit b 6 then ret OR push_bit (s + 7) (- 1) else ret)
          in i + 1 \<le> 10 \<and> (i + 1 = 10 \<longrightarrow> b AND 0x3e = (if ret <s 0 then 0x3e else 0)) \<and> r = (ret, i + 1))
       else decodeInt64_loop bs (i + 1) (s + 7) ret = Ok r)" for b bs i s ret r
    by (cases "b < 0x80"; simp only: decodeInt64_loop.simps maxVarintLen64_def signed_loop_simps simp_thms)
qed simp_all

lemma sleb_value_bound:
  "uleb_wf p \<Longrightarrow> - (2 ^ (7 * length p - 1)) \<le> sleb_value p \<and> sleb_value p < 2 ^ (7 * length p - 1)"
proof (induction p rule: uleb_wf.induct)
  case (2 b)
  then show ?case using uint_byte(1) [of b] unfolding uleb_wf.simps by (simp add: sleb_value_byte word_less_def del: sleb_value.simps, linarith?)
next
  case (3 b c p)
  define k where "k = 7 * length (c # p) - 1"
  have k: "7 * length (b # c # p) - 1 = k + 7" by (simp add: k_def)
  have "- (2 ^ k) \<le> sleb_value (c # p) \<and> sleb_value (c # p) < 2 ^ k"
    using 3 by (simp add: k_def)
  moreover have "0 \<le> int (unat b mod 128)" "int (unat b mod 128) < 128" by auto
  ultimately show ?case unfolding k sleb_value.simps(3) power_add by (simp, linarith)
qed simp

lemma sleb_value_last: "uleb_wf p \<Longrightarrow> sleb_value [last p] = sleb_value p div 128 ^ (length p - 1)"
proof (induction p rule: uleb_wf.induct)
  case (3 b c p)
  have "(int (unat b mod 128) + 128 * sleb_value (c # p)) div 128 = sleb_value (c # p)" by simp
  with 3 show ?case by (simp add: sleb_value_Cons zdiv_zmult2_eq del: sleb_value.simps(2,3))
qed simp_all

section \<open>The signed encoder\<close>

lemma bit6_sint: "bit (v :: u64) 6 \<longleftrightarrow> 64 \<le> sint v mod 128"
proof -
  have "bit v 6 \<longleftrightarrow> bit (sint v) 6" by (simp add: bit_simps)
  also have "\<dots> \<longleftrightarrow> 64 \<le> sint v mod 128" unfolding bit_int_mod by simp
  finally show ?thesis .
qed

lemma EncodeInt64_eq:
  "EncodeInt64 v =
     (if - 64 \<le> sint v \<and> sint v < 64 then [ucast (v AND 0x7f)]
      else (ucast (v AND 0x7f) OR 0x80) # EncodeInt64 (signed_drop_bit 7 v))"
proof -
  have d: "sint (signed_drop_bit 7 v) = sint v div 128"
    by (simp add: sint_signed_drop_bit_eq drop_bit_eq_div)
  have s: "(ucast (v AND 0x40) :: byte) = 0 \<longleftrightarrow> \<not> bit v 6"
  proof -
    have "(ucast (v AND 0x40) :: byte) = ucast v AND 0x40"
      by (rule bit_word_eqI) (auto simp: bit_simps)
    then show ?thesis using byte_bit6(1) [of "ucast v"] by (simp add: bit_simps)
  qed
  have "signed_drop_bit 7 v = -1 \<longleftrightarrow> sint v div 128 = -1"
    unfolding d [symmetric] using signed_word_eqI [of "signed_drop_bit 7 v" "- 1"] by auto
  moreover have "signed_drop_bit 7 v = 0 \<longleftrightarrow> sint v div 128 = 0"
    unfolding d [symmetric] using signed_word_eqI [of "signed_drop_bit 7 v" 0] by auto
  moreover have "(sint v div 128 = -1 \<and> 64 \<le> sint v mod 128 \<or> sint v div 128 = 0 \<and> \<not> 64 \<le> sint v mod 128)
      \<longleftrightarrow> - 64 \<le> sint v \<and> sint v < 64" by presburger
  ultimately have c: "((signed_drop_bit 7 v \<noteq> -1 \<or> (ucast (v AND 0x40) :: byte) = 0) \<and>
      (signed_drop_bit 7 v \<noteq> 0 \<or> (ucast (v AND 0x40) :: byte) \<noteq> 0)) \<longleftrightarrow> \<not> (- 64 \<le> sint v \<and> sint v < 64)"
    unfolding s bit6_sint by blast
  show ?thesis
    by (subst EncodeInt64.simps)
      (cases "- 64 \<le> sint v \<and> sint v < 64"; simp only: c Let_def take7_byte if_True if_False simp_thms)
qed

lemma low7_sint: "int (unat v mod 128) = sint (v :: u64) mod 128"
proof -
  have "int (unat v) mod 128 = sint v mod 128"
    using take_bit_signed_take_bit [of 7 63 "uint v"]
    by (simp add: sint_uint take_bit_eq_mod)
  then show ?thesis by (simp add: zmod_int)
qed

lemma sint_drop7: "sint (signed_drop_bit 7 (v :: u64)) = sint v div 128"
  by (simp add: sint_signed_drop_bit_eq drop_bit_eq_div)

lemma EncodeInt64_value: "uleb_wf (EncodeInt64 v) \<and> sleb_value (EncodeInt64 v) = sint v"
proof (induction v rule: measure_induct_rule [of sleb_measure])
  case (less v)
  show ?case
  proof (cases "- 64 \<le> sint v \<and> sint v < 64")
    case True
    have b: "bit (ucast (v AND 0x7f) :: byte) 6 \<longleftrightarrow> bit v 6"
      by (simp add: bit_simps and_0x7f)
    have "sleb_value [ucast (v AND 0x7f)] = sint v"
      unfolding sleb_value.simps low7_byte low7_sint b bit6_sint using True by presburger
    with True show ?thesis
      by (subst (1 2) EncodeInt64_eq) (simp add: low7_byte del: sleb_value.simps)
  next
    case False
    then have "sleb_measure (signed_drop_bit 7 v) < sleb_measure v"
      by (auto simp: sleb_measure_def sint_drop7)
    from less.IH [OF this] have IH: "uleb_wf (EncodeInt64 (signed_drop_bit 7 v))"
      "sleb_value (EncodeInt64 (signed_drop_bit 7 v)) = sint v div 128"
      by (auto simp: sint_drop7)
    then have "EncodeInt64 (signed_drop_bit 7 v) \<noteq> []" by auto
    then have "sleb_value ((ucast (v AND 0x7f) OR 0x80) # EncodeInt64 (signed_drop_bit 7 v)) = sint v"
      by (simp add: sleb_value_Cons low7_byte low7_sint IH(2))
    then show ?thesis
      using IH(1) by (subst (1 2) EncodeInt64_eq) (simp add: if_not_P [OF False] low7_byte uleb_wf_Cons)
  qed
qed

lemma length_EncodeInt64:
  "- (2 ^ (7 * k + 6)) \<le> sint v \<Longrightarrow> sint v < 2 ^ (7 * k + 6) \<Longrightarrow> length (EncodeInt64 v) \<le> Suc k"
proof (induction k arbitrary: v)
  case 0
  then show ?case by (simp add: EncodeInt64_eq)
next
  case (Suc k)
  have "sint (signed_drop_bit 7 v) = sint v div 128"
    by (simp add: sint_signed_drop_bit_eq drop_bit_eq_div)
  with Suc.prems have "length (EncodeInt64 (signed_drop_bit 7 v)) \<le> Suc k"
    by (intro Suc.IH) (auto simp: power_add)
  then show ?case by (subst EncodeInt64_eq) simp
qed

lemma decodeInt32_iff:
  "decodeInt32 buf = Ok (v, n) \<longleftrightarrow>
     (\<exists>p rs. buf = p @ rs \<and> uleb_wf p \<and> n = length p \<and> n \<le> 5 \<and> v = of_int (sleb_value p) \<and>
        (n = 5 \<longrightarrow> last p AND 0x30 = (if v <s 0 then 0x30 else 0)))"
  using i32dec.loop_exact [of 0 0 buf v n] by (simp add: decodeInt32_def)

lemma decodeInt64_iff:
  "decodeInt64 buf = Ok (v, n) \<longleftrightarrow>
     (\<exists>p rs. buf = p @ rs \<and> uleb_wf p \<and> n = length p \<and> n \<le> 10 \<and> v = of_int (sleb_value p) \<and>
        (n = 10 \<longrightarrow> last p AND 0x3e = (if v <s 0 then 0x3e else 0)))"
  using i64dec.loop_exact [of 0 0 buf v n] by (simp add: decodeInt64_def)

lemma sleb_byte_unused:
  assumes "b < 0x80"
  shows "sleb_value [b] \<in> {- 8..<8} \<Longrightarrow> b AND 0x30 = (if sleb_value [b] < 0 then 0x30 else 0)"
    and "sleb_value [b] \<in> {- 1..<1} \<Longrightarrow> b AND 0x3e = (if sleb_value [b] < 0 then 0x3e else 0)"
proof -
  have u: "uint b = int (unat b)" "unat b < 128" using assms by (simp_all add: byte_lt_0x80)
  have b: "b AND 0x30 = 0" if "unat b < 8"
    by (rule byte_range [OF _ le0 that]) code_simp
  have e: "b AND 0x3e = 0" if "unat b < 1"
    by (rule byte_range [OF _ le0 that]) code_simp
  have c: "b AND 0x30 = 0x30" if "120 \<le> unat b"
    by (rule byte_range [OF _ that u(2)]) code_simp
  have d: "b AND 0x3e = 0x3e" if "127 \<le> unat b"
    by (rule byte_range [OF _ that u(2)]) code_simp
  show "sleb_value [b] \<in> {- 8..<8} \<Longrightarrow> b AND 0x30 = (if sleb_value [b] < 0 then 0x30 else 0)"
    using b c uint_byte [of b] assms unfolding sleb_value_byte [OF assms] u(1) word_less_def
    by (auto split: if_splits)
  show "sleb_value [b] \<in> {- 1..<1} \<Longrightarrow> b AND 0x3e = (if sleb_value [b] < 0 then 0x3e else 0)"
    using d e uint_byte [of b] assms unfolding sleb_value_byte [OF assms] u(1) word_less_def
    by (auto split: if_splits)
qed

lemma div_range:
  fixes M :: int
  assumes "0 < M" "- k * M \<le> x" "x < k * M"
  shows "x div M \<in> {- k..<k}"
proof -
  have "- k \<le> x div M"
    using zdiv_mono1 [OF assms(2,1)] assms(1) by (simp only: nonzero_mult_div_cancel_right)
  moreover have "M * (x div M) \<le> x" using assms(1) by (simp add: minus_mod_eq_mult_div [symmetric])
  then have "M * (x div M) < M * k" using assms(3) by (simp add: mult.commute)
  then have "x div M < k" using assms(1) by simp
  ultimately show ?thesis by simp
qed

lemma sleb_last_neg: "uleb_wf p \<Longrightarrow> sleb_value [last p] < 0 \<longleftrightarrow> sleb_value p < 0"
  by (simp only: sleb_value_last pos_imp_zdiv_neg_iff zero_less_power zero_less_numeral)

lemma uleb_wf_last: "uleb_wf p \<Longrightarrow> last p < 0x80"
  by (induction p rule: uleb_wf.induct) auto

lemma decodeInt32_complete:
  assumes "uleb_wf p" "length p \<le> 5" "- (2 ^ 31) \<le> sleb_value p" "sleb_value p < 2 ^ 31"
  shows "decodeInt32 (p @ rs) = Ok (of_int (sleb_value p), length p)"
proof -
  have v: "sint (of_int (sleb_value p) :: i32) = sleb_value p"
    using assms(3,4) by (simp add: signed_of_int signed_take_bit_int_eq_self)
  have "last p AND 0x30 = (if sleb_value p < 0 then 0x30 else 0)" if "length p = 5"
  proof -
    have "sleb_value [last p] \<in> {- 8..<8}"
      unfolding sleb_value_last [OF assms(1)] that using assms(3,4) by (intro div_range) simp_all
    then show ?thesis
      using sleb_byte_unused(1) [OF uleb_wf_last [OF assms(1)]] unfolding sleb_last_neg [OF assms(1)] by blast
  qed
  then show ?thesis using assms(1,2) v
    unfolding decodeInt32_iff by (auto simp: word_sless_alt)
qed

lemma decodeInt64_complete:
  assumes "uleb_wf p" "length p \<le> 10" "- (2 ^ 63) \<le> sleb_value p" "sleb_value p < 2 ^ 63"
  shows "decodeInt64 (p @ rs) = Ok (of_int (sleb_value p), length p)"
proof -
  have v: "sint (of_int (sleb_value p) :: i64) = sleb_value p"
    using assms(3,4) by (simp add: signed_of_int signed_take_bit_int_eq_self)
  have "last p AND 0x3e = (if sleb_value p < 0 then 0x3e else 0)" if "length p = 10"
  proof -
    have "sleb_value [last p] \<in> {- 1..<1}"
      unfolding sleb_value_last [OF assms(1)] that using assms(3,4) by (intro div_range) simp_all
    then show ?thesis
      using sleb_byte_unused(2) [OF uleb_wf_last [OF assms(1)]] unfolding sleb_last_neg [OF assms(1)] by blast
  qed
  then show ?thesis using assms(1,2) v
    unfolding decodeInt64_iff by (auto simp: word_sless_alt)
qed

lemma sint_range64: "- (2 ^ 63) \<le> sint (v :: i64)" "sint (v :: i64) < 2 ^ 63"
  using sint_range_size [of v] by (auto simp: word_size)

lemma sint_range32: "- (2 ^ 31) \<le> sint (v :: i32)" "sint (v :: i32) < 2 ^ 31"
  using sint_range_size [of v] by (auto simp: word_size)

interpretation i64: varint_codec EncodeInt64 LoadInt64
proof
  fix v rs
  have "length (EncodeInt64 v) \<le> Suc 9"
    using sint_range64 [of v] by (intro length_EncodeInt64) auto
  then show "LoadInt64 (EncodeInt64 v @ rs) = Ok (v, length (EncodeInt64 v))"
    using decodeInt64_complete [of "EncodeInt64 v" rs] sint_range64 [of v] EncodeInt64_value [of v]
    by (simp add: LoadInt64_def)
qed

interpretation i32: varint_codec EncodeInt32 LoadInt32
proof
  fix v :: i32 and rs
  have v: "sint (scast v :: i64) = sint v"
    using sint_range32 [of v] by (simp add: signed_scast_eq signed_take_bit_int_eq_self)
  have "length (EncodeInt64 (scast v)) \<le> Suc 4"
    using sint_range32 [of v] by (intro length_EncodeInt64) (auto simp: v)
  then show "LoadInt32 (EncodeInt32 v @ rs) = Ok (v, length (EncodeInt32 v))"
    using decodeInt32_complete [of "EncodeInt64 (scast v)" rs] sint_range32 [of v] EncodeInt64_value [of "scast v"]
    by (simp add: LoadInt32_def EncodeInt32_def v)
qed

section \<open>Decoders stay within their buffer\<close>

text \<open>No decoder panics, and one that succeeds has read between one and all of the bytes.\<close>

definition within :: "byte list \<Rightarrow> 'a \<times> nat \<Rightarrow> bool" where
  "within buf = (\<lambda>(v, n). 0 < n \<and> n \<le> length buf)"

lemma decodeUint32_loop_within:
  "holds (\<lambda>(v, n). i < n \<and> n \<le> i + length bs) (decodeUint32_loop bs i ret s)"
proof (induction bs arbitrary: i ret s)
  case (Cons b bs)
  have "holds (\<lambda>(v, n). i < n \<and> n \<le> i + length (b # bs)) (decodeUint32_loop bs (i + 1) ret' s')" for ret' s'
    by (rule holds_mono [OF Cons.IH]) auto
  then show ?case by simp
qed simp

lemma LoadUint64_loop_within:
  "holds (\<lambda>(v, n). i < n \<and> n \<le> i + length bs) (LoadUint64_loop bs i ret s)"
proof (induction bs arbitrary: i ret s)
  case (Cons b bs)
  have "holds (\<lambda>(v, n). i < n \<and> n \<le> i + length (b # bs)) (LoadUint64_loop bs (i + 1) ret' s')" for ret' s'
    by (rule holds_mono [OF Cons.IH]) auto
  then show ?case by simp
qed simp

lemma decodeInt32_loop_within:
  "holds (\<lambda>(v, n). i < n \<and> n \<le> i + length bs) (decodeInt32_loop bs i s ret)"
proof (induction bs arbitrary: i ret s)
  case (Cons b bs)
  have "holds (\<lambda>(v, n). i < n \<and> n \<le> i + length (b # bs)) (decodeInt32_loop bs (i + 1) s' ret')" for ret' s'
    by (rule holds_mono [OF Cons.IH]) auto
  then show ?case by (simp add: Let_def)
qed simp

lemma decodeInt64_loop_within:
  "holds (\<lambda>(v, n). i < n \<and> n \<le> i + length bs) (decodeInt64_loop bs i s ret)"
proof (induction bs arbitrary: i ret s)
  case (Cons b bs)
  have "holds (\<lambda>(v, n). i < n \<and> n \<le> i + length (b # bs)) (decodeInt64_loop bs (i + 1) s' ret')" for ret' s'
    by (rule holds_mono [OF Cons.IH]) auto
  then show ?case by (simp add: Let_def)
qed simp

lemma decodeInt33_loop_within:
  "shift < 35 \<Longrightarrow>
     holds (\<lambda>(ret, shift, n, b). i < n \<and> n \<le> i + length bs) (decodeInt33_loop bs ret shift i b)"
proof (induction bs arbitrary: i ret shift b)
  case (Cons c bs)
  have "holds (\<lambda>(ret, shift, n, b). i < n \<and> n \<le> i + length (c # bs)) (decodeInt33_loop bs ret' (shift + 7) (i + 1) b')"
    for ret' b'
  proof (cases "shift + 7 < 35")
    case True
    show ?thesis by (rule holds_mono [OF Cons.IH [OF True]]) auto
  next
    case False
    then show ?thesis by (cases bs) simp_all
  qed
  then show ?case using Cons.prems by (simp add: Let_def)
qed simp

lemma decodeInt33AsInt64_within: "holds (within buf) (decodeInt33AsInt64 buf)"
  unfolding decodeInt33AsInt64_def holds_bindO
  by (rule holds_mono [OF decodeInt33_loop_within]) (auto simp: within_def Let_def)

lemma Load_within:
  "holds (within buf) (LoadUint32 buf)" "holds (within buf) (LoadUint64 buf)"
  "holds (within buf) (LoadInt32 buf)" "holds (within buf) (LoadInt64 buf)"
  using decodeUint32_loop_within [of 0 buf 0 0] LoadUint64_loop_within [of 0 buf 0 0]
    decodeInt32_loop_within [of 0 buf 0 0] decodeInt64_loop_within [of 0 buf 0 0]
  by (simp_all add: within_def LoadUint32_def decodeUint32_def LoadUint64_def LoadInt32_def
      decodeInt32_def LoadInt64_def decodeInt64_def)

lemma holds_withinI:
  "holds (within buf) m \<Longrightarrow> (\<And>v n. 0 < n \<Longrightarrow> n \<le> length buf \<Longrightarrow> P (v, n)) \<Longrightarrow> holds P m"
  by (erule holds_mono) (auto simp: within_def)

lemmas holds_Load [wpI] = Load_within [THEN holds_withinI] decodeInt33AsInt64_within [THEN holds_withinI]

lemma holds_decode_reader:
  assumes "holds (within (rest r)) (d (rest r))" and "\<And>v n. 0 < n \<Longrightarrow> n \<le> Len r \<Longrightarrow> P (v, n, advance n r)"
  shows "holds P (bindO (d (rest r)) (\<lambda>(v, n). Ok (v, n, advance n r)))"
  unfolding holds_bindO by (rule holds_mono [OF assms(1)]) (use assms(2) in \<open>auto simp: within_def\<close>)

lemma holds_Decode [wpI]:
  "(\<And>v n. 0 < n \<Longrightarrow> n \<le> Len r \<Longrightarrow> P (v, n, advance n r)) \<Longrightarrow> holds P (DecodeUint32 r)"
  "(\<And>v n. 0 < n \<Longrightarrow> n \<le> Len r \<Longrightarrow> P' (v, n, advance n r)) \<Longrightarrow> holds P' (DecodeInt32 r)"
  "(\<And>v n. 0 < n \<Longrightarrow> n \<le> Len r \<Longrightarrow> Q (v, n, advance n r)) \<Longrightarrow> holds Q (DecodeInt64 r)"
  "(\<And>v n. 0 < n \<Longrightarrow> n \<le> Len r \<Longrightarrow> Q' (v, n, advance n r)) \<Longrightarrow> holds Q' (DecodeInt33AsInt64 r)"
  using Load_within [of "rest r"] decodeInt33AsInt64_within [of "rest r"]
  unfolding DecodeUint32_def DecodeInt32_def DecodeInt64_def DecodeInt33AsInt64_def
    LoadUint32_def LoadInt32_def LoadInt64_def
  by (blast intro: holds_decode_reader)+

section \<open>The decoders and encoders\<close>

text \<open>
  C24 (unsigned decoding is exact). \<^verbatim>\<open>LoadUint32\<close> succeeds with \<open>v\<close> and \<open>n\<close> on exactly those
  buffers that start with a terminated sequence of \<open>n \<le> 5\<close> groups whose value is \<open>v\<close> and fits in 32
  bits; in particular it rejects every overflow, and the bytes that follow never matter.
\<close>

theorem LoadUint32_exact:
  "LoadUint32 buf = Ok (v, n) \<longleftrightarrow>
     (\<exists>p rs. buf = p @ rs \<and> length p = n \<and> uleb_wf p \<and> n \<le> 5 \<and>
        uleb_value p < 2 ^ 32 \<and> unat v = uleb_value p)"
  unfolding LoadUint32_def by (rule decodeUint32_iff)

text \<open>
  Signed decoding. \<^verbatim>\<open>LoadInt32\<close> returns the signed value of the leading groups modulo
  \<open>2\<^sup>3\<^sup>2\<close>, on exactly those buffers that start with a terminated sequence of at most five groups,
  of whose fifth only the two bits \<open>0x30\<close> are compared with the sign of the result.
\<close>

theorem LoadInt32_exact:
  "LoadInt32 buf = Ok (v, n) \<longleftrightarrow>
     (\<exists>p rs. buf = p @ rs \<and> uleb_wf p \<and> n = length p \<and> n \<le> 5 \<and> v = of_int (sleb_value p) \<and>
        (if n = 5 then last p AND 0x30 = (if v <s 0 then 0x30 else 0) else n < 5))"
proof -
  have "n \<le> 5 \<and> A \<and> (n = 5 \<longrightarrow> B) \<longleftrightarrow> n \<le> 5 \<and> A \<and> (if n = 5 then B else n < 5)" for A B
    by auto
  then show ?thesis unfolding LoadInt32_def decodeInt32_iff by (simp only:)
qed

text \<open>
  An out-of-range \<open>int32\<close> is accepted. The five bytes \<open>80 80 80 80 40\<close> denote \<open>- 2\<^sup>3\<^sup>4\<close>, which is no
  32-bit integer: bit 6 of the last byte is never compared with the sign, and the result is \<open>0\<close>.
\<close>

theorem LoadInt32_accepts_out_of_range:
  "LoadInt32 [0x80, 0x80, 0x80, 0x80, 0x40] = Ok (0, 5) \<and>
   sleb_value [0x80, 0x80, 0x80, 0x80, 0x40] = - (2 ^ 34)"
proof
  show "LoadInt32 [0x80, 0x80, 0x80, 0x80, 0x40] = Ok (0, 5)"
    by (simp add: LoadInt32_def decodeInt32_def Let_def maxVarintLen32_def word_sless_alt)
  show "sleb_value [0x80, 0x80, 0x80, 0x80, 0x40] = - (2 ^ 34)"
    by (simp add: bit_simps)
qed

text \<open>
  C29 (round trips). Each decoder recovers what its encoder wrote, reads exactly the bytes written,
  and is not disturbed by the bytes that follow.
\<close>

theorem leb128_roundtrip:
  "LoadUint32 (EncodeUint32 a @ rs) = Ok (a, length (EncodeUint32 a)) \<and>
   LoadUint64 (EncodeUint64 b @ rs) = Ok (b, length (EncodeUint64 b)) \<and>
   LoadInt32 (EncodeInt32 c @ rs) = Ok (c, length (EncodeInt32 c)) \<and>
   LoadInt64 (EncodeInt64 d @ rs) = Ok (d, length (EncodeInt64 d))"
  by (simp only: u32.dec_enc u64.dec_enc i32.dec_enc i64.dec_enc simp_thms)

text \<open>
  The encoding is shortest. No sequence that \<^verbatim>\<open>LoadUint64\<close> decodes to \<open>v\<close> is shorter than
  \<^verbatim>\<open>EncodeUint64\<close>'s, and sequences of values never run into each other: two equally long lists of
  values with the same concatenated encodings are equal.
\<close>

theorem EncodeUint64_shortest:
  "(LoadUint64 buf = Ok (v, n) \<longrightarrow> length (EncodeUint64 v) \<le> n) \<and>
   (length vs = length ws \<longrightarrow>
      concat (map EncodeUint64 vs) = concat (map EncodeUint64 ws) \<longrightarrow> vs = ws)"
proof (intro conjI impI)
  assume "LoadUint64 buf = Ok (v, n)"
  then obtain p where p: "length p = n" "uleb_wf p" "unat v = uleb_value p"
    unfolding LoadUint64_iff by blast
  then have "length p = Suc (n - 1)" by (cases p) auto
  then show "length (EncodeUint64 v) \<le> n"
    using length_EncodeUint64 [of v "n - 1"] uleb_value_bound [of p] p by simp
next
  assume "length vs = length ws" "concat (map EncodeUint64 vs) = concat (map EncodeUint64 ws)"
  then show "vs = ws" using u64.concat_enc_inj [of vs ws "[]" "[]"] by simp
qed

theorem EncodeUint64_shortest_witness:
  "length (EncodeUint64 1) \<le> 2 \<and>
   concat (map EncodeUint64 [1, 2]) = concat (map EncodeUint64 [1, 2])"
proof -
  have "LoadUint64 [0x81, 0] = Ok (1, 2)" by code_simp
  then show ?thesis using EncodeUint64_shortest [of "[0x81, 0]" 1 2 "[1, 2]" "[1, 2]"] by simp
qed

end
