(* ===== verification/Opcodes.thy ===== *)
theory Opcodes
  imports Prelude
begin

text \<open>
  The opcodes of \<^verbatim>\<open>internal/wasm/instruction.go\<close>, as abbreviations of their bytes.
\<close>

section \<open>Instructions\<close>

abbreviation (input) OpcodeUnreachable :: byte where "OpcodeUnreachable \<equiv> 0x00"
abbreviation (input) OpcodeNop :: byte where "OpcodeNop \<equiv> 0x01"
abbreviation (input) OpcodeBlock :: byte where "OpcodeBlock \<equiv> 0x02"
abbreviation (input) OpcodeLoop :: byte where "OpcodeLoop \<equiv> 0x03"
abbreviation (input) OpcodeIf :: byte where "OpcodeIf \<equiv> 0x04"
abbreviation (input) OpcodeElse :: byte where "OpcodeElse \<equiv> 0x05"
abbreviation (input) OpcodeThrow :: byte where "OpcodeThrow \<equiv> 0x08"
abbreviation (input) OpcodeThrowRef :: byte where "OpcodeThrowRef \<equiv> 0x0a"
abbreviation (input) OpcodeLegacyTry :: byte where "OpcodeLegacyTry \<equiv> 0x06"
abbreviation (input) OpcodeLegacyCatch :: byte where "OpcodeLegacyCatch \<equiv> 0x07"
abbreviation (input) OpcodeLegacyRethrow :: byte where "OpcodeLegacyRethrow \<equiv> 0x09"
abbreviation (input) OpcodeEnd :: byte where "OpcodeEnd \<equiv> 0x0b"
abbreviation (input) OpcodeBr :: byte where "OpcodeBr \<equiv> 0x0c"
abbreviation (input) OpcodeBrIf :: byte where "OpcodeBrIf \<equiv> 0x0d"
abbreviation (input) OpcodeBrTable :: byte where "OpcodeBrTable \<equiv> 0x0e"
abbreviation (input) OpcodeReturn :: byte where "OpcodeReturn \<equiv> 0x0f"
abbreviation (input) OpcodeCall :: byte where "OpcodeCall \<equiv> 0x10"
abbreviation (input) OpcodeCallIndirect :: byte where "OpcodeCallIndirect \<equiv> 0x11"
abbreviation (input) OpcodeDrop :: byte where "OpcodeDrop \<equiv> 0x1a"
abbreviation (input) OpcodeSelect :: byte where "OpcodeSelect \<equiv> 0x1b"
abbreviation (input) OpcodeTypedSelect :: byte where "OpcodeTypedSelect \<equiv> 0x1c"
abbreviation (input) OpcodeLegacyDelegate :: byte where "OpcodeLegacyDelegate \<equiv> 0x18"
abbreviation (input) OpcodeLegacyCatchAll :: byte where "OpcodeLegacyCatchAll \<equiv> 0x19"
abbreviation (input) OpcodeTryTable :: byte where "OpcodeTryTable \<equiv> 0x1f"
abbreviation (input) OpcodeLocalGet :: byte where "OpcodeLocalGet \<equiv> 0x20"
abbreviation (input) OpcodeLocalSet :: byte where "OpcodeLocalSet \<equiv> 0x21"
abbreviation (input) OpcodeLocalTee :: byte where "OpcodeLocalTee \<equiv> 0x22"
abbreviation (input) OpcodeGlobalGet :: byte where "OpcodeGlobalGet \<equiv> 0x23"
abbreviation (input) OpcodeGlobalSet :: byte where "OpcodeGlobalSet \<equiv> 0x24"
abbreviation (input) OpcodeTableGet :: byte where "OpcodeTableGet \<equiv> 0x25"
abbreviation (input) OpcodeTableSet :: byte where "OpcodeTableSet \<equiv> 0x26"
abbreviation (input) OpcodeI32Load :: byte where "OpcodeI32Load \<equiv> 0x28"
abbreviation (input) OpcodeI64Load :: byte where "OpcodeI64Load \<equiv> 0x29"
abbreviation (input) OpcodeF32Load :: byte where "OpcodeF32Load \<equiv> 0x2a"
abbreviation (input) OpcodeF64Load :: byte where "OpcodeF64Load \<equiv> 0x2b"
abbreviation (input) OpcodeI32Load8S :: byte where "OpcodeI32Load8S \<equiv> 0x2c"
abbreviation (input) OpcodeI32Load8U :: byte where "OpcodeI32Load8U \<equiv> 0x2d"
abbreviation (input) OpcodeI32Load16S :: byte where "OpcodeI32Load16S \<equiv> 0x2e"
abbreviation (input) OpcodeI32Load16U :: byte where "OpcodeI32Load16U \<equiv> 0x2f"
abbreviation (input) OpcodeI64Load8S :: byte where "OpcodeI64Load8S \<equiv> 0x30"
abbreviation (input) OpcodeI64Load8U :: byte where "OpcodeI64Load8U \<equiv> 0x31"
abbreviation (input) OpcodeI64Load16S :: byte where "OpcodeI64Load16S \<equiv> 0x32"
abbreviation (input) OpcodeI64Load16U :: byte where "OpcodeI64Load16U \<equiv> 0x33"
abbreviation (input) OpcodeI64Load32S :: byte where "OpcodeI64Load32S \<equiv> 0x34"
abbreviation (input) OpcodeI64Load32U :: byte where "OpcodeI64Load32U \<equiv> 0x35"
abbreviation (input) OpcodeI32Store :: byte where "OpcodeI32Store \<equiv> 0x36"
abbreviation (input) OpcodeI64Store :: byte where "OpcodeI64Store \<equiv> 0x37"
abbreviation (input) OpcodeF32Store :: byte where "OpcodeF32Store \<equiv> 0x38"
abbreviation (input) OpcodeF64Store :: byte where "OpcodeF64Store \<equiv> 0x39"
abbreviation (input) OpcodeI32Store8 :: byte where "OpcodeI32Store8 \<equiv> 0x3a"
abbreviation (input) OpcodeI32Store16 :: byte where "OpcodeI32Store16 \<equiv> 0x3b"
abbreviation (input) OpcodeI64Store8 :: byte where "OpcodeI64Store8 \<equiv> 0x3c"
abbreviation (input) OpcodeI64Store16 :: byte where "OpcodeI64Store16 \<equiv> 0x3d"
abbreviation (input) OpcodeI64Store32 :: byte where "OpcodeI64Store32 \<equiv> 0x3e"
abbreviation (input) OpcodeMemorySize :: byte where "OpcodeMemorySize \<equiv> 0x3f"
abbreviation (input) OpcodeMemoryGrow :: byte where "OpcodeMemoryGrow \<equiv> 0x40"
abbreviation (input) OpcodeI32Const :: byte where "OpcodeI32Const \<equiv> 0x41"
abbreviation (input) OpcodeI64Const :: byte where "OpcodeI64Const \<equiv> 0x42"
abbreviation (input) OpcodeF32Const :: byte where "OpcodeF32Const \<equiv> 0x43"
abbreviation (input) OpcodeF64Const :: byte where "OpcodeF64Const \<equiv> 0x44"
abbreviation (input) OpcodeI32Eqz :: byte where "OpcodeI32Eqz \<equiv> 0x45"
abbreviation (input) OpcodeI32Eq :: byte where "OpcodeI32Eq \<equiv> 0x46"
abbreviation (input) OpcodeI32Ne :: byte where "OpcodeI32Ne \<equiv> 0x47"
abbreviation (input) OpcodeI32LtS :: byte where "OpcodeI32LtS \<equiv> 0x48"
abbreviation (input) OpcodeI32LtU :: byte where "OpcodeI32LtU \<equiv> 0x49"
abbreviation (input) OpcodeI32GtS :: byte where "OpcodeI32GtS \<equiv> 0x4a"
abbreviation (input) OpcodeI32GtU :: byte where "OpcodeI32GtU \<equiv> 0x4b"
abbreviation (input) OpcodeI32LeS :: byte where "OpcodeI32LeS \<equiv> 0x4c"
abbreviation (input) OpcodeI32LeU :: byte where "OpcodeI32LeU \<equiv> 0x4d"
abbreviation (input) OpcodeI32GeS :: byte where "OpcodeI32GeS \<equiv> 0x4e"
abbreviation (input) OpcodeI32GeU :: byte where "OpcodeI32GeU \<equiv> 0x4f"
abbreviation (input) OpcodeI64Eqz :: byte where "OpcodeI64Eqz \<equiv> 0x50"
abbreviation (input) OpcodeI64Eq :: byte where "OpcodeI64Eq \<equiv> 0x51"
abbreviation (input) OpcodeI64Ne :: byte where "OpcodeI64Ne \<equiv> 0x52"
abbreviation (input) OpcodeI64LtS :: byte where "OpcodeI64LtS \<equiv> 0x53"
abbreviation (input) OpcodeI64LtU :: byte where "OpcodeI64LtU \<equiv> 0x54"
abbreviation (input) OpcodeI64GtS :: byte where "OpcodeI64GtS \<equiv> 0x55"
abbreviation (input) OpcodeI64GtU :: byte where "OpcodeI64GtU \<equiv> 0x56"
abbreviation (input) OpcodeI64LeS :: byte where "OpcodeI64LeS \<equiv> 0x57"
abbreviation (input) OpcodeI64LeU :: byte where "OpcodeI64LeU \<equiv> 0x58"
abbreviation (input) OpcodeI64GeS :: byte where "OpcodeI64GeS \<equiv> 0x59"
abbreviation (input) OpcodeI64GeU :: byte where "OpcodeI64GeU \<equiv> 0x5a"
abbreviation (input) OpcodeF32Eq :: byte where "OpcodeF32Eq \<equiv> 0x5b"
abbreviation (input) OpcodeF32Ne :: byte where "OpcodeF32Ne \<equiv> 0x5c"
abbreviation (input) OpcodeF32Lt :: byte where "OpcodeF32Lt \<equiv> 0x5d"
abbreviation (input) OpcodeF32Gt :: byte where "OpcodeF32Gt \<equiv> 0x5e"
abbreviation (input) OpcodeF32Le :: byte where "OpcodeF32Le \<equiv> 0x5f"
abbreviation (input) OpcodeF32Ge :: byte where "OpcodeF32Ge \<equiv> 0x60"
abbreviation (input) OpcodeF64Eq :: byte where "OpcodeF64Eq \<equiv> 0x61"
abbreviation (input) OpcodeF64Ne :: byte where "OpcodeF64Ne \<equiv> 0x62"
abbreviation (input) OpcodeF64Lt :: byte where "OpcodeF64Lt \<equiv> 0x63"
abbreviation (input) OpcodeF64Gt :: byte where "OpcodeF64Gt \<equiv> 0x64"
abbreviation (input) OpcodeF64Le :: byte where "OpcodeF64Le \<equiv> 0x65"
abbreviation (input) OpcodeF64Ge :: byte where "OpcodeF64Ge \<equiv> 0x66"
abbreviation (input) OpcodeI32Clz :: byte where "OpcodeI32Clz \<equiv> 0x67"
abbreviation (input) OpcodeI32Ctz :: byte where "OpcodeI32Ctz \<equiv> 0x68"
abbreviation (input) OpcodeI32Popcnt :: byte where "OpcodeI32Popcnt \<equiv> 0x69"
abbreviation (input) OpcodeI32Add :: byte where "OpcodeI32Add \<equiv> 0x6a"
abbreviation (input) OpcodeI32Sub :: byte where "OpcodeI32Sub \<equiv> 0x6b"
abbreviation (input) OpcodeI32Mul :: byte where "OpcodeI32Mul \<equiv> 0x6c"
abbreviation (input) OpcodeI32DivS :: byte where "OpcodeI32DivS \<equiv> 0x6d"
abbreviation (input) OpcodeI32DivU :: byte where "OpcodeI32DivU \<equiv> 0x6e"
abbreviation (input) OpcodeI32RemS :: byte where "OpcodeI32RemS \<equiv> 0x6f"
abbreviation (input) OpcodeI32RemU :: byte where "OpcodeI32RemU \<equiv> 0x70"
abbreviation (input) OpcodeI32And :: byte where "OpcodeI32And \<equiv> 0x71"
abbreviation (input) OpcodeI32Or :: byte where "OpcodeI32Or \<equiv> 0x72"
abbreviation (input) OpcodeI32Xor :: byte where "OpcodeI32Xor \<equiv> 0x73"
abbreviation (input) OpcodeI32Shl :: byte where "OpcodeI32Shl \<equiv> 0x74"
abbreviation (input) OpcodeI32ShrS :: byte where "OpcodeI32ShrS \<equiv> 0x75"
abbreviation (input) OpcodeI32ShrU :: byte where "OpcodeI32ShrU \<equiv> 0x76"
abbreviation (input) OpcodeI32Rotl :: byte where "OpcodeI32Rotl \<equiv> 0x77"
abbreviation (input) OpcodeI32Rotr :: byte where "OpcodeI32Rotr \<equiv> 0x78"
abbreviation (input) OpcodeI64Clz :: byte where "OpcodeI64Clz \<equiv> 0x79"
abbreviation (input) OpcodeI64Ctz :: byte where "OpcodeI64Ctz \<equiv> 0x7a"
abbreviation (input) OpcodeI64Popcnt :: byte where "OpcodeI64Popcnt \<equiv> 0x7b"
abbreviation (input) OpcodeI64Add :: byte where "OpcodeI64Add \<equiv> 0x7c"
abbreviation (input) OpcodeI64Sub :: byte where "OpcodeI64Sub \<equiv> 0x7d"
abbreviation (input) OpcodeI64Mul :: byte where "OpcodeI64Mul \<equiv> 0x7e"
abbreviation (input) OpcodeI64DivS :: byte where "OpcodeI64DivS \<equiv> 0x7f"
abbreviation (input) OpcodeI64DivU :: byte where "OpcodeI64DivU \<equiv> 0x80"
abbreviation (input) OpcodeI64RemS :: byte where "OpcodeI64RemS \<equiv> 0x81"
abbreviation (input) OpcodeI64RemU :: byte where "OpcodeI64RemU \<equiv> 0x82"
abbreviation (input) OpcodeI64And :: byte where "OpcodeI64And \<equiv> 0x83"
abbreviation (input) OpcodeI64Or :: byte where "OpcodeI64Or \<equiv> 0x84"
abbreviation (input) OpcodeI64Xor :: byte where "OpcodeI64Xor \<equiv> 0x85"
abbreviation (input) OpcodeI64Shl :: byte where "OpcodeI64Shl \<equiv> 0x86"
abbreviation (input) OpcodeI64ShrS :: byte where "OpcodeI64ShrS \<equiv> 0x87"
abbreviation (input) OpcodeI64ShrU :: byte where "OpcodeI64ShrU \<equiv> 0x88"
abbreviation (input) OpcodeI64Rotl :: byte where "OpcodeI64Rotl \<equiv> 0x89"
abbreviation (input) OpcodeI64Rotr :: byte where "OpcodeI64Rotr \<equiv> 0x8a"
abbreviation (input) OpcodeF32Abs :: byte where "OpcodeF32Abs \<equiv> 0x8b"
abbreviation (input) OpcodeF32Neg :: byte where "OpcodeF32Neg \<equiv> 0x8c"
abbreviation (input) OpcodeF32Ceil :: byte where "OpcodeF32Ceil \<equiv> 0x8d"
abbreviation (input) OpcodeF32Floor :: byte where "OpcodeF32Floor \<equiv> 0x8e"
abbreviation (input) OpcodeF32Trunc :: byte where "OpcodeF32Trunc \<equiv> 0x8f"
abbreviation (input) OpcodeF32Nearest :: byte where "OpcodeF32Nearest \<equiv> 0x90"
abbreviation (input) OpcodeF32Sqrt :: byte where "OpcodeF32Sqrt \<equiv> 0x91"
abbreviation (input) OpcodeF32Add :: byte where "OpcodeF32Add \<equiv> 0x92"
abbreviation (input) OpcodeF32Sub :: byte where "OpcodeF32Sub \<equiv> 0x93"
abbreviation (input) OpcodeF32Mul :: byte where "OpcodeF32Mul \<equiv> 0x94"
abbreviation (input) OpcodeF32Div :: byte where "OpcodeF32Div \<equiv> 0x95"
abbreviation (input) OpcodeF32Min :: byte where "OpcodeF32Min \<equiv> 0x96"
abbreviation (input) OpcodeF32Max :: byte where "OpcodeF32Max \<equiv> 0x97"
abbreviation (input) OpcodeF32Copysign :: byte where "OpcodeF32Copysign \<equiv> 0x98"
abbreviation (input) OpcodeF64Abs :: byte where "OpcodeF64Abs \<equiv> 0x99"
abbreviation (input) OpcodeF64Neg :: byte where "OpcodeF64Neg \<equiv> 0x9a"
abbreviation (input) OpcodeF64Ceil :: byte where "OpcodeF64Ceil \<equiv> 0x9b"
abbreviation (input) OpcodeF64Floor :: byte where "OpcodeF64Floor \<equiv> 0x9c"
abbreviation (input) OpcodeF64Trunc :: byte where "OpcodeF64Trunc \<equiv> 0x9d"
abbreviation (input) OpcodeF64Nearest :: byte where "OpcodeF64Nearest \<equiv> 0x9e"
abbreviation (input) OpcodeF64Sqrt :: byte where "OpcodeF64Sqrt \<equiv> 0x9f"
abbreviation (input) OpcodeF64Add :: byte where "OpcodeF64Add \<equiv> 0xa0"
abbreviation (input) OpcodeF64Sub :: byte where "OpcodeF64Sub \<equiv> 0xa1"
abbreviation (input) OpcodeF64Mul :: byte where "OpcodeF64Mul \<equiv> 0xa2"
abbreviation (input) OpcodeF64Div :: byte where "OpcodeF64Div \<equiv> 0xa3"
abbreviation (input) OpcodeF64Min :: byte where "OpcodeF64Min \<equiv> 0xa4"
abbreviation (input) OpcodeF64Max :: byte where "OpcodeF64Max \<equiv> 0xa5"
abbreviation (input) OpcodeF64Copysign :: byte where "OpcodeF64Copysign \<equiv> 0xa6"
abbreviation (input) OpcodeI32WrapI64 :: byte where "OpcodeI32WrapI64 \<equiv> 0xa7"
abbreviation (input) OpcodeI32TruncF32S :: byte where "OpcodeI32TruncF32S \<equiv> 0xa8"
abbreviation (input) OpcodeI32TruncF32U :: byte where "OpcodeI32TruncF32U \<equiv> 0xa9"
abbreviation (input) OpcodeI32TruncF64S :: byte where "OpcodeI32TruncF64S \<equiv> 0xaa"
abbreviation (input) OpcodeI32TruncF64U :: byte where "OpcodeI32TruncF64U \<equiv> 0xab"
abbreviation (input) OpcodeI64ExtendI32S :: byte where "OpcodeI64ExtendI32S \<equiv> 0xac"
abbreviation (input) OpcodeI64ExtendI32U :: byte where "OpcodeI64ExtendI32U \<equiv> 0xad"
abbreviation (input) OpcodeI64TruncF32S :: byte where "OpcodeI64TruncF32S \<equiv> 0xae"
abbreviation (input) OpcodeI64TruncF32U :: byte where "OpcodeI64TruncF32U \<equiv> 0xaf"
abbreviation (input) OpcodeI64TruncF64S :: byte where "OpcodeI64TruncF64S \<equiv> 0xb0"
abbreviation (input) OpcodeI64TruncF64U :: byte where "OpcodeI64TruncF64U \<equiv> 0xb1"
abbreviation (input) OpcodeF32ConvertI32S :: byte where "OpcodeF32ConvertI32S \<equiv> 0xb2"
abbreviation (input) OpcodeF32ConvertI32U :: byte where "OpcodeF32ConvertI32U \<equiv> 0xb3"
abbreviation (input) OpcodeF32ConvertI64S :: byte where "OpcodeF32ConvertI64S \<equiv> 0xb4"
abbreviation (input) OpcodeF32ConvertI64U :: byte where "OpcodeF32ConvertI64U \<equiv> 0xb5"
abbreviation (input) OpcodeF32DemoteF64 :: byte where "OpcodeF32DemoteF64 \<equiv> 0xb6"
abbreviation (input) OpcodeF64ConvertI32S :: byte where "OpcodeF64ConvertI32S \<equiv> 0xb7"
abbreviation (input) OpcodeF64ConvertI32U :: byte where "OpcodeF64ConvertI32U \<equiv> 0xb8"
abbreviation (input) OpcodeF64ConvertI64S :: byte where "OpcodeF64ConvertI64S \<equiv> 0xb9"
abbreviation (input) OpcodeF64ConvertI64U :: byte where "OpcodeF64ConvertI64U \<equiv> 0xba"
abbreviation (input) OpcodeF64PromoteF32 :: byte where "OpcodeF64PromoteF32 \<equiv> 0xbb"
abbreviation (input) OpcodeI32ReinterpretF32 :: byte where "OpcodeI32ReinterpretF32 \<equiv> 0xbc"
abbreviation (input) OpcodeI64ReinterpretF64 :: byte where "OpcodeI64ReinterpretF64 \<equiv> 0xbd"
abbreviation (input) OpcodeF32ReinterpretI32 :: byte where "OpcodeF32ReinterpretI32 \<equiv> 0xbe"
abbreviation (input) OpcodeF64ReinterpretI64 :: byte where "OpcodeF64ReinterpretI64 \<equiv> 0xbf"
abbreviation (input) OpcodeRefNull :: byte where "OpcodeRefNull \<equiv> 0xd0"
abbreviation (input) OpcodeRefIsNull :: byte where "OpcodeRefIsNull \<equiv> 0xd1"
abbreviation (input) OpcodeRefFunc :: byte where "OpcodeRefFunc \<equiv> 0xd2"
abbreviation (input) OpcodeRefAsNonNull :: byte where "OpcodeRefAsNonNull \<equiv> 0xd4"
abbreviation (input) OpcodeBrOnNull :: byte where "OpcodeBrOnNull \<equiv> 0xd5"
abbreviation (input) OpcodeBrOnNonNull :: byte where "OpcodeBrOnNonNull \<equiv> 0xd6"
abbreviation (input) OpcodeI32Extend8S :: byte where "OpcodeI32Extend8S \<equiv> 0xc0"
abbreviation (input) OpcodeI32Extend16S :: byte where "OpcodeI32Extend16S \<equiv> 0xc1"
abbreviation (input) OpcodeI64Extend8S :: byte where "OpcodeI64Extend8S \<equiv> 0xc2"
abbreviation (input) OpcodeI64Extend16S :: byte where "OpcodeI64Extend16S \<equiv> 0xc3"
abbreviation (input) OpcodeI64Extend32S :: byte where "OpcodeI64Extend32S \<equiv> 0xc4"
abbreviation (input) OpcodeMiscPrefix :: byte where "OpcodeMiscPrefix \<equiv> 0xfc"
abbreviation (input) OpcodeVecPrefix :: byte where "OpcodeVecPrefix \<equiv> 0xfd"
abbreviation (input) OpcodeAtomicPrefix :: byte where "OpcodeAtomicPrefix \<equiv> 0xfe"

section \<open>Miscellaneous instructions, after \<open>OpcodeMiscPrefix\<close>\<close>

abbreviation (input) OpcodeMiscI32TruncSatF32S :: byte where "OpcodeMiscI32TruncSatF32S \<equiv> 0x00"
abbreviation (input) OpcodeMiscI32TruncSatF32U :: byte where "OpcodeMiscI32TruncSatF32U \<equiv> 0x01"
abbreviation (input) OpcodeMiscI32TruncSatF64S :: byte where "OpcodeMiscI32TruncSatF64S \<equiv> 0x02"
abbreviation (input) OpcodeMiscI32TruncSatF64U :: byte where "OpcodeMiscI32TruncSatF64U \<equiv> 0x03"
abbreviation (input) OpcodeMiscI64TruncSatF32S :: byte where "OpcodeMiscI64TruncSatF32S \<equiv> 0x04"
abbreviation (input) OpcodeMiscI64TruncSatF32U :: byte where "OpcodeMiscI64TruncSatF32U \<equiv> 0x05"
abbreviation (input) OpcodeMiscI64TruncSatF64S :: byte where "OpcodeMiscI64TruncSatF64S \<equiv> 0x06"
abbreviation (input) OpcodeMiscI64TruncSatF64U :: byte where "OpcodeMiscI64TruncSatF64U \<equiv> 0x07"
abbreviation (input) OpcodeMiscMemoryInit :: byte where "OpcodeMiscMemoryInit \<equiv> 0x08"
abbreviation (input) OpcodeMiscDataDrop :: byte where "OpcodeMiscDataDrop \<equiv> 0x09"
abbreviation (input) OpcodeMiscMemoryCopy :: byte where "OpcodeMiscMemoryCopy \<equiv> 0x0a"
abbreviation (input) OpcodeMiscMemoryFill :: byte where "OpcodeMiscMemoryFill \<equiv> 0x0b"
abbreviation (input) OpcodeMiscTableInit :: byte where "OpcodeMiscTableInit \<equiv> 0x0c"
abbreviation (input) OpcodeMiscElemDrop :: byte where "OpcodeMiscElemDrop \<equiv> 0x0d"
abbreviation (input) OpcodeMiscTableCopy :: byte where "OpcodeMiscTableCopy \<equiv> 0x0e"
abbreviation (input) OpcodeMiscTableGrow :: byte where "OpcodeMiscTableGrow \<equiv> 0x0f"
abbreviation (input) OpcodeMiscTableSize :: byte where "OpcodeMiscTableSize \<equiv> 0x10"
abbreviation (input) OpcodeMiscTableFill :: byte where "OpcodeMiscTableFill \<equiv> 0x11"

section \<open>Vector instructions, after \<open>OpcodeVecPrefix\<close>\<close>

abbreviation (input) OpcodeVecV128Load :: byte where "OpcodeVecV128Load \<equiv> 0x00"
abbreviation (input) OpcodeVecV128Load8x8s :: byte where "OpcodeVecV128Load8x8s \<equiv> 0x01"
abbreviation (input) OpcodeVecV128Load8x8u :: byte where "OpcodeVecV128Load8x8u \<equiv> 0x02"
abbreviation (input) OpcodeVecV128Load16x4s :: byte where "OpcodeVecV128Load16x4s \<equiv> 0x03"
abbreviation (input) OpcodeVecV128Load16x4u :: byte where "OpcodeVecV128Load16x4u \<equiv> 0x04"
abbreviation (input) OpcodeVecV128Load32x2s :: byte where "OpcodeVecV128Load32x2s \<equiv> 0x05"
abbreviation (input) OpcodeVecV128Load32x2u :: byte where "OpcodeVecV128Load32x2u \<equiv> 0x06"
abbreviation (input) OpcodeVecV128Load8Splat :: byte where "OpcodeVecV128Load8Splat \<equiv> 0x07"
abbreviation (input) OpcodeVecV128Load16Splat :: byte where "OpcodeVecV128Load16Splat \<equiv> 0x08"
abbreviation (input) OpcodeVecV128Load32Splat :: byte where "OpcodeVecV128Load32Splat \<equiv> 0x09"
abbreviation (input) OpcodeVecV128Load64Splat :: byte where "OpcodeVecV128Load64Splat \<equiv> 0x0a"
abbreviation (input) OpcodeVecV128Load32zero :: byte where "OpcodeVecV128Load32zero \<equiv> 0x5c"
abbreviation (input) OpcodeVecV128Load64zero :: byte where "OpcodeVecV128Load64zero \<equiv> 0x5d"
abbreviation (input) OpcodeVecV128Store :: byte where "OpcodeVecV128Store \<equiv> 0x0b"
abbreviation (input) OpcodeVecV128Load8Lane :: byte where "OpcodeVecV128Load8Lane \<equiv> 0x54"
abbreviation (input) OpcodeVecV128Load16Lane :: byte where "OpcodeVecV128Load16Lane \<equiv> 0x55"
abbreviation (input) OpcodeVecV128Load32Lane :: byte where "OpcodeVecV128Load32Lane \<equiv> 0x56"
abbreviation (input) OpcodeVecV128Load64Lane :: byte where "OpcodeVecV128Load64Lane \<equiv> 0x57"
abbreviation (input) OpcodeVecV128Store8Lane :: byte where "OpcodeVecV128Store8Lane \<equiv> 0x58"
abbreviation (input) OpcodeVecV128Store16Lane :: byte where "OpcodeVecV128Store16Lane \<equiv> 0x59"
abbreviation (input) OpcodeVecV128Store32Lane :: byte where "OpcodeVecV128Store32Lane \<equiv> 0x5a"
abbreviation (input) OpcodeVecV128Store64Lane :: byte where "OpcodeVecV128Store64Lane \<equiv> 0x5b"
abbreviation (input) OpcodeVecV128Const :: byte where "OpcodeVecV128Const \<equiv> 0x0c"
abbreviation (input) OpcodeVecV128i8x16Shuffle :: byte where "OpcodeVecV128i8x16Shuffle \<equiv> 0x0d"
abbreviation (input) OpcodeVecI8x16ExtractLaneS :: byte where "OpcodeVecI8x16ExtractLaneS \<equiv> 0x15"
abbreviation (input) OpcodeVecI8x16ExtractLaneU :: byte where "OpcodeVecI8x16ExtractLaneU \<equiv> 0x16"
abbreviation (input) OpcodeVecI8x16ReplaceLane :: byte where "OpcodeVecI8x16ReplaceLane \<equiv> 0x17"
abbreviation (input) OpcodeVecI16x8ExtractLaneS :: byte where "OpcodeVecI16x8ExtractLaneS \<equiv> 0x18"
abbreviation (input) OpcodeVecI16x8ExtractLaneU :: byte where "OpcodeVecI16x8ExtractLaneU \<equiv> 0x19"
abbreviation (input) OpcodeVecI16x8ReplaceLane :: byte where "OpcodeVecI16x8ReplaceLane \<equiv> 0x1a"
abbreviation (input) OpcodeVecI32x4ExtractLane :: byte where "OpcodeVecI32x4ExtractLane \<equiv> 0x1b"
abbreviation (input) OpcodeVecI32x4ReplaceLane :: byte where "OpcodeVecI32x4ReplaceLane \<equiv> 0x1c"
abbreviation (input) OpcodeVecI64x2ExtractLane :: byte where "OpcodeVecI64x2ExtractLane \<equiv> 0x1d"
abbreviation (input) OpcodeVecI64x2ReplaceLane :: byte where "OpcodeVecI64x2ReplaceLane \<equiv> 0x1e"
abbreviation (input) OpcodeVecF32x4ExtractLane :: byte where "OpcodeVecF32x4ExtractLane \<equiv> 0x1f"
abbreviation (input) OpcodeVecF32x4ReplaceLane :: byte where "OpcodeVecF32x4ReplaceLane \<equiv> 0x20"
abbreviation (input) OpcodeVecF64x2ExtractLane :: byte where "OpcodeVecF64x2ExtractLane \<equiv> 0x21"
abbreviation (input) OpcodeVecF64x2ReplaceLane :: byte where "OpcodeVecF64x2ReplaceLane \<equiv> 0x22"
abbreviation (input) OpcodeVecI8x16Swizzle :: byte where "OpcodeVecI8x16Swizzle \<equiv> 0x0e"
abbreviation (input) OpcodeVecI8x16Splat :: byte where "OpcodeVecI8x16Splat \<equiv> 0x0f"
abbreviation (input) OpcodeVecI16x8Splat :: byte where "OpcodeVecI16x8Splat \<equiv> 0x10"
abbreviation (input) OpcodeVecI32x4Splat :: byte where "OpcodeVecI32x4Splat \<equiv> 0x11"
abbreviation (input) OpcodeVecI64x2Splat :: byte where "OpcodeVecI64x2Splat \<equiv> 0x12"
abbreviation (input) OpcodeVecF32x4Splat :: byte where "OpcodeVecF32x4Splat \<equiv> 0x13"
abbreviation (input) OpcodeVecF64x2Splat :: byte where "OpcodeVecF64x2Splat \<equiv> 0x14"
abbreviation (input) OpcodeVecI8x16Eq :: byte where "OpcodeVecI8x16Eq \<equiv> 0x23"
abbreviation (input) OpcodeVecI8x16Ne :: byte where "OpcodeVecI8x16Ne \<equiv> 0x24"
abbreviation (input) OpcodeVecI8x16LtS :: byte where "OpcodeVecI8x16LtS \<equiv> 0x25"
abbreviation (input) OpcodeVecI8x16LtU :: byte where "OpcodeVecI8x16LtU \<equiv> 0x26"
abbreviation (input) OpcodeVecI8x16GtS :: byte where "OpcodeVecI8x16GtS \<equiv> 0x27"
abbreviation (input) OpcodeVecI8x16GtU :: byte where "OpcodeVecI8x16GtU \<equiv> 0x28"
abbreviation (input) OpcodeVecI8x16LeS :: byte where "OpcodeVecI8x16LeS \<equiv> 0x29"
abbreviation (input) OpcodeVecI8x16LeU :: byte where "OpcodeVecI8x16LeU \<equiv> 0x2a"
abbreviation (input) OpcodeVecI8x16GeS :: byte where "OpcodeVecI8x16GeS \<equiv> 0x2b"
abbreviation (input) OpcodeVecI8x16GeU :: byte where "OpcodeVecI8x16GeU \<equiv> 0x2c"
abbreviation (input) OpcodeVecI16x8Eq :: byte where "OpcodeVecI16x8Eq \<equiv> 0x2d"
abbreviation (input) OpcodeVecI16x8Ne :: byte where "OpcodeVecI16x8Ne \<equiv> 0x2e"
abbreviation (input) OpcodeVecI16x8LtS :: byte where "OpcodeVecI16x8LtS \<equiv> 0x2f"
abbreviation (input) OpcodeVecI16x8LtU :: byte where "OpcodeVecI16x8LtU \<equiv> 0x30"
abbreviation (input) OpcodeVecI16x8GtS :: byte where "OpcodeVecI16x8GtS \<equiv> 0x31"
abbreviation (input) OpcodeVecI16x8GtU :: byte where "OpcodeVecI16x8GtU \<equiv> 0x32"
abbreviation (input) OpcodeVecI16x8LeS :: byte where "OpcodeVecI16x8LeS \<equiv> 0x33"
abbreviation (input) OpcodeVecI16x8LeU :: byte where "OpcodeVecI16x8LeU \<equiv> 0x34"
abbreviation (input) OpcodeVecI16x8GeS :: byte where "OpcodeVecI16x8GeS \<equiv> 0x35"
abbreviation (input) OpcodeVecI16x8GeU :: byte where "OpcodeVecI16x8GeU \<equiv> 0x36"
abbreviation (input) OpcodeVecI32x4Eq :: byte where "OpcodeVecI32x4Eq \<equiv> 0x37"
abbreviation (input) OpcodeVecI32x4Ne :: byte where "OpcodeVecI32x4Ne \<equiv> 0x38"
abbreviation (input) OpcodeVecI32x4LtS :: byte where "OpcodeVecI32x4LtS \<equiv> 0x39"
abbreviation (input) OpcodeVecI32x4LtU :: byte where "OpcodeVecI32x4LtU \<equiv> 0x3a"
abbreviation (input) OpcodeVecI32x4GtS :: byte where "OpcodeVecI32x4GtS \<equiv> 0x3b"
abbreviation (input) OpcodeVecI32x4GtU :: byte where "OpcodeVecI32x4GtU \<equiv> 0x3c"
abbreviation (input) OpcodeVecI32x4LeS :: byte where "OpcodeVecI32x4LeS \<equiv> 0x3d"
abbreviation (input) OpcodeVecI32x4LeU :: byte where "OpcodeVecI32x4LeU \<equiv> 0x3e"
abbreviation (input) OpcodeVecI32x4GeS :: byte where "OpcodeVecI32x4GeS \<equiv> 0x3f"
abbreviation (input) OpcodeVecI32x4GeU :: byte where "OpcodeVecI32x4GeU \<equiv> 0x40"
abbreviation (input) OpcodeVecI64x2Eq :: byte where "OpcodeVecI64x2Eq \<equiv> 0xd6"
abbreviation (input) OpcodeVecI64x2Ne :: byte where "OpcodeVecI64x2Ne \<equiv> 0xd7"
abbreviation (input) OpcodeVecI64x2LtS :: byte where "OpcodeVecI64x2LtS \<equiv> 0xd8"
abbreviation (input) OpcodeVecI64x2GtS :: byte where "OpcodeVecI64x2GtS \<equiv> 0xd9"
abbreviation (input) OpcodeVecI64x2LeS :: byte where "OpcodeVecI64x2LeS \<equiv> 0xda"
abbreviation (input) OpcodeVecI64x2GeS :: byte where "OpcodeVecI64x2GeS \<equiv> 0xdb"
abbreviation (input) OpcodeVecF32x4Eq :: byte where "OpcodeVecF32x4Eq \<equiv> 0x41"
abbreviation (input) OpcodeVecF32x4Ne :: byte where "OpcodeVecF32x4Ne \<equiv> 0x42"
abbreviation (input) OpcodeVecF32x4Lt :: byte where "OpcodeVecF32x4Lt \<equiv> 0x43"
abbreviation (input) OpcodeVecF32x4Gt :: byte where "OpcodeVecF32x4Gt \<equiv> 0x44"
abbreviation (input) OpcodeVecF32x4Le :: byte where "OpcodeVecF32x4Le \<equiv> 0x45"
abbreviation (input) OpcodeVecF32x4Ge :: byte where "OpcodeVecF32x4Ge \<equiv> 0x46"
abbreviation (input) OpcodeVecF64x2Eq :: byte where "OpcodeVecF64x2Eq \<equiv> 0x47"
abbreviation (input) OpcodeVecF64x2Ne :: byte where "OpcodeVecF64x2Ne \<equiv> 0x48"
abbreviation (input) OpcodeVecF64x2Lt :: byte where "OpcodeVecF64x2Lt \<equiv> 0x49"
abbreviation (input) OpcodeVecF64x2Gt :: byte where "OpcodeVecF64x2Gt \<equiv> 0x4a"
abbreviation (input) OpcodeVecF64x2Le :: byte where "OpcodeVecF64x2Le \<equiv> 0x4b"
abbreviation (input) OpcodeVecF64x2Ge :: byte where "OpcodeVecF64x2Ge \<equiv> 0x4c"
abbreviation (input) OpcodeVecV128Not :: byte where "OpcodeVecV128Not \<equiv> 0x4d"
abbreviation (input) OpcodeVecV128And :: byte where "OpcodeVecV128And \<equiv> 0x4e"
abbreviation (input) OpcodeVecV128AndNot :: byte where "OpcodeVecV128AndNot \<equiv> 0x4f"
abbreviation (input) OpcodeVecV128Or :: byte where "OpcodeVecV128Or \<equiv> 0x50"
abbreviation (input) OpcodeVecV128Xor :: byte where "OpcodeVecV128Xor \<equiv> 0x51"
abbreviation (input) OpcodeVecV128Bitselect :: byte where "OpcodeVecV128Bitselect \<equiv> 0x52"
abbreviation (input) OpcodeVecV128AnyTrue :: byte where "OpcodeVecV128AnyTrue \<equiv> 0x53"
abbreviation (input) OpcodeVecI8x16Abs :: byte where "OpcodeVecI8x16Abs \<equiv> 0x60"
abbreviation (input) OpcodeVecI8x16Neg :: byte where "OpcodeVecI8x16Neg \<equiv> 0x61"
abbreviation (input) OpcodeVecI8x16Popcnt :: byte where "OpcodeVecI8x16Popcnt \<equiv> 0x62"
abbreviation (input) OpcodeVecI8x16AllTrue :: byte where "OpcodeVecI8x16AllTrue \<equiv> 0x63"
abbreviation (input) OpcodeVecI8x16BitMask :: byte where "OpcodeVecI8x16BitMask \<equiv> 0x64"
abbreviation (input) OpcodeVecI8x16NarrowI16x8S :: byte where "OpcodeVecI8x16NarrowI16x8S \<equiv> 0x65"
abbreviation (input) OpcodeVecI8x16NarrowI16x8U :: byte where "OpcodeVecI8x16NarrowI16x8U \<equiv> 0x66"
abbreviation (input) OpcodeVecI8x16Shl :: byte where "OpcodeVecI8x16Shl \<equiv> 0x6b"
abbreviation (input) OpcodeVecI8x16ShrS :: byte where "OpcodeVecI8x16ShrS \<equiv> 0x6c"
abbreviation (input) OpcodeVecI8x16ShrU :: byte where "OpcodeVecI8x16ShrU \<equiv> 0x6d"
abbreviation (input) OpcodeVecI8x16Add :: byte where "OpcodeVecI8x16Add \<equiv> 0x6e"
abbreviation (input) OpcodeVecI8x16AddSatS :: byte where "OpcodeVecI8x16AddSatS \<equiv> 0x6f"
abbreviation (input) OpcodeVecI8x16AddSatU :: byte where "OpcodeVecI8x16AddSatU \<equiv> 0x70"
abbreviation (input) OpcodeVecI8x16Sub :: byte where "OpcodeVecI8x16Sub \<equiv> 0x71"
abbreviation (input) OpcodeVecI8x16SubSatS :: byte where "OpcodeVecI8x16SubSatS \<equiv> 0x72"
abbreviation (input) OpcodeVecI8x16SubSatU :: byte where "OpcodeVecI8x16SubSatU \<equiv> 0x73"
abbreviation (input) OpcodeVecI8x16MinS :: byte where "OpcodeVecI8x16MinS \<equiv> 0x76"
abbreviation (input) OpcodeVecI8x16MinU :: byte where "OpcodeVecI8x16MinU \<equiv> 0x77"
abbreviation (input) OpcodeVecI8x16MaxS :: byte where "OpcodeVecI8x16MaxS \<equiv> 0x78"
abbreviation (input) OpcodeVecI8x16MaxU :: byte where "OpcodeVecI8x16MaxU \<equiv> 0x79"
abbreviation (input) OpcodeVecI8x16AvgrU :: byte where "OpcodeVecI8x16AvgrU \<equiv> 0x7b"
abbreviation (input) OpcodeVecI16x8ExtaddPairwiseI8x16S :: byte where "OpcodeVecI16x8ExtaddPairwiseI8x16S \<equiv> 0x7c"
abbreviation (input) OpcodeVecI16x8ExtaddPairwiseI8x16U :: byte where "OpcodeVecI16x8ExtaddPairwiseI8x16U \<equiv> 0x7d"
abbreviation (input) OpcodeVecI16x8Abs :: byte where "OpcodeVecI16x8Abs \<equiv> 0x80"
abbreviation (input) OpcodeVecI16x8Neg :: byte where "OpcodeVecI16x8Neg \<equiv> 0x81"
abbreviation (input) OpcodeVecI16x8Q15mulrSatS :: byte where "OpcodeVecI16x8Q15mulrSatS \<equiv> 0x82"
abbreviation (input) OpcodeVecI16x8AllTrue :: byte where "OpcodeVecI16x8AllTrue \<equiv> 0x83"
abbreviation (input) OpcodeVecI16x8BitMask :: byte where "OpcodeVecI16x8BitMask \<equiv> 0x84"
abbreviation (input) OpcodeVecI16x8NarrowI32x4S :: byte where "OpcodeVecI16x8NarrowI32x4S \<equiv> 0x85"
abbreviation (input) OpcodeVecI16x8NarrowI32x4U :: byte where "OpcodeVecI16x8NarrowI32x4U \<equiv> 0x86"
abbreviation (input) OpcodeVecI16x8ExtendLowI8x16S :: byte where "OpcodeVecI16x8ExtendLowI8x16S \<equiv> 0x87"
abbreviation (input) OpcodeVecI16x8ExtendHighI8x16S :: byte where "OpcodeVecI16x8ExtendHighI8x16S \<equiv> 0x88"
abbreviation (input) OpcodeVecI16x8ExtendLowI8x16U :: byte where "OpcodeVecI16x8ExtendLowI8x16U \<equiv> 0x89"
abbreviation (input) OpcodeVecI16x8ExtendHighI8x16U :: byte where "OpcodeVecI16x8ExtendHighI8x16U \<equiv> 0x8a"
abbreviation (input) OpcodeVecI16x8Shl :: byte where "OpcodeVecI16x8Shl \<equiv> 0x8b"
abbreviation (input) OpcodeVecI16x8ShrS :: byte where "OpcodeVecI16x8ShrS \<equiv> 0x8c"
abbreviation (input) OpcodeVecI16x8ShrU :: byte where "OpcodeVecI16x8ShrU \<equiv> 0x8d"
abbreviation (input) OpcodeVecI16x8Add :: byte where "OpcodeVecI16x8Add \<equiv> 0x8e"
abbreviation (input) OpcodeVecI16x8AddSatS :: byte where "OpcodeVecI16x8AddSatS \<equiv> 0x8f"
abbreviation (input) OpcodeVecI16x8AddSatU :: byte where "OpcodeVecI16x8AddSatU \<equiv> 0x90"
abbreviation (input) OpcodeVecI16x8Sub :: byte where "OpcodeVecI16x8Sub \<equiv> 0x91"
abbreviation (input) OpcodeVecI16x8SubSatS :: byte where "OpcodeVecI16x8SubSatS \<equiv> 0x92"
abbreviation (input) OpcodeVecI16x8SubSatU :: byte where "OpcodeVecI16x8SubSatU \<equiv> 0x93"
abbreviation (input) OpcodeVecI16x8Mul :: byte where "OpcodeVecI16x8Mul \<equiv> 0x95"
abbreviation (input) OpcodeVecI16x8MinS :: byte where "OpcodeVecI16x8MinS \<equiv> 0x96"
abbreviation (input) OpcodeVecI16x8MinU :: byte where "OpcodeVecI16x8MinU \<equiv> 0x97"
abbreviation (input) OpcodeVecI16x8MaxS :: byte where "OpcodeVecI16x8MaxS \<equiv> 0x98"
abbreviation (input) OpcodeVecI16x8MaxU :: byte where "OpcodeVecI16x8MaxU \<equiv> 0x99"
abbreviation (input) OpcodeVecI16x8AvgrU :: byte where "OpcodeVecI16x8AvgrU \<equiv> 0x9b"
abbreviation (input) OpcodeVecI16x8ExtMulLowI8x16S :: byte where "OpcodeVecI16x8ExtMulLowI8x16S \<equiv> 0x9c"
abbreviation (input) OpcodeVecI16x8ExtMulHighI8x16S :: byte where "OpcodeVecI16x8ExtMulHighI8x16S \<equiv> 0x9d"
abbreviation (input) OpcodeVecI16x8ExtMulLowI8x16U :: byte where "OpcodeVecI16x8ExtMulLowI8x16U \<equiv> 0x9e"
abbreviation (input) OpcodeVecI16x8ExtMulHighI8x16U :: byte where "OpcodeVecI16x8ExtMulHighI8x16U \<equiv> 0x9f"
abbreviation (input) OpcodeVecI32x4ExtaddPairwiseI16x8S :: byte where "OpcodeVecI32x4ExtaddPairwiseI16x8S \<equiv> 0x7e"
abbreviation (input) OpcodeVecI32x4ExtaddPairwiseI16x8U :: byte where "OpcodeVecI32x4ExtaddPairwiseI16x8U \<equiv> 0x7f"
abbreviation (input) OpcodeVecI32x4Abs :: byte where "OpcodeVecI32x4Abs \<equiv> 0xa0"
abbreviation (input) OpcodeVecI32x4Neg :: byte where "OpcodeVecI32x4Neg \<equiv> 0xa1"
abbreviation (input) OpcodeVecI32x4AllTrue :: byte where "OpcodeVecI32x4AllTrue \<equiv> 0xa3"
abbreviation (input) OpcodeVecI32x4BitMask :: byte where "OpcodeVecI32x4BitMask \<equiv> 0xa4"
abbreviation (input) OpcodeVecI32x4ExtendLowI16x8S :: byte where "OpcodeVecI32x4ExtendLowI16x8S \<equiv> 0xa7"
abbreviation (input) OpcodeVecI32x4ExtendHighI16x8S :: byte where "OpcodeVecI32x4ExtendHighI16x8S \<equiv> 0xa8"
abbreviation (input) OpcodeVecI32x4ExtendLowI16x8U :: byte where "OpcodeVecI32x4ExtendLowI16x8U \<equiv> 0xa9"
abbreviation (input) OpcodeVecI32x4ExtendHighI16x8U :: byte where "OpcodeVecI32x4ExtendHighI16x8U \<equiv> 0xaa"
abbreviation (input) OpcodeVecI32x4Shl :: byte where "OpcodeVecI32x4Shl \<equiv> 0xab"
abbreviation (input) OpcodeVecI32x4ShrS :: byte where "OpcodeVecI32x4ShrS \<equiv> 0xac"
abbreviation (input) OpcodeVecI32x4ShrU :: byte where "OpcodeVecI32x4ShrU \<equiv> 0xad"
abbreviation (input) OpcodeVecI32x4Add :: byte where "OpcodeVecI32x4Add \<equiv> 0xae"
abbreviation (input) OpcodeVecI32x4Sub :: byte where "OpcodeVecI32x4Sub \<equiv> 0xb1"
abbreviation (input) OpcodeVecI32x4Mul :: byte where "OpcodeVecI32x4Mul \<equiv> 0xb5"
abbreviation (input) OpcodeVecI32x4MinS :: byte where "OpcodeVecI32x4MinS \<equiv> 0xb6"
abbreviation (input) OpcodeVecI32x4MinU :: byte where "OpcodeVecI32x4MinU \<equiv> 0xb7"
abbreviation (input) OpcodeVecI32x4MaxS :: byte where "OpcodeVecI32x4MaxS \<equiv> 0xb8"
abbreviation (input) OpcodeVecI32x4MaxU :: byte where "OpcodeVecI32x4MaxU \<equiv> 0xb9"
abbreviation (input) OpcodeVecI32x4DotI16x8S :: byte where "OpcodeVecI32x4DotI16x8S \<equiv> 0xba"
abbreviation (input) OpcodeVecI32x4ExtMulLowI16x8S :: byte where "OpcodeVecI32x4ExtMulLowI16x8S \<equiv> 0xbc"
abbreviation (input) OpcodeVecI32x4ExtMulHighI16x8S :: byte where "OpcodeVecI32x4ExtMulHighI16x8S \<equiv> 0xbd"
abbreviation (input) OpcodeVecI32x4ExtMulLowI16x8U :: byte where "OpcodeVecI32x4ExtMulLowI16x8U \<equiv> 0xbe"
abbreviation (input) OpcodeVecI32x4ExtMulHighI16x8U :: byte where "OpcodeVecI32x4ExtMulHighI16x8U \<equiv> 0xbf"
abbreviation (input) OpcodeVecI64x2Abs :: byte where "OpcodeVecI64x2Abs \<equiv> 0xc0"
abbreviation (input) OpcodeVecI64x2Neg :: byte where "OpcodeVecI64x2Neg \<equiv> 0xc1"
abbreviation (input) OpcodeVecI64x2AllTrue :: byte where "OpcodeVecI64x2AllTrue \<equiv> 0xc3"
abbreviation (input) OpcodeVecI64x2BitMask :: byte where "OpcodeVecI64x2BitMask \<equiv> 0xc4"
abbreviation (input) OpcodeVecI64x2ExtendLowI32x4S :: byte where "OpcodeVecI64x2ExtendLowI32x4S \<equiv> 0xc7"
abbreviation (input) OpcodeVecI64x2ExtendHighI32x4S :: byte where "OpcodeVecI64x2ExtendHighI32x4S \<equiv> 0xc8"
abbreviation (input) OpcodeVecI64x2ExtendLowI32x4U :: byte where "OpcodeVecI64x2ExtendLowI32x4U \<equiv> 0xc9"
abbreviation (input) OpcodeVecI64x2ExtendHighI32x4U :: byte where "OpcodeVecI64x2ExtendHighI32x4U \<equiv> 0xca"
abbreviation (input) OpcodeVecI64x2Shl :: byte where "OpcodeVecI64x2Shl \<equiv> 0xcb"
abbreviation (input) OpcodeVecI64x2ShrS :: byte where "OpcodeVecI64x2ShrS \<equiv> 0xcc"
abbreviation (input) OpcodeVecI64x2ShrU :: byte where "OpcodeVecI64x2ShrU \<equiv> 0xcd"
abbreviation (input) OpcodeVecI64x2Add :: byte where "OpcodeVecI64x2Add \<equiv> 0xce"
abbreviation (input) OpcodeVecI64x2Sub :: byte where "OpcodeVecI64x2Sub \<equiv> 0xd1"
abbreviation (input) OpcodeVecI64x2Mul :: byte where "OpcodeVecI64x2Mul \<equiv> 0xd5"
abbreviation (input) OpcodeVecI64x2ExtMulLowI32x4S :: byte where "OpcodeVecI64x2ExtMulLowI32x4S \<equiv> 0xdc"
abbreviation (input) OpcodeVecI64x2ExtMulHighI32x4S :: byte where "OpcodeVecI64x2ExtMulHighI32x4S \<equiv> 0xdd"
abbreviation (input) OpcodeVecI64x2ExtMulLowI32x4U :: byte where "OpcodeVecI64x2ExtMulLowI32x4U \<equiv> 0xde"
abbreviation (input) OpcodeVecI64x2ExtMulHighI32x4U :: byte where "OpcodeVecI64x2ExtMulHighI32x4U \<equiv> 0xdf"
abbreviation (input) OpcodeVecF32x4Ceil :: byte where "OpcodeVecF32x4Ceil \<equiv> 0x67"
abbreviation (input) OpcodeVecF32x4Floor :: byte where "OpcodeVecF32x4Floor \<equiv> 0x68"
abbreviation (input) OpcodeVecF32x4Trunc :: byte where "OpcodeVecF32x4Trunc \<equiv> 0x69"
abbreviation (input) OpcodeVecF32x4Nearest :: byte where "OpcodeVecF32x4Nearest \<equiv> 0x6a"
abbreviation (input) OpcodeVecF32x4Abs :: byte where "OpcodeVecF32x4Abs \<equiv> 0xe0"
abbreviation (input) OpcodeVecF32x4Neg :: byte where "OpcodeVecF32x4Neg \<equiv> 0xe1"
abbreviation (input) OpcodeVecF32x4Sqrt :: byte where "OpcodeVecF32x4Sqrt \<equiv> 0xe3"
abbreviation (input) OpcodeVecF32x4Add :: byte where "OpcodeVecF32x4Add \<equiv> 0xe4"
abbreviation (input) OpcodeVecF32x4Sub :: byte where "OpcodeVecF32x4Sub \<equiv> 0xe5"
abbreviation (input) OpcodeVecF32x4Mul :: byte where "OpcodeVecF32x4Mul \<equiv> 0xe6"
abbreviation (input) OpcodeVecF32x4Div :: byte where "OpcodeVecF32x4Div \<equiv> 0xe7"
abbreviation (input) OpcodeVecF32x4Min :: byte where "OpcodeVecF32x4Min \<equiv> 0xe8"
abbreviation (input) OpcodeVecF32x4Max :: byte where "OpcodeVecF32x4Max \<equiv> 0xe9"
abbreviation (input) OpcodeVecF32x4Pmin :: byte where "OpcodeVecF32x4Pmin \<equiv> 0xea"
abbreviation (input) OpcodeVecF32x4Pmax :: byte where "OpcodeVecF32x4Pmax \<equiv> 0xeb"
abbreviation (input) OpcodeVecF64x2Ceil :: byte where "OpcodeVecF64x2Ceil \<equiv> 0x74"
abbreviation (input) OpcodeVecF64x2Floor :: byte where "OpcodeVecF64x2Floor \<equiv> 0x75"
abbreviation (input) OpcodeVecF64x2Trunc :: byte where "OpcodeVecF64x2Trunc \<equiv> 0x7a"
abbreviation (input) OpcodeVecF64x2Nearest :: byte where "OpcodeVecF64x2Nearest \<equiv> 0x94"
abbreviation (input) OpcodeVecF64x2Abs :: byte where "OpcodeVecF64x2Abs \<equiv> 0xec"
abbreviation (input) OpcodeVecF64x2Neg :: byte where "OpcodeVecF64x2Neg \<equiv> 0xed"
abbreviation (input) OpcodeVecF64x2Sqrt :: byte where "OpcodeVecF64x2Sqrt \<equiv> 0xef"
abbreviation (input) OpcodeVecF64x2Add :: byte where "OpcodeVecF64x2Add \<equiv> 0xf0"
abbreviation (input) OpcodeVecF64x2Sub :: byte where "OpcodeVecF64x2Sub \<equiv> 0xf1"
abbreviation (input) OpcodeVecF64x2Mul :: byte where "OpcodeVecF64x2Mul \<equiv> 0xf2"
abbreviation (input) OpcodeVecF64x2Div :: byte where "OpcodeVecF64x2Div \<equiv> 0xf3"
abbreviation (input) OpcodeVecF64x2Min :: byte where "OpcodeVecF64x2Min \<equiv> 0xf4"
abbreviation (input) OpcodeVecF64x2Max :: byte where "OpcodeVecF64x2Max \<equiv> 0xf5"
abbreviation (input) OpcodeVecF64x2Pmin :: byte where "OpcodeVecF64x2Pmin \<equiv> 0xf6"
abbreviation (input) OpcodeVecF64x2Pmax :: byte where "OpcodeVecF64x2Pmax \<equiv> 0xf7"
abbreviation (input) OpcodeVecI32x4TruncSatF32x4S :: byte where "OpcodeVecI32x4TruncSatF32x4S \<equiv> 0xf8"
abbreviation (input) OpcodeVecI32x4TruncSatF32x4U :: byte where "OpcodeVecI32x4TruncSatF32x4U \<equiv> 0xf9"
abbreviation (input) OpcodeVecF32x4ConvertI32x4S :: byte where "OpcodeVecF32x4ConvertI32x4S \<equiv> 0xfa"
abbreviation (input) OpcodeVecF32x4ConvertI32x4U :: byte where "OpcodeVecF32x4ConvertI32x4U \<equiv> 0xfb"
abbreviation (input) OpcodeVecI32x4TruncSatF64x2SZero :: byte where "OpcodeVecI32x4TruncSatF64x2SZero \<equiv> 0xfc"
abbreviation (input) OpcodeVecI32x4TruncSatF64x2UZero :: byte where "OpcodeVecI32x4TruncSatF64x2UZero \<equiv> 0xfd"
abbreviation (input) OpcodeVecF64x2ConvertLowI32x4S :: byte where "OpcodeVecF64x2ConvertLowI32x4S \<equiv> 0xfe"
abbreviation (input) OpcodeVecF64x2ConvertLowI32x4U :: byte where "OpcodeVecF64x2ConvertLowI32x4U \<equiv> 0xff"
abbreviation (input) OpcodeVecF32x4DemoteF64x2Zero :: byte where "OpcodeVecF32x4DemoteF64x2Zero \<equiv> 0x5e"
abbreviation (input) OpcodeVecF64x2PromoteLowF32x4Zero :: byte where "OpcodeVecF64x2PromoteLowF32x4Zero \<equiv> 0x5f"

section \<open>Atomic instructions, after \<open>OpcodeAtomicPrefix\<close>\<close>

abbreviation (input) OpcodeAtomicMemoryNotify :: byte where "OpcodeAtomicMemoryNotify \<equiv> 0x00"
abbreviation (input) OpcodeAtomicMemoryWait32 :: byte where "OpcodeAtomicMemoryWait32 \<equiv> 0x01"
abbreviation (input) OpcodeAtomicMemoryWait64 :: byte where "OpcodeAtomicMemoryWait64 \<equiv> 0x02"
abbreviation (input) OpcodeAtomicFence :: byte where "OpcodeAtomicFence \<equiv> 0x03"
abbreviation (input) OpcodeAtomicI32Load :: byte where "OpcodeAtomicI32Load \<equiv> 0x10"
abbreviation (input) OpcodeAtomicI64Load :: byte where "OpcodeAtomicI64Load \<equiv> 0x11"
abbreviation (input) OpcodeAtomicI32Load8U :: byte where "OpcodeAtomicI32Load8U \<equiv> 0x12"
abbreviation (input) OpcodeAtomicI32Load16U :: byte where "OpcodeAtomicI32Load16U \<equiv> 0x13"
abbreviation (input) OpcodeAtomicI64Load8U :: byte where "OpcodeAtomicI64Load8U \<equiv> 0x14"
abbreviation (input) OpcodeAtomicI64Load16U :: byte where "OpcodeAtomicI64Load16U \<equiv> 0x15"
abbreviation (input) OpcodeAtomicI64Load32U :: byte where "OpcodeAtomicI64Load32U \<equiv> 0x16"
abbreviation (input) OpcodeAtomicI32Store :: byte where "OpcodeAtomicI32Store \<equiv> 0x17"
abbreviation (input) OpcodeAtomicI64Store :: byte where "OpcodeAtomicI64Store \<equiv> 0x18"
abbreviation (input) OpcodeAtomicI32Store8 :: byte where "OpcodeAtomicI32Store8 \<equiv> 0x19"
abbreviation (input) OpcodeAtomicI32Store16 :: byte where "OpcodeAtomicI32Store16 \<equiv> 0x1a"
abbreviation (input) OpcodeAtomicI64Store8 :: byte where "OpcodeAtomicI64Store8 \<equiv> 0x1b"
abbreviation (input) OpcodeAtomicI64Store16 :: byte where "OpcodeAtomicI64Store16 \<equiv> 0x1c"
abbreviation (input) OpcodeAtomicI64Store32 :: byte where "OpcodeAtomicI64Store32 \<equiv> 0x1d"
abbreviation (input) OpcodeAtomicI32RmwAdd :: byte where "OpcodeAtomicI32RmwAdd \<equiv> 0x1e"
abbreviation (input) OpcodeAtomicI64RmwAdd :: byte where "OpcodeAtomicI64RmwAdd \<equiv> 0x1f"
abbreviation (input) OpcodeAtomicI32Rmw8AddU :: byte where "OpcodeAtomicI32Rmw8AddU \<equiv> 0x20"
abbreviation (input) OpcodeAtomicI32Rmw16AddU :: byte where "OpcodeAtomicI32Rmw16AddU \<equiv> 0x21"
abbreviation (input) OpcodeAtomicI64Rmw8AddU :: byte where "OpcodeAtomicI64Rmw8AddU \<equiv> 0x22"
abbreviation (input) OpcodeAtomicI64Rmw16AddU :: byte where "OpcodeAtomicI64Rmw16AddU \<equiv> 0x23"
abbreviation (input) OpcodeAtomicI64Rmw32AddU :: byte where "OpcodeAtomicI64Rmw32AddU \<equiv> 0x24"
abbreviation (input) OpcodeAtomicI32RmwSub :: byte where "OpcodeAtomicI32RmwSub \<equiv> 0x25"
abbreviation (input) OpcodeAtomicI64RmwSub :: byte where "OpcodeAtomicI64RmwSub \<equiv> 0x26"
abbreviation (input) OpcodeAtomicI32Rmw8SubU :: byte where "OpcodeAtomicI32Rmw8SubU \<equiv> 0x27"
abbreviation (input) OpcodeAtomicI32Rmw16SubU :: byte where "OpcodeAtomicI32Rmw16SubU \<equiv> 0x28"
abbreviation (input) OpcodeAtomicI64Rmw8SubU :: byte where "OpcodeAtomicI64Rmw8SubU \<equiv> 0x29"
abbreviation (input) OpcodeAtomicI64Rmw16SubU :: byte where "OpcodeAtomicI64Rmw16SubU \<equiv> 0x2a"
abbreviation (input) OpcodeAtomicI64Rmw32SubU :: byte where "OpcodeAtomicI64Rmw32SubU \<equiv> 0x2b"
abbreviation (input) OpcodeAtomicI32RmwAnd :: byte where "OpcodeAtomicI32RmwAnd \<equiv> 0x2c"
abbreviation (input) OpcodeAtomicI64RmwAnd :: byte where "OpcodeAtomicI64RmwAnd \<equiv> 0x2d"
abbreviation (input) OpcodeAtomicI32Rmw8AndU :: byte where "OpcodeAtomicI32Rmw8AndU \<equiv> 0x2e"
abbreviation (input) OpcodeAtomicI32Rmw16AndU :: byte where "OpcodeAtomicI32Rmw16AndU \<equiv> 0x2f"
abbreviation (input) OpcodeAtomicI64Rmw8AndU :: byte where "OpcodeAtomicI64Rmw8AndU \<equiv> 0x30"
abbreviation (input) OpcodeAtomicI64Rmw16AndU :: byte where "OpcodeAtomicI64Rmw16AndU \<equiv> 0x31"
abbreviation (input) OpcodeAtomicI64Rmw32AndU :: byte where "OpcodeAtomicI64Rmw32AndU \<equiv> 0x32"
abbreviation (input) OpcodeAtomicI32RmwOr :: byte where "OpcodeAtomicI32RmwOr \<equiv> 0x33"
abbreviation (input) OpcodeAtomicI64RmwOr :: byte where "OpcodeAtomicI64RmwOr \<equiv> 0x34"
abbreviation (input) OpcodeAtomicI32Rmw8OrU :: byte where "OpcodeAtomicI32Rmw8OrU \<equiv> 0x35"
abbreviation (input) OpcodeAtomicI32Rmw16OrU :: byte where "OpcodeAtomicI32Rmw16OrU \<equiv> 0x36"
abbreviation (input) OpcodeAtomicI64Rmw8OrU :: byte where "OpcodeAtomicI64Rmw8OrU \<equiv> 0x37"
abbreviation (input) OpcodeAtomicI64Rmw16OrU :: byte where "OpcodeAtomicI64Rmw16OrU \<equiv> 0x38"
abbreviation (input) OpcodeAtomicI64Rmw32OrU :: byte where "OpcodeAtomicI64Rmw32OrU \<equiv> 0x39"
abbreviation (input) OpcodeAtomicI32RmwXor :: byte where "OpcodeAtomicI32RmwXor \<equiv> 0x3a"
abbreviation (input) OpcodeAtomicI64RmwXor :: byte where "OpcodeAtomicI64RmwXor \<equiv> 0x3b"
abbreviation (input) OpcodeAtomicI32Rmw8XorU :: byte where "OpcodeAtomicI32Rmw8XorU \<equiv> 0x3c"
abbreviation (input) OpcodeAtomicI32Rmw16XorU :: byte where "OpcodeAtomicI32Rmw16XorU \<equiv> 0x3d"
abbreviation (input) OpcodeAtomicI64Rmw8XorU :: byte where "OpcodeAtomicI64Rmw8XorU \<equiv> 0x3e"
abbreviation (input) OpcodeAtomicI64Rmw16XorU :: byte where "OpcodeAtomicI64Rmw16XorU \<equiv> 0x3f"
abbreviation (input) OpcodeAtomicI64Rmw32XorU :: byte where "OpcodeAtomicI64Rmw32XorU \<equiv> 0x40"
abbreviation (input) OpcodeAtomicI32RmwXchg :: byte where "OpcodeAtomicI32RmwXchg \<equiv> 0x41"
abbreviation (input) OpcodeAtomicI64RmwXchg :: byte where "OpcodeAtomicI64RmwXchg \<equiv> 0x42"
abbreviation (input) OpcodeAtomicI32Rmw8XchgU :: byte where "OpcodeAtomicI32Rmw8XchgU \<equiv> 0x43"
abbreviation (input) OpcodeAtomicI32Rmw16XchgU :: byte where "OpcodeAtomicI32Rmw16XchgU \<equiv> 0x44"
abbreviation (input) OpcodeAtomicI64Rmw8XchgU :: byte where "OpcodeAtomicI64Rmw8XchgU \<equiv> 0x45"
abbreviation (input) OpcodeAtomicI64Rmw16XchgU :: byte where "OpcodeAtomicI64Rmw16XchgU \<equiv> 0x46"
abbreviation (input) OpcodeAtomicI64Rmw32XchgU :: byte where "OpcodeAtomicI64Rmw32XchgU \<equiv> 0x47"
abbreviation (input) OpcodeAtomicI32RmwCmpxchg :: byte where "OpcodeAtomicI32RmwCmpxchg \<equiv> 0x48"
abbreviation (input) OpcodeAtomicI64RmwCmpxchg :: byte where "OpcodeAtomicI64RmwCmpxchg \<equiv> 0x49"
abbreviation (input) OpcodeAtomicI32Rmw8CmpxchgU :: byte where "OpcodeAtomicI32Rmw8CmpxchgU \<equiv> 0x4a"
abbreviation (input) OpcodeAtomicI32Rmw16CmpxchgU :: byte where "OpcodeAtomicI32Rmw16CmpxchgU \<equiv> 0x4b"
abbreviation (input) OpcodeAtomicI64Rmw8CmpxchgU :: byte where "OpcodeAtomicI64Rmw8CmpxchgU \<equiv> 0x4c"
abbreviation (input) OpcodeAtomicI64Rmw16CmpxchgU :: byte where "OpcodeAtomicI64Rmw16CmpxchgU \<equiv> 0x4d"
abbreviation (input) OpcodeAtomicI64Rmw32CmpxchgU :: byte where "OpcodeAtomicI64Rmw32CmpxchgU \<equiv> 0x4e"

section \<open>Tail calls and typed function references\<close>

abbreviation (input) OpcodeTailCallReturnCall :: byte where "OpcodeTailCallReturnCall \<equiv> 0x12"
abbreviation (input) OpcodeTailCallReturnCallIndirect :: byte where "OpcodeTailCallReturnCallIndirect \<equiv> 0x13"
abbreviation (input) OpcodeCallRef :: byte where "OpcodeCallRef \<equiv> 0x14"
abbreviation (input) OpcodeReturnCallRef :: byte where "OpcodeReturnCallRef \<equiv> 0x15"

section \<open>Catch clauses of \<open>try_table\<close>\<close>

abbreviation (input) CatchKindCatch :: byte where "CatchKindCatch \<equiv> 0"
abbreviation (input) CatchKindCatchRef :: byte where "CatchKindCatchRef \<equiv> 1"
abbreviation (input) CatchKindCatchAll :: byte where "CatchKindCatchAll \<equiv> 2"
abbreviation (input) CatchKindCatchAllRef :: byte where "CatchKindCatchAllRef \<equiv> 3"

end
