(* ===== verification/ValidationStacks.thy ===== *)
theory ValidationStacks
  imports TypeEquivalence Leb128 Opcodes
begin

text \<open>
  The stacks of the function validator (\<^verbatim>\<open>internal/wasm/func_validation.go\<close>, from \<^verbatim>\<open>type stacks\<close> on):
  the operand types with the limits of the enclosing blocks, and the control blocks. A Go slice
  used as a stack is a list whose last element is the top. A map used as a set of locals is
  \<open>None\<close> when it is the nil map: reading it finds nothing, writing it panics.
\<close>

section \<open>The value type stack\<close>

record valueTypeStack =
  vs_module :: Module
  vs_stack :: "ValueType list"
  vs_stackLimits :: "nat list"
  vs_maximumStackPointer :: nat

abbreviation (input) valueTypeUnknown :: ValueType where "valueTypeUnknown \<equiv> 0xFF"

definition stackLimit :: "valueTypeStack \<Rightarrow> nat" where
  "stackLimit s = (if vs_stackLimits s \<noteq> [] then last (vs_stackLimits s) else 0)"

text \<open>\<^verbatim>\<open>tryPop\<close> returns the type, \<open>None\<close> for \<^verbatim>\<open>ok == false\<close>, and the stack after the call.\<close>

definition tryPop :: "valueTypeStack \<Rightarrow> ValueType option \<times> valueTypeStack" where
  "tryPop s =
     (let limit = stackLimit s; stackLen = length (vs_stack s) in
      if stackLen \<le> limit then (None, s)
      else if stackLen = limit + 1 \<and> vs_stack s ! limit = valueTypeUnknown then (Some valueTypeUnknown, s)
      else (Some (vs_stack s ! (stackLen - 1)), s\<lparr>vs_stack := take (stackLen - 1) (vs_stack s)\<rparr>))"

definition pop :: "valueTypeStack \<Rightarrow> (ValueType \<times> valueTypeStack) outcome" where
  "pop s =
     (case tryPop s of
        (Some vt, s) \<Rightarrow> Ok (vt, s)
      | (None, _) \<Rightarrow> Err (Errorf ''invalid operation: trying to pop at %d with limit %d''))"

definition popAndVerifyType :: "ValueType \<Rightarrow> valueTypeStack \<Rightarrow> valueTypeStack outcome" where
  "popAndVerifyType expected s =
     (case tryPop s of
        (None, _) \<Rightarrow> Err (Errorf ''%s missing'')
      | (Some have, s) \<Rightarrow>
          if have \<noteq> valueTypeUnknown \<and> expected \<noteq> valueTypeUnknown then
            bindO (isRefSubtypeOf (vs_module s) have expected) (\<lambda>sub.
              if sub then Ok s else Err (Errorf ''type mismatch: expected %s, but was %s''))
          else Ok s)"

definition push :: "ValueType \<Rightarrow> valueTypeStack \<Rightarrow> valueTypeStack" where
  "push v s =
     (let stack = vs_stack s @ [v]; sp = length stack in
      s\<lparr>vs_stack := stack,
        vs_maximumStackPointer := (if sp > vs_maximumStackPointer s then sp else vs_maximumStackPointer s)\<rparr>)"

text \<open>\<^verbatim>\<open>s.stack[:limit]\<close>; the invariant below keeps every limit within the stack.\<close>

definition resetAtStackLimit :: "valueTypeStack \<Rightarrow> valueTypeStack outcome" where
  "resetAtStackLimit s = bindO (slice_to (vs_stack s) (stackLimit s)) (\<lambda>stack. Ok (s\<lparr>vs_stack := stack\<rparr>))"

text \<open>\<^verbatim>\<open>unreachable\<close> appends directly, so that \<^verbatim>\<open>maximumStackPointer\<close> does not count the marker.\<close>

definition unreachable :: "valueTypeStack \<Rightarrow> valueTypeStack outcome" where
  "unreachable s =
     bindO (resetAtStackLimit s) (\<lambda>s. Ok (s\<lparr>vs_stack := vs_stack s @ [valueTypeUnknown]\<rparr>))"

definition popStackLimit :: "valueTypeStack \<Rightarrow> valueTypeStack" where
  "popStackLimit s =
     (if vs_stackLimits s \<noteq> [] then s\<lparr>vs_stackLimits := butlast (vs_stackLimits s)\<rparr> else s)"

text \<open>Called right after the \<open>params\<close> values were pushed, so the difference is never negative.\<close>

definition pushStackLimit :: "nat \<Rightarrow> valueTypeStack \<Rightarrow> valueTypeStack" where
  "pushStackLimit params s =
     s\<lparr>vs_stackLimits := vs_stackLimits s @ [length (vs_stack s) - params]\<rparr>"

text \<open>The loops of \<^verbatim>\<open>requireStackValues\<close>: popping one value per wanted type, and comparing them.\<close>

primrec popWanted :: "nat \<Rightarrow> valueTypeStack \<Rightarrow> (ValueType list \<times> valueTypeStack) outcome" where
  "popWanted 0 s = Ok ([], s)"
| "popWanted (Suc n) s =
     (case tryPop s of
        (None, _) \<Rightarrow> Err (Errorf ''not enough %s in %s block'')
      | (Some popped, s) \<Rightarrow> bindO (popWanted n s) (\<lambda>(tmp, s). Ok (popped # tmp, s)))"

fun checkWanted :: "Module \<Rightarrow> ValueType list \<Rightarrow> ValueType list \<Rightarrow> unit outcome" where
  "checkWanted m (v # tmp) (nextWant # wantRev) =
     (if v \<noteq> valueTypeUnknown \<and> nextWant \<noteq> valueTypeUnknown then
        bindO (isRefSubtypeOf m v nextWant) (\<lambda>sub.
          if sub then checkWanted m tmp wantRev else Err (Errorf ''cannot use %s as %s type %s''))
      else checkWanted m tmp wantRev)"
| "checkWanted m _ _ = Ok ()"

definition requireStackValues :: "ValueType list \<Rightarrow> bool \<Rightarrow> valueTypeStack \<Rightarrow> valueTypeStack outcome" where
  "requireStackValues want checkAboveLimit s =
     (let limit = stackLimit s in
      bindO (popWanted (length want) s) (\<lambda>(tmp, s).
      bindO (require (checkAboveLimit \<longrightarrow> limit = length (vs_stack s) \<or>
               limit + 1 = length (vs_stack s) \<and> vs_stack s ! limit = valueTypeUnknown)
               (Errorf ''too many %s in %s block'')) (\<lambda>_.
      bindO (checkWanted (vs_module s) tmp (rev want)) (\<lambda>_. Ok s))))"

text \<open>
  The two callers only add the name of the instruction to the message; the messages are not
  modelled beyond their format.
\<close>

definition popParams :: "ValueType list \<Rightarrow> bool \<Rightarrow> valueTypeStack \<Rightarrow> valueTypeStack outcome" where
  "popParams want checkAboveLimit s = requireStackValues want checkAboveLimit s"

definition popResults :: "ValueType list \<Rightarrow> bool \<Rightarrow> valueTypeStack \<Rightarrow> valueTypeStack outcome" where
  "popResults want checkAboveLimit s = requireStackValues want checkAboveLimit s"

text \<open>The loop \<^verbatim>\<open>for _, t := range ts { valueTypeStack.push(t) }\<close>, and a sequence of operands popped in order.\<close>

definition pushAll :: "ValueType list \<Rightarrow> valueTypeStack \<Rightarrow> valueTypeStack" where
  "pushAll ts s = fold push ts s"

definition popAll :: "ValueType list \<Rightarrow> valueTypeStack \<Rightarrow> valueTypeStack outcome" where
  "popAll ts s = foldO popAndVerifyType ts s"

section \<open>The control block stack\<close>

record controlBlock =
  cb_startAt :: nat
  cb_elseAt :: nat
  cb_endAt :: nat
  cb_blockType :: FunctionType
  cb_blockTypeBytes :: nat
  cb_op :: byte
  cb_savedInitLocals :: "u32 set option"

record stacks =
  sts_vs :: valueTypeStack
  sts_cs :: "controlBlock list"
  sts_ls :: "u32 list"
  sts_initLocals :: "u32 set option"

definition pushControl :: "nat \<Rightarrow> nat \<Rightarrow> nat \<Rightarrow> FunctionType \<Rightarrow> nat \<Rightarrow> byte \<Rightarrow> stacks \<Rightarrow> stacks" where
  "pushControl startAt elseAt endAt blockType blockTypeBytes op sts =
     sts\<lparr>sts_cs := sts_cs sts @
       [\<lparr>cb_startAt = startAt, cb_elseAt = elseAt, cb_endAt = endAt, cb_blockType = blockType,
         cb_blockTypeBytes = blockTypeBytes, cb_op = op, cb_savedInitLocals = None\<rparr>]\<rparr>"

definition popControl :: "stacks \<Rightarrow> (controlBlock \<times> stacks) outcome" where
  "popControl sts =
     (if sts_cs sts = [] then Panic ''index out of range''
      else Ok (last (sts_cs sts), sts\<lparr>sts_cs := butlast (sts_cs sts)\<rparr>))"

definition reset :: "FunctionType \<Rightarrow> stacks \<Rightarrow> stacks" where
  "reset functionType sts =
     \<lparr>sts_vs = (sts_vs sts)\<lparr>vs_stack := [], vs_stackLimits := [], vs_maximumStackPointer := 0\<rparr>,
      sts_cs = [\<lparr>cb_startAt = 0, cb_elseAt = 0, cb_endAt = 0, cb_blockType = functionType,
                 cb_blockTypeBytes = 0, cb_op = 0, cb_savedInitLocals = None\<rparr>],
      sts_ls = [], sts_initLocals = Some {}\<rparr>"

definition requireLocalInit :: "u32 \<Rightarrow> u32 \<Rightarrow> ValueType list \<Rightarrow> stacks \<Rightarrow> unit outcome" where
  "requireLocalInit idx inputLen localTypes sts =
     (if idx \<ge> inputLen then
        bindO (index localTypes (unat (idx - inputLen))) (\<lambda>lt.
          require (IsRef lt \<and> \<not> IsNullable lt \<longrightarrow>
              (case sts_initLocals sts of Some init \<Rightarrow> idx \<in> init | None \<Rightarrow> False))
            (Errorf ''uninitialized local %d''))
      else Ok ())"

definition markLocalInit :: "u32 \<Rightarrow> u32 \<Rightarrow> ValueType list \<Rightarrow> stacks \<Rightarrow> stacks outcome" where
  "markLocalInit idx inputLen localTypes sts =
     (if idx \<ge> inputLen then
        bindO (index localTypes (unat (idx - inputLen))) (\<lambda>lt.
          if IsRef lt \<and> \<not> IsNullable lt then
            case sts_initLocals sts of
              Some init \<Rightarrow> Ok (sts\<lparr>sts_initLocals := Some (insert idx init)\<rparr>)
            | None \<Rightarrow> Panic ''assignment to entry in nil map''
          else Ok sts)
      else Ok sts)"

definition validateCallSignature :: "FunctionType \<Rightarrow> valueTypeStack \<Rightarrow> valueTypeStack outcome" where
  "validateCallSignature funcType s =
     bindO (mapErr (\<lambda>_. Errorf ''type mismatch on %s operation param type: %v'') (popAll (rev (ft_Params funcType)) s))
       (\<lambda>s. Ok (pushAll (ft_Results funcType) s))"

definition validateReturnCall ::
    "CoreFeatures \<Rightarrow> FunctionType \<Rightarrow> FunctionType \<Rightarrow> valueTypeStack \<Rightarrow> valueTypeStack outcome" where
  "validateReturnCall enabledFeatures calleeFuncType callerFuncType s =
     bindO (mapErr (\<lambda>_. Errorf ''%s invalid as %v'') (RequireEnabled enabledFeatures CoreFeaturesTailCall)) (\<lambda>_.
     bindO (require (length (ft_Results calleeFuncType) = length (ft_Results callerFuncType))
              (Errorf ''type mismatch on %s: caller returns %d values but callee returns %d'')) (\<lambda>_.
     requireStackValues (ft_Results callerFuncType) False s))"

section \<open>Immediates\<close>

definition readMemArg :: "nat \<Rightarrow> byte list \<Rightarrow> (u32 \<times> u32 \<times> nat) outcome" where
  "readMemArg pc body =
     bindO (slice_from body pc) (\<lambda>b.
     bindO (mapErr (\<lambda>_. Errorf ''read memory align: %v'') (LoadUint32 b)) (\<lambda>(align, num).
     bindO (require (align < 32) (Errorf ''invalid memory alignment'')) (\<lambda>_.
     bindO (slice_from body (pc + num)) (\<lambda>b.
     bindO (mapErr (\<lambda>_. Errorf ''read memory offset: %v'') (LoadUint32 b)) (\<lambda>(offset, num').
     Ok (align, offset, num + num'))))))"

definition blockType_results :: "ValueType list \<Rightarrow> nat \<Rightarrow> FunctionType" where
  "blockType_results results n =
     \<lparr>ft_Params = [], ft_Results = results, ft_ParamNumInUint64 = 0, ft_ResultNumInUint64 = n,
      ft_RecGroupSize = 0, ft_RecGroupPosition = 0, ft_string = []\<rparr>"

definition decodeBlockRef :: "nat \<Rightarrow> bool \<Rightarrow> reader \<Rightarrow> (FunctionType \<times> nat) outcome" where
  "decodeBlockRef types nullable r =
     bindO (mapErr (Wrapf ''read ref heap type in block'') (DecodeInt33AsInt64 r)) (\<lambda>(ht, htNum, _).
     let abs = (\<lambda>vt. Ok (blockType_results [if nullable then vt else AsNonNullable vt] 1, htNum)) in
     if ht = HeapTypeExn then abs ValueTypeExnref
     else if ht = HeapTypeFunc then abs ValueTypeFuncref
     else if ht = HeapTypeExtern then abs ValueTypeExternref
     else if ht <s 0 then Err (Errorf ''unknown abstract heap type in block: %d'')
     else if int types \<le> sint ht then Err (Errorf ''unknown type'')
     else Ok (blockType_results [ValueTypeConcreteRef (ucast ht) nullable] 1, htNum))"

definition DecodeBlockType :: "FunctionType list \<Rightarrow> byte list \<Rightarrow> CoreFeatures \<Rightarrow> (FunctionType \<times> nat) outcome" where
  "DecodeBlockType types b enabledFeatures =
     bindO (mapErr (Wrapf ''decode int33'') (DecodeInt33AsInt64 (NewReader b))) (\<lambda>(raw, num, r).
     if raw = - 64 then Ok (blockType_results [] 0, num)
     else if raw = - 1 then Ok (blockType_results [ValueTypeI32] 1, num)
     else if raw = - 2 then Ok (blockType_results [ValueTypeI64] 1, num)
     else if raw = - 3 then Ok (blockType_results [ValueTypeF32] 1, num)
     else if raw = - 4 then Ok (blockType_results [ValueTypeF64] 1, num)
     else if raw = - 5 then Ok (blockType_results [ValueTypeV128] 2, num)
     else if raw = - 16 then Ok (blockType_results [ValueTypeFuncref] 1, num)
     else if raw = - 17 then Ok (blockType_results [ValueTypeExternref] 1, num)
     else if raw = - 23 then Ok (blockType_results [ValueTypeExnref] 1, num)
     else if raw = - 29 then bindO (decodeBlockRef (length types) True r) (\<lambda>(ft, htNum). Ok (ft, num + htNum))
     else if raw = - 28 then bindO (decodeBlockRef (length types) False r) (\<lambda>(ft, htNum). Ok (ft, num + htNum))
     else
       bindO (mapErr (\<lambda>_. Errorf ''block with function type return invalid as %v'')
                (RequireEnabled enabledFeatures CoreFeatureMultiValue)) (\<lambda>_.
       if raw <s 0 \<or> int (length types) \<le> sint raw then Err (Errorf ''type index out of range: %d'')
       else bindO (index types (nat (sint raw))) (\<lambda>ft. Ok (ft, num))))"

section \<open>The frame of a block\<close>

text \<open>
  The limits and the operands below the current limit belong to the enclosing blocks. \<open>framed f s\<close>:
  the stack is well-formed and its frame is \<open>f\<close>. No operation inside a block changes the frame.
\<close>

definition frame :: "valueTypeStack \<Rightarrow> Module \<times> nat list \<times> ValueType list" where
  "frame s = (vs_module s, vs_stackLimits s, take (stackLimit s) (vs_stack s))"

definition wf_vs :: "valueTypeStack \<Rightarrow> bool" where
  "wf_vs s \<longleftrightarrow> wf_types (vs_module s) \<and> sorted (vs_stackLimits s @ [length (vs_stack s)])"

definition framed :: "Module \<times> nat list \<times> ValueType list \<Rightarrow> valueTypeStack \<Rightarrow> bool" where
  "framed f s \<longleftrightarrow> wf_vs s \<and> frame s = f"

lemma framed_frame: "wf_vs s \<Longrightarrow> framed (frame s) s"
  by (simp add: framed_def)

lemma wf_vs_limit: "wf_vs s \<Longrightarrow> stackLimit s \<le> length (vs_stack s)"
  by (auto simp: wf_vs_def stackLimit_def sorted_append)

lemma framedI:
  assumes "framed f s" "vs_module s' = vs_module s" "vs_stackLimits s' = vs_stackLimits s"
    "stackLimit s \<le> length (vs_stack s')" "take (stackLimit s) (vs_stack s') = take (stackLimit s) (vs_stack s)"
  shows "framed f s'"
proof -
  have "sorted (vs_stackLimits s)" using assms(1) by (auto simp: framed_def wf_vs_def sorted_append)
  moreover have "\<forall>l \<in> set (vs_stackLimits s). l \<le> stackLimit s"
    using calculation by (cases "vs_stackLimits s" rule: rev_cases) (auto simp: stackLimit_def sorted_append)
  moreover have "stackLimit s' = stackLimit s" using assms(3) by (simp add: stackLimit_def)
  ultimately show ?thesis
    using assms unfolding framed_def wf_vs_def frame_def by (auto simp: sorted_append intro: le_trans)
qed

lemma framed_wf_types [simp]: "framed f s \<Longrightarrow> wf_types (vs_module s)"
  by (simp add: framed_def wf_vs_def)

lemma framed_module: "framed (m, ls, base) s \<Longrightarrow> vs_module s = m"
  by (simp add: framed_def frame_def)

lemma framed_tryPop: "framed f s \<Longrightarrow> framed f (snd (tryPop s))"
  by (rule framedI [of f s]) (use wf_vs_limit [of s] in \<open>auto simp: tryPop_def Let_def min_def framed_def\<close>)

lemma framed_push [simp, wpI]: "framed f s \<Longrightarrow> framed f (push v s)"
  by (rule framedI [of f s]) (use wf_vs_limit [of s] in \<open>auto simp: push_def Let_def framed_def\<close>)

lemma framed_pushAll [simp, wpI]: "framed f s \<Longrightarrow> framed f (pushAll ts s)"
  unfolding pushAll_def by (induction ts arbitrary: s) auto

lemma holds_pop [wpI]: "framed f s \<Longrightarrow> (\<And>v s'. framed f s' \<Longrightarrow> P (v, s')) \<Longrightarrow> holds P (pop s)"
  using framed_tryPop [of f s] by (auto simp: pop_def split: prod.splits option.splits)

lemma holds_popAndVerifyType [wpI]:
  "framed f s \<Longrightarrow> (\<And>s'. framed f s' \<Longrightarrow> P s') \<Longrightarrow> holds P (popAndVerifyType t s)"
  using framed_tryPop [of f s] by (auto simp: popAndVerifyType_def wp split: prod.splits option.splits)

lemma holds_popAll [wpI]: "framed f s \<Longrightarrow> (\<And>s'. framed f s' \<Longrightarrow> P s') \<Longrightarrow> holds P (popAll ts s)"
  unfolding popAll_def by (rule holds_mono [OF holds_foldO [of "framed f"]]) (auto intro: wpI)

lemma holds_resetAtStackLimit [wpI]:
  "framed f s \<Longrightarrow> (\<And>s'. framed f s' \<Longrightarrow> P s') \<Longrightarrow> holds P (resetAtStackLimit s)"
  using framedI [of f s "s\<lparr>vs_stack := take (stackLimit s) (vs_stack s)\<rparr>"] wf_vs_limit [of s]
  by (auto simp: resetAtStackLimit_def wp framed_def)

lemma framed_append [simp, wpI]: "framed f s \<Longrightarrow> framed f (s\<lparr>vs_stack := vs_stack s @ vs\<rparr>)"
  by (rule framedI [of f s]) (use wf_vs_limit [of s] in \<open>auto simp: framed_def\<close>)

lemma holds_unreachable [wpI]:
  "framed f s \<Longrightarrow> (\<And>s'. framed f s' \<Longrightarrow> P s') \<Longrightarrow> holds P (unreachable s)"
  unfolding unreachable_def by (auto simp: wp intro!: wpI)

lemma holds_popWanted [wpI]:
  "framed f s \<Longrightarrow> (\<And>vs s'. framed f s' \<Longrightarrow> P (vs, s')) \<Longrightarrow> holds P (popWanted n s)"
proof (induction n arbitrary: s P)
  case (Suc n)
  show ?case
    using framed_tryPop [OF Suc.prems(1)]
    by (auto simp: wp split: prod.split option.split intro!: Suc.IH Suc.prems(2))
qed simp

lemma holds_checkWanted [wpI]: "wf_types m \<Longrightarrow> P () \<Longrightarrow> holds P (checkWanted m vs ws)"
  by (induction m vs ws rule: checkWanted.induct) (auto simp: wp isRefSubtypeOf_iff)

lemma holds_requireStackValues [wpI]:
  "framed f s \<Longrightarrow> (\<And>s'. framed f s' \<Longrightarrow> P s') \<Longrightarrow> holds P (requireStackValues want chk s)"
  by (auto simp: requireStackValues_def Let_def wp intro!: wpI)

lemma holds_popResults [wpI]:
  "framed f s \<Longrightarrow> (\<And>s'. framed f s' \<Longrightarrow> P s') \<Longrightarrow> holds P (popResults want chk s)"
  unfolding popResults_def by (rule holds_requireStackValues)

lemma holds_popParams [wpI]:
  "framed f s \<Longrightarrow> (\<And>s'. framed f s' \<Longrightarrow> P s') \<Longrightarrow> holds P (popParams want chk s)"
  unfolding popParams_def by (rule holds_requireStackValues)

lemma holds_validateCallSignature [wpI]:
  "framed f s \<Longrightarrow> (\<And>s'. framed f s' \<Longrightarrow> P s') \<Longrightarrow> holds P (validateCallSignature ft s)"
  unfolding validateCallSignature_def by (auto simp: wp intro!: wpI)

lemma holds_validateReturnCall [wpI]:
  "framed f s \<Longrightarrow> (\<And>s'. framed f s' \<Longrightarrow> P s') \<Longrightarrow> holds P (validateReturnCall fs callee caller s)"
  unfolding validateReturnCall_def by (auto simp: wp intro!: wpI)

text \<open>Entering and leaving a block.\<close>

lemma length_push: "length (vs_stack (push v s)) = Suc (length (vs_stack s))"
  by (simp add: push_def Let_def)

lemma pushAll_stack [simp]: "vs_stack (pushAll ts s) = vs_stack s @ ts"
  unfolding pushAll_def by (induction ts arbitrary: s) (auto simp: push_def Let_def)

lemma pushAll_simps [simp]:
  "vs_module (pushAll ts s) = vs_module s" "vs_stackLimits (pushAll ts s) = vs_stackLimits s"
  unfolding pushAll_def by (induction ts arbitrary: s) (auto simp: push_def Let_def)

lemma wf_vs_pushStackLimit: "wf_vs s \<Longrightarrow> wf_vs (pushStackLimit (length ts) (pushAll ts s))"
  by (auto simp: wf_vs_def pushStackLimit_def sorted_append)

lemma wf_vs_popStackLimit: "wf_vs s \<Longrightarrow> wf_vs (popStackLimit s)"
  by (cases "vs_stackLimits s" rule: rev_cases) (auto simp: wf_vs_def popStackLimit_def sorted_append)


end
