(* ===== verification/InstructionTypes.thy ===== *)
theory InstructionTypes
  imports ModuleTypes Opcodes
begin

text \<open>
  The typing tables of the function validator (\<^verbatim>\<open>internal/wasm/func_validation.go\<close>): for every
  instruction whose effect on the operand stack is fixed, the types its case pops, in the order of
  the \<^verbatim>\<open>popAndVerifyType\<close> calls, and the types it pushes. The cases that access memory also give
  the largest alignment in bytes. \<open>None\<close> is the \<^verbatim>\<open>default\<close> branch.
\<close>

section \<open>Memory and atomic accesses\<close>

definition memoryAccessType :: "byte \<Rightarrow> (nat \<times> ValueType list \<times> ValueType list) option" where
  "memoryAccessType op =
    (if op = OpcodeI32Load then
       Some (4, [ValueTypeI32], [ValueTypeI32])
     else if op = OpcodeF32Load then
       Some (4, [ValueTypeI32], [ValueTypeF32])
     else if op = OpcodeI32Store then
       Some (4, [ValueTypeI32, ValueTypeI32], [])
     else if op = OpcodeF32Store then
       Some (4, [ValueTypeF32, ValueTypeI32], [])
     else if op = OpcodeI64Load then
       Some (8, [ValueTypeI32], [ValueTypeI64])
     else if op = OpcodeF64Load then
       Some (8, [ValueTypeI32], [ValueTypeF64])
     else if op = OpcodeI64Store then
       Some (8, [ValueTypeI64, ValueTypeI32], [])
     else if op = OpcodeF64Store then
       Some (8, [ValueTypeF64, ValueTypeI32], [])
     else if op = OpcodeI32Load8S then
       Some (1, [ValueTypeI32], [ValueTypeI32])
     else if op = OpcodeI32Load8U then
       Some (1, [ValueTypeI32], [ValueTypeI32])
     else if op \<in> {OpcodeI64Load8S, OpcodeI64Load8U} then
       Some (1, [ValueTypeI32], [ValueTypeI64])
     else if op = OpcodeI32Store8 then
       Some (1, [ValueTypeI32, ValueTypeI32], [])
     else if op = OpcodeI64Store8 then
       Some (1, [ValueTypeI64, ValueTypeI32], [])
     else if op \<in> {OpcodeI32Load16S, OpcodeI32Load16U} then
       Some (2, [ValueTypeI32], [ValueTypeI32])
     else if op \<in> {OpcodeI64Load16S, OpcodeI64Load16U} then
       Some (2, [ValueTypeI32], [ValueTypeI64])
     else if op = OpcodeI32Store16 then
       Some (2, [ValueTypeI32, ValueTypeI32], [])
     else if op = OpcodeI64Store16 then
       Some (2, [ValueTypeI64, ValueTypeI32], [])
     else if op \<in> {OpcodeI64Load32S, OpcodeI64Load32U} then
       Some (4, [ValueTypeI32], [ValueTypeI64])
     else if op = OpcodeI64Store32 then
       Some (4, [ValueTypeI64, ValueTypeI32], [])
     else None)"

definition atomicType :: "byte \<Rightarrow> (nat \<times> ValueType list \<times> ValueType list) option" where
  "atomicType atomicOpcode =
    (if atomicOpcode = OpcodeAtomicMemoryNotify then
       Some (4, [ValueTypeI32, ValueTypeI32], [ValueTypeI32])
     else if atomicOpcode = OpcodeAtomicMemoryWait32 then
       Some (4, [ValueTypeI64, ValueTypeI32, ValueTypeI32], [ValueTypeI32])
     else if atomicOpcode = OpcodeAtomicMemoryWait64 then
       Some (8, [ValueTypeI64, ValueTypeI64, ValueTypeI32], [ValueTypeI32])
     else if atomicOpcode = OpcodeAtomicI32Load then
       Some (4, [ValueTypeI32], [ValueTypeI32])
     else if atomicOpcode = OpcodeAtomicI64Load then
       Some (8, [ValueTypeI32], [ValueTypeI64])
     else if atomicOpcode = OpcodeAtomicI32Load8U then
       Some (1, [ValueTypeI32], [ValueTypeI32])
     else if atomicOpcode = OpcodeAtomicI32Load16U then
       Some (2, [ValueTypeI32], [ValueTypeI32])
     else if atomicOpcode = OpcodeAtomicI64Load8U then
       Some (1, [ValueTypeI32], [ValueTypeI64])
     else if atomicOpcode = OpcodeAtomicI64Load16U then
       Some (2, [ValueTypeI32], [ValueTypeI64])
     else if atomicOpcode = OpcodeAtomicI64Load32U then
       Some (4, [ValueTypeI32], [ValueTypeI64])
     else if atomicOpcode = OpcodeAtomicI32Store then
       Some (4, [ValueTypeI32, ValueTypeI32], [])
     else if atomicOpcode = OpcodeAtomicI64Store then
       Some (8, [ValueTypeI64, ValueTypeI32], [])
     else if atomicOpcode = OpcodeAtomicI32Store8 then
       Some (1, [ValueTypeI32, ValueTypeI32], [])
     else if atomicOpcode = OpcodeAtomicI32Store16 then
       Some (2, [ValueTypeI32, ValueTypeI32], [])
     else if atomicOpcode = OpcodeAtomicI64Store8 then
       Some (1, [ValueTypeI64, ValueTypeI32], [])
     else if atomicOpcode = OpcodeAtomicI64Store16 then
       Some (2, [ValueTypeI64, ValueTypeI32], [])
     else if atomicOpcode = OpcodeAtomicI64Store32 then
       Some (4, [ValueTypeI64, ValueTypeI32], [])
     else if atomicOpcode \<in> {OpcodeAtomicI32RmwAdd, OpcodeAtomicI32RmwSub, OpcodeAtomicI32RmwAnd, OpcodeAtomicI32RmwOr,
        OpcodeAtomicI32RmwXor, OpcodeAtomicI32RmwXchg} then
       Some (4, [ValueTypeI32, ValueTypeI32], [ValueTypeI32])
     else if atomicOpcode \<in> {OpcodeAtomicI32Rmw8AddU, OpcodeAtomicI32Rmw8SubU, OpcodeAtomicI32Rmw8AndU, OpcodeAtomicI32Rmw8OrU,
        OpcodeAtomicI32Rmw8XorU, OpcodeAtomicI32Rmw8XchgU} then
       Some (1, [ValueTypeI32, ValueTypeI32], [ValueTypeI32])
     else if atomicOpcode \<in> {OpcodeAtomicI32Rmw16AddU, OpcodeAtomicI32Rmw16SubU, OpcodeAtomicI32Rmw16AndU, OpcodeAtomicI32Rmw16OrU,
        OpcodeAtomicI32Rmw16XorU, OpcodeAtomicI32Rmw16XchgU} then
       Some (2, [ValueTypeI32, ValueTypeI32], [ValueTypeI32])
     else if atomicOpcode \<in> {OpcodeAtomicI64RmwAdd, OpcodeAtomicI64RmwSub, OpcodeAtomicI64RmwAnd, OpcodeAtomicI64RmwOr,
        OpcodeAtomicI64RmwXor, OpcodeAtomicI64RmwXchg} then
       Some (8, [ValueTypeI64, ValueTypeI32], [ValueTypeI64])
     else if atomicOpcode \<in> {OpcodeAtomicI64Rmw8AddU, OpcodeAtomicI64Rmw8SubU, OpcodeAtomicI64Rmw8AndU, OpcodeAtomicI64Rmw8OrU,
        OpcodeAtomicI64Rmw8XorU, OpcodeAtomicI64Rmw8XchgU} then
       Some (1, [ValueTypeI64, ValueTypeI32], [ValueTypeI64])
     else if atomicOpcode \<in> {OpcodeAtomicI64Rmw16AddU, OpcodeAtomicI64Rmw16SubU, OpcodeAtomicI64Rmw16AndU, OpcodeAtomicI64Rmw16OrU,
        OpcodeAtomicI64Rmw16XorU, OpcodeAtomicI64Rmw16XchgU} then
       Some (2, [ValueTypeI64, ValueTypeI32], [ValueTypeI64])
     else if atomicOpcode \<in> {OpcodeAtomicI64Rmw32AddU, OpcodeAtomicI64Rmw32SubU, OpcodeAtomicI64Rmw32AndU, OpcodeAtomicI64Rmw32OrU,
        OpcodeAtomicI64Rmw32XorU, OpcodeAtomicI64Rmw32XchgU} then
       Some (4, [ValueTypeI64, ValueTypeI32], [ValueTypeI64])
     else if atomicOpcode = OpcodeAtomicI32RmwCmpxchg then
       Some (4, [ValueTypeI32, ValueTypeI32, ValueTypeI32], [ValueTypeI32])
     else if atomicOpcode = OpcodeAtomicI32Rmw8CmpxchgU then
       Some (1, [ValueTypeI32, ValueTypeI32, ValueTypeI32], [ValueTypeI32])
     else if atomicOpcode = OpcodeAtomicI32Rmw16CmpxchgU then
       Some (2, [ValueTypeI32, ValueTypeI32, ValueTypeI32], [ValueTypeI32])
     else if atomicOpcode = OpcodeAtomicI64RmwCmpxchg then
       Some (8, [ValueTypeI64, ValueTypeI64, ValueTypeI32], [ValueTypeI64])
     else if atomicOpcode = OpcodeAtomicI64Rmw8CmpxchgU then
       Some (1, [ValueTypeI64, ValueTypeI64, ValueTypeI32], [ValueTypeI64])
     else if atomicOpcode = OpcodeAtomicI64Rmw16CmpxchgU then
       Some (2, [ValueTypeI64, ValueTypeI64, ValueTypeI32], [ValueTypeI64])
     else if atomicOpcode = OpcodeAtomicI64Rmw32CmpxchgU then
       Some (4, [ValueTypeI64, ValueTypeI64, ValueTypeI32], [ValueTypeI64])
     else None)"

section \<open>Numeric instructions\<close>

definition numericType :: "byte \<Rightarrow> (ValueType list \<times> ValueType list) option" where
  "numericType op =
    (if op = OpcodeI32Eqz then
       Some ([ValueTypeI32], [ValueTypeI32])
     else if op \<in> {OpcodeI32Eq, OpcodeI32Ne, OpcodeI32LtS, OpcodeI32LtU, OpcodeI32GtS, OpcodeI32GtU, OpcodeI32LeS, OpcodeI32LeU,
        OpcodeI32GeS, OpcodeI32GeU} then
       Some ([ValueTypeI32, ValueTypeI32], [ValueTypeI32])
     else if op = OpcodeI64Eqz then
       Some ([ValueTypeI64], [ValueTypeI32])
     else if op \<in> {OpcodeI64Eq, OpcodeI64Ne, OpcodeI64LtS, OpcodeI64LtU, OpcodeI64GtS, OpcodeI64GtU, OpcodeI64LeS, OpcodeI64LeU,
        OpcodeI64GeS, OpcodeI64GeU} then
       Some ([ValueTypeI64, ValueTypeI64], [ValueTypeI32])
     else if op \<in> {OpcodeF32Eq, OpcodeF32Ne, OpcodeF32Lt, OpcodeF32Gt, OpcodeF32Le, OpcodeF32Ge} then
       Some ([ValueTypeF32, ValueTypeF32], [ValueTypeI32])
     else if op \<in> {OpcodeF64Eq, OpcodeF64Ne, OpcodeF64Lt, OpcodeF64Gt, OpcodeF64Le, OpcodeF64Ge} then
       Some ([ValueTypeF64, ValueTypeF64], [ValueTypeI32])
     else if op \<in> {OpcodeI32Clz, OpcodeI32Ctz, OpcodeI32Popcnt} then
       Some ([ValueTypeI32], [ValueTypeI32])
     else if op \<in> {OpcodeI32Add, OpcodeI32Sub, OpcodeI32Mul, OpcodeI32DivS, OpcodeI32DivU, OpcodeI32RemS, OpcodeI32RemU,
        OpcodeI32And, OpcodeI32Or, OpcodeI32Xor, OpcodeI32Shl, OpcodeI32ShrS, OpcodeI32ShrU, OpcodeI32Rotl,
        OpcodeI32Rotr} then
       Some ([ValueTypeI32, ValueTypeI32], [ValueTypeI32])
     else if op \<in> {OpcodeI64Clz, OpcodeI64Ctz, OpcodeI64Popcnt} then
       Some ([ValueTypeI64], [ValueTypeI64])
     else if op \<in> {OpcodeI64Add, OpcodeI64Sub, OpcodeI64Mul, OpcodeI64DivS, OpcodeI64DivU, OpcodeI64RemS, OpcodeI64RemU,
        OpcodeI64And, OpcodeI64Or, OpcodeI64Xor, OpcodeI64Shl, OpcodeI64ShrS, OpcodeI64ShrU, OpcodeI64Rotl,
        OpcodeI64Rotr} then
       Some ([ValueTypeI64, ValueTypeI64], [ValueTypeI64])
     else if op \<in> {OpcodeF32Abs, OpcodeF32Neg, OpcodeF32Ceil, OpcodeF32Floor, OpcodeF32Trunc, OpcodeF32Nearest, OpcodeF32Sqrt} then
       Some ([ValueTypeF32], [ValueTypeF32])
     else if op \<in> {OpcodeF32Add, OpcodeF32Sub, OpcodeF32Mul, OpcodeF32Div, OpcodeF32Min, OpcodeF32Max, OpcodeF32Copysign} then
       Some ([ValueTypeF32, ValueTypeF32], [ValueTypeF32])
     else if op \<in> {OpcodeF64Abs, OpcodeF64Neg, OpcodeF64Ceil, OpcodeF64Floor, OpcodeF64Trunc, OpcodeF64Nearest, OpcodeF64Sqrt} then
       Some ([ValueTypeF64], [ValueTypeF64])
     else if op \<in> {OpcodeF64Add, OpcodeF64Sub, OpcodeF64Mul, OpcodeF64Div, OpcodeF64Min, OpcodeF64Max, OpcodeF64Copysign} then
       Some ([ValueTypeF64, ValueTypeF64], [ValueTypeF64])
     else if op = OpcodeI32WrapI64 then
       Some ([ValueTypeI64], [ValueTypeI32])
     else if op \<in> {OpcodeI32TruncF32S, OpcodeI32TruncF32U} then
       Some ([ValueTypeF32], [ValueTypeI32])
     else if op \<in> {OpcodeI32TruncF64S, OpcodeI32TruncF64U} then
       Some ([ValueTypeF64], [ValueTypeI32])
     else if op \<in> {OpcodeI64ExtendI32S, OpcodeI64ExtendI32U} then
       Some ([ValueTypeI32], [ValueTypeI64])
     else if op \<in> {OpcodeI64TruncF32S, OpcodeI64TruncF32U} then
       Some ([ValueTypeF32], [ValueTypeI64])
     else if op \<in> {OpcodeI64TruncF64S, OpcodeI64TruncF64U} then
       Some ([ValueTypeF64], [ValueTypeI64])
     else if op \<in> {OpcodeF32ConvertI32S, OpcodeF32ConvertI32U} then
       Some ([ValueTypeI32], [ValueTypeF32])
     else if op \<in> {OpcodeF32ConvertI64S, OpcodeF32ConvertI64U} then
       Some ([ValueTypeI64], [ValueTypeF32])
     else if op = OpcodeF32DemoteF64 then
       Some ([ValueTypeF64], [ValueTypeF32])
     else if op \<in> {OpcodeF64ConvertI32S, OpcodeF64ConvertI32U} then
       Some ([ValueTypeI32], [ValueTypeF64])
     else if op \<in> {OpcodeF64ConvertI64S, OpcodeF64ConvertI64U} then
       Some ([ValueTypeI64], [ValueTypeF64])
     else if op = OpcodeF64PromoteF32 then
       Some ([ValueTypeF32], [ValueTypeF64])
     else if op = OpcodeI32ReinterpretF32 then
       Some ([ValueTypeF32], [ValueTypeI32])
     else if op = OpcodeI64ReinterpretF64 then
       Some ([ValueTypeF64], [ValueTypeI64])
     else if op = OpcodeF32ReinterpretI32 then
       Some ([ValueTypeI32], [ValueTypeF32])
     else if op = OpcodeF64ReinterpretI64 then
       Some ([ValueTypeI64], [ValueTypeF64])
     else if op \<in> {OpcodeI32Extend8S, OpcodeI32Extend16S} then
       Some ([ValueTypeI32], [ValueTypeI32])
     else if op \<in> {OpcodeI64Extend8S, OpcodeI64Extend16S, OpcodeI64Extend32S} then
       Some ([ValueTypeI64], [ValueTypeI64])
     else None)"

section \<open>Vector instructions\<close>

text \<open>Loads of a whole vector: the alignment of the inner \<^verbatim>\<open>switch\<close>.\<close>

definition vecLoadMaxAlign :: "byte \<Rightarrow> nat option" where
  "vecLoadMaxAlign vecOpcode =
    (if vecOpcode = OpcodeVecV128Load then Some 16
     else if vecOpcode \<in> {OpcodeVecV128Load8x8s, OpcodeVecV128Load8x8u, OpcodeVecV128Load16x4s, OpcodeVecV128Load16x4u,
        OpcodeVecV128Load32x2s, OpcodeVecV128Load32x2u} then Some 8
     else if vecOpcode = OpcodeVecV128Load8Splat then Some 1
     else if vecOpcode = OpcodeVecV128Load16Splat then Some 2
     else if vecOpcode = OpcodeVecV128Load32Splat then Some 4
     else if vecOpcode = OpcodeVecV128Load64Splat then Some 8
     else if vecOpcode = OpcodeVecV128Load32zero then Some 4
     else if vecOpcode = OpcodeVecV128Load64zero then Some 8
     else None)"

text \<open>The lane tables: the alignment or the scalar type, and the number of lanes.\<close>

definition vecExtractLanes :: "byte \<Rightarrow> (byte \<times> ValueType) option" where
  "vecExtractLanes vecOpcode =
    (if vecOpcode = OpcodeVecI8x16ExtractLaneS then Some (16, ValueTypeI32)
     else if vecOpcode = OpcodeVecI8x16ExtractLaneU then Some (16, ValueTypeI32)
     else if vecOpcode = OpcodeVecI16x8ExtractLaneS then Some (8, ValueTypeI32)
     else if vecOpcode = OpcodeVecI16x8ExtractLaneU then Some (8, ValueTypeI32)
     else if vecOpcode = OpcodeVecI32x4ExtractLane then Some (4, ValueTypeI32)
     else if vecOpcode = OpcodeVecI64x2ExtractLane then Some (2, ValueTypeI64)
     else if vecOpcode = OpcodeVecF32x4ExtractLane then Some (4, ValueTypeF32)
     else if vecOpcode = OpcodeVecF64x2ExtractLane then Some (2, ValueTypeF64)
     else None)"

definition vecReplaceLanes :: "byte \<Rightarrow> (byte \<times> ValueType) option" where
  "vecReplaceLanes vecOpcode =
    (if vecOpcode = OpcodeVecI8x16ReplaceLane then Some (16, ValueTypeI32)
     else if vecOpcode = OpcodeVecI16x8ReplaceLane then Some (8, ValueTypeI32)
     else if vecOpcode = OpcodeVecI32x4ReplaceLane then Some (4, ValueTypeI32)
     else if vecOpcode = OpcodeVecI64x2ReplaceLane then Some (2, ValueTypeI64)
     else if vecOpcode = OpcodeVecF32x4ReplaceLane then Some (4, ValueTypeF32)
     else if vecOpcode = OpcodeVecF64x2ReplaceLane then Some (2, ValueTypeF64)
     else None)"

definition vecStoreLanes :: "byte \<Rightarrow> (nat \<times> byte) option" where
  "vecStoreLanes vecOpcode =
    (if vecOpcode = OpcodeVecV128Store64Lane then Some (8, 2)
     else if vecOpcode = OpcodeVecV128Store32Lane then Some (4, 4)
     else if vecOpcode = OpcodeVecV128Store16Lane then Some (2, 8)
     else if vecOpcode = OpcodeVecV128Store8Lane then Some (1, 16)
     else None)"

definition vecLoadLanes :: "byte \<Rightarrow> (nat \<times> byte) option" where
  "vecLoadLanes vecOpcode =
    (if vecOpcode = OpcodeVecV128Load64Lane then Some (8, 2)
     else if vecOpcode = OpcodeVecV128Load32Lane then Some (4, 4)
     else if vecOpcode = OpcodeVecV128Load16Lane then Some (2, 8)
     else if vecOpcode = OpcodeVecV128Load8Lane then Some (1, 16)
     else None)"

definition vecSplatValueTypes :: "byte \<Rightarrow> ValueType option" where
  "vecSplatValueTypes vecOpcode =
    (if vecOpcode = OpcodeVecI8x16Splat then Some ValueTypeI32
     else if vecOpcode = OpcodeVecI16x8Splat then Some ValueTypeI32
     else if vecOpcode = OpcodeVecI32x4Splat then Some ValueTypeI32
     else if vecOpcode = OpcodeVecI64x2Splat then Some ValueTypeI64
     else if vecOpcode = OpcodeVecF32x4Splat then Some ValueTypeF32
     else if vecOpcode = OpcodeVecF64x2Splat then Some ValueTypeF64
     else None)"

text \<open>The instructions without an immediate.\<close>

definition vecType :: "byte \<Rightarrow> (ValueType list \<times> ValueType list) option" where
  "vecType vecOpcode =
    (if vecOpcode \<in> {OpcodeVecV128AnyTrue, OpcodeVecI8x16AllTrue, OpcodeVecI16x8AllTrue, OpcodeVecI32x4AllTrue,
        OpcodeVecI64x2AllTrue, OpcodeVecI8x16BitMask, OpcodeVecI16x8BitMask, OpcodeVecI32x4BitMask,
        OpcodeVecI64x2BitMask} then
       Some ([ValueTypeV128], [ValueTypeI32])
     else if vecOpcode \<in> {OpcodeVecI8x16Swizzle, OpcodeVecV128And, OpcodeVecV128Or, OpcodeVecV128Xor, OpcodeVecV128AndNot} then
       Some ([ValueTypeV128, ValueTypeV128], [ValueTypeV128])
     else if vecOpcode = OpcodeVecV128Bitselect then
       Some ([ValueTypeV128, ValueTypeV128, ValueTypeV128], [ValueTypeV128])
     else if vecOpcode = OpcodeVecV128Not then
       Some ([ValueTypeV128], [ValueTypeV128])
     else if vecOpcode \<in> {OpcodeVecI8x16Shl, OpcodeVecI8x16ShrS, OpcodeVecI8x16ShrU, OpcodeVecI16x8Shl, OpcodeVecI16x8ShrS,
        OpcodeVecI16x8ShrU, OpcodeVecI32x4Shl, OpcodeVecI32x4ShrS, OpcodeVecI32x4ShrU, OpcodeVecI64x2Shl,
        OpcodeVecI64x2ShrS, OpcodeVecI64x2ShrU} then
       Some ([ValueTypeI32, ValueTypeV128], [ValueTypeV128])
     else if vecOpcode \<in> {OpcodeVecI8x16Eq, OpcodeVecI8x16Ne, OpcodeVecI8x16LtS, OpcodeVecI8x16LtU, OpcodeVecI8x16GtS,
        OpcodeVecI8x16GtU, OpcodeVecI8x16LeS, OpcodeVecI8x16LeU, OpcodeVecI8x16GeS, OpcodeVecI8x16GeU,
        OpcodeVecI16x8Eq, OpcodeVecI16x8Ne, OpcodeVecI16x8LtS, OpcodeVecI16x8LtU, OpcodeVecI16x8GtS,
        OpcodeVecI16x8GtU, OpcodeVecI16x8LeS, OpcodeVecI16x8LeU, OpcodeVecI16x8GeS, OpcodeVecI16x8GeU,
        OpcodeVecI32x4Eq, OpcodeVecI32x4Ne, OpcodeVecI32x4LtS, OpcodeVecI32x4LtU, OpcodeVecI32x4GtS,
        OpcodeVecI32x4GtU, OpcodeVecI32x4LeS, OpcodeVecI32x4LeU, OpcodeVecI32x4GeS, OpcodeVecI32x4GeU,
        OpcodeVecI64x2Eq, OpcodeVecI64x2Ne, OpcodeVecI64x2LtS, OpcodeVecI64x2GtS, OpcodeVecI64x2LeS,
        OpcodeVecI64x2GeS, OpcodeVecF32x4Eq, OpcodeVecF32x4Ne, OpcodeVecF32x4Lt, OpcodeVecF32x4Gt, OpcodeVecF32x4Le,
        OpcodeVecF32x4Ge, OpcodeVecF64x2Eq, OpcodeVecF64x2Ne, OpcodeVecF64x2Lt, OpcodeVecF64x2Gt, OpcodeVecF64x2Le,
        OpcodeVecF64x2Ge, OpcodeVecI32x4DotI16x8S, OpcodeVecI8x16NarrowI16x8S, OpcodeVecI8x16NarrowI16x8U,
        OpcodeVecI16x8NarrowI32x4S, OpcodeVecI16x8NarrowI32x4U} then
       Some ([ValueTypeV128, ValueTypeV128], [ValueTypeV128])
     else if vecOpcode \<in> {OpcodeVecI8x16Neg, OpcodeVecI16x8Neg, OpcodeVecI32x4Neg, OpcodeVecI64x2Neg, OpcodeVecF32x4Neg,
        OpcodeVecF64x2Neg, OpcodeVecF32x4Sqrt, OpcodeVecF64x2Sqrt, OpcodeVecI8x16Abs, OpcodeVecI8x16Popcnt,
        OpcodeVecI16x8Abs, OpcodeVecI32x4Abs, OpcodeVecI64x2Abs, OpcodeVecF32x4Abs, OpcodeVecF64x2Abs,
        OpcodeVecF32x4Ceil, OpcodeVecF32x4Floor, OpcodeVecF32x4Trunc, OpcodeVecF32x4Nearest, OpcodeVecF64x2Ceil,
        OpcodeVecF64x2Floor, OpcodeVecF64x2Trunc, OpcodeVecF64x2Nearest, OpcodeVecI16x8ExtendLowI8x16S,
        OpcodeVecI16x8ExtendHighI8x16S, OpcodeVecI16x8ExtendLowI8x16U, OpcodeVecI16x8ExtendHighI8x16U,
        OpcodeVecI32x4ExtendLowI16x8S, OpcodeVecI32x4ExtendHighI16x8S, OpcodeVecI32x4ExtendLowI16x8U,
        OpcodeVecI32x4ExtendHighI16x8U, OpcodeVecI64x2ExtendLowI32x4S, OpcodeVecI64x2ExtendHighI32x4S,
        OpcodeVecI64x2ExtendLowI32x4U, OpcodeVecI64x2ExtendHighI32x4U, OpcodeVecI16x8ExtaddPairwiseI8x16S,
        OpcodeVecI16x8ExtaddPairwiseI8x16U, OpcodeVecI32x4ExtaddPairwiseI16x8S, OpcodeVecI32x4ExtaddPairwiseI16x8U,
        OpcodeVecF64x2PromoteLowF32x4Zero, OpcodeVecF32x4DemoteF64x2Zero, OpcodeVecF32x4ConvertI32x4S,
        OpcodeVecF32x4ConvertI32x4U, OpcodeVecF64x2ConvertLowI32x4S, OpcodeVecF64x2ConvertLowI32x4U,
        OpcodeVecI32x4TruncSatF32x4S, OpcodeVecI32x4TruncSatF32x4U, OpcodeVecI32x4TruncSatF64x2SZero,
        OpcodeVecI32x4TruncSatF64x2UZero} then
       Some ([ValueTypeV128], [ValueTypeV128])
     else if vecOpcode \<in> {OpcodeVecI8x16Add, OpcodeVecI8x16AddSatS, OpcodeVecI8x16AddSatU, OpcodeVecI8x16Sub, OpcodeVecI8x16SubSatS,
        OpcodeVecI8x16SubSatU, OpcodeVecI16x8Add, OpcodeVecI16x8AddSatS, OpcodeVecI16x8AddSatU, OpcodeVecI16x8Sub,
        OpcodeVecI16x8SubSatS, OpcodeVecI16x8SubSatU, OpcodeVecI16x8Mul, OpcodeVecI32x4Add, OpcodeVecI32x4Sub,
        OpcodeVecI32x4Mul, OpcodeVecI64x2Add, OpcodeVecI64x2Sub, OpcodeVecI64x2Mul, OpcodeVecF32x4Add,
        OpcodeVecF32x4Sub, OpcodeVecF32x4Mul, OpcodeVecF32x4Div, OpcodeVecF64x2Add, OpcodeVecF64x2Sub,
        OpcodeVecF64x2Mul, OpcodeVecF64x2Div, OpcodeVecI8x16MinS, OpcodeVecI8x16MinU, OpcodeVecI8x16MaxS,
        OpcodeVecI8x16MaxU, OpcodeVecI8x16AvgrU, OpcodeVecI16x8MinS, OpcodeVecI16x8MinU, OpcodeVecI16x8MaxS,
        OpcodeVecI16x8MaxU, OpcodeVecI16x8AvgrU, OpcodeVecI32x4MinS, OpcodeVecI32x4MinU, OpcodeVecI32x4MaxS,
        OpcodeVecI32x4MaxU, OpcodeVecF32x4Min, OpcodeVecF32x4Max, OpcodeVecF64x2Min, OpcodeVecF64x2Max,
        OpcodeVecF32x4Pmin, OpcodeVecF32x4Pmax, OpcodeVecF64x2Pmin, OpcodeVecF64x2Pmax, OpcodeVecI16x8Q15mulrSatS,
        OpcodeVecI16x8ExtMulLowI8x16S, OpcodeVecI16x8ExtMulHighI8x16S, OpcodeVecI16x8ExtMulLowI8x16U,
        OpcodeVecI16x8ExtMulHighI8x16U, OpcodeVecI32x4ExtMulLowI16x8S, OpcodeVecI32x4ExtMulHighI16x8S,
        OpcodeVecI32x4ExtMulLowI16x8U, OpcodeVecI32x4ExtMulHighI16x8U, OpcodeVecI64x2ExtMulLowI32x4S,
        OpcodeVecI64x2ExtMulHighI32x4S, OpcodeVecI64x2ExtMulLowI32x4U, OpcodeVecI64x2ExtMulHighI32x4U} then
       Some ([ValueTypeV128, ValueTypeV128], [ValueTypeV128])
     else None)"

section \<open>Saturating truncations\<close>

definition truncSatType :: "byte \<Rightarrow> (ValueType list \<times> ValueType list) option" where
  "truncSatType miscOpcode =
    (if miscOpcode \<in> {OpcodeMiscI32TruncSatF32S, OpcodeMiscI32TruncSatF32U} then
       Some ([ValueTypeF32], [ValueTypeI32])
     else if miscOpcode \<in> {OpcodeMiscI32TruncSatF64S, OpcodeMiscI32TruncSatF64U} then
       Some ([ValueTypeF64], [ValueTypeI32])
     else if miscOpcode \<in> {OpcodeMiscI64TruncSatF32S, OpcodeMiscI64TruncSatF32U} then
       Some ([ValueTypeF32], [ValueTypeI64])
     else if miscOpcode \<in> {OpcodeMiscI64TruncSatF64S, OpcodeMiscI64TruncSatF64U} then
       Some ([ValueTypeF64], [ValueTypeI64])
     else None)"

end
