(* ===== verification/FuncValidation.thy ===== *)
theory FuncValidation
  imports ValidationStacks InstructionTypes
begin

text \<open>
  The function validator (\<^verbatim>\<open>validateFunctionWithMaxStackValues\<close> of
  \<^verbatim>\<open>internal/wasm/func_validation.go\<close>), one definition per branch of its loop. A branch gets the
  position \<open>pc\<close> of the opcode and returns the value of \<^verbatim>\<open>pc\<close> at its end, before the \<^verbatim>\<open>pc++\<close> of the
  loop. Branches that only touch the operand stack take and return that stack.
\<close>

section \<open>What the loop reads\<close>

record funcEnv =
  fe_m :: Module
  fe_enabledFeatures :: CoreFeatures
  fe_functionType :: FunctionType
  fe_localTypes :: "ValueType list"
  fe_functions :: "Index list"
  fe_globals :: "GlobalType list"
  fe_memory :: "Memory option"
  fe_tables :: "Table list"
  fe_tags :: "Index list"
  fe_declaredFunctionIndexes :: "Index set"
  fe_body :: "byte list"

type_synonym vs_handler = "funcEnv \<Rightarrow> nat \<Rightarrow> byte \<Rightarrow> valueTypeStack \<Rightarrow> (nat \<times> valueTypeStack) outcome"
type_synonym sts_handler = "funcEnv \<Rightarrow> nat \<Rightarrow> byte \<Rightarrow> stacks \<Rightarrow> (nat \<times> stacks) outcome"

abbreviation Types :: "funcEnv \<Rightarrow> FunctionType list" where
  "Types e \<equiv> TypeSection (fe_m e)"

abbreviation invalidAs :: "funcEnv \<Rightarrow> CoreFeatures \<Rightarrow> unit outcome" where
  "invalidAs e f \<equiv> mapErr (\<lambda>_. Errorf ''%s invalid as %v'') (RequireEnabled (fe_enabledFeatures e) f)"

text \<open>\<^verbatim>\<open>leb128.LoadUint32(body[pc:])\<close>.\<close>

definition loadU32 :: "funcEnv \<Rightarrow> nat \<Rightarrow> (u32 \<times> nat) outcome" where
  "loadU32 e pc =
     bindO (slice_from (fe_body e) pc) (\<lambda>b. mapErr (\<lambda>_. Errorf ''read immediate: %v'') (LoadUint32 b))"

definition popOperands :: "ValueType list \<Rightarrow> valueTypeStack \<Rightarrow> valueTypeStack outcome" where
  "popOperands ts s = mapErr (\<lambda>_. Errorf ''cannot pop the operand for %s: %v'') (popAll ts s)"

section \<open>Memory, constants and variables\<close>

definition validateMemoryAccess :: vs_handler where
  "validateMemoryAccess e pc op s =
     bindO (require (fe_memory e \<noteq> None) (Errorf ''memory must exist for %s'')) (\<lambda>_.
     let pc = pc + 1 in
     bindO (readMemArg pc (fe_body e)) (\<lambda>(align, _, read).
     let pc = pc + read - 1 in
     case memoryAccessType op of
       Some (maxAlign, ins, outs) \<Rightarrow>
         bindO (require (2 ^ unat align \<le> maxAlign) (Errorf ''invalid memory alignment'')) (\<lambda>_.
         bindO (popAll ins s) (\<lambda>s. Ok (pc, pushAll outs s)))
     | None \<Rightarrow> Ok (pc, s)))"

definition validateMemorySizeGrow :: vs_handler where
  "validateMemorySizeGrow e pc op s =
     bindO (require (fe_memory e \<noteq> None) (Errorf ''memory must exist for %s'')) (\<lambda>_.
     let pc = pc + 1 in
     bindO (loadU32 e pc) (\<lambda>(val, num).
     bindO (require (val = 0 \<and> num = 1) (Errorf ''memory instruction reserved bytes not zero with 1 byte'')) (\<lambda>_.
     if op = OpcodeMemoryGrow then
       bindO (popAndVerifyType ValueTypeI32 s) (\<lambda>s. Ok (pc + num - 1, push ValueTypeI32 s))
     else Ok (pc + num - 1, push ValueTypeI32 s))))"

definition validateConst :: vs_handler where
  "validateConst e pc op s =
     (let pc = pc + 1 in
      if op = OpcodeI32Const then
        bindO (slice_from (fe_body e) pc) (\<lambda>b.
        bindO (mapErr (\<lambda>_. Errorf ''read i32 immediate: %s'') (LoadInt32 b)) (\<lambda>(_, num).
        Ok (pc + num - 1, push ValueTypeI32 s)))
      else if op = OpcodeI64Const then
        bindO (slice_from (fe_body e) pc) (\<lambda>b.
        bindO (mapErr (\<lambda>_. Errorf ''read i64 immediate: %v'') (LoadInt64 b)) (\<lambda>(_, num).
        Ok (pc + num - 1, push ValueTypeI64 s)))
      else if op = OpcodeF32Const then Ok (pc + 3, push ValueTypeF32 s)
      else Ok (pc + 7, push ValueTypeF64 s))"

definition localType :: "funcEnv \<Rightarrow> u32 \<Rightarrow> ValueType outcome" where
  "localType e idx =
     (let inputLen = of_nat (length (ft_Params (fe_functionType e))) in
      if idx < inputLen then index (ft_Params (fe_functionType e)) (unat idx)
      else index (fe_localTypes e) (unat (idx - inputLen)))"

definition validateVariable :: sts_handler where
  "validateVariable e pc op sts =
     (let pc = pc + 1 in
      bindO (loadU32 e pc) (\<lambda>(idx, num).
      let pc = pc + num - 1;
          inputLen = of_nat (length (ft_Params (fe_functionType e)));
          l = of_nat (length (fe_localTypes e)) + inputLen in
      if op = OpcodeLocalGet then
        bindO (require (idx < l) (Errorf ''invalid local index for %s %d >= %d(=len(locals)+len(parameters))'')) (\<lambda>_.
        bindO (requireLocalInit idx inputLen (fe_localTypes e) sts) (\<lambda>_.
        bindO (localType e idx) (\<lambda>t.
        Ok (pc, sts\<lparr>sts_vs := push t (sts_vs sts)\<rparr>))))
      else if op = OpcodeLocalSet then
        bindO (require (idx < l) (Errorf ''invalid local index for %s %d >= %d(=len(locals)+len(parameters))'')) (\<lambda>_.
        bindO (localType e idx) (\<lambda>expType.
        bindO (popAndVerifyType expType (sts_vs sts)) (\<lambda>s.
        bindO (markLocalInit idx inputLen (fe_localTypes e) (sts\<lparr>sts_vs := s\<rparr>)) (\<lambda>sts.
        Ok (pc, sts)))))
      else if op = OpcodeLocalTee then
        bindO (require (idx < l) (Errorf ''invalid local index for %s %d >= %d(=len(locals)+len(parameters))'')) (\<lambda>_.
        bindO (localType e idx) (\<lambda>expType.
        bindO (popAndVerifyType expType (sts_vs sts)) (\<lambda>s.
        bindO (markLocalInit idx inputLen (fe_localTypes e) (sts\<lparr>sts_vs := push expType s\<rparr>)) (\<lambda>sts.
        Ok (pc, sts)))))
      else if op = OpcodeGlobalGet then
        bindO (require (idx < of_nat (length (fe_globals e))) (Errorf ''invalid index for %s'')) (\<lambda>_.
        bindO (index (fe_globals e) (unat idx)) (\<lambda>g.
        Ok (pc, sts\<lparr>sts_vs := push (gt_ValType g) (sts_vs sts)\<rparr>)))
      else
        bindO (require (idx < of_nat (length (fe_globals e))) (Errorf ''invalid global index'')) (\<lambda>_.
        bindO (index (fe_globals e) (unat idx)) (\<lambda>g.
        bindO (require (gt_Mutable g) (Errorf ''%s when not mutable'')) (\<lambda>_.
        bindO (popAndVerifyType (gt_ValType g) (sts_vs sts)) (\<lambda>s.
        Ok (pc, sts\<lparr>sts_vs := s\<rparr>)))))))"

section \<open>Branches\<close>

definition labelTypes :: "controlBlock \<Rightarrow> ValueType list" where
  "labelTypes target =
     (if cb_op target = OpcodeLoop then ft_Params (cb_blockType target) else ft_Results (cb_blockType target))"

text \<open>\<^verbatim>\<open>stack[len(stack)-int(index)-1]\<close>, guarded by \<^verbatim>\<open>int(index) >= len(stack)\<close>.\<close>

definition labelAt :: "controlBlock list \<Rightarrow> u32 \<Rightarrow> controlBlock outcome" where
  "labelAt cs idx =
     bindO (require (unat idx < length cs) (Errorf ''invalid %s operation: index out of range'')) (\<lambda>_.
     index cs (length cs - unat idx - 1))"

definition validateBr :: sts_handler where
  "validateBr e pc op sts =
     (let pc = pc + 1 in
      bindO (loadU32 e pc) (\<lambda>(idx, num).
      bindO (labelAt (sts_cs sts) idx) (\<lambda>target.
      bindO (popResults (labelTypes target) False (sts_vs sts)) (\<lambda>s.
      bindO (unreachable s) (\<lambda>s.
      Ok (pc + num - 1, sts\<lparr>sts_vs := s\<rparr>))))))"

definition validateBrIf :: sts_handler where
  "validateBrIf e pc op sts =
     (let pc = pc + 1 in
      bindO (loadU32 e pc) (\<lambda>(idx, num).
      bindO (labelAt (sts_cs sts) idx) (\<lambda>target.
      bindO (mapErr (\<lambda>_. Errorf ''cannot pop the required operand for %s'')
               (popAndVerifyType ValueTypeI32 (sts_vs sts))) (\<lambda>s.
      bindO (popResults (labelTypes target) False s) (\<lambda>s.
      Ok (pc + num - 1, sts\<lparr>sts_vs := pushAll (labelTypes target) s\<rparr>))))))"

primrec decodeLabels :: "nat \<Rightarrow> reader \<Rightarrow> (u32 list \<times> nat \<times> reader) outcome" where
  "decodeLabels 0 r = Ok ([], 0, r)"
| "decodeLabels (Suc nl) r =
     bindO (mapErr (Wrapf ''read immediate'') (DecodeUint32 r)) (\<lambda>(l, n, r).
     bindO (decodeLabels nl r) (\<lambda>(ls, num, r). Ok (l # ls, n + num, r)))"

text \<open>
  With reference types, a value of unknown type makes the expected type of its label unknown;
  the types are visited from the last one.
\<close>

primrec popDefaultLabel :: "ValueType list \<Rightarrow> valueTypeStack \<Rightarrow> (ValueType list \<times> valueTypeStack) outcome" where
  "popDefaultLabel [] s = Ok ([], s)"
| "popDefaultLabel (exp # revTypes) s =
     bindO (pop s) (\<lambda>(actual, s).
     if actual = valueTypeUnknown then
       bindO (popDefaultLabel revTypes s) (\<lambda>(ts, s). Ok (valueTypeUnknown # ts, s))
     else
       bindO (isRefSubtypeOf (vs_module s) actual exp) (\<lambda>sub.
       if sub then bindO (popDefaultLabel revTypes s) (\<lambda>(ts, s). Ok (exp # ts, s))
       else Err (Errorf ''cannot use %s as %s type %s'')))"

fun labelsConsistent :: "Module \<Rightarrow> ValueType list \<Rightarrow> ValueType list \<Rightarrow> unit outcome" where
  "labelsConsistent m (d # ds) (t # ts) =
     (if d \<noteq> valueTypeUnknown then
        bindO (areRefTypesCompatible m d t) (\<lambda>c.
        if c then labelsConsistent m ds ts else Err (Errorf ''inconsistent block type for %s at %d''))
      else labelsConsistent m ds ts)"
| "labelsConsistent m _ _ = Ok ()"

definition checkTableLabel :: "Module \<Rightarrow> controlBlock list \<Rightarrow> ValueType list \<Rightarrow> u32 \<Rightarrow> unit \<Rightarrow> unit outcome" where
  "checkTableLabel m cs defaultLabelType l _ =
     bindO (labelAt cs l) (\<lambda>label.
     bindO (require (length defaultLabelType = length (labelTypes label))
              (Errorf ''inconsistent block type length for %s at %d; %v (ln=%d) != %v (l=%d)'')) (\<lambda>_.
     labelsConsistent m defaultLabelType (labelTypes label)))"

definition validateBrTable :: sts_handler where
  "validateBrTable e pc op sts =
     (let pc = pc + 1 in
      bindO (slice_from (fe_body e) pc) (\<lambda>b.
      bindO (mapErr (Wrapf ''read immediate'') (DecodeUint32 (NewReader b))) (\<lambda>(nl, num, r).
      bindO (decodeLabels (unat nl) r) (\<lambda>(ls, numLabels, r).
      bindO (mapErr (Wrapf ''read immediate'') (DecodeUint32 r)) (\<lambda>(ln, n, _).
      bindO (labelAt (sts_cs sts) ln) (\<lambda>lnLabel.
      let pc = pc + n + (num + numLabels) - 1 in
      bindO (mapErr (\<lambda>_. Errorf ''cannot pop the required operand for %s'')
               (popAndVerifyType ValueTypeI32 (sts_vs sts))) (\<lambda>s.
      bindO (if IsEnabled (fe_enabledFeatures e) CoreFeatureReferenceTypes
             then bindO (popDefaultLabel (rev (labelTypes lnLabel)) s) (\<lambda>(ts, s). Ok (rev ts, s))
             else bindO (popResults (labelTypes lnLabel) False s) (\<lambda>s. Ok (labelTypes lnLabel, s)))
        (\<lambda>(defaultLabelType, s).
      bindO (foldO (checkTableLabel (fe_m e) (sts_cs sts) defaultLabelType) ls ()) (\<lambda>_.
      bindO (unreachable s) (\<lambda>s.
      Ok (pc, sts\<lparr>sts_vs := s, sts_ls := ls\<rparr>)))))))))))"

section \<open>Exceptions\<close>

definition validateThrow :: vs_handler where
  "validateThrow e pc op s =
     bindO (invalidAs e CoreFeaturesExceptionHandling) (\<lambda>_.
     let pc = pc + 1 in
     bindO (loadU32 e pc) (\<lambda>(tagIndex, num).
     bindO (require (tagIndex < of_nat (length (fe_tags e))) (Errorf ''invalid tag index for %s: %d'')) (\<lambda>_.
     bindO (index (fe_tags e) (unat tagIndex)) (\<lambda>ti.
     bindO (index (Types e) (unat ti)) (\<lambda>tagType.
     bindO (mapErr (\<lambda>_. Errorf ''type mismatch on %s operation: %v'') (popAll (rev (ft_Params tagType)) s)) (\<lambda>s.
     bindO (unreachable s) (\<lambda>s.
     Ok (pc + num - 1, s))))))))"

definition validateThrowRef :: vs_handler where
  "validateThrowRef e pc op s =
     bindO (invalidAs e CoreFeaturesExceptionHandling) (\<lambda>_.
     bindO (mapErr (\<lambda>_. Errorf ''type mismatch on %s: %v'') (popAndVerifyType ValueTypeExnref s)) (\<lambda>s.
     bindO (unreachable s) (\<lambda>s.
     Ok (pc, s))))"

fun catchTypesFit :: "Module \<Rightarrow> ValueType list \<Rightarrow> ValueType list \<Rightarrow> unit outcome" where
  "catchTypesFit m (c # cs) (t # ts) =
     bindO (isRefSubtypeOf m c t) (\<lambda>sub.
     if sub then catchTypesFit m cs ts else Err (Errorf ''catch clause type mismatch at index %d''))"
| "catchTypesFit m _ _ = Ok ()"

text \<open>The label of a catch clause at \<open>pc\<close>, which must accept the values the clause delivers.\<close>

definition validateCatchLabel :: "funcEnv \<Rightarrow> controlBlock list \<Rightarrow> ValueType list \<Rightarrow> nat \<Rightarrow> nat outcome" where
  "validateCatchLabel e cs catchTypes pc =
     bindO (loadU32 e pc) (\<lambda>(labelIdx, labelNum).
     bindO (labelAt cs labelIdx) (\<lambda>target.
     bindO (require (length catchTypes = length (labelTypes target))
              (Errorf ''catch clause type mismatch: catch delivers %d values but label expects %d'')) (\<lambda>_.
     bindO (catchTypesFit (fe_m e) catchTypes (labelTypes target)) (\<lambda>_.
     Ok (pc + labelNum - 1)))))"

definition validateCatch :: "funcEnv \<Rightarrow> controlBlock list \<Rightarrow> nat \<Rightarrow> nat outcome" where
  "validateCatch e cs pc =
     (let pc = pc + 1 in
      if pc \<ge> length (fe_body e) then
        Err (Errorf ''unexpected end of function reading catch clause at pc=%#x'')
      else
        bindO (index (fe_body e) pc) (\<lambda>catchKind.
        if catchKind = CatchKindCatch \<or> catchKind = CatchKindCatchRef then
          let pc = pc + 1 in
          bindO (loadU32 e pc) (\<lambda>(tagIdx, tagNum).
          bindO (require (tagIdx < of_nat (length (fe_tags e))) (Errorf ''invalid tag index in catch clause: %d'')) (\<lambda>_.
          bindO (index (fe_tags e) (unat tagIdx)) (\<lambda>ti.
          bindO (index (Types e) (unat ti)) (\<lambda>tagType.
          validateCatchLabel e cs
            (ft_Params tagType @ (if catchKind = CatchKindCatchRef then [AsNonNullable ValueTypeExnref] else []))
            (pc + tagNum - 1 + 1)))))
        else if catchKind = CatchKindCatchAll \<or> catchKind = CatchKindCatchAllRef then
          validateCatchLabel e cs
            (if catchKind = CatchKindCatchAllRef then [AsNonNullable ValueTypeExnref] else []) (pc + 1)
        else Err (Errorf ''invalid catch kind: %#x'')))"

primrec validateCatches :: "funcEnv \<Rightarrow> controlBlock list \<Rightarrow> nat \<Rightarrow> nat \<Rightarrow> nat outcome" where
  "validateCatches e cs 0 pc = Ok pc"
| "validateCatches e cs (Suc n) pc = bindO (validateCatch e cs pc) (\<lambda>pc. validateCatches e cs n pc)"

text \<open>What the block instructions have in common: the parameters are popped, pushed again, and bounded.\<close>

definition enterBlock :: "FunctionType \<Rightarrow> valueTypeStack \<Rightarrow> valueTypeStack outcome" where
  "enterBlock bt s =
     bindO (popParams (ft_Params bt) False s) (\<lambda>s.
     Ok (pushStackLimit (length (ft_Params bt)) (pushAll (ft_Params bt) s)))"

definition validateTryTable :: sts_handler where
  "validateTryTable e pc op sts =
     bindO (invalidAs e CoreFeaturesExceptionHandling) (\<lambda>_.
     bindO (slice_from (fe_body e) (pc + 1)) (\<lambda>b.
     bindO (mapErr (Wrapf ''read block'') (DecodeBlockType (Types e) b (fe_enabledFeatures e))) (\<lambda>(bt, num).
     let pc = pc + num in
     bindO (loadU32 e (pc + 1)) (\<lambda>(catchCount, catchNum).
     let pc = pc + catchNum in
     bindO (validateCatches e (sts_cs sts) (unat catchCount) pc) (\<lambda>pc.
     let sts = pushControl pc 0 0 bt 0 op sts in
     bindO (enterBlock bt (sts_vs sts)) (\<lambda>s.
     Ok (pc, sts\<lparr>sts_vs := s\<rparr>)))))))"

section \<open>Calls\<close>

definition tailCall :: "funcEnv \<Rightarrow> FunctionType \<Rightarrow> valueTypeStack \<Rightarrow> valueTypeStack outcome" where
  "tailCall e funcType s =
     bindO (validateReturnCall (fe_enabledFeatures e) funcType (fe_functionType e) s) (\<lambda>s. unreachable s)"

definition validateCall :: vs_handler where
  "validateCall e pc op s =
     (let pc = pc + 1 in
      bindO (loadU32 e pc) (\<lambda>(idx, num).
      let pc = pc + num - 1 in
      bindO (require (unat idx < length (fe_functions e)) (Errorf ''invalid function index'')) (\<lambda>_.
      bindO (index (fe_functions e) (unat idx)) (\<lambda>ti.
      bindO (index (Types e) (unat ti)) (\<lambda>funcType.
      bindO (validateCallSignature funcType s) (\<lambda>s.
      if op = OpcodeTailCallReturnCall then bindO (tailCall e funcType s) (\<lambda>s. Ok (pc, s)) else Ok (pc, s)))))))"

definition validateCallIndirect :: vs_handler where
  "validateCallIndirect e pc op s =
     (let pc = pc + 1 in
      bindO (loadU32 e pc) (\<lambda>(typeIndex, num).
      let pc = pc + num in
      bindO (require (unat typeIndex < length (Types e)) (Errorf ''invalid type index at %s: %d'')) (\<lambda>_.
      bindO (loadU32 e pc) (\<lambda>(tableIndex, num).
      let pc = pc + num - 1 in
      bindO (if tableIndex \<noteq> 0 then
               mapErr (Wrapf ''table index must be zero but was %d'')
                 (RequireEnabled (fe_enabledFeatures e) CoreFeatureReferenceTypes)
             else Ok ()) (\<lambda>_.
      bindO (require (tableIndex < of_nat (length (fe_tables e))) (Errorf ''unknown table index: %d'')) (\<lambda>_.
      bindO (index (fe_tables e) (unat tableIndex)) (\<lambda>table.
      bindO (require (tab_Type table = RefTypeFuncref \<or> IsConcreteRef (tab_Type table) \<and>
                 IsEnabled (fe_enabledFeatures e) CoreFeaturesTypedFunctionReferences)
               (Errorf ''table is not funcref type but was %s for %s'')) (\<lambda>_.
      bindO (mapErr (\<lambda>_. Errorf ''cannot pop the offset in table for %s'') (popAndVerifyType ValueTypeI32 s)) (\<lambda>s.
      bindO (index (Types e) (unat typeIndex)) (\<lambda>funcType.
      bindO (validateCallSignature funcType s) (\<lambda>s.
      if op = OpcodeTailCallReturnCallIndirect then bindO (tailCall e funcType s) (\<lambda>s. Ok (pc, s))
      else Ok (pc, s))))))))))))"

definition validateCallRef :: vs_handler where
  "validateCallRef e pc op s =
     bindO (invalidAs e CoreFeaturesTypedFunctionReferences) (\<lambda>_.
     let pc = pc + 1 in
     bindO (loadU32 e pc) (\<lambda>(typeIndex, num).
     let pc = pc + num - 1 in
     bindO (require (unat typeIndex < length (Types e)) (Errorf ''invalid type index at %s: %d'')) (\<lambda>_.
     bindO (mapErr (\<lambda>_. Errorf ''type mismatch on %s operation: %v'')
              (popAndVerifyType (ValueTypeConcreteRef typeIndex True) s)) (\<lambda>s.
     bindO (index (Types e) (unat typeIndex)) (\<lambda>funcType.
     bindO (validateCallSignature funcType s) (\<lambda>s.
     if op = OpcodeReturnCallRef then bindO (tailCall e funcType s) (\<lambda>s. Ok (pc, s)) else Ok (pc, s)))))))"

section \<open>Numeric instructions\<close>

definition validateNumeric :: vs_handler where
  "validateNumeric e pc op s =
     (case numericType op of
        Some (ins, outs) \<Rightarrow>
          bindO (if OpcodeI32Extend8S \<le> op \<and> op \<le> OpcodeI64Extend32S
                 then invalidAs e CoreFeatureSignExtensionOps else Ok ()) (\<lambda>_.
          bindO (popOperands ins s) (\<lambda>s. Ok (pc, pushAll outs s)))
      | None \<Rightarrow> Err (Errorf ''invalid numeric instruction 0x%x''))"

section \<open>References and tables\<close>

definition validateRef :: vs_handler where
  "validateRef e pc op s =
     bindO (invalidAs e CoreFeatureReferenceTypes) (\<lambda>_.
     if op = OpcodeRefNull then
       let pc = pc + 1 in
       bindO (index (fe_body e) pc) (\<lambda>reftype.
       if ucast reftype = ValueTypeExternref then Ok (pc, push ValueTypeExternref s)
       else if ucast reftype = ValueTypeFuncref then Ok (pc, push ValueTypeFuncref s)
       else if ucast reftype = ValueTypeExnref then Ok (pc, push ValueTypeExnref s)
       else
         bindO (mapErr (\<lambda>_. Errorf ''ref.null with concrete type invalid as %v'')
                  (RequireEnabled (fe_enabledFeatures e) CoreFeaturesTypedFunctionReferences)) (\<lambda>_.
         bindO (slice_from (fe_body e) pc) (\<lambda>b.
         bindO (mapErr (\<lambda>_. Errorf ''unknown type for ref.null: 0x%x'') (DecodeUint32 (NewReader b))) (\<lambda>(typeIdx, num, _).
         bindO (require (unat typeIdx < length (Types e))
                  (Errorf ''unknown type for ref.null: type index %d out of range'')) (\<lambda>_.
         Ok (pc + num - 1, push (ValueTypeConcreteRef typeIdx True) s))))))
     else if op = OpcodeRefIsNull then
       bindO (mapErr (\<lambda>_. Errorf ''cannot pop the operand for ref.is_null: %v'') (pop s)) (\<lambda>(tp, s).
       bindO (require (isReferenceValueType tp \<or> tp = valueTypeUnknown)
                (Errorf ''type mismatch: expected reference type but was %s'')) (\<lambda>_.
       Ok (pc, push ValueTypeI32 s)))
     else
       let pc = pc + 1 in
       bindO (loadU32 e pc) (\<lambda>(idx, num).
       bindO (require (idx < of_nat (length (fe_functions e))) (Errorf ''unknown function index %d for ref.func'')) (\<lambda>_.
       bindO (require (idx \<in> fe_declaredFunctionIndexes e) (Errorf ''undeclared function index %d for ref.func'')) (\<lambda>_.
       let pc = pc + num - 1 in
       if IsEnabled (fe_enabledFeatures e) CoreFeaturesTypedFunctionReferences then
         bindO (index (fe_functions e) (unat idx)) (\<lambda>ti. Ok (pc, push (ValueTypeConcreteRef ti False) s))
       else Ok (pc, push ValueTypeFuncref s)))))"

text \<open>Popping the reference operand of \<^verbatim>\<open>ref.as_non_null\<close> and of the branches on null.\<close>

definition popReference :: "valueTypeStack \<Rightarrow> (ValueType \<times> valueTypeStack) outcome" where
  "popReference s =
     bindO (mapErr (\<lambda>_. Errorf ''cannot pop the operand for %s: %v'') (pop s)) (\<lambda>(tp, s).
     bindO (require (isReferenceValueType tp \<or> tp = valueTypeUnknown)
              (Errorf ''type mismatch: expected reference type but was %s for %s'')) (\<lambda>_.
     Ok (tp, s)))"

definition nonNull :: "ValueType \<Rightarrow> ValueType" where
  "nonNull tp = (if tp = valueTypeUnknown then tp else AsNonNullable tp)"

definition validateRefAsNonNull :: vs_handler where
  "validateRefAsNonNull e pc op s =
     bindO (invalidAs e CoreFeaturesTypedFunctionReferences) (\<lambda>_.
     bindO (popReference s) (\<lambda>(tp, s).
     Ok (pc, push (nonNull tp) s)))"

definition validateBrOnNull :: sts_handler where
  "validateBrOnNull e pc op sts =
     bindO (invalidAs e CoreFeaturesTypedFunctionReferences) (\<lambda>_.
     let pc = pc + 1 in
     bindO (loadU32 e pc) (\<lambda>(idx, num).
     bindO (labelAt (sts_cs sts) idx) (\<lambda>target.
     bindO (popReference (sts_vs sts)) (\<lambda>(tp, s).
     bindO (popResults (labelTypes target) False s) (\<lambda>s.
     Ok (pc + num - 1, sts\<lparr>sts_vs := push (nonNull tp) (pushAll (labelTypes target) s)\<rparr>))))))"

definition validateBrOnNonNull :: sts_handler where
  "validateBrOnNonNull e pc op sts =
     bindO (invalidAs e CoreFeaturesTypedFunctionReferences) (\<lambda>_.
     let pc = pc + 1 in
     bindO (loadU32 e pc) (\<lambda>(idx, num).
     bindO (labelAt (sts_cs sts) idx) (\<lambda>target.
     bindO (popReference (sts_vs sts)) (\<lambda>(tp, s).
     let targetResultType = labelTypes target; nonNullTp = nonNull tp in
     bindO (require (targetResultType \<noteq> [])
              (Errorf ''type mismatch on %s: label has no results but needs a ref type'')) (\<lambda>_.
     let lastTarget = targetResultType ! (length targetResultType - 1) in
     bindO (if nonNullTp \<noteq> valueTypeUnknown then isRefSubtypeOf (fe_m e) nonNullTp lastTarget else Ok True) (\<lambda>sub.
     bindO (require sub (Errorf ''type mismatch on %s: ref type %s is not a subtype of label's last result %s'')) (\<lambda>_.
     let remaining = take (length targetResultType - 1) targetResultType in
     bindO (popResults remaining False s) (\<lambda>s.
     Ok (pc + num - 1, sts\<lparr>sts_vs := pushAll remaining s\<rparr>)))))))))"

definition validateTableGetSet :: vs_handler where
  "validateTableGetSet e pc op s =
     bindO (invalidAs e CoreFeatureReferenceTypes) (\<lambda>_.
     let pc = pc + 1 in
     bindO (loadU32 e pc) (\<lambda>(tableIndex, num).
     bindO (require (tableIndex < of_nat (length (fe_tables e))) (Errorf ''table of index %d not found'')) (\<lambda>_.
     bindO (index (fe_tables e) (unat tableIndex)) (\<lambda>table.
     if op = OpcodeTableGet then
       bindO (popOperands [ValueTypeI32] s) (\<lambda>s. Ok (pc + num - 1, push (tab_Type table) s))
     else
       bindO (popOperands [tab_Type table, ValueTypeI32] s) (\<lambda>s. Ok (pc + num - 1, s))))))"

section \<open>Bulk memory and table instructions\<close>

text \<open>An index into the data or element section, and a reserved zero byte.\<close>

definition segmentIndex :: "funcEnv \<Rightarrow> nat \<Rightarrow> nat \<Rightarrow> (u32 \<times> nat) outcome" where
  "segmentIndex e len pc =
     bindO (loadU32 e pc) (\<lambda>(idx, num).
     bindO (require (unat idx < len) (Errorf ''index %d out of range of %s section(len=%d)'')) (\<lambda>_.
     Ok (idx, pc + num - 1)))"

definition reservedZero :: "funcEnv \<Rightarrow> nat \<Rightarrow> unit outcome" where
  "reservedZero e pc =
     bindO (loadU32 e pc) (\<lambda>(val, num).
     require (val = 0 \<and> num = 1) (Errorf ''%s reserved byte must be zero encoded with 1 byte''))"

definition tableIndexAt :: "funcEnv \<Rightarrow> nat \<Rightarrow> (Table \<times> nat) outcome" where
  "tableIndexAt e pc =
     bindO (loadU32 e pc) (\<lambda>(tableIndex, num).
     bindO (if tableIndex \<noteq> 0 then
              mapErr (\<lambda>_. Errorf ''table index must be zero for %s as %v'')
                (RequireEnabled (fe_enabledFeatures e) CoreFeatureReferenceTypes)
            else Ok ()) (\<lambda>_.
     bindO (require (tableIndex < of_nat (length (fe_tables e))) (Errorf ''table of index %d not found'')) (\<lambda>_.
     bindO (index (fe_tables e) (unat tableIndex)) (\<lambda>table. Ok (table, num)))))"

definition validateMemoryBulk :: vs_handler where
  "validateMemoryBulk e pc miscOpcode s =
     bindO (require (fe_memory e \<noteq> None) (Errorf ''memory must exist for %s'')) (\<lambda>_.
     bindO (if miscOpcode = OpcodeMiscMemoryInit then
              bindO (require (DataCountSection (fe_m e) \<noteq> None) (Errorf ''%s requires data count section'')) (\<lambda>_.
              segmentIndex e (length (DataSection (fe_m e))) (pc + 1))
            else Ok (0, pc)) (\<lambda>(_, pc).
     let pc = pc + 1 in
     bindO (reservedZero e pc) (\<lambda>_.
     bindO (if miscOpcode = OpcodeMiscMemoryCopy then bindO (reservedZero e (pc + 1)) (\<lambda>_. Ok (pc + 1))
            else Ok pc) (\<lambda>pc.
     bindO (popOperands [ValueTypeI32, ValueTypeI32, ValueTypeI32] s) (\<lambda>s. Ok (pc, s))))))"

definition validateBulk :: vs_handler where
  "validateBulk e pc miscOpcode s =
     bindO (invalidAs e CoreFeatureBulkMemoryOperations) (\<lambda>_.
     if miscOpcode = OpcodeMiscDataDrop then
       bindO (require (DataCountSection (fe_m e) \<noteq> None) (Errorf ''%s requires data count section'')) (\<lambda>_.
       bindO (segmentIndex e (length (DataSection (fe_m e))) (pc + 1)) (\<lambda>(_, pc). Ok (pc, s)))
     else if miscOpcode \<in> {OpcodeMiscMemoryInit, OpcodeMiscMemoryCopy, OpcodeMiscMemoryFill} then
       validateMemoryBulk e pc miscOpcode s
     else if miscOpcode = OpcodeMiscTableInit then
       bindO (segmentIndex e (length (ElementSection (fe_m e))) (pc + 1)) (\<lambda>(elementIndex, pc).
       let pc = pc + 1 in
       bindO (tableIndexAt e pc) (\<lambda>(table, num).
       bindO (index (ElementSection (fe_m e)) (unat elementIndex)) (\<lambda>elem.
       bindO (isRefSubtypeOf (fe_m e) (es_Type elem) (tab_Type table)) (\<lambda>sub.
       bindO (require sub (Errorf ''type mismatch for table.init: element type %s does not match table type %s'')) (\<lambda>_.
       bindO (popOperands [ValueTypeI32, ValueTypeI32, ValueTypeI32] s) (\<lambda>s. Ok (pc + num - 1, s)))))))
     else if miscOpcode = OpcodeMiscElemDrop then
       bindO (segmentIndex e (length (ElementSection (fe_m e))) (pc + 1)) (\<lambda>(_, pc). Ok (pc, s))
     else
       let pc = pc + 1 in
       bindO (tableIndexAt e pc) (\<lambda>(dst, num).
       let pc = pc + num in
       bindO (tableIndexAt e pc) (\<lambda>(src, num).
       bindO (isRefSubtypeOf (fe_m e) (tab_Type src) (tab_Type dst)) (\<lambda>sub.
       bindO (require sub (Errorf ''table type mismatch for table.copy: %s (src) != %s (dst)'')) (\<lambda>_.
       bindO (popOperands [ValueTypeI32, ValueTypeI32, ValueTypeI32] s) (\<lambda>s. Ok (pc + num - 1, s)))))))"

definition validateTableOp :: vs_handler where
  "validateTableOp e pc miscOpcode s =
     bindO (invalidAs e CoreFeatureReferenceTypes) (\<lambda>_.
     let pc = pc + 1 in
     bindO (loadU32 e pc) (\<lambda>(tableIndex, num).
     bindO (require (tableIndex < of_nat (length (fe_tables e))) (Errorf ''table of index %d not found'')) (\<lambda>_.
     bindO (index (fe_tables e) (unat tableIndex)) (\<lambda>table.
     let reftype = tab_Type table;
         (params, results) =
           (if miscOpcode = OpcodeMiscTableGrow then ([ValueTypeI32, reftype], [ValueTypeI32])
            else if miscOpcode = OpcodeMiscTableSize then ([], [ValueTypeI32])
            else ([ValueTypeI32, reftype, ValueTypeI32], [])) in
     bindO (popOperands params s) (\<lambda>s. Ok (pc + num - 1, pushAll results s))))))"

definition validateMisc :: vs_handler where
  "validateMisc e pc op s =
     (let pc = pc + 1 in
      bindO (loadU32 e pc) (\<lambda>(miscOp32, num).
      let pc = pc + num - 1; miscOpcode = ucast miscOp32 :: byte in
      bindO (require (ucast miscOpcode = miscOp32) (Errorf ''invalid misc opcode: %#x'')) (\<lambda>_.
      if OpcodeMiscI32TruncSatF32S \<le> miscOpcode \<and> miscOpcode \<le> OpcodeMiscI64TruncSatF64U then
        bindO (invalidAs e CoreFeatureNonTrappingFloatToIntConversion) (\<lambda>_.
        case truncSatType miscOpcode of
          Some (ins, outs) \<Rightarrow> bindO (popOperands ins s) (\<lambda>s. Ok (pc, pushAll outs s))
        | None \<Rightarrow> bindO (popOperands [0] s) (\<lambda>s. Ok (pc, pushAll [0] s)))
      else if OpcodeMiscMemoryInit \<le> miscOpcode \<and> miscOpcode \<le> OpcodeMiscTableCopy then
        validateBulk e pc miscOpcode s
      else if OpcodeMiscTableGrow \<le> miscOpcode \<and> miscOpcode \<le> OpcodeMiscTableFill then
        validateTableOp e pc miscOpcode s
      else Err (Errorf ''unknown misc opcode %#x''))))"

section \<open>Vector instructions\<close>

definition checkAlign :: "u32 \<Rightarrow> nat \<Rightarrow> unit outcome" where
  "checkAlign align maxAlign = require (2 ^ unat align \<le> maxAlign) (Errorf ''invalid memory alignment %d for %s'')"

text \<open>The lane immediate at \<open>pc\<close>.\<close>

definition checkLane :: "funcEnv \<Rightarrow> nat \<Rightarrow> byte \<Rightarrow> unit outcome" where
  "checkLane e pc laneCeil =
     bindO (require (pc < length (fe_body e)) (Errorf ''lane for %s not found'')) (\<lambda>_.
     bindO (index (fe_body e) pc) (\<lambda>lane.
     require (lane < laneCeil) (Errorf ''invalid lane index %d >= %d for %s'')))"

definition validateVecLoad :: "nat \<Rightarrow> vs_handler" where
  "validateVecLoad maxAlign e pc vecOpcode s =
     bindO (require (fe_memory e \<noteq> None) (Errorf ''memory must exist for %s'')) (\<lambda>_.
     let pc = pc + 1 in
     bindO (readMemArg pc (fe_body e)) (\<lambda>(align, _, read).
     bindO (checkAlign align maxAlign) (\<lambda>_.
     bindO (popOperands [ValueTypeI32] s) (\<lambda>s. Ok (pc + read - 1, push ValueTypeV128 s)))))"

definition validateVecStore :: vs_handler where
  "validateVecStore e pc vecOpcode s =
     bindO (require (fe_memory e \<noteq> None) (Errorf ''memory must exist for %s'')) (\<lambda>_.
     let pc = pc + 1 in
     bindO (readMemArg pc (fe_body e)) (\<lambda>(align, _, read).
     bindO (checkAlign align 16) (\<lambda>_.
     bindO (popOperands [ValueTypeV128, ValueTypeI32] s) (\<lambda>s. Ok (pc + read - 1, s)))))"

definition validateVecMemLane :: "nat \<Rightarrow> byte \<Rightarrow> ValueType list \<Rightarrow> vs_handler" where
  "validateVecMemLane alignMax laneCeil outs e pc vecOpcode s =
     bindO (require (fe_memory e \<noteq> None) (Errorf ''memory must exist for %s'')) (\<lambda>_.
     let pc = pc + 1 in
     bindO (readMemArg pc (fe_body e)) (\<lambda>(align, _, read).
     bindO (checkAlign align alignMax) (\<lambda>_.
     let pc = pc + read in
     bindO (checkLane e pc laneCeil) (\<lambda>_.
     bindO (popOperands [ValueTypeV128, ValueTypeI32] s) (\<lambda>s. Ok (pc, pushAll outs s))))))"

definition validateShuffle :: vs_handler where
  "validateShuffle e pc vecOpcode s =
     (let pc = pc + 1 in
      bindO (require (pc + 15 < length (fe_body e)) (Errorf ''16 lane indexes for %s not found'')) (\<lambda>_.
      bindO (slice (fe_body e) pc (pc + 16)) (\<lambda>lanes.
      bindO (require (list_all (\<lambda>l. l < 32) lanes) (Errorf ''invalid lane index[%d] %d >= %d for %s'')) (\<lambda>_.
      bindO (popOperands [ValueTypeV128, ValueTypeV128] s) (\<lambda>s. Ok (pc + 15, push ValueTypeV128 s))))))"

definition validateVecOp :: vs_handler where
  "validateVecOp e pc vecOpcode s =
     (if vecOpcode = OpcodeVecV128Const then
        bindO (require (pc + 16 < length (fe_body e)) (Errorf ''cannot read constant vector value for %s'')) (\<lambda>_.
        Ok (pc + 16, push ValueTypeV128 s))
      else case vecLoadMaxAlign vecOpcode of Some maxAlign \<Rightarrow> validateVecLoad maxAlign e pc vecOpcode s | None \<Rightarrow>
      if vecOpcode = OpcodeVecV128Store then validateVecStore e pc vecOpcode s
      else case vecLoadLanes vecOpcode of
        Some (alignMax, laneCeil) \<Rightarrow> validateVecMemLane alignMax laneCeil [ValueTypeV128] e pc vecOpcode s | None \<Rightarrow>
      case vecStoreLanes vecOpcode of
        Some (alignMax, laneCeil) \<Rightarrow> validateVecMemLane alignMax laneCeil [] e pc vecOpcode s | None \<Rightarrow>
      case vecExtractLanes vecOpcode of
        Some (laneCeil, resultType) \<Rightarrow>
          let pc = pc + 1 in
          bindO (checkLane e pc laneCeil) (\<lambda>_.
          bindO (popOperands [ValueTypeV128] s) (\<lambda>s. Ok (pc, push resultType s))) | None \<Rightarrow>
      case vecReplaceLanes vecOpcode of
        Some (laneCeil, paramType) \<Rightarrow>
          let pc = pc + 1 in
          bindO (checkLane e pc laneCeil) (\<lambda>_.
          bindO (popOperands [paramType, ValueTypeV128] s) (\<lambda>s. Ok (pc, push ValueTypeV128 s))) | None \<Rightarrow>
      case vecSplatValueTypes vecOpcode of
        Some tp \<Rightarrow> bindO (popOperands [tp] s) (\<lambda>s. Ok (pc, push ValueTypeV128 s)) | None \<Rightarrow>
      if vecOpcode = OpcodeVecV128i8x16Shuffle then validateShuffle e pc vecOpcode s
      else case vecType vecOpcode of
        Some (ins, outs) \<Rightarrow> bindO (popOperands ins s) (\<lambda>s. Ok (pc, pushAll outs s))
      | None \<Rightarrow> Err (Errorf ''unknown SIMD instruction %s''))"

definition validateVec :: vs_handler where
  "validateVec e pc op s =
     (let pc = pc + 1 in
      bindO (index (fe_body e) pc) (\<lambda>vecOpcode.
      bindO (invalidAs e CoreFeatureSIMD) (\<lambda>_.
      validateVecOp e pc vecOpcode s)))"

section \<open>Atomic instructions\<close>

definition validateAtomic :: vs_handler where
  "validateAtomic e pc op s =
     (let pc = pc + 1 in
      bindO (index (fe_body e) pc) (\<lambda>atomicOpcode.
      bindO (invalidAs e CoreFeaturesThreads) (\<lambda>_.
      let pc = pc + 1 in
      if atomicOpcode = OpcodeAtomicFence then
        bindO (index (fe_body e) pc) (\<lambda>imm.
        bindO (require (imm = 0) (Errorf ''invalid immediate value for %s'')) (\<lambda>_.
        Ok (pc, s)))
      else
        bindO (require (fe_memory e \<noteq> None) (Errorf ''memory must exist for %s'')) (\<lambda>_.
        bindO (readMemArg pc (fe_body e)) (\<lambda>(align, _, read).
        let pc = pc + read - 1 in
        case atomicType atomicOpcode of
          Some (maxAlign, ins, outs) \<Rightarrow>
            bindO (require (2 ^ unat align \<le> maxAlign) (Errorf ''invalid memory alignment'')) (\<lambda>_.
            bindO (popAll ins s) (\<lambda>s. Ok (pc, pushAll outs s)))
        | None \<Rightarrow> Err (Errorf ''invalid atomic opcode: 0x%x''))))))"

section \<open>Blocks\<close>

definition saveInitLocals :: "stacks \<Rightarrow> stacks" where
  "saveInitLocals sts =
     sts\<lparr>sts_cs := butlast (sts_cs sts) @ [(last (sts_cs sts))\<lparr>cb_savedInitLocals := sts_initLocals sts\<rparr>]\<rparr>"

text \<open>The branches of \<^verbatim>\<open>block\<close>, \<^verbatim>\<open>loop\<close> and \<^verbatim>\<open>if\<close>: \<^verbatim>\<open>block\<close> records the opcode 0.\<close>

definition validateBlock :: sts_handler where
  "validateBlock e pc op sts =
     bindO (slice_from (fe_body e) (pc + 1)) (\<lambda>b.
     bindO (mapErr (Wrapf ''read block'') (DecodeBlockType (Types e) b (fe_enabledFeatures e))) (\<lambda>(bt, num).
     let sts = saveInitLocals (pushControl pc 0 0 bt num (if op = OpcodeBlock then 0 else op) sts) in
     bindO (if op = OpcodeIf then popOperands [ValueTypeI32] (sts_vs sts) else Ok (sts_vs sts)) (\<lambda>s.
     bindO (enterBlock bt s) (\<lambda>s.
     Ok (pc + num, sts\<lparr>sts_vs := s\<rparr>)))))"

definition validateElse :: sts_handler where
  "validateElse e pc op sts =
     bindO (popControl sts) (\<lambda>(bl, outer).
     bindO (require (cb_op bl = OpcodeIf) (Errorf ''else instruction must be used in if block: %#x'')) (\<lambda>_.
     let bl = bl\<lparr>cb_op := OpcodeElse, cb_elseAt := pc\<rparr>;
         sts = sts\<lparr>sts_cs := sts_cs outer @ [bl]\<rparr> in
     bindO (popResults (ft_Results (cb_blockType bl)) True (sts_vs sts)) (\<lambda>s.
     let sts = sts\<lparr>sts_initLocals := cb_savedInitLocals bl\<rparr> in
     bindO (resetAtStackLimit s) (\<lambda>s.
     Ok (pc, sts\<lparr>sts_vs := pushAll (ft_Params (cb_blockType bl)) s\<rparr>)))))"

definition validateEnd :: sts_handler where
  "validateEnd e pc op sts =
     bindO (popControl sts) (\<lambda>(bl, sts).
     let sts = (if sts_cs sts \<noteq> [] then sts\<lparr>sts_initLocals := cb_savedInitLocals bl\<rparr> else sts);
         ifMissingElse = (cb_op bl = OpcodeIf \<and> cb_elseAt bl \<le> cb_startAt bl);
         bt = cb_blockType bl in
     bindO (require (ifMissingElse \<longrightarrow> ft_Results bt = ft_Params bt) (Errorf ''not enough %s in else block'')) (\<lambda>_.
     bindO (requireStackValues (ft_Results bt) True (sts_vs sts)) (\<lambda>s.
     bindO (resetAtStackLimit s) (\<lambda>s.
     Ok (pc, sts\<lparr>sts_vs := popStackLimit (pushAll (ft_Results bt) s)\<rparr>)))))"

section \<open>Parametric instructions\<close>

definition validateReturn :: vs_handler where
  "validateReturn e pc op s =
     bindO (requireStackValues (ft_Results (fe_functionType e)) False s) (\<lambda>s.
     bindO (unreachable s) (\<lambda>s. Ok (pc, s)))"

definition validateDrop :: vs_handler where
  "validateDrop e pc op s =
     bindO (mapErr (\<lambda>_. Errorf ''invalid drop: %v'') (pop s)) (\<lambda>(_, s). Ok (pc, s))"

text \<open>The type immediates of \<^verbatim>\<open>select t\<close>; the result is the position of the last byte read.\<close>

definition typedSelectImmediate :: "funcEnv \<Rightarrow> nat \<Rightarrow> nat outcome" where
  "typedSelectImmediate e pc =
     bindO (mapErr (Wrapf ''%s is invalid as'') (RequireEnabled (fe_enabledFeatures e) CoreFeatureReferenceTypes)) (\<lambda>_.
     let pc = pc + 1 in
     bindO (index (fe_body e) pc) (\<lambda>numTypeImmediates.
     bindO (require (numTypeImmediates = 1) (Errorf ''too many type immediates for %s'')) (\<lambda>_.
     let pc = pc + 1 in
     bindO (index (fe_body e) pc) (\<lambda>b.
     if b = RefPrefixNullable \<or> b = RefPrefixNonNullable then
       bindO (slice_from (fe_body e) (pc + 1)) (\<lambda>bs.
       bindO (mapErr (\<lambda>_. Errorf ''read heap type for %s: %v'') (DecodeInt33AsInt64 (NewReader bs))) (\<lambda>(ht, num, _).
       if ht = HeapTypeFunc \<or> ht = HeapTypeExtern \<or> ht = HeapTypeExn then Ok (pc + num)
       else if ht <s 0 then Err (Errorf ''invalid heap type for %s: %d'')
       else if int (length (Types e)) \<le> sint ht then
         Err (Errorf ''unknown type for %s: type index %d out of range'')
       else Ok (pc + num)))
     else
       bindO (require (ucast b \<in> {ValueTypeI32, ValueTypeI64, ValueTypeF32, ValueTypeF64, ValueTypeExternref,
                 ValueTypeFuncref, ValueTypeV128}) (Errorf ''invalid type %s for %s'')) (\<lambda>_.
       Ok pc)))))"

definition validateSelect :: vs_handler where
  "validateSelect e pc op s =
     bindO (mapErr (\<lambda>_. Errorf ''type mismatch on 3rd select operand: %v'') (popAndVerifyType ValueTypeI32 s)) (\<lambda>s.
     bindO (mapErr (\<lambda>_. Errorf ''invalid select: %v'') (pop s)) (\<lambda>(v1, s).
     bindO (mapErr (\<lambda>_. Errorf ''invalid select: %v'') (pop s)) (\<lambda>(v2, s).
     bindO (if op = OpcodeTypedSelect then typedSelectImmediate e pc
            else if isReferenceValueType v1 \<or> isReferenceValueType v2
            then Err (Errorf ''reference types cannot be used for non typed select instruction'')
            else Ok pc) (\<lambda>pc.
     bindO (if v1 \<noteq> valueTypeUnknown \<and> v2 \<noteq> valueTypeUnknown then areRefTypesCompatible (fe_m e) v1 v2 else Ok True)
       (\<lambda>compatible.
     bindO (require compatible (Errorf ''type mismatch on 1st and 2nd select operands'')) (\<lambda>_.
     if v1 = valueTypeUnknown then Ok (pc, push v2 s)
     else if v2 = valueTypeUnknown then Ok (pc, push v1 s)
     else bindO (isRefSubtypeOf (fe_m e) v1 v2) (\<lambda>sub. Ok (pc, push (if sub then v2 else v1) s))))))))"

section \<open>The loop\<close>

definition onVs :: "vs_handler \<Rightarrow> sts_handler" where
  "onVs h e pc op sts = bindO (h e pc op (sts_vs sts)) (\<lambda>(pc, s). Ok (pc, sts\<lparr>sts_vs := s\<rparr>))"

definition step :: sts_handler where
  "step e pc op =
     (if OpcodeI32Load \<le> op \<and> op \<le> OpcodeI64Store32 then onVs validateMemoryAccess e pc op
      else if OpcodeMemorySize \<le> op \<and> op \<le> OpcodeMemoryGrow then onVs validateMemorySizeGrow e pc op
      else if OpcodeI32Const \<le> op \<and> op \<le> OpcodeF64Const then onVs validateConst e pc op
      else if OpcodeLocalGet \<le> op \<and> op \<le> OpcodeGlobalSet then validateVariable e pc op
      else if op = OpcodeBr then validateBr e pc op
      else if op = OpcodeBrIf then validateBrIf e pc op
      else if op = OpcodeBrTable then validateBrTable e pc op
      else if op = OpcodeThrow then onVs validateThrow e pc op
      else if op = OpcodeThrowRef then onVs validateThrowRef e pc op
      else if op = OpcodeTryTable then validateTryTable e pc op
      else if op = OpcodeCall \<or> op = OpcodeTailCallReturnCall then onVs validateCall e pc op
      else if op = OpcodeCallIndirect \<or> op = OpcodeTailCallReturnCallIndirect then onVs validateCallIndirect e pc op
      else if op = OpcodeCallRef \<or> op = OpcodeReturnCallRef then onVs validateCallRef e pc op
      else if OpcodeI32Eqz \<le> op \<and> op \<le> OpcodeI64Extend32S then onVs validateNumeric e pc op
      else if OpcodeRefNull \<le> op \<and> op \<le> OpcodeRefFunc then onVs validateRef e pc op
      else if op = OpcodeRefAsNonNull then onVs validateRefAsNonNull e pc op
      else if op = OpcodeBrOnNull then validateBrOnNull e pc op
      else if op = OpcodeBrOnNonNull then validateBrOnNonNull e pc op
      else if op = OpcodeTableGet \<or> op = OpcodeTableSet then onVs validateTableGetSet e pc op
      else if op = OpcodeMiscPrefix then onVs validateMisc e pc op
      else if op = OpcodeVecPrefix then onVs validateVec e pc op
      else if op = OpcodeBlock then validateBlock e pc op
      else if op = OpcodeAtomicPrefix then onVs validateAtomic e pc op
      else if op = OpcodeLoop then validateBlock e pc op
      else if op = OpcodeIf then validateBlock e pc op
      else if op = OpcodeElse then validateElse e pc op
      else if op = OpcodeEnd then validateEnd e pc op
      else if op = OpcodeReturn then onVs validateReturn e pc op
      else if op = OpcodeDrop then onVs validateDrop e pc op
      else if op = OpcodeSelect \<or> op = OpcodeTypedSelect then onVs validateSelect e pc op
      else if op = OpcodeUnreachable then onVs (\<lambda>e pc op s. bindO (unreachable s) (\<lambda>s. Ok (pc, s))) e pc op
      else if op = OpcodeNop then (\<lambda>sts. Ok (pc, sts))
      else if IsEnabled (fe_enabledFeatures e) CoreFeaturesExceptionHandling \<and>
         (op = OpcodeLegacyTry \<or> op = OpcodeLegacyCatch \<or> op = OpcodeLegacyRethrow \<or>
          op = OpcodeLegacyDelegate \<or> op = OpcodeLegacyCatchAll) then
        (\<lambda>sts. Err (Errorf ''legacy exception handling instruction 0x%x not supported; recompile with wasm-opt --translate-to-exnref''))
      else (\<lambda>sts. Err (Errorf ''invalid instruction 0x%x'')))"

section \<open>The position never moves back\<close>

definition forward :: "nat \<Rightarrow> (nat \<times> 'a) outcome \<Rightarrow> bool" where
  "forward pc m \<longleftrightarrow> (\<forall>pc' s. m = Ok (pc', s) \<longrightarrow> pc \<le> pc')"

lemma forward_simps [simp]:
  "forward pc (Ok (pc', s)) \<longleftrightarrow> pc \<le> pc'" "forward pc (Err er)" "forward pc (Panic p)"
  "forward pc (if c then m else n) \<longleftrightarrow> (c \<longrightarrow> forward pc m) \<and> (\<not> c \<longrightarrow> forward pc n)"
  by (auto simp: forward_def)

lemma forward_bindO [intro!]: "(\<And>a. m = Ok a \<Longrightarrow> forward pc (f a)) \<Longrightarrow> forward pc (bindO m f)"
  by (cases m) (auto simp: forward_def)

lemma forward_onVs [intro]: "forward pc (h e pc op (sts_vs sts)) \<Longrightarrow> forward pc (onVs h e pc op sts)"
  unfolding onVs_def by (auto simp: forward_def bindO_Ok_iff)

lemma validateCatch_forward: "validateCatch e cs pc = Ok pc' \<Longrightarrow> pc \<le> pc'"
  by (auto simp: validateCatch_def validateCatchLabel_def Let_def bindO_Ok_iff split: if_splits)

lemma validateCatches_forward: "validateCatches e cs n pc = Ok pc' \<Longrightarrow> pc \<le> pc'"
  by (induction n arbitrary: pc) (fastforce simp: bindO_Ok_iff dest: validateCatch_forward)+

lemma typedSelectImmediate_forward: "typedSelectImmediate e pc = Ok pc' \<Longrightarrow> pc \<le> pc'"
  by (auto simp: typedSelectImmediate_def Let_def bindO_Ok_iff split: if_splits)

lemma segmentIndex_forward: "segmentIndex e n pc = Ok (i, pc') \<Longrightarrow> pc \<le> Suc pc'"
  by (auto simp: segmentIndex_def bindO_Ok_iff)

lemmas validators = validateMemoryAccess_def validateMemorySizeGrow_def validateConst_def validateVariable_def
  validateBr_def validateBrIf_def validateBrTable_def validateThrow_def validateThrowRef_def validateTryTable_def
  validateCall_def validateCallIndirect_def validateCallRef_def validateNumeric_def validateRef_def
  validateRefAsNonNull_def validateBrOnNull_def validateBrOnNonNull_def validateTableGetSet_def
  validateMemoryBulk_def validateBulk_def validateTableOp_def validateMisc_def validateVecLoad_def
  validateVecStore_def validateVecMemLane_def validateShuffle_def validateVecOp_def validateVec_def
  validateAtomic_def validateBlock_def validateElse_def validateEnd_def validateReturn_def validateDrop_def
  validateSelect_def

lemma forward_vs:
  "forward pc (validateMemoryAccess e pc op s)" "forward pc (validateMemorySizeGrow e pc op s)"
  "forward pc (validateConst e pc op s)" "forward pc (validateThrow e pc op s)" "forward pc (validateThrowRef e pc op s)"
  "forward pc (validateCall e pc op s)" "forward pc (validateCallIndirect e pc op s)"
  "forward pc (validateCallRef e pc op s)" "forward pc (validateNumeric e pc op s)" "forward pc (validateRef e pc op s)"
  "forward pc (validateRefAsNonNull e pc op s)" "forward pc (validateTableGetSet e pc op s)"
  "forward pc (validateTableOp e pc op s)"
  "forward pc (validateVecLoad n e pc op s)" "forward pc (validateVecStore e pc op s)"
  "forward pc (validateVecMemLane n l outs e pc op s)" "forward pc (validateShuffle e pc op s)"
  "forward pc (validateAtomic e pc op s)"  "forward pc (validateReturn e pc op s)" "forward pc (validateDrop e pc op s)"
  by (auto simp: validators Let_def split: option.splits)

lemma forward_vs_calls:
  "forward pc (validateSelect e pc op s)" "forward pc (validateMemoryBulk e pc op s)"
  by (auto simp: validators Let_def dest!: typedSelectImmediate_forward segmentIndex_forward split: if_splits
      simp: bindO_Ok_iff)


lemma forward_Bulk: "forward pc (validateBulk e pc op s)"
  by (auto simp: validateBulk_def Let_def forward_vs_calls dest!: segmentIndex_forward)

lemma forward_later: "forward pc' m \<Longrightarrow> pc \<le> pc' \<Longrightarrow> forward pc m"
  by (auto simp: forward_def intro: le_trans)

lemma forward_Misc: "forward pc (validateMisc e pc op s)"
proof -
  have *: "forward pc (validateBulk e (pc + n) op' s)" "forward pc (validateTableOp e (pc + n) op' s)" for n op'
    by (rule forward_later [of "pc + n"], rule forward_Bulk forward_vs, simp)+
  show ?thesis by (auto simp: validateMisc_def Let_def * split: option.splits)
qed

lemma forward_Vec: "forward pc (validateVec e pc op s)"
proof -
  have "forward pc (validateVecOp e pc op s)" for pc op
    unfolding validateVecOp_def Let_def
    by (split option.split | intro conjI allI impI forward_bindO | simp add: forward_vs split_def)+
  from forward_later [OF this, of pc "Suc pc"] show ?thesis
    unfolding validateVec_def Let_def by (intro forward_bindO) simp
qed

lemma forward_sts:
  "forward pc (validateVariable e pc op sts)" "forward pc (validateBr e pc op sts)" "forward pc (validateBrIf e pc op sts)"
  "forward pc (validateBrTable e pc op sts)" "forward pc (validateBrOnNull e pc op sts)"
  "forward pc (validateBrOnNonNull e pc op sts)" "forward pc (validateBlock e pc op sts)"
  "forward pc (validateElse e pc op sts)" "forward pc (validateEnd e pc op sts)"
  by (auto simp: validators Let_def)

lemma forward_TryTable: "forward pc (validateTryTable e pc op sts)"
  by (auto simp: validateTryTable_def Let_def dest!: validateCatches_forward)

lemma step_forward: "step e pc op sts = Ok (pc', sts') \<Longrightarrow> pc \<le> pc'"
proof -
  have "forward pc (step e pc op sts)"
    unfolding step_def
    by (simp add: forward_sts forward_TryTable forward_onVs forward_vs forward_vs_calls forward_Misc forward_Vec)
      (auto intro!: forward_onVs)
  then show "step e pc op sts = Ok (pc', sts') \<Longrightarrow> pc \<le> pc'" by (auto simp: forward_def)
qed

section \<open>The function\<close>

function validateBody :: "funcEnv \<Rightarrow> nat \<Rightarrow> stacks \<Rightarrow> stacks outcome" where
  "validateBody e pc sts =
     (if pc < length (fe_body e) then
        let op = fe_body e ! pc in
        if sts_cs sts = [] then Err (Errorf ''unexpected end of function at pc=%#x'')
        else bindO (step e pc op sts) (\<lambda>(pc, sts). validateBody e (pc + 1) sts)
      else Ok sts)"
  by pat_completeness auto
termination
  by (relation "measure (\<lambda>(e, pc, _). length (fe_body e) - pc)") (auto dest!: step_forward)

declare validateBody.simps [simp del]

text \<open>
  \<open>d\<close> holds the index spaces that \<^verbatim>\<open>AllDeclarations\<close> returned. The stacks are reused from one
  function to the next, as in the source.
\<close>

definition functionEnv :: "Module \<Rightarrow> CoreFeatures \<Rightarrow> Declarations \<Rightarrow> Index set \<Rightarrow> FunctionType \<Rightarrow> Code \<Rightarrow> funcEnv" where
  "functionEnv m enabledFeatures d declaredFunctionIndexes functionType code =
     \<lparr>fe_m = m, fe_enabledFeatures = enabledFeatures, fe_functionType = functionType,
      fe_localTypes = code_LocalTypes code, fe_functions = decl_functions d, fe_globals = decl_globals d,
      fe_memory = decl_memory d, fe_tables = decl_tables d, fe_tags = decl_tags d,
      fe_declaredFunctionIndexes = declaredFunctionIndexes, fe_body = code_Body code\<rparr>"

definition startStacks :: "Module \<Rightarrow> FunctionType \<Rightarrow> stacks \<Rightarrow> stacks" where
  "startStacks m functionType sts =
     (let sts = reset functionType sts in sts\<lparr>sts_vs := (sts_vs sts)\<lparr>vs_module := m\<rparr>\<rparr>)"

definition validateFunctionWithMaxStackValues ::
    "Module \<Rightarrow> stacks \<Rightarrow> CoreFeatures \<Rightarrow> Index \<Rightarrow> Declarations \<Rightarrow> int \<Rightarrow> Index set \<Rightarrow> stacks outcome" where
  "validateFunctionWithMaxStackValues m sts enabledFeatures idx d maxStackValues declaredFunctionIndexes =
     bindO (index (FunctionSection m) (unat idx)) (\<lambda>ti.
     bindO (index (TypeSection m) (unat ti)) (\<lambda>functionType.
     bindO (index (CodeSection m) (unat idx)) (\<lambda>code.
     bindO (validateBody (functionEnv m enabledFeatures d declaredFunctionIndexes functionType code) 0
              (startStacks m functionType sts)) (\<lambda>sts.
     bindO (require (sts_cs sts = []) (Errorf ''ill-nested block exists'')) (\<lambda>_.
     bindO (require (int (vs_maximumStackPointer (sts_vs sts)) \<le> maxStackValues)
              (Errorf ''function may have %d stack values, which exceeds limit %d'')) (\<lambda>_.
     Ok sts))))))"

definition maximumValuesOnStack :: int where "maximumValuesOnStack = 2 ^ 27"

definition validateFunction ::
    "Module \<Rightarrow> stacks \<Rightarrow> CoreFeatures \<Rightarrow> Index \<Rightarrow> Declarations \<Rightarrow> Index set \<Rightarrow> stacks outcome" where
  "validateFunction m sts enabledFeatures idx d declaredFunctionIndexes =
     validateFunctionWithMaxStackValues m sts enabledFeatures idx d maximumValuesOnStack declaredFunctionIndexes"

end
