(* ===== verification/ValidatorSafety.thy ===== *)
theory ValidatorSafety
  imports FuncValidation
begin

text \<open>
  The function validator does not panic: for every branch of the loop, that it keeps the invariant of the
  stacks and leaves the operands of the enclosing blocks alone.
\<close>

section \<open>No branch of the loop panics\<close>

definition env_ok :: "funcEnv \<Rightarrow> bool" where
  "env_ok e \<longleftrightarrow> wf_types (fe_m e) \<and>
     (\<forall>t \<in> set (fe_functions e). inRange (fe_m e) t) \<and> (\<forall>t \<in> set (fe_tags e). inRange (fe_m e) t) \<and>
     fe_body e \<noteq> [] \<and> last (fe_body e) = OpcodeEnd"

definition fetched :: "funcEnv \<Rightarrow> nat \<Rightarrow> byte \<Rightarrow> bool" where
  "fetched e pc op \<longleftrightarrow> env_ok e \<and> pc < length (fe_body e) \<and> op = fe_body e ! pc"

lemma fetched_facts:
  assumes "fetched e pc op"
  shows "wf_types (fe_m e)" "Suc pc \<le> length (fe_body e)" "op \<noteq> OpcodeEnd \<Longrightarrow> Suc pc < length (fe_body e)"
    "last (fe_body e) = OpcodeEnd"
proof -
  show "op \<noteq> OpcodeEnd \<Longrightarrow> Suc pc < length (fe_body e)"
    using assms by (cases "pc = length (fe_body e) - 1") (auto simp: fetched_def env_ok_def last_conv_nth)
qed (use assms in \<open>auto simp: fetched_def env_ok_def\<close>)

lemma env_ok_index:
  "fetched e pc op \<Longrightarrow> i < length (fe_tags e) \<Longrightarrow> unat (fe_tags e ! i) < length (Types e)"
  "fetched e pc op \<Longrightarrow> i < length (fe_functions e) \<Longrightarrow> unat (fe_functions e ! i) < length (Types e)"
  by (auto simp: fetched_def env_ok_def inRange_def)

lemma holds_loadU32 [wpI]:
  "pc \<le> length (fe_body e) \<Longrightarrow> (\<And>v n. 0 < n \<Longrightarrow> pc + n \<le> length (fe_body e) \<Longrightarrow> P (v, n)) \<Longrightarrow> holds P (loadU32 e pc)"
  unfolding loadU32_def by (auto simp: wp intro!: wpI)

lemma holds_readMemArg [wpI]:
  "pc \<le> length body \<Longrightarrow> (\<And>a off n. 0 < n \<Longrightarrow> pc + n \<le> length body \<Longrightarrow> P (a, off, n)) \<Longrightarrow> holds P (readMemArg pc body)"
  unfolding readMemArg_def by (auto simp: wp intro!: wpI)

lemma holds_popOperands [wpI]: "framed f s \<Longrightarrow> (\<And>s'. framed f s' \<Longrightarrow> P s') \<Longrightarrow> holds P (popOperands ts s)"
  unfolding popOperands_def by (auto simp: wp intro!: wpI)

lemma holds_popReference [wpI]:
  "framed f s \<Longrightarrow> (\<And>v s'. framed f s' \<Longrightarrow> P (v, s')) \<Longrightarrow> holds P (popReference s)"
  unfolding popReference_def by (auto simp: wp intro!: wpI)

lemma holds_tailCall [wpI]: "framed f s \<Longrightarrow> (\<And>s'. framed f s' \<Longrightarrow> P s') \<Longrightarrow> holds P (tailCall e ft s)"
  unfolding tailCall_def by (auto simp: wp intro!: wpI)

lemma holds_tableIndexAt [wpI]:
  "pc \<le> length (fe_body e) \<Longrightarrow> (\<And>t n. 0 < n \<Longrightarrow> pc + n \<le> length (fe_body e) \<Longrightarrow> P (t, n)) \<Longrightarrow>
    holds P (tableIndexAt e pc)"
  unfolding tableIndexAt_def by (auto simp: wp intro!: wpI)

lemma holds_segmentIndex [wpI]:
  "pc \<le> length (fe_body e) \<Longrightarrow>
    (\<And>i pc'. unat i < n \<Longrightarrow> pc' < length (fe_body e) \<Longrightarrow> P (i, pc')) \<Longrightarrow> holds P (segmentIndex e n pc)"
  unfolding segmentIndex_def by (auto simp: wp intro!: wpI)

lemma holds_reservedZero [wpI]:
  "pc \<le> length (fe_body e) \<Longrightarrow> (pc < length (fe_body e) \<Longrightarrow> P ()) \<Longrightarrow> holds P (reservedZero e pc)"
  unfolding reservedZero_def by (auto simp: wp intro!: wpI)

lemma holds_checkLane [wpI]: "P () \<Longrightarrow> holds P (checkLane e pc n)"
  unfolding checkLane_def by (auto simp: wp)

lemma fetched_wf [simp]: "fetched e pc op \<Longrightarrow> wf_types (fe_m e)"
  by (rule fetched_facts)

lemma fetched_Suc [simp]: "fetched e pc op \<Longrightarrow> Suc pc \<le> length (fe_body e)"
  by (rule fetched_facts)

lemma vs_safe_plain [wpI]:
  assumes "fetched e pc op" "framed f s" "\<And>pc' s'. framed f s' \<Longrightarrow> P (pc', s')"
  shows "holds P (validateMemoryAccess e pc op s)" "holds P (validateMemorySizeGrow e pc op s)"
    "holds P (validateConst e pc op s)" "holds P (validateThrowRef e pc op s)"
    "holds P (validateCallIndirect e pc op s)" "holds P (validateCallRef e pc op s)" "holds P (validateNumeric e pc op s)"
    "holds P (validateRefAsNonNull e pc op s)" "holds P (validateTableGetSet e pc op s)"
    "holds P (validateReturn e pc op s)" "holds P (validateDrop e pc op s)"
  using assms by (auto simp: validators Let_def wp intro!: wpI split: option.splits)

lemma vs_safe_index [wpI]:
  assumes "fetched e pc op" "framed f s" "\<And>pc' s'. framed f s' \<Longrightarrow> P (pc', s')"
  shows "holds P (validateThrow e pc op s)" "holds P (validateCall e pc op s)"
  using assms env_ok_index [OF assms(1)]
  by (auto simp: validators Let_def wp intro!: wpI split: option.splits)

lemma vs_safe_immediate [wpI]:
  assumes "fetched e pc op" "framed f s" "op \<noteq> OpcodeEnd" "\<And>pc' s'. framed f s' \<Longrightarrow> P (pc', s')"
  shows "holds P (validateRef e pc op s)"
  using assms fetched_facts(3) [OF assms(1,3)]
  by (auto simp: validators Let_def wp intro!: wpI split: option.splits)


lemma vs_safe_bulk [wpI]:
  assumes "fetched e pc' op'" "pc < length (fe_body e)" "framed f s" "\<And>pc' s'. framed f s' \<Longrightarrow> P (pc', s')"
  shows "holds P (validateMemoryBulk e pc op s)" "holds P (validateTableOp e pc op s)"
  using assms by (auto simp: validators Let_def wp intro!: wpI split: option.splits)

lemma vs_safe_Bulk [wpI]:
  assumes "fetched e pc' op'" "pc < length (fe_body e)" "framed f s" "\<And>pc' s'. framed f s' \<Longrightarrow> P (pc', s')"
  shows "holds P (validateBulk e pc op s)"
  using assms unfolding validateBulk_def Let_def by (auto simp: wp intro!: wpI split: option.splits)

lemma vs_safe_Misc [wpI]:
  assumes "fetched e pc op" "framed f s" "\<And>pc' s'. framed f s' \<Longrightarrow> P (pc', s')"
  shows "holds P (validateMisc e pc op s)"
  using assms unfolding validateMisc_def Let_def by (auto simp: wp intro!: wpI split: option.splits)

lemma vs_safe_vec_memory [wpI]:
  assumes "pc < length (fe_body e)" "framed f s" "\<And>pc' s'. framed f s' \<Longrightarrow> P (pc', s')"
  shows "holds P (validateVecLoad n e pc op s)" "holds P (validateVecStore e pc op s)"
    "holds P (validateVecMemLane n l outs e pc op s)" "holds P (validateShuffle e pc op s)"
  using assms by (auto simp: validators checkAlign_def Let_def wp intro!: wpI split: option.splits)

lemma vs_safe_VecOp [wpI]:
  assumes "pc < length (fe_body e)" "framed f s" "\<And>pc' s'. framed f s' \<Longrightarrow> P (pc', s')"
  shows "holds P (validateVecOp e pc op s)"
  unfolding validateVecOp_def Let_def
  by (intro holds_optionI holds_ifI) (use assms in \<open>auto simp: wp intro!: wpI split: prod.split\<close>)

lemma vs_safe_Vec [wpI]:
  assumes "fetched e pc op" "op \<noteq> OpcodeEnd" "framed f s" "\<And>pc' s'. framed f s' \<Longrightarrow> P (pc', s')"
  shows "holds P (validateVec e pc op s)"
  using assms fetched_facts(3) [OF assms(1,2)] unfolding validateVec_def Let_def by (auto simp: wp intro!: wpI)

text \<open>The last byte is \<^verbatim>\<open>end\<close>, which is neither a fence nor a count of 1, so the second immediate exists.\<close>

lemma fetched_second:
  assumes "fetched e pc op" "Suc pc < length (fe_body e)" "fe_body e ! Suc pc \<noteq> OpcodeEnd"
  shows "Suc (Suc pc) < length (fe_body e)"
  using assms by (cases "Suc pc = length (fe_body e) - 1") (auto simp: fetched_def env_ok_def last_conv_nth)

lemma vs_safe_Atomic [wpI]:
  assumes "fetched e pc op" "op \<noteq> OpcodeEnd" "framed f s" "\<And>pc' s'. framed f s' \<Longrightarrow> P (pc', s')"
  shows "holds P (validateAtomic e pc op s)"
  using assms fetched_facts(3) [OF assms(1,2)] fetched_second [OF assms(1)]
  unfolding validateAtomic_def Let_def by (auto simp: wp intro!: wpI split: option.split)

lemma holds_typedSelectImmediate [wpI]:
  assumes "fetched e pc op" "op \<noteq> OpcodeEnd" "\<And>pc'. P pc'"
  shows "holds P (typedSelectImmediate e pc)"
  using assms(3) fetched_facts(3) [OF assms(1,2)] fetched_second [OF assms(1)]
  unfolding typedSelectImmediate_def Let_def by (auto simp: wp intro!: wpI)

lemma vs_safe_Select [wpI]:
  assumes "fetched e pc op" "op \<noteq> OpcodeEnd" "framed f s" "\<And>pc' s'. framed f s' \<Longrightarrow> P (pc', s')"
  shows "holds P (validateSelect e pc op s)"
  using assms unfolding validateSelect_def by (auto simp: wp intro!: wpI)

section \<open>The invariant of the loop\<close>

text \<open>
  Every block but the outermost has a stack limit. A local of a non-nullable reference type is
  recorded when it is set; the record is a nil map after the end of a \<^verbatim>\<open>try_table\<close>, which saves none.
\<close>

definition defaultable :: "funcEnv \<Rightarrow> bool" where
  "defaultable e \<longleftrightarrow> list_all (\<lambda>t. IsRef t \<longrightarrow> IsNullable t) (fe_localTypes e)"

definition init_ok :: "funcEnv \<Rightarrow> stacks \<Rightarrow> bool" where
  "init_ok e sts \<longleftrightarrow> defaultable e \<or>
     sts_initLocals sts \<noteq> None \<and> (\<forall>b \<in> set (tl (sts_cs sts)). cb_savedInitLocals b \<noteq> None)"

definition sts_ok :: "funcEnv \<Rightarrow> stacks \<Rightarrow> bool" where
  "sts_ok e sts \<longleftrightarrow> wf_vs (sts_vs sts) \<and> length (vs_stackLimits (sts_vs sts)) = length (sts_cs sts) - 1 \<and>
     init_ok e sts \<and> (sts_cs sts \<noteq> [] \<longrightarrow>
       cb_op (hd (sts_cs sts)) = 0 \<and> cb_blockType (hd (sts_cs sts)) = fe_functionType e)"

definition tracks_init :: "funcEnv \<Rightarrow> bool" where
  "tracks_init e \<longleftrightarrow> defaultable e \<or> \<not> IsEnabled (fe_enabledFeatures e) CoreFeaturesExceptionHandling"

abbreviation vs_frame :: "stacks \<Rightarrow> Module \<times> nat list \<times> ValueType list" where
  "vs_frame sts \<equiv> frame (sts_vs sts)"

lemma sts_ok_vs [simp, wpI]: "sts_ok e sts \<Longrightarrow> framed (vs_frame sts) s \<Longrightarrow> sts_ok e (sts\<lparr>sts_vs := s\<rparr>)"
  by (auto simp: sts_ok_def framed_def frame_def init_ok_def)

lemma sts_ok_ls [simp]: "sts_ok e (sts\<lparr>sts_ls := l\<rparr>) = sts_ok e sts"
  by (simp add: sts_ok_def init_ok_def)

lemma sts_ok_framed: "sts_ok e sts \<Longrightarrow> framed (vs_frame sts) (sts_vs sts)"
  by (simp add: sts_ok_def framed_frame)

lemma local_index_bound:
  assumes "idx < of_nat a + n" "\<not> idx < n"
  shows "unat (idx - n :: u32) < a"
proof -
  have "unat (of_nat a + n) \<le> a + unat n"
    by (metis mod_less_eq_dividend of_nat_add of_nat_unat ucast_id unat_of_nat)
  moreover have "unat (idx - n) = unat idx - unat n" using assms(2) by (simp add: unat_sub not_less)
  ultimately show ?thesis using assms by (simp add: word_less_nat_alt not_less)
qed

lemma holds_localType [wpI]:
  assumes "idx < of_nat (length (fe_localTypes e)) + of_nat (length (ft_Params (fe_functionType e)))" "\<And>t. P t"
  shows "holds P (localType e idx)"
  using assms local_index_bound [OF assms(1)] by (auto simp: localType_def Let_def wp)

lemma holds_requireLocalInit [wpI]:
  assumes "idx < of_nat (length ls) + n" "P ()"
  shows "holds P (requireLocalInit idx n ls sts)"
  using assms(2) local_index_bound [OF assms(1)] by (auto simp: requireLocalInit_def wp not_less)

lemma holds_markLocalInit [wpI]:
  assumes "idx < of_nat (length (fe_localTypes e)) + n" "sts_ok e sts"
    "\<And>sts'. sts_ok e sts' \<Longrightarrow> sts_vs sts' = sts_vs sts \<Longrightarrow> sts_cs sts' = sts_cs sts \<Longrightarrow> P sts'"
  shows "holds P (markLocalInit idx n (fe_localTypes e) sts)"
proof (cases "n \<le> idx")
  case True
  with local_index_bound [OF assms(1)] have i: "unat (idx - n) < length (fe_localTypes e)" by (simp add: not_less)
  have "sts_ok e (sts\<lparr>sts_initLocals := Some x\<rparr>)" for x using assms(2) by (auto simp: sts_ok_def init_ok_def)
  moreover have "IsRef (fe_localTypes e ! unat (idx - n)) \<Longrightarrow> \<not> IsNullable (fe_localTypes e ! unat (idx - n)) \<Longrightarrow>
      sts_initLocals sts \<noteq> None"
    using assms(2) i by (auto simp: sts_ok_def init_ok_def defaultable_def list_all_length)
  ultimately show ?thesis using assms i True by (auto simp: markLocalInit_def wp)
next
  case False
  then show ?thesis using assms by (auto simp: markLocalInit_def)
qed

lemma holds_labelAt [wpI]: "(\<And>t. P t) \<Longrightarrow> holds P (labelAt cs idx)"
  by (auto simp: labelAt_def wp)

lemma holds_decodeLabels [wpI]: "(\<And>a. P a) \<Longrightarrow> holds P (decodeLabels n r)"
  by (induction n arbitrary: r P) (auto simp: wp intro!: wpI)

lemma holds_popDefaultLabel [wpI]:
  "framed f s \<Longrightarrow> (\<And>ts s'. framed f s' \<Longrightarrow> P (ts, s')) \<Longrightarrow> holds P (popDefaultLabel ws s)"
proof (induction ws arbitrary: s P)
  case (Cons w ws)
  show ?case using Cons.prems by (auto simp: wp intro!: holds_pop [OF Cons.prems(1)] Cons.IH)
qed simp

lemma holds_labelsConsistent [wpI]: "wf_types m \<Longrightarrow> P () \<Longrightarrow> holds P (labelsConsistent m ds ts)"
  by (induction m ds ts rule: labelsConsistent.induct) (auto simp: wp areRefTypesCompatible_def isRefSubtypeOf_iff)

lemma holds_checkTableLabels [wpI]: "wf_types m \<Longrightarrow> P () \<Longrightarrow> holds P (foldO (checkTableLabel m cs d) ls ())"
  by (rule holds_mono [OF holds_foldO [of "\<lambda>_. True"]]) (auto simp: checkTableLabel_def wp intro!: wpI)

text \<open>
  \<open>stays e sts m\<close>: a branch that opens or closes no block does not panic, keeps the invariant, the
  number of blocks and the frame. \<open>preserves e m\<close>: a branch other than \<^verbatim>\<open>end\<close> does not panic, keeps the
  invariant and some open block.
\<close>

definition stays :: "funcEnv \<Rightarrow> stacks \<Rightarrow> (nat \<times> stacks) outcome \<Rightarrow> bool" where
  "stays e sts = holds (\<lambda>(pc, sts'). sts_ok e sts' \<and> framed (vs_frame sts) (sts_vs sts') \<and>
     length (sts_cs sts') = length (sts_cs sts))"

definition preserves :: "funcEnv \<Rightarrow> (nat \<times> stacks) outcome \<Rightarrow> bool" where
  "preserves e = holds (\<lambda>(pc, sts). sts_ok e sts \<and> sts_cs sts \<noteq> [])"

lemma stays_preserves: "stays e sts m \<Longrightarrow> sts_cs sts \<noteq> [] \<Longrightarrow> preserves e m"
  unfolding stays_def preserves_def by (erule holds_mono) auto

lemma stays_sts:
  assumes "fetched e pc op" "sts_ok e sts"
  shows "stays e sts (validateVariable e pc op sts)" "stays e sts (validateBr e pc op sts)"
    "stays e sts (validateBrIf e pc op sts)" "stays e sts (validateBrTable e pc op sts)"
    "stays e sts (validateBrOnNull e pc op sts)" "stays e sts (validateBrOnNonNull e pc op sts)"
  using assms sts_ok_framed [OF assms(2)] by (auto simp: stays_def validators Let_def wp intro!: wpI)

lemma stays_onVs:
  assumes "sts_ok e sts" "\<And>f s. framed f s \<Longrightarrow> holds (\<lambda>(pc, s). framed f s) (h e pc op s)"
  shows "stays e sts (onVs h e pc op sts)"
  unfolding stays_def onVs_def holds_bindO
  by (rule holds_mono [OF assms(2) [OF sts_ok_framed [OF assms(1)]]]) (use assms(1) in auto)

lemma sts_ok_init: "sts_ok e sts \<Longrightarrow> defaultable e \<or> sts_initLocals sts \<noteq> None"
  by (auto simp: sts_ok_def init_ok_def)

lemma sts_ok_enter:
  assumes "sts_ok e sts" "sts_cs sts \<noteq> []" "framed (vs_frame sts) s"
    "defaultable e \<or> cb_savedInitLocals b \<noteq> None"
  shows "sts_ok e (sts\<lparr>sts_cs := sts_cs sts @ [b],
    sts_vs := pushStackLimit (length (ft_Params bt)) (pushAll (ft_Params bt) s)\<rparr>)"
  using assms wf_vs_pushStackLimit [of s "ft_Params bt"]
  by (cases "sts_cs sts") (auto simp: sts_ok_def init_ok_def framed_def frame_def pushStackLimit_def)

lemma preserves_enterBlock:
  assumes "sts_ok e sts" "sts_cs sts \<noteq> []" "framed (vs_frame sts) s"
    "defaultable e \<or> cb_savedInitLocals b \<noteq> None"
  shows "holds (\<lambda>s. sts_ok e (sts\<lparr>sts_cs := sts_cs sts @ [b], sts_vs := s\<rparr>)) (enterBlock bt s)"
  unfolding enterBlock_def holds_bindO holds_Ok
  by (rule holds_popParams [OF assms(3)]) (use assms in \<open>auto intro: sts_ok_enter\<close>)

lemma holds_DecodeBlockType [wpI]:
  "(\<And>bt n. 0 < n \<Longrightarrow> n \<le> length b \<Longrightarrow> P (bt, n)) \<Longrightarrow> holds P (DecodeBlockType ts b fs)"
  by (auto simp: DecodeBlockType_def decodeBlockRef_def Let_def wp word_sless_alt intro!: wpI)


lemma holds_catchTypesFit [wpI]: "wf_types m \<Longrightarrow> P () \<Longrightarrow> holds P (catchTypesFit m cs ts)"
  by (induction m cs ts rule: catchTypesFit.induct) (auto simp: wp isRefSubtypeOf_iff)

lemma holds_validateCatch:
  assumes "fetched e pc' op"
  shows "holds (\<lambda>pc. pc < length (fe_body e)) (validateCatch e cs pc)"
  using assms env_ok_index(1) [OF assms]
  by (auto simp: validateCatch_def validateCatchLabel_def Let_def wp intro!: wpI)

lemma holds_validateCatches [wpI]:
  assumes "fetched e pc' op" "\<And>pc. P pc"
  shows "holds P (validateCatches e cs n pc)"
  using assms by (induction n arbitrary: pc) (auto simp: wp intro: holds_mono [OF holds_validateCatch])

lemma preserves_blocks:
  assumes "fetched e pc op" "tracks_init e" "sts_ok e sts" "sts_cs sts \<noteq> []"
  shows "preserves e (validateTryTable e pc op sts)" "preserves e (validateBlock e pc op sts)"
proof -
  show "preserves e (validateTryTable e pc op sts)"
    using assms sts_ok_framed [OF assms(3)]
    by (auto simp: preserves_def validateTryTable_def pushControl_def Let_def wp tracks_init_def IsEnabled_def
        intro!: wpI preserves_enterBlock)
  show "preserves e (validateBlock e pc op sts)"
    using assms sts_ok_framed [OF assms(3)] sts_ok_init [OF assms(3)]
    by (auto simp: preserves_def validateBlock_def pushControl_def saveInitLocals_def Let_def wp
        intro!: wpI preserves_enterBlock)
qed


lemma sts_ok_else:
  assumes "sts_ok e sts" "sts_cs sts \<noteq> []" "cb_op (last (sts_cs sts)) = OpcodeIf" "framed (vs_frame sts) s"
  shows "sts_ok e (sts\<lparr>sts_cs := butlast (sts_cs sts) @ [(last (sts_cs sts))\<lparr>cb_op := op', cb_elseAt := pc\<rparr>],
    sts_initLocals := cb_savedInitLocals (last (sts_cs sts)), sts_vs := s\<rparr>)"
proof -
  obtain b bs where "sts_cs sts = bs @ [b]" using assms(2) by (cases "sts_cs sts" rule: rev_cases) auto
  then show ?thesis using assms by (cases bs) (auto simp: sts_ok_def init_ok_def framed_def frame_def)
qed

lemma sts_ok_end:
  assumes "sts_ok e sts" "sts_cs sts \<noteq> []" "framed (vs_frame sts) s"
  shows "butlast (sts_cs sts) \<noteq> [] \<Longrightarrow> sts_ok e (sts\<lparr>sts_cs := butlast (sts_cs sts),
      sts_initLocals := cb_savedInitLocals (last (sts_cs sts)), sts_vs := popStackLimit s\<rparr>)"
    "butlast (sts_cs sts) = [] \<Longrightarrow> sts_ok e (sts\<lparr>sts_cs := [], sts_vs := popStackLimit s\<rparr>)"
proof -
  obtain b bs where "sts_cs sts = bs @ [b]" using assms(2) by (cases "sts_cs sts" rule: rev_cases) auto
  then show "butlast (sts_cs sts) \<noteq> [] \<Longrightarrow> sts_ok e (sts\<lparr>sts_cs := butlast (sts_cs sts),
      sts_initLocals := cb_savedInitLocals (last (sts_cs sts)), sts_vs := popStackLimit s\<rparr>)"
    "butlast (sts_cs sts) = [] \<Longrightarrow> sts_ok e (sts\<lparr>sts_cs := [], sts_vs := popStackLimit s\<rparr>)"
    using assms wf_vs_popStackLimit [of s]
    by (cases bs; auto simp: sts_ok_def init_ok_def framed_def frame_def popStackLimit_def)+
qed

lemma stays_else:
  assumes "sts_ok e sts" "sts_cs sts \<noteq> []"
  shows "stays e sts (validateElse e pc op sts)"
  using assms sts_ok_framed [OF assms(1)]
  by (auto simp: stays_def validateElse_def popControl_def Let_def wp
      intro!: holds_popResults holds_resetAtStackLimit sts_ok_else)

lemma holds_validateEnd:
  assumes "sts_ok e sts" "sts_cs sts \<noteq> []"
  shows "holds (\<lambda>(pc, sts). sts_ok e sts) (validateEnd e pc op sts)"
  using assms sts_ok_framed [OF assms(1)]
  by (auto simp: validateEnd_def popControl_def Let_def wp
      intro!: holds_requireStackValues holds_resetAtStackLimit sts_ok_end framed_pushAll)

lemma step_if:
  "(c \<Longrightarrow> Q (m sts)) \<Longrightarrow> (\<not> c \<Longrightarrow> Q (n sts)) \<Longrightarrow> Q ((if c then m else n) sts)"
  by simp

lemmas vs_safe = vs_safe_plain vs_safe_index vs_safe_immediate vs_safe_Misc vs_safe_Vec vs_safe_Atomic vs_safe_Select
  holds_unreachable

definition opens_block :: "byte \<Rightarrow> bool" where
  "opens_block op \<longleftrightarrow> op \<in> {OpcodeBlock, OpcodeLoop, OpcodeIf, OpcodeTryTable}"

lemma stays_vs:
  assumes "fetched e pc op" "sts_ok e sts" "op \<noteq> OpcodeEnd"
  shows "stays e sts (onVs validateMemoryAccess e pc op sts)"
    "stays e sts (onVs validateMemorySizeGrow e pc op sts)" "stays e sts (onVs validateConst e pc op sts)"
    "stays e sts (onVs validateThrow e pc op sts)" "stays e sts (onVs validateThrowRef e pc op sts)"
    "stays e sts (onVs validateCall e pc op sts)" "stays e sts (onVs validateCallIndirect e pc op sts)"
    "stays e sts (onVs validateCallRef e pc op sts)" "stays e sts (onVs validateNumeric e pc op sts)"
    "stays e sts (onVs validateRef e pc op sts)" "stays e sts (onVs validateRefAsNonNull e pc op sts)"
    "stays e sts (onVs validateTableGetSet e pc op sts)" "stays e sts (onVs validateMisc e pc op sts)"
    "stays e sts (onVs validateVec e pc op sts)" "stays e sts (onVs validateAtomic e pc op sts)"
    "stays e sts (onVs validateReturn e pc op sts)" "stays e sts (onVs validateDrop e pc op sts)"
    "stays e sts (onVs validateSelect e pc op sts)"
    "stays e sts (onVs (\<lambda>e pc op s. bindO (unreachable s) (\<lambda>s. Ok (pc, s))) e pc op sts)"
  by (rule stays_onVs [OF assms(2)], use assms(1,3) in \<open>auto simp: wp intro!: vs_safe; fail\<close>)+

lemma step_stays:
  assumes "fetched e pc op" "sts_ok e sts" "sts_cs sts \<noteq> []" "op \<noteq> OpcodeEnd" "\<not> opens_block op"
  shows "stays e sts (step e pc op sts)"
  unfolding step_def
  by (intro step_if [where Q = "stays e sts"];
      (rule stays_sts [OF assms(1,2)] stays_else [OF assms(2,3)] stays_vs [OF assms(1,2,4)] |
       (use assms(4,5) in \<open>simp add: opens_block_def; fail\<close>) |
       (use sts_ok_framed [OF assms(2)] assms(2) in \<open>simp add: stays_def; fail\<close>)))

lemma step_preserves:
  assumes "fetched e pc op" "tracks_init e" "sts_ok e sts" "sts_cs sts \<noteq> []" "op \<noteq> OpcodeEnd"
  shows "preserves e (step e pc op sts)"
proof (cases "opens_block op")
  case True
  then have "step e pc op sts = (if op = OpcodeTryTable then validateTryTable e pc op sts else validateBlock e pc op sts)"
    unfolding opens_block_def by (elim insertE emptyE; simp add: step_def)
  then show ?thesis using preserves_blocks [OF assms(1-4)] by (auto split: if_splits)
next
  case False
  then show ?thesis using step_stays [OF assms(1,3,4,5)] assms(4) by (blast intro: stays_preserves)
qed


section \<open>Runs of the loop\<close>

text \<open>One round of the loop as a step relation, from the position and stacks before it to those after \<^verbatim>\<open>pc++\<close>.\<close>

inductive vstep :: "funcEnv \<Rightarrow> nat \<times> stacks \<Rightarrow> nat \<times> stacks \<Rightarrow> bool" for e where
  vstep: "pc < length (fe_body e) \<Longrightarrow> sts_cs sts \<noteq> [] \<Longrightarrow> step e pc (fe_body e ! pc) sts = Ok (pc', sts') \<Longrightarrow>
    vstep e (pc, sts) (Suc pc', sts')"

inductive_cases vstepE: "vstep e (pc, sts) c"

lemma validateBody_run:
  "validateBody e pc sts = Ok sts' \<Longrightarrow> \<exists>n. (vstep e)\<^sup>*\<^sup>* (pc, sts) (n, sts') \<and> length (fe_body e) \<le> n"
proof (induction e pc sts rule: validateBody.induct)
  case (1 e pc sts)
  show ?case
  proof (cases "pc < length (fe_body e)")
    case True
    then obtain pc1 sts1 where s: "sts_cs sts \<noteq> []" "step e pc (fe_body e ! pc) sts = Ok (pc1, sts1)"
        "validateBody e (pc1 + 1) sts1 = Ok sts'"
      using 1(2) by (subst (asm) validateBody.simps) (auto simp: Let_def bindO_Ok_iff split: if_splits)
    then have "vstep e (pc, sts) (Suc pc1, sts1)" using True by (intro vstep)
    with 1(1) [OF True refl s(1,2) refl] s(3) show ?thesis by (auto intro: converse_rtranclp_into_rtranclp)
  next
    case False
    then show ?thesis using 1(2) by (subst (asm) validateBody.simps) auto
  qed
qed

lemma validateBody_safe:
  "env_ok e \<Longrightarrow> tracks_init e \<Longrightarrow> sts_ok e sts \<Longrightarrow> \<not> panics (validateBody e pc sts)"
proof (induction e pc sts rule: validateBody.induct)
  case (1 e pc sts)
  let ?op = "fe_body e ! pc"
  have "holds (\<lambda>(pc, sts). sts_ok e sts) (step e pc ?op sts)" if c: "pc < length (fe_body e)" "sts_cs sts \<noteq> []"
  proof -
    have f: "fetched e pc ?op" using c 1 by (simp add: fetched_def)
    show ?thesis
    proof (cases "?op = OpcodeEnd")
      case True
      then show ?thesis using holds_validateEnd [OF _ c(2)] 1 by (simp add: step_def)
    next
      case False
      from step_preserves [OF f _ _ c(2) False] 1 show ?thesis
        unfolding preserves_def by (auto elim: holds_mono)
    qed
  qed
  with 1 show ?case by (subst validateBody.simps) (cases "step e pc ?op sts"; auto simp: Let_def)
qed

lemma vstep_sts_ok:
  assumes "vstep e (pc, sts) (pc', sts')" "env_ok e" "tracks_init e" "sts_ok e sts"
  shows "sts_ok e sts'" "fe_body e ! pc \<noteq> OpcodeEnd \<Longrightarrow> sts_cs sts' \<noteq> []"
proof -
  from assms(1) obtain pc1 where v: "pc < length (fe_body e)" "sts_cs sts \<noteq> []"
      "step e pc (fe_body e ! pc) sts = Ok (pc1, sts')"
    by (auto elim: vstepE)
  have f: "fetched e pc (fe_body e ! pc)" using v assms by (simp add: fetched_def)
  show n: "fe_body e ! pc \<noteq> OpcodeEnd \<Longrightarrow> sts_cs sts' \<noteq> []"
    using step_preserves [OF f assms(3,4) v(2)] v(3) by (simp add: preserves_def)
  show "sts_ok e sts'"
  proof (cases "fe_body e ! pc = OpcodeEnd")
    case True
    then show ?thesis using holds_validateEnd [OF assms(4) v(2)] v(3) by (auto simp: step_def dest: holds_OkD)
  next
    case False
    then show ?thesis using step_preserves [OF f assms(3,4) v(2)] v(3) by (simp add: preserves_def)
  qed
qed

lemma run_sts_ok:
  "(vstep e)\<^sup>*\<^sup>* c c' \<Longrightarrow> env_ok e \<Longrightarrow> tracks_init e \<Longrightarrow> sts_ok e (snd c) \<Longrightarrow> sts_ok e (snd c')"
  by (induction rule: rtranclp_induct) (auto dest: vstep_sts_ok(1))

section \<open>Properties\<close>

text \<open>What \<^verbatim>\<open>Module.Validate\<close> and the decoder establish before a function body is validated.\<close>

definition function_ok :: "Module \<Rightarrow> CoreFeatures \<Rightarrow> Declarations \<Rightarrow> Index \<Rightarrow> bool" where
  "function_ok m features d idx \<longleftrightarrow> wf_types m \<and>
     list_all (inRange m) (decl_functions d) \<and> list_all (inRange m) (decl_tags d) \<and>
     unat idx < length (FunctionSection m) \<and> inRange m (FunctionSection m ! unat idx) \<and>
     unat idx < length (CodeSection m) \<and>
     (let code = CodeSection m ! unat idx in
      code_Body code \<noteq> [] \<and> last (code_Body code) = OpcodeEnd \<and>
      (IsEnabled features CoreFeaturesExceptionHandling \<longrightarrow>
         list_all (\<lambda>t. IsRef t \<longrightarrow> IsNullable t) (code_LocalTypes code)))"

abbreviation envOf :: "Module \<Rightarrow> CoreFeatures \<Rightarrow> Declarations \<Rightarrow> Index set \<Rightarrow> Index \<Rightarrow> funcEnv" where
  "envOf m features d declared idx \<equiv>
     functionEnv m features d declared (TypeSection m ! unat (FunctionSection m ! unat idx)) (CodeSection m ! unat idx)"

lemma function_ok_env:
  assumes "function_ok m features d idx"
  shows "env_ok (envOf m features d declared idx)" "tracks_init (envOf m features d declared idx)"
  using assms
  by (auto simp: function_ok_def env_ok_def functionEnv_def tracks_init_def defaultable_def list_all_iff Let_def)

lemma sts_ok_start: "wf_types m \<Longrightarrow> fe_functionType e = ft \<Longrightarrow> sts_ok e (startStacks m ft sts)"
  by (simp add: sts_ok_def startStacks_def reset_def wf_vs_def init_ok_def Let_def)

lemma validateFunction_unfold:
  assumes "function_ok m features d idx"
  shows "validateFunctionWithMaxStackValues m sts features idx d limit declared =
    bindO (validateBody (envOf m features d declared idx) 0
        (startStacks m (TypeSection m ! unat (FunctionSection m ! unat idx)) sts)) (\<lambda>sts.
      bindO (require (sts_cs sts = []) (Errorf ''ill-nested block exists'')) (\<lambda>_.
      bindO (require (int (vs_maximumStackPointer (sts_vs sts)) \<le> limit)
               (Errorf ''function may have %d stack values, which exceeds limit %d'')) (\<lambda>_. Ok sts)))"
  using assms by (simp add: function_ok_def inRange_def validateFunctionWithMaxStackValues_def index_def)

lemma holds_validateFunction:
  assumes "function_ok m features d idx"
  shows "holds (\<lambda>_. True) (validateFunction m sts features idx d declared)"
proof -
  have "wf_types m" using assms by (simp add: function_ok_def)
  then have "\<not> panics (validateBody (envOf m features d declared idx) 0
      (startStacks m (TypeSection m ! unat (FunctionSection m ! unat idx)) sts))"
    by (intro validateBody_safe function_ok_env [OF assms] sts_ok_start) (simp_all add: functionEnv_def)
  then show ?thesis
    unfolding validateFunction_def validateFunction_unfold [OF assms]
    by (auto simp: wp elim!: holds_mono simp flip: holds_True_iff)
qed

text \<open>
  C10 (the function validator does not panic). Whatever the bytes of the body, its declarations and the stacks left over
  from earlier functions, \<^verbatim>\<open>validateFunction\<close> returns an error or succeeds. It relies on the types, functions and
  tags referring to types that exist, and on the body ending with \<^verbatim>\<open>end\<close>, which the decoder checks; with
  exception handling, also on the absence of locals of a non-nullable reference type.
\<close>

theorem validateFunction_safe:
  assumes "function_ok m features d idx"
  shows "\<not> panics (validateFunction m sts features idx d declared)"
  using holds_validateFunction [OF assms] by (rule holds_not_panics)

lemma sole_type_wf:
  assumes "TypeSection m = [ft]" "list_all (\<lambda>t. \<not> IsConcreteRef t) (ft_Params ft @ ft_Results ft)" "ft_RecGroupSize ft = 1"
    "ft_RecGroupPosition ft = 0"
  shows "wf_types m"
proof -
  have "inRange m t \<longleftrightarrow> t = 0" for t using assms(1) by (auto simp: inRange_def unat_eq_0)
  then show ?thesis
    using assms by (auto simp: wf_types_def wf_value_type_def group_def typeAt_def list_all_iff)
qed

definition sampleModule :: "ValueType list \<Rightarrow> byte list \<Rightarrow> Module" where
  "sampleModule locals body = emptyModule\<lparr>
     TypeSection := [\<lparr>ft_Params = [], ft_Results = [ValueTypeI32], ft_ParamNumInUint64 = 0, ft_ResultNumInUint64 = 1,
        ft_RecGroupSize = 1, ft_RecGroupPosition = 0, ft_string = []\<rparr>],
     FunctionSection := [0],
     CodeSection := [\<lparr>code_LocalTypes = locals, code_Body = body, code_GoFunc = False, code_BodyOffset = 0\<rparr>]\<rparr>"

definition sampleDeclarations :: Declarations where
  "sampleDeclarations =
     \<lparr>decl_functions = [0], decl_globals = [], decl_memory = None, decl_tables = [], decl_tags = []\<rparr>"

definition freshStacks :: stacks where
  "freshStacks =
     \<lparr>sts_vs = \<lparr>vs_module = emptyModule, vs_stack = [], vs_stackLimits = [], vs_maximumStackPointer = 0\<rparr>,
      sts_cs = [], sts_ls = [], sts_initLocals = None\<rparr>"

lemma sample_ok:
  "body \<noteq> [] \<Longrightarrow> last body = OpcodeEnd \<Longrightarrow> function_ok (sampleModule [] body) features sampleDeclarations 0"
  using sole_type_wf [of "sampleModule [] body"]
  by (simp add: function_ok_def sampleModule_def sampleDeclarations_def inRange_def IsConcreteRef_def)

theorem validateFunction_safe_witness:
  "\<not> panics (validateFunction (sampleModule [] [0xfc, 0x0b]) freshStacks 0 0 sampleDeclarations {})"
  by (rule validateFunction_safe, rule sample_ok) simp_all

lemma initLocals_try_table:
  assumes "step e pc OpcodeTryTable sts = Ok (pc1, sts1)"
  shows "\<exists>b. sts_cs sts1 = sts_cs sts @ [b] \<and> cb_savedInitLocals b = None"
  using assms by (auto simp: step_def validateTryTable_def pushControl_def Let_def bindO_Ok_iff)

text \<open>
  C37 (locals are lost after \<^verbatim>\<open>try_table\<close>). A \<^verbatim>\<open>try_table\<close> does not save the record of the initialized locals, and its
  \<^verbatim>\<open>end\<close> restores it all the same, so that it is the nil map afterwards. Then, in any function, a \<^verbatim>\<open>local.get\<close> of a local
  of a non-nullable reference type is rejected, even when the local was set before the block, and a \<^verbatim>\<open>local.set\<close> or
  \<^verbatim>\<open>local.tee\<close> of it, with an operand of its type, panics.
\<close>

theorem try_table_loses_locals:
  assumes "step e pc OpcodeTryTable sts = Ok (pc1, sts1)" "sts_cs sts \<noteq> []"
    and "sts_cs sts2 = sts_cs sts1" "step e pc2 OpcodeEnd sts2 = Ok (pc3, sts3)"
    and "loadU32 e (pc4 + 1) = Ok (idx, num)" "of_nat (length (ft_Params (fe_functionType e))) \<le> idx"
      "idx < of_nat (length (fe_localTypes e)) + of_nat (length (ft_Params (fe_functionType e)))"
    and "index (fe_localTypes e) (unat (idx - of_nat (length (ft_Params (fe_functionType e))))) = Ok t" "IsRef t" "\<not> IsNullable t"
  shows "step e pc4 OpcodeLocalGet sts3 = Err (Errorf ''uninitialized local %d'') \<and>
    (popAndVerifyType t (sts_vs sts3) = Ok s \<longrightarrow> panics (step e pc4 OpcodeLocalSet sts3) \<and> panics (step e pc4 OpcodeLocalTee sts3))"
proof -
  obtain b where b: "sts_cs sts2 = sts_cs sts @ [b]" "cb_savedInitLocals b = None"
    using initLocals_try_table [OF assms(1)] assms(3) by auto
  have none: "sts_initLocals sts3 = None"
    using assms(2,4) b by (auto simp: step_def validateEnd_def popControl_def Let_def bindO_Ok_iff)
  have lt: "localType e idx = Ok t" using assms(6,8) by (auto simp: localType_def Let_def not_less)
  show ?thesis
    using assms(5-10) none lt
    by (auto simp: step_def validateVariable_def requireLocalInit_def markLocalInit_def Let_def require_def)
qed

abbreviation tryTableEnv :: funcEnv where
  "tryTableEnv \<equiv> envOf (sampleModule [AsNonNullable ValueTypeFuncref]
     [OpcodeRefFunc, 0, OpcodeLocalSet, 0, OpcodeTryTable, 0x40, 0, OpcodeEnd, OpcodeLocalGet, 0, OpcodeEnd])
     (CoreFeaturesExceptionHandling OR CoreFeaturesTypedFunctionReferences OR CoreFeatureReferenceTypes) sampleDeclarations {0} 0"

definition openBlock :: stacks where
  "openBlock = startStacks (fe_m tryTableEnv) (fe_functionType tryTableEnv) freshStacks"

theorem try_table_loses_locals_witness:
  "case bindO (markLocalInit 0 0 (fe_localTypes tryTableEnv) openBlock) (\<lambda>sts.
      bindO (step tryTableEnv 4 OpcodeTryTable sts) (\<lambda>(pc, sts). step tryTableEnv 7 OpcodeEnd sts)) of
     Ok (pc3, sts3) \<Rightarrow> step tryTableEnv 8 OpcodeLocalGet sts3 = Err (Errorf ''uninitialized local %d'') | _ \<Rightarrow> False"
proof -
  let ?e = tryTableEnv
  define sts where "sts = openBlock\<lparr>sts_initLocals := Some {0}\<rparr>"
  have m: "markLocalInit 0 0 (fe_localTypes ?e) openBlock = Ok sts"
    by (simp add: sts_def openBlock_def markLocalInit_def functionEnv_def sampleModule_def startStacks_def reset_def Let_def index_def)
      code_simp
  have c: "sts_cs sts \<noteq> []" by (simp add: sts_def openBlock_def startStacks_def reset_def Let_def)
  have "case step ?e 4 OpcodeTryTable sts of Ok (pc1, sts1) \<Rightarrow> (case step ?e 7 OpcodeEnd sts1 of Ok _ \<Rightarrow> True | _ \<Rightarrow> False) | _ \<Rightarrow> False"
    unfolding sts_def by code_simp
  then obtain c1 where c1: "step ?e 4 OpcodeTryTable sts = Ok c1" "case step ?e 7 OpcodeEnd (snd c1) of Ok _ \<Rightarrow> True | _ \<Rightarrow> False"
    by (cases "step ?e 4 OpcodeTryTable sts") (auto simp: split_beta)
  from c1(2) obtain c3 where "step ?e 7 OpcodeEnd (snd c1) = Ok c3" by (cases "step ?e 7 OpcodeEnd (snd c1)") auto
  with c1(1) obtain pc1 sts1 pc3 sts3 where s: "step ?e 4 OpcodeTryTable sts = Ok (pc1, sts1)" "step ?e 7 OpcodeEnd sts1 = Ok (pc3, sts3)"
    by (cases c1; cases c3) auto
  have l: "loadU32 ?e (8 + 1) = Ok (0, 1)" "index (fe_localTypes ?e) (unat (0 - of_nat (length (ft_Params (fe_functionType ?e))))) = Ok (AsNonNullable ValueTypeFuncref)"
    "IsRef (AsNonNullable ValueTypeFuncref)" "\<not> IsNullable (AsNonNullable ValueTypeFuncref)"
    "of_nat (length (ft_Params (fe_functionType ?e))) \<le> (0 :: u32)"
    "(0 :: u32) < of_nat (length (fe_localTypes ?e)) + of_nat (length (ft_Params (fe_functionType ?e)))" by code_simp+
  from try_table_loses_locals [OF s(1) c refl s(2) l(1,5,6,2,3,4)] show ?thesis using s m by simp
qed

lemma validateEnd_outermost:
  assumes "validateEnd e pc op sts = Ok (pc', sts')" "sts_ok e sts" "sts_cs sts \<noteq> []" "sts_cs sts' = []"
  shows "pc' = pc" "length (sts_cs sts) = 1" "vs_stack (sts_vs sts') = ft_Results (fe_functionType e)"
proof -
  have cs: "butlast (sts_cs sts) = []" and "pc' = pc"
    using assms(1,3,4) by (auto simp: validateEnd_def popControl_def Let_def bindO_Ok_iff split: if_splits)
  then obtain b where b: "sts_cs sts = [b]" using assms(3) by (cases "sts_cs sts" rule: rev_cases) auto
  then have lim: "vs_stackLimits (sts_vs sts) = []" "cb_blockType b = fe_functionType e"
    using assms(2) by (auto simp: sts_ok_def)
  have "holds (framed (vs_frame sts)) (requireStackValues (ft_Results (fe_functionType e)) True (sts_vs sts))"
    by (rule holds_requireStackValues [OF sts_ok_framed [OF assms(2)]])
  then have "requireStackValues (ft_Results (fe_functionType e)) True (sts_vs sts) = Ok s \<Longrightarrow> stackLimit s = 0" for s
    using lim by (auto simp: framed_def frame_def stackLimit_def)
  then show "vs_stack (sts_vs sts') = ft_Results (fe_functionType e)"
    using assms(1) b lim
    by (auto simp: validateEnd_def popControl_def Let_def bindO_Ok_iff resetAtStackLimit_def slice_to_def popStackLimit_def
        split: if_splits)
  show "pc' = pc" "length (sts_cs sts) = 1" using b \<open>pc' = pc\<close> by simp_all
qed

text \<open>
  When \<^verbatim>\<open>validateFunction\<close> succeeds, the rounds of its loop lead from position 0 to the last byte with the function's own
  block as the only open one; that byte is the matching \<^verbatim>\<open>end\<close>, after which exactly the results of the function remain,
  and no push made the operand stack higher than \<open>2\<^sup>2\<^sup>7\<close>.
\<close>

lemma validateFunction_accepts:
  assumes "function_ok m features d idx" "validateFunction m sts features idx d declared = Ok sts'"
  defines "e \<equiv> envOf m features d declared idx"
  shows "\<exists>st. (vstep e)\<^sup>*\<^sup>* (0, startStacks m (fe_functionType e) sts) (length (fe_body e) - 1, st) \<and>
    length (sts_cs st) = 1 \<and> fe_body e ! (length (fe_body e) - 1) = OpcodeEnd \<and>
    vstep e (length (fe_body e) - 1, st) (length (fe_body e), sts') \<and>
    vs_stack (sts_vs sts') = ft_Results (fe_functionType e) \<and> vs_maximumStackPointer (sts_vs sts') \<le> 2 ^ 27"
proof -
  let ?start = "startStacks m (fe_functionType e) sts"
  have wf: "wf_types m" using assms(1) by (simp add: function_ok_def)
  have ok: "env_ok e" "tracks_init e" using function_ok_env [OF assms(1)] by (auto simp: e_def)
  have start: "sts_ok e ?start" using wf by (rule sts_ok_start) simp
  have e: "fe_functionType e = TypeSection m ! unat (FunctionSection m ! unat idx)" by (simp add: e_def functionEnv_def)
  from assms(2) have v: "validateBody e 0 ?start = Ok sts'" "sts_cs sts' = []" "vs_maximumStackPointer (sts_vs sts') \<le> 2 ^ 27"
    unfolding validateFunction_def validateFunction_unfold [OF assms(1)] maximumValuesOnStack_def e e_def [symmetric]
    by (auto simp: bindO_Ok_iff)
  from validateBody_run [OF v(1)] obtain n where n: "(vstep e)\<^sup>*\<^sup>* (0, ?start) (n, sts')" "length (fe_body e) \<le> n" by blast
  have "(0, ?start) \<noteq> (n, sts')" using v(2) by (auto simp: startStacks_def reset_def Let_def)
  with n(1) obtain pc st where run: "(vstep e)\<^sup>*\<^sup>* (0, ?start) (pc, st)" and last: "vstep e (pc, st) (n, sts')"
    by (metis rtranclp.cases surj_pair)
  have st: "sts_ok e st" using run_sts_ok [OF run ok] start by simp
  have op: "fe_body e ! pc = OpcodeEnd" using vstep_sts_ok(2) [OF last ok st] v(2) by blast
  from last obtain pc' where l: "pc < length (fe_body e)" "sts_cs st \<noteq> []" "n = Suc pc'" "validateEnd e pc OpcodeEnd st = Ok (pc', sts')"
    using op by (auto elim!: vstepE simp: step_def)
  note out = validateEnd_outermost [OF l(4) st l(2) v(2)]
  have "pc = length (fe_body e) - 1" "n = length (fe_body e)" using l(1,3) n(2) out(1) by linarith+
  then show ?thesis using run last op out v(3) by auto
qed

end
