(* ===== verification/ValidatorTyping.thy ===== *)
theory ValidatorTyping
  imports ValidatorSafety
begin

text \<open>
  What the operand stack of the validator stands for. The validation algorithm of the WebAssembly
  specification keeps, for the innermost block, its operands and whether the code is unreachable; the
  source encodes the latter by a marker at the stack limit. The interface \<open>operand_stack\<close> says that this
  encoding is faithful, and the typing of the instructions is derived from it.
\<close>

section \<open>The specification\<close>

text \<open>
  \<open>fits acc u xs ts\<close>: operands \<open>xs\<close>, the top first, are accepted where \<open>ts\<close> are popped in this order; in
  unreachable code (\<open>u\<close>) the operands that are missing are taken to be of any type.
\<close>

fun fits_types :: "('v \<Rightarrow> 't \<Rightarrow> bool) \<Rightarrow> bool \<Rightarrow> 'v list \<Rightarrow> 't list \<Rightarrow> bool" where
  "fits_types acc u xs [] = True"
| "fits_types acc u [] (t # ts) = u"
| "fits_types acc u (x # xs) (t # ts) = (acc x t \<and> fits_types acc u xs ts)"

primrec pops :: "('s \<Rightarrow> 'v option \<times> 's) \<Rightarrow> ('v \<Rightarrow> 't \<Rightarrow> bool) \<Rightarrow> 't list \<Rightarrow> 's \<Rightarrow> 's option" where
  "pops p acc [] s = Some s"
| "pops p acc (t # ts) s =
     (case p s of
        (Some v, s) \<Rightarrow> if acc v t then pops p acc ts s else None
      | (None, _) \<Rightarrow> None)"

lemma fits_types_unreachable: "fits_types acc True [] ts"
  by (cases ts) auto

lemma fits_types_reachable:
  "fits_types acc False xs ts \<longleftrightarrow> length ts \<le> length xs \<and> list_all2 acc (take (length ts) xs) ts"
proof (induction ts arbitrary: xs)
  case (Cons t ts)
  then show ?case by (cases xs) auto
qed simp

section \<open>The interface\<close>

locale operand_stack =
  fixes view :: "'s \<Rightarrow> bool \<times> 'v list"
    and ok :: "'s \<Rightarrow> bool"
    and bot :: 'v
    and try_pop :: "'s \<Rightarrow> 'v option \<times> 's"
    and add :: "'v \<Rightarrow> 's \<Rightarrow> 's"
  assumes pop_none: "ok s \<Longrightarrow> view s = (False, []) \<Longrightarrow> fst (try_pop s) = None"
    and pop_bot: "ok s \<Longrightarrow> view s = (True, []) \<Longrightarrow> try_pop s = (Some bot, s)"
    and pop_top: "ok s \<Longrightarrow> view s = (u, vs @ [v]) \<Longrightarrow>
      fst (try_pop s) = Some v \<and> view (snd (try_pop s)) = (u, vs) \<and> ok (snd (try_pop s))"
    and add_view: "ok s \<Longrightarrow> view s = (u, vs) \<Longrightarrow> v \<noteq> bot \<Longrightarrow> view (add v s) = (u, vs @ [v]) \<and> ok (add v s)"
begin

lemma pops_view:
  assumes "\<And>t. acc bot t" "ok s" "view s = (u, vs)"
  shows "case pops try_pop acc ts s of
      None \<Rightarrow> \<not> fits_types acc u (rev vs) ts
    | Some s' \<Rightarrow> fits_types acc u (rev vs) ts \<and> ok s' \<and> view s' = (u, take (length vs - length ts) vs)"
  using assms(2,3)
proof (induction ts arbitrary: s vs)
  case (Cons t ts)
  show ?case
  proof (cases vs rule: rev_cases)
    case Nil
    show ?thesis
    proof (cases u)
      case True
      with Nil Cons.prems have "try_pop s = (Some bot, s)" by (simp add: pop_bot)
      then show ?thesis using Cons.IH [OF Cons.prems] assms(1) Nil True
        by (auto simp: fits_types_unreachable split: option.splits)
    next
      case False
      with Nil Cons.prems have "fst (try_pop s) = None" by (simp add: pop_none)
      then show ?thesis using Nil False by (cases "try_pop s") auto
    qed
  next
    case (snoc ws v)
    with pop_top Cons.prems obtain s1 where s1: "try_pop s = (Some v, s1)" "view s1 = (u, ws)" "ok s1"
      by (metis prod.collapse)
    then show ?thesis using Cons.IH [OF s1(3,2)] snoc by (auto split: option.splits)
  qed
qed simp

lemma adds_view:
  "ok s \<Longrightarrow> view s = (u, vs) \<Longrightarrow> bot \<notin> set ws \<Longrightarrow> view (fold add ws s) = (u, vs @ ws) \<and> ok (fold add ws s)"
proof (induction ws arbitrary: s vs)
  case (Cons w ws)
  then have "view (add w s) = (u, vs @ [w])" "ok (add w s)" using add_view [of s u vs w] by auto
  from Cons.IH [OF this(2,1)] Cons.prems show ?case by simp
qed simp

end

section \<open>The encoding of the source\<close>

definition operands :: "valueTypeStack \<Rightarrow> bool \<times> ValueType list" where
  "operands s =
     (let seg = drop (stackLimit s) (vs_stack s) in
      if seg \<noteq> [] \<and> hd seg = valueTypeUnknown then (True, tl seg) else (False, seg))"

lemma operands_stack:
  assumes "wf_vs s"
  shows "operands s = (u, vs) \<longleftrightarrow>
    (\<exists>base. length base = stackLimit s \<and>
      (if u then vs_stack s = base @ valueTypeUnknown # vs
       else vs_stack s = base @ vs \<and> (vs \<noteq> [] \<longrightarrow> hd vs \<noteq> valueTypeUnknown)))"
proof -
  obtain base seg where s: "vs_stack s = base @ seg" "length base = stackLimit s"
    using wf_vs_limit [OF assms] by (metis append_take_drop_id length_take min.absorb2)
  then have "operands s = (if seg \<noteq> [] \<and> hd seg = valueTypeUnknown then (True, tl seg) else (False, seg))"
    by (simp add: operands_def Let_def)
  with s show ?thesis by (cases seg) (auto dest: arg_cong [where f = length])
qed

interpretation vs: operand_stack operands wf_vs valueTypeUnknown tryPop push
proof
  fix s v u and vs :: "ValueType list"
  have limit: "stackLimit (s\<lparr>vs_stack := x\<rparr>) = stackLimit s" for x by (simp add: stackLimit_def)
  {
    assume "wf_vs s" "operands s = (False, [])"
    then show "fst (tryPop s) = None" by (auto simp: operands_stack tryPop_def)
  next
    assume "wf_vs s" "operands s = (True, [])"
    then show "tryPop s = (Some valueTypeUnknown, s)" by (auto simp: operands_stack tryPop_def Let_def nth_append)
  next
    assume a: "wf_vs s" "operands s = (u, vs @ [v])"
    then obtain base where b: "length base = stackLimit s" "if u then vs_stack s = base @ valueTypeUnknown # vs @ [v]
       else vs_stack s = base @ (vs @ [v]) \<and> hd (vs @ [v]) \<noteq> valueTypeUnknown"
      by (auto simp: operands_stack split: if_splits)
    have w: "wf_vs (snd (tryPop s))" using framed_tryPop [OF framed_frame [OF a(1)]] by (simp add: framed_def)
    have "tryPop s = (Some v, s\<lparr>vs_stack := (if u then base @ valueTypeUnknown # vs else base @ vs)\<rparr>)"
      using b by (cases vs) (auto simp: tryPop_def Let_def nth_append split: if_splits)
    moreover from this have "operands (snd (tryPop s)) = (u, vs)"
      using w b by (cases vs) (auto simp: operands_stack limit split: if_splits)
    ultimately show "fst (tryPop s) = Some v \<and> operands (snd (tryPop s)) = (u, vs) \<and> wf_vs (snd (tryPop s))"
      using w by simp
  next
    assume a: "wf_vs s" "operands s = (u, vs)" "v \<noteq> valueTypeUnknown"
    have w: "wf_vs (push v s)" using framed_push [OF framed_frame [OF a(1)]] by (simp add: framed_def)
    have "stackLimit (push v s) = stackLimit s" "vs_stack (push v s) = vs_stack s @ [v]"
      by (simp_all add: push_def Let_def stackLimit_def)
    with a w show "operands (push v s) = (u, vs @ [v]) \<and> wf_vs (push v s)"
      by (cases vs) (auto simp: operands_stack split: if_splits)
  }
qed


section \<open>Typing of the instructions\<close>

definition accepts :: "Module \<Rightarrow> ValueType \<Rightarrow> ValueType \<Rightarrow> bool" where
  "accepts m v t \<longleftrightarrow> v = valueTypeUnknown \<or> t = valueTypeUnknown \<or> ref_subtype m v t"

lemma popAndVerifyType_pops:
  "wf_types (vs_module s) \<Longrightarrow>
    popAndVerifyType t s = Ok s' \<longleftrightarrow> pops tryPop (accepts (vs_module s)) [t] s = Some s'"
proof -
  assume wf: "wf_types (vs_module s)"
  have "vs_module (snd (tryPop s)) = vs_module s" by (auto simp: tryPop_def Let_def)
  with wf show ?thesis
    by (auto simp: popAndVerifyType_def accepts_def isRefSubtypeOf_iff split: prod.splits option.splits if_splits)
qed

lemma popAll_pops:
  "wf_types (vs_module s) \<Longrightarrow> popAll ts s = Ok s' \<longleftrightarrow> pops tryPop (accepts (vs_module s)) ts s = Some s'"
proof (induction ts arbitrary: s)
  case (Cons t ts)
  have m: "vs_module (snd (tryPop s)) = vs_module s" by (auto simp: tryPop_def Let_def)
  have "popAll (t # ts) s = Ok s' \<longleftrightarrow> (\<exists>s1. popAndVerifyType t s = Ok s1 \<and> popAll ts s1 = Ok s')"
    by (simp add: popAll_def bindO_Ok_iff)
  then show ?case
    using Cons.IH [of "snd (tryPop s)"] Cons.prems m
    by (auto simp: popAndVerifyType_pops split: prod.splits option.splits if_splits)
qed (auto simp: popAll_def)


lemma accepts_unknown [simp]: "accepts m valueTypeUnknown t"
  by (simp add: accepts_def)

lemma popAll_view:
  assumes "wf_vs s" "operands s = (u, vs)"
  shows "(\<exists>s'. popAll ts s = Ok s') \<longleftrightarrow> fits_types (accepts (vs_module s)) u (rev vs) ts"
    "popAll ts s = Ok s' \<Longrightarrow> operands s' = (u, take (length vs - length ts) vs) \<and> framed (frame s) s'"
proof -
  have wf: "wf_types (vs_module s)" using assms by (simp add: wf_vs_def)
  note p = vs.pops_view [of "accepts (vs_module s)" s u vs ts, OF accepts_unknown assms]
  show "(\<exists>s'. popAll ts s = Ok s') \<longleftrightarrow> fits_types (accepts (vs_module s)) u (rev vs) ts"
    using p by (auto simp: popAll_pops [OF wf] split: option.splits)
  show "popAll ts s = Ok s' \<Longrightarrow> operands s' = (u, take (length vs - length ts) vs) \<and> framed (frame s) s'"
    using p holds_OkD [OF holds_popAll [OF framed_frame [OF assms(1)], of "framed (frame s)"]]
    by (auto simp: popAll_pops [OF wf] split: option.splits)
qed

lemma pushAll_view:
  assumes "wf_vs s" "operands s = (u, vs)" "valueTypeUnknown \<notin> set ts"
  shows "operands (pushAll ts s) = (u, vs @ ts)"
  using vs.adds_view [OF assms] by (simp add: pushAll_def)

definition numericTypes :: "ValueType list" where
  "numericTypes = [ValueTypeI32, ValueTypeI64, ValueTypeF32, ValueTypeF64, ValueTypeV128]"

lemma if_SomeE: "(if c then Some x else y) = Some z \<Longrightarrow> (x = z \<Longrightarrow> Q) \<Longrightarrow> (y = Some z \<Longrightarrow> Q) \<Longrightarrow> Q"
  by (auto split: if_splits)

lemma if_SomeE2:
  "(if c then Some x else y) = Some z \<Longrightarrow> (c \<Longrightarrow> Q) \<Longrightarrow> (y = Some z \<Longrightarrow> Q) \<Longrightarrow> Q"
  by (auto split: if_splits)

lemma numericType_types:
  "numericType op = Some (ins, outs) \<Longrightarrow> list_all (\<lambda>t. t \<in> set numericTypes) (ins @ outs)"
  unfolding numericType_def by (elim if_SomeE) (auto simp: numericTypes_def)

text \<open>Numeric types have no proper subtypes.\<close>

lemma accepts_numeric: "t \<in> set numericTypes \<Longrightarrow> accepts m v t \<longleftrightarrow> v = valueTypeUnknown \<or> v = t"
  by (auto simp: numericTypes_def accepts_def ref_subtype_def IsNullable_def IsRef_def IsConcreteRef_def Kind_def)

lemma fits_types_cong:
  "(\<And>x t. t \<in> set ts \<Longrightarrow> acc x t = acc' x t) \<Longrightarrow> fits_types acc u xs ts = fits_types acc' u xs ts"
  by (induction acc u xs ts rule: fits_types.induct) auto


lemma numericType_range: "numericType op = Some t \<Longrightarrow> OpcodeI32Eqz \<le> op \<and> op \<le> OpcodeI64Extend32S"
  unfolding numericType_def by (elim if_SomeE2) auto

lemma step_numeric: "OpcodeI32Eqz \<le> op \<Longrightarrow> op \<le> OpcodeI64Extend32S \<Longrightarrow> step e pc op = onVs validateNumeric e pc op"
  by (auto simp: step_def word_le_nat_alt)

lemma popWanted_view:
  assumes "wf_vs s" "operands s = (u, vs)"
  shows "if n \<le> length vs \<or> u
    then \<exists>s'. popWanted n s = Ok (take n (rev vs) @ replicate (n - length vs) valueTypeUnknown, s') \<and>
      wf_vs s' \<and> frame s' = frame s \<and> operands s' = (u, take (length vs - n) vs)
    else \<exists>er. popWanted n s = Err er"
  using assms
proof (induction n arbitrary: s vs)
  case (Suc n)
  have fr: "frame (snd (tryPop s)) = frame s"
    using framed_tryPop [OF framed_frame [OF Suc.prems(1)]] by (simp add: framed_def)
  show ?case
  proof (cases vs rule: rev_cases)
    case Nil
    show ?thesis
    proof (cases u)
      case True
      with Nil Suc.prems have "tryPop s = (Some valueTypeUnknown, s)" by (simp add: vs.pop_bot)
      then show ?thesis using Suc.IH [OF Suc.prems] Nil True by auto
    next
      case False
      with Nil Suc.prems have "fst (tryPop s) = None" by (simp add: vs.pop_none)
      then show ?thesis using Nil False by (cases "tryPop s") auto
    qed
  next
    case (snoc ws v)
    with vs.pop_top Suc.prems obtain s1 where s1: "tryPop s = (Some v, s1)" "operands s1 = (u, ws)" "wf_vs s1"
      by (metis prod.collapse)
    then show ?thesis using Suc.IH [OF s1(3,2)] snoc fr by (auto split: if_splits)
  qed
qed auto

lemma checkWanted_Ok:
  "wf_types m \<Longrightarrow> length tmp = length ws \<Longrightarrow> checkWanted m tmp ws = Ok () \<longleftrightarrow> list_all2 (accepts m) tmp ws"
  by (induction m tmp ws rule: checkWanted.induct) (auto simp: accepts_def isRefSubtypeOf_iff)

lemma fits_types_padded:
  "length ts \<le> length xs \<or> u \<Longrightarrow> (\<And>t. acc b t) \<Longrightarrow>
    fits_types acc u xs ts \<longleftrightarrow> list_all2 acc (take (length ts) xs @ replicate (length ts - length xs) b) ts"
proof (induction acc u xs ts rule: fits_types.induct)
  case (2 acc u t ts)
  then show ?case by (auto simp: list_all2_conv_all_nth nth_Cons')
qed auto

lemma fits_types_short: "fits_types acc u xs ts \<Longrightarrow> length ts \<le> length xs \<or> u"
  by (induction acc u xs ts rule: fits_types.induct) auto

lemma requireStackValues_view:
  assumes "wf_vs s" "operands s = (u, vs)"
  shows "(\<exists>s'. requireStackValues want chk s = Ok s') \<longleftrightarrow>
    fits_types (accepts (vs_module s)) u (rev vs) (rev want) \<and> (chk \<longrightarrow> length vs \<le> length want)"
    "requireStackValues want chk s = Ok s' \<Longrightarrow>
      operands s' = (u, take (length vs - length want) vs) \<and> framed (frame s) s'"
proof -
  let ?tmp = "take (length want) (rev vs) @ replicate (length want - length vs) valueTypeUnknown"
  have wf: "wf_types (vs_module s)" using assms(1) by (simp add: wf_vs_def)
  have top: "(stackLimit s = length (vs_stack s1) \<or>
      stackLimit s + 1 = length (vs_stack s1) \<and> vs_stack s1 ! stackLimit s = valueTypeUnknown) \<longleftrightarrow> vs1 = []"
    if a: "wf_vs s1" "frame s1 = frame s" "operands s1 = (u, vs1)" for s1 vs1
  proof -
    have l: "stackLimit s1 = stackLimit s" using a(2) by (simp add: frame_def stackLimit_def)
    obtain base where b: "length base = stackLimit s" "if u then vs_stack s1 = base @ valueTypeUnknown # vs1
       else vs_stack s1 = base @ vs1 \<and> (vs1 \<noteq> [] \<longrightarrow> hd vs1 \<noteq> valueTypeUnknown)"
      using a(3) unfolding operands_stack [OF a(1)] l by blast
    then show ?thesis unfolding b(1) [symmetric] by (cases vs1) (auto split: if_splits)
  qed
  show "(\<exists>s'. requireStackValues want chk s = Ok s') \<longleftrightarrow>
    fits_types (accepts (vs_module s)) u (rev vs) (rev want) \<and> (chk \<longrightarrow> length vs \<le> length want)"
  proof (cases "length want \<le> length vs \<or> u")
    case True
    with popWanted_view [OF assms, of "length want"] obtain s1 where s1: "popWanted (length want) s = Ok (?tmp, s1)"
      "wf_vs s1" "frame s1 = frame s" "operands s1 = (u, take (length vs - length want) vs)" by auto
    have "vs_module s1 = vs_module s" using s1(3) by (simp add: frame_def)
    moreover have "take (length vs - length want) vs = [] \<longleftrightarrow> length vs \<le> length want" by auto
    moreover have "checkWanted (vs_module s) ?tmp (rev want) = Ok () \<longleftrightarrow>
        fits_types (accepts (vs_module s)) u (rev vs) (rev want)"
      using checkWanted_Ok [OF wf, of ?tmp "rev want"] True
        fits_types_padded [where ts = "rev want" and xs = "rev vs" and u = u and acc = "accepts (vs_module s)" and
          b = valueTypeUnknown] by simp
    ultimately show ?thesis
      using s1(1) top [OF s1(2-4)]
      by (auto simp: requireStackValues_def Let_def bindO_Ok_iff simp del: take_eq_Nil)
  next
    case False
    with popWanted_view [OF assms, of "length want"] show ?thesis
      using fits_types_short [of "accepts (vs_module s)" u "rev vs" "rev want"]
      by (auto simp: requireStackValues_def Let_def bindO_Ok_iff)
  qed
  assume r: "requireStackValues want chk s = Ok s'"
  then have "framed (frame s) s'"
    using holds_OkD [OF holds_requireStackValues [OF framed_frame [OF assms(1)], of "framed (frame s)"]] by blast
  moreover have "operands s' = (u, take (length vs - length want) vs)"
    using popWanted_view [OF assms, of "length want"] r
    by (auto simp: requireStackValues_def Let_def bindO_Ok_iff split: if_splits)
  ultimately show "operands s' = (u, take (length vs - length want) vs) \<and> framed (frame s) s'" by simp
qed


section \<open>Properties\<close>

text \<open>
  C11 (typing of the numeric instructions). In every state of the loop, a numeric instruction that \<open>numericType\<close>
  types as \<open>ins\<close> to \<open>outs\<close> is accepted exactly when the top operands of the innermost block have the types \<open>ins\<close>, or,
  in unreachable code, when those that are present have; sign extensions also need their feature. It then replaces
  them by \<open>outs\<close> and changes neither the position, the blocks, nor the operands of the enclosing blocks.
\<close>

theorem step_numeric_typing:
  assumes "sts_ok e sts" "numericType op = Some (ins, outs)" "operands (sts_vs sts) = (u, vs)"
  shows "((\<exists>r. step e pc op sts = Ok r) \<longleftrightarrow>
      (OpcodeI32Extend8S \<le> op \<longrightarrow> IsEnabled (fe_enabledFeatures e) CoreFeatureSignExtensionOps) \<and>
      fits_types (\<lambda>v t. v = valueTypeUnknown \<or> v = t) u (rev vs) ins) \<and>
    (\<forall>pc' sts'. step e pc op sts = Ok (pc', sts') \<longrightarrow> pc' = pc \<and> sts_cs sts' = sts_cs sts \<and>
      operands (sts_vs sts') = (u, take (length vs - length ins) vs @ outs) \<and> vs_frame sts' = vs_frame sts)"
proof -
  let ?m = "vs_module (sts_vs sts)"
  have wf: "wf_vs (sts_vs sts)" using assms(1) by (simp add: sts_ok_def)
  have known: "list_all (\<lambda>t. t \<in> set numericTypes) ins" "valueTypeUnknown \<notin> set outs"
    using numericType_types [OF assms(2)] by (auto simp: list_all_iff numericTypes_def dest!: bspec [of _ _ valueTypeUnknown])
  note range = numericType_range [OF assms(2)]
  have fits: "fits_types (accepts ?m) u (rev vs) ins = fits_types (\<lambda>v t. v = valueTypeUnknown \<or> v = t) u (rev vs) ins"
    by (rule fits_types_cong) (use known(1) in \<open>auto simp: accepts_numeric list_all_iff\<close>)
  have step: "step e pc op sts = Ok (pc', sts') \<longleftrightarrow>
      (OpcodeI32Extend8S \<le> op \<longrightarrow> IsEnabled (fe_enabledFeatures e) CoreFeatureSignExtensionOps) \<and> pc' = pc \<and>
      (\<exists>s. popAll ins (sts_vs sts) = Ok s \<and> sts' = sts\<lparr>sts_vs := pushAll outs s\<rparr>)" for pc' sts'
    using range assms(2)
    by (auto simp: step_numeric onVs_def validateNumeric_def popOperands_def RequireEnabled_def IsEnabled_def bindO_Ok_iff)
  have "(\<exists>r. step e pc op sts = Ok r) \<longleftrightarrow>
      (OpcodeI32Extend8S \<le> op \<longrightarrow> IsEnabled (fe_enabledFeatures e) CoreFeatureSignExtensionOps) \<and>
      fits_types (\<lambda>v t. v = valueTypeUnknown \<or> v = t) u (rev vs) ins"
    using popAll_view(1) [OF wf assms(3), of ins] by (auto simp: step fits)
  moreover have "pc' = pc \<and> sts_cs sts' = sts_cs sts \<and>
      operands (sts_vs sts') = (u, take (length vs - length ins) vs @ outs) \<and> vs_frame sts' = vs_frame sts"
    if "step e pc op sts = Ok (pc', sts')" for pc' sts'
  proof -
  from that obtain s where s: "popAll ins (sts_vs sts) = Ok s" "sts' = sts\<lparr>sts_vs := pushAll outs s\<rparr>" "pc' = pc"
    by (auto simp: step)
  from popAll_view(2) [OF wf assms(3) s(1)] have o: "operands s = (u, take (length vs - length ins) vs)" "framed (vs_frame sts) s"
    by simp_all
  then have "operands (pushAll outs s) = (u, take (length vs - length ins) vs @ outs)"
    by (intro pushAll_view known(2)) (auto simp: framed_def)
  then show ?thesis
    using s o framed_pushAll [OF o(2), of outs] by (simp add: framed_def)
  qed
  ultimately show ?thesis by blast
qed

definition sampleEnv :: funcEnv where
  "sampleEnv = envOf (sampleModule [] [OpcodeEnd]) 0 sampleDeclarations {} 0"

definition sampleState :: "ValueType list \<Rightarrow> stacks" where
  "sampleState vs = (let m = sampleModule [] [OpcodeEnd] in
     (startStacks m (hd (TypeSection m)) freshStacks)
       \<lparr>sts_vs := \<lparr>vs_module = m, vs_stack = vs, vs_stackLimits = [], vs_maximumStackPointer = 3\<rparr>\<rparr>)"

lemma sampleState_ok:
  "sts_ok sampleEnv (sampleState vs)" "sts_cs (sampleState vs) \<noteq> []"
  "vs = [] \<or> hd vs \<noteq> valueTypeUnknown \<Longrightarrow> operands (sts_vs (sampleState vs)) = (False, vs)"
  using sole_type_wf [of "sampleModule [] [OpcodeEnd]"]
  by (auto simp: sts_ok_def sampleEnv_def sampleState_def sampleModule_def startStacks_def reset_def wf_vs_def init_ok_def
      functionEnv_def Let_def IsConcreteRef_def operands_def stackLimit_def)

theorem step_numeric_typing_witness:
  "(\<exists>r. step sampleEnv 0 OpcodeI32Add (sampleState [ValueTypeI64, ValueTypeI32, ValueTypeI32]) = Ok r) \<and>
   \<not> (\<exists>r. step sampleEnv 0 OpcodeI32Add (sampleState [ValueTypeI32, ValueTypeI64]) = Ok r)"
proof -
  have t: "numericType OpcodeI32Add = Some ([ValueTypeI32, ValueTypeI32], [ValueTypeI32])" by (simp add: numericType_def)
  show ?thesis
    using step_numeric_typing [OF sampleState_ok(1) t sampleState_ok(3), of "[ValueTypeI64, ValueTypeI32, ValueTypeI32]" 0]
      step_numeric_typing [OF sampleState_ok(1) t sampleState_ok(3), of "[ValueTypeI32, ValueTypeI64]" 0]
    by simp
qed

text \<open>
  C12 (typing of the end of a block). \<^verbatim>\<open>end\<close> is accepted exactly when the operands of the block are, in number and
  type, its results, where unreachable code may lack some; an \<^verbatim>\<open>if\<close> without \<^verbatim>\<open>else\<close> must have the same
  parameters and results. It closes the block and leaves the results on top of the operands of the enclosing block.
\<close>

theorem step_end_typing:
  assumes "sts_ok e sts" "sts_cs sts \<noteq> []" "operands (sts_vs sts) = (u, vs)"
    and "bl = last (sts_cs sts)" "results = ft_Results (cb_blockType bl)"
  shows "((\<exists>r. step e pc OpcodeEnd sts = Ok r) \<longleftrightarrow>
      (cb_op bl = OpcodeIf \<and> cb_elseAt bl \<le> cb_startAt bl \<longrightarrow> results = ft_Params (cb_blockType bl)) \<and>
      length vs \<le> length results \<and> fits_types (accepts (vs_module (sts_vs sts))) u (rev vs) (rev results)) \<and>
    (\<forall>pc' sts'. step e pc OpcodeEnd sts = Ok (pc', sts') \<longrightarrow> pc' = pc \<and> sts_cs sts' = butlast (sts_cs sts) \<and>
      vs_stack (sts_vs sts') = take (stackLimit (sts_vs sts)) (vs_stack (sts_vs sts)) @ results \<and>
      vs_stackLimits (sts_vs sts') = butlast (vs_stackLimits (sts_vs sts)))"
proof -
  let ?s = "sts_vs sts"
  have wf: "wf_vs ?s" using assms(1) by (simp add: sts_ok_def)
  have reset: "resetAtStackLimit s = Ok (s\<lparr>vs_stack := take (stackLimit ?s) (vs_stack ?s)\<rparr>) \<and>
      vs_stackLimits s = vs_stackLimits ?s"
    if "requireStackValues results True ?s = Ok s" for s
    using requireStackValues_view(2) [OF wf assms(3) that] wf_vs_limit [of s]
    by (auto simp: resetAtStackLimit_def slice_to_def framed_def frame_def stackLimit_def)
  have step: "step e pc OpcodeEnd sts = Ok (pc', sts') \<longleftrightarrow>
      (cb_op bl = OpcodeIf \<and> cb_elseAt bl \<le> cb_startAt bl \<longrightarrow> results = ft_Params (cb_blockType bl)) \<and> pc' = pc \<and>
      (\<exists>s. requireStackValues results True ?s = Ok s \<and>
        sts' = (if butlast (sts_cs sts) = [] then sts else sts\<lparr>sts_initLocals := cb_savedInitLocals bl\<rparr>)
          \<lparr>sts_cs := butlast (sts_cs sts),
           sts_vs := popStackLimit (pushAll results (s\<lparr>vs_stack := take (stackLimit ?s) (vs_stack ?s)\<rparr>))\<rparr>)" for pc' sts'
    using assms(2) reset unfolding assms(4,5)
    by (auto simp: step_def validateEnd_def popControl_def Let_def bindO_Ok_iff)
  have "(\<exists>r. step e pc OpcodeEnd sts = Ok r) \<longleftrightarrow>
      (cb_op bl = OpcodeIf \<and> cb_elseAt bl \<le> cb_startAt bl \<longrightarrow> results = ft_Params (cb_blockType bl)) \<and>
      length vs \<le> length results \<and> fits_types (accepts (vs_module ?s)) u (rev vs) (rev results)"
    using requireStackValues_view(1) [OF wf assms(3), of results True] by (auto simp: step)
  moreover have "pc' = pc \<and> sts_cs sts' = butlast (sts_cs sts) \<and>
      vs_stack (sts_vs sts') = take (stackLimit ?s) (vs_stack ?s) @ results \<and>
      vs_stackLimits (sts_vs sts') = butlast (vs_stackLimits ?s)"
    if "step e pc OpcodeEnd sts = Ok (pc', sts')" for pc' sts'
  proof -
    from that obtain s where "requireStackValues results True ?s = Ok s" "pc' = pc"
      "sts_cs sts' = butlast (sts_cs sts)"
      "sts_vs sts' = popStackLimit (pushAll results (s\<lparr>vs_stack := take (stackLimit ?s) (vs_stack ?s)\<rparr>))"
      by (auto simp: step)
    then show ?thesis using reset by (simp add: popStackLimit_def)
  qed
  ultimately show ?thesis by blast
qed

theorem step_end_typing_witness:
  "(\<exists>r. step sampleEnv 0 OpcodeEnd (sampleState [ValueTypeI32]) = Ok r) \<and>
   \<not> (\<exists>r. step sampleEnv 0 OpcodeEnd (sampleState [ValueTypeI64]) = Ok r) \<and>
   \<not> (\<exists>r. step sampleEnv 0 OpcodeEnd (sampleState [ValueTypeI32, ValueTypeI32]) = Ok r)"
proof -
  have b: "ft_Results (cb_blockType (last (sts_cs (sampleState vs)))) = [ValueTypeI32]"
    "cb_op (last (sts_cs (sampleState vs))) = 0" for vs
    by (simp_all add: sampleState_def startStacks_def reset_def sampleModule_def Let_def)
  have e: "(\<exists>r. step sampleEnv 0 OpcodeEnd (sampleState vs) = Ok r) \<longleftrightarrow> length vs \<le> 1 \<and>
      fits_types (accepts (vs_module (sts_vs (sampleState vs)))) False (rev vs) [ValueTypeI32]"
    if "vs = [] \<or> hd vs \<noteq> valueTypeUnknown" for vs
    using step_end_typing [OF sampleState_ok(1,2) sampleState_ok(3) [OF that] refl refl, of 0] unfolding b by auto
  show ?thesis using e [of "[ValueTypeI32]"] e [of "[ValueTypeI64]"] e [of "[ValueTypeI32, ValueTypeI32]"]
    by (simp add: accepts_numeric numericTypes_def)
qed

end
