(* ===== verification/ConstExpr.thy ===== *)
theory ConstExpr
  imports Leb128 ModuleTypes Opcodes TableInstance
begin

text \<open>
  \<^verbatim>\<open>internal/wasm/const_expr.go\<close>: evaluation of constant expressions. The loop over \<open>pc\<close> walks the
  rest of the bytes; \<open>constStep\<close> is one round of it and says how many bytes after the opcode it
  consumed. The resolvers of globals and function references are arguments, as in the source.
\<close>

section \<open>Evaluation\<close>

datatype const_step = Continue nat "u64 list" "ValueType list" | Finish "u64 list" ValueType

type_synonym global_resolver = "Index \<Rightarrow> (ValueType \<times> u64 \<times> u64) outcome"
type_synonym func_resolver = "Index \<Rightarrow> Reference outcome"

text \<open>
  The six arithmetic cases differ in the operand type \<open>vt\<close>, the name in the messages and the
  operation \<open>f\<close> on the operands \<open>a\<close> and \<open>b\<close>.
\<close>

definition constBinop ::
    "string \<Rightarrow> ValueType \<Rightarrow> (u64 \<Rightarrow> u64 \<Rightarrow> u64) \<Rightarrow> u64 list \<Rightarrow> ValueType list \<Rightarrow> const_step outcome" where
  "constBinop name vt f stack typeStack =
     (if length typeStack < 2 then Err (Errorf (''stack underflow on '' @ name))
      else
        bindO (index typeStack (length typeStack - 1)) (\<lambda>v1.
        bindO (index typeStack (length typeStack - 2)) (\<lambda>v2.
        if v1 \<noteq> vt \<or> v2 \<noteq> vt then Err (Errorf (''type mismatch on '' @ name @ '': %s, %s''))
        else
          bindO (index stack (length stack - 1)) (\<lambda>b.
          bindO (index stack (length stack - 2)) (\<lambda>a.
          Ok (Continue 0 (take (length stack - 2) stack @ [f a b])
                (take (length typeStack - 2) typeStack @ [vt])))))))"

definition constStep ::
    "global_resolver \<Rightarrow> func_resolver \<Rightarrow> byte \<Rightarrow> byte list \<Rightarrow> u64 list \<Rightarrow> ValueType list \<Rightarrow> const_step outcome" where
  "constStep globalResolver funcRefResolver opCode data stack typeStack =
     (if opCode = OpcodeI32Const then
        bindO (mapErr (Wrapf ''read i32'') (LoadInt32 data)) (\<lambda>(v, n).
          Ok (Continue n (stack @ [ucast v]) (typeStack @ [ValueTypeI32])))
      else if opCode = OpcodeI64Const then
        bindO (mapErr (Wrapf ''read i64'') (LoadInt64 data)) (\<lambda>(v, n).
          Ok (Continue n (stack @ [v]) (typeStack @ [ValueTypeI64])))
      else if opCode = OpcodeF32Const then
        if length data < 4 then Err ErrUnexpectedEOF
        else Ok (Continue 4 (stack @ [ucast (le_get (take 4 data) :: u32)]) (typeStack @ [ValueTypeF32]))
      else if opCode = OpcodeF64Const then
        if length data < 8 then Err ErrUnexpectedEOF
        else Ok (Continue 8 (stack @ [le_get (take 8 data)]) (typeStack @ [ValueTypeF64]))
      else if opCode = OpcodeGlobalGet then
        bindO (mapErr (Wrapf ''read index of global'') (LoadUint32 data)) (\<lambda>(v, n).
        bindO (globalResolver v) (\<lambda>(typ, lo, hi).
          Ok (Continue n (stack @ (if typ = ValueTypeV128 then [lo, hi] else [lo])) (typeStack @ [typ]))))
      else if opCode = OpcodeRefNull then
        (case data of
           [] \<Rightarrow> Err (Wrapf ''read reference type for ref.null'' ErrShortBuffer)
         | b # _ \<Rightarrow>
             if b = Kind RefTypeFuncref then Ok (Continue 1 (stack @ [0]) (typeStack @ [RefTypeFuncref]))
             else if b = Kind RefTypeExternref then Ok (Continue 1 (stack @ [0]) (typeStack @ [RefTypeExternref]))
             else if b = Kind ValueTypeExnref then Ok (Continue 1 (stack @ [0]) (typeStack @ [ValueTypeExnref]))
             else
               bindO (mapErr (\<lambda>_. Errorf ''invalid type for ref.null: 0x%x'') (LoadUint32 data)) (\<lambda>(typeIdx, n).
                 Ok (Continue n (stack @ [0]) (typeStack @ [ValueTypeConcreteRef typeIdx True]))))
      else if opCode = OpcodeRefFunc then
        bindO (mapErr (Wrapf ''read i32'') (LoadUint32 data)) (\<lambda>(v, n).
        bindO (funcRefResolver v) (\<lambda>ref.
          Ok (Continue n (stack @ [ref]) (typeStack @ [ValueTypeFuncref]))))
      else if opCode = OpcodeVecPrefix then
        bindO (index data 0) (\<lambda>vecOp.
          if vecOp \<noteq> OpcodeVecV128Const then Err (Errorf ''invalid vector opcode for const expression: %#x'')
          else if length (drop 1 data) < 16 then Err (Errorf ''%s needs 16 bytes but was %d bytes'')
          else
            let lo = le_get (take 8 (drop 1 data)); hi = le_get (take 8 (drop 9 data))
            in Ok (Continue 17 (stack @ [lo, hi]) (typeStack @ [ValueTypeV128])))
      else if opCode = OpcodeI32Add then
        constBinop ''i32.add'' ValueTypeI32 (\<lambda>a b. ucast (ucast a + ucast b :: u32)) stack typeStack
      else if opCode = OpcodeI32Sub then
        constBinop ''i32.sub'' ValueTypeI32 (\<lambda>a b. ucast (ucast a - ucast b :: u32)) stack typeStack
      else if opCode = OpcodeI32Mul then
        constBinop ''i32.mul'' ValueTypeI32 (\<lambda>a b. ucast (ucast a * ucast b :: u32)) stack typeStack
      else if opCode = OpcodeI64Add then constBinop ''i64.add'' ValueTypeI64 (\<lambda>a b. a + b) stack typeStack
      else if opCode = OpcodeI64Sub then constBinop ''i64.sub'' ValueTypeI64 (\<lambda>a b. a - b) stack typeStack
      else if opCode = OpcodeI64Mul then constBinop ''i64.mul'' ValueTypeI64 (\<lambda>a b. a * b) stack typeStack
      else if opCode = OpcodeEnd then
        (case typeStack of
           [t] \<Rightarrow> Ok (Finish stack t)
         | _ \<Rightarrow> Err (Errorf ''stack has more than one value at end of constant expression''))
      else Err (Errorf ''invalid opcode for const expression: 0x%x''))"

function evaluateConstExpr_loop ::
    "global_resolver \<Rightarrow> func_resolver \<Rightarrow> byte list \<Rightarrow> u64 list \<Rightarrow> ValueType list \<Rightarrow> (u64 list \<times> ValueType) outcome" where
  "evaluateConstExpr_loop g f data stack typeStack =
     (case data of
        [] \<Rightarrow> Err ErrUnexpectedEOF
      | opCode # data' \<Rightarrow>
          (case constStep g f opCode data' stack typeStack of
             Ok (Continue n stack' typeStack') \<Rightarrow> evaluateConstExpr_loop g f (drop n data') stack' typeStack'
           | Ok (Finish stack' t) \<Rightarrow> Ok (stack', t)
           | Err e \<Rightarrow> Err e
           | Panic p \<Rightarrow> Panic p))"
  by pat_completeness auto

termination
  by (relation "measure (\<lambda>(g, f, data, stack, typeStack). length data)") auto

declare evaluateConstExpr_loop.simps [simp del]

definition evaluateConstExpr ::
    "ConstantExpression \<Rightarrow> global_resolver \<Rightarrow> func_resolver \<Rightarrow> (u64 list \<times> ValueType) outcome" where
  "evaluateConstExpr e globalResolver funcRefResolver =
     evaluateConstExpr_loop globalResolver funcRefResolver (ce_Data e) [] []"

text \<open>\<^verbatim>\<open>constExprReferencesGlobal\<close>, over the rest of the bytes.\<close>

function constExprReferencesGlobal_loop :: "byte list \<Rightarrow> bool" where
  "constExprReferencesGlobal_loop data =
     (case data of
        [] \<Rightarrow> True
      | opc # data' \<Rightarrow>
          if opc = OpcodeGlobalGet then True
          else if opc = OpcodeEnd then False
          else if opc = OpcodeI32Const then
            (case LoadInt32 data' of Ok (_, n) \<Rightarrow> constExprReferencesGlobal_loop (drop n data') | _ \<Rightarrow> True)
          else if opc = OpcodeI64Const then
            (case LoadInt64 data' of Ok (_, n) \<Rightarrow> constExprReferencesGlobal_loop (drop n data') | _ \<Rightarrow> True)
          else if opc \<in> {OpcodeI32Add, OpcodeI32Sub, OpcodeI32Mul, OpcodeI64Add, OpcodeI64Sub, OpcodeI64Mul} then
            constExprReferencesGlobal_loop data'
          else True)"
  by pat_completeness auto

termination
  by (relation "measure length") auto

declare constExprReferencesGlobal_loop.simps [simp del]

definition constExprReferencesGlobal :: "ConstantExpression \<Rightarrow> bool" where
  "constExprReferencesGlobal e = constExprReferencesGlobal_loop (ce_Data e)"

definition NewConstantExpressionFromOpcode :: "byte \<Rightarrow> byte list \<Rightarrow> ConstantExpression" where
  "NewConstantExpressionFromOpcode opcode opData =
     (let data = [];
          data = (if opcode = OpcodeVecV128Const then data @ [OpcodeVecPrefix] else data);
          data = data @ [opcode];
          data = data @ opData;
          data = data @ [OpcodeEnd]
      in \<lparr>ce_Data = data\<rparr>)"

definition NewConstantExpressionFromI32 :: "i32 \<Rightarrow> ConstantExpression" where
  "NewConstantExpressionFromI32 val = NewConstantExpressionFromOpcode OpcodeI32Const (EncodeInt32 val)"

definition NewConstantExpressionFromI64 :: "i64 \<Rightarrow> ConstantExpression" where
  "NewConstantExpressionFromI64 val = NewConstantExpressionFromOpcode OpcodeI64Const (EncodeInt64 val)"

section \<open>Shape of the stacks\<close>

text \<open>A v128 takes two stack words, every other type one.\<close>

definition slots :: "ValueType \<Rightarrow> nat" where
  "slots t = (if t = ValueTypeV128 then 2 else 1)"

abbreviation stacks_agree :: "u64 list \<Rightarrow> ValueType list \<Rightarrow> bool" where
  "stacks_agree stack typeStack \<equiv> length stack = sum_list (map slots typeStack)"

lemma slots_num [simp]: "slots ValueTypeI32 = 1" "slots ValueTypeI64 = 1" "slots ValueTypeF32 = 1"
  "slots ValueTypeF64 = 1" "slots ValueTypeFuncref = 1" "slots ValueTypeExternref = 1"
  "slots ValueTypeExnref = 1" "slots ValueTypeV128 = 2"
  by (simp_all add: slots_def)

lemma slots_other [simp]: "t \<noteq> ValueTypeV128 \<Longrightarrow> slots t = 1"
  by (simp add: slots_def)

lemma slots_ConcreteRef [simp]: "slots (ValueTypeConcreteRef i b) = 1"
proof -
  have "bit (ValueTypeConcreteRef i b) 9" by (simp add: ValueTypeConcreteRef_def Let_def bit_simps)
  then have "ValueTypeConcreteRef i b \<noteq> ValueTypeV128" by (auto simp del: bit_0_eq)
  then show ?thesis by (simp add: slots_def)
qed

definition step_agrees :: "const_step \<Rightarrow> bool" where
  "step_agrees r = (case r of Continue n s ts \<Rightarrow> stacks_agree s ts | Finish s t \<Rightarrow> length s = slots t)"

lemma step_agrees_simps [simp]:
  "step_agrees (Continue n s ts) = stacks_agree s ts" "step_agrees (Finish s t) = (length s = slots t)"
  by (simp_all add: step_agrees_def)

lemma constBinop_agrees:
  assumes "stacks_agree stack ts" and "slots vt = 1"
  shows "holds step_agrees (constBinop nm vt f stack ts)"
proof (cases ts rule: rev_cases)
  case (snoc us v1)
  then show ?thesis using assms
    by (cases us rule: rev_cases) (auto simp: constBinop_def index_def nth_append)
qed (simp add: constBinop_def)

lemma holds_safe: "(\<And>i. \<not> panics (g i)) \<Longrightarrow> (\<And>a. P a) \<Longrightarrow> holds P (g i)"
  by (rule holds_of_not_panics)

lemma constStep_agrees:
  assumes g: "\<And>i. \<not> panics (g i)" and f: "\<And>i. \<not> panics (f i)"
    and v: "opCode = OpcodeVecPrefix \<Longrightarrow> data \<noteq> []" and s: "stacks_agree stack ts"
  shows "holds step_agrees (constStep g f opCode data stack ts)"
  unfolding constStep_def holds_if
  using v s
  by (auto simp: wp Let_def split: list.splits
      intro!: wpI constBinop_agrees holds_safe [OF g] holds_safe [OF f])

lemma evaluateConstExpr_loop_agrees:
  assumes g: "\<And>i. \<not> panics (g i)" and f: "\<And>i. \<not> panics (f i)"
  shows "stacks_agree stack ts \<Longrightarrow> data = [] \<or> last data \<noteq> OpcodeVecPrefix \<Longrightarrow>
         holds (\<lambda>(s, t). length s = slots t) (evaluateConstExpr_loop g f data stack ts)"
proof (induction data arbitrary: stack ts rule: length_induct)
  case (1 data)
  show ?case
  proof (cases data)
    case (Cons opCode data')
    have step: "holds step_agrees (constStep g f opCode data' stack ts)"
      by (rule constStep_agrees [OF g f]) (use 1 Cons in auto)
    have "holds (\<lambda>(s, t). length s = slots t) (evaluateConstExpr_loop g f (drop n data') s ts')"
      if "stacks_agree s ts'" for n s ts'
    proof -
      have "drop n data' = [] \<or> last (drop n data') \<noteq> OpcodeVecPrefix"
        using 1(3) Cons by (cases "drop n data' = []") (auto split: if_splits)
      moreover have "length (drop n data') < length data" using Cons by simp
      ultimately show ?thesis using 1(1) that by blast
    qed
    then show ?thesis
      using step unfolding Cons evaluateConstExpr_loop.simps [of g f "_ # _"] list.simps
      by (auto split: outcome.splits const_step.splits)
  qed (simp add: evaluateConstExpr_loop.simps)
qed

section \<open>Independence of the resolvers\<close>

lemma constStep_resolver_free:
  "opCode \<notin> {OpcodeGlobalGet, OpcodeRefFunc} \<Longrightarrow>
     constStep g f opCode data stack ts = constStep g' f' opCode data stack ts"
  by (simp add: constStep_def)

lemma constBinop_Continue: "constBinop nm vt h stack ts = Ok r \<Longrightarrow> \<exists>s ts'. r = Continue 0 s ts'"
  by (auto simp: constBinop_def bindO_Ok_iff split: if_splits)

lemma evaluateConstExpr_loop_independent:
  "\<not> constExprReferencesGlobal_loop data \<Longrightarrow>
     evaluateConstExpr_loop g f data stack ts = evaluateConstExpr_loop g' f' data stack ts"
proof (induction data arbitrary: stack ts rule: length_induct)
  case (1 data)
  show ?case
  proof (cases data)
    case (Cons opc data')
    have nr: "\<not> constExprReferencesGlobal_loop (opc # data')" using 1 Cons by simp
    have free: "constStep g f opc data' stack ts = constStep g' f' opc data' stack ts"
      by (rule constStep_resolver_free)
        (use nr in \<open>auto simp: constExprReferencesGlobal_loop.simps [of "_ # _"]\<close>)
    have rest: "evaluateConstExpr_loop g f (drop n data') s ts' = evaluateConstExpr_loop g' f' (drop n data') s ts'"
      if "constStep g' f' opc data' stack ts = Ok (Continue n s ts')" for n s ts'
    proof -
      have "\<not> constExprReferencesGlobal_loop (drop n data')"
        using nr that
        by (auto simp: constExprReferencesGlobal_loop.simps [of "_ # _"] constStep_def bindO_Ok_iff
            split: if_splits outcome.splits list.splits dest!: constBinop_Continue)
      then show ?thesis using 1(1) Cons by (simp add: less_Suc_eq_le)
    qed
    show ?thesis
      unfolding Cons evaluateConstExpr_loop.simps [of _ _ "_ # _"] list.simps free
      using rest by (auto split: outcome.splits const_step.splits)
  qed (simp add: evaluateConstExpr_loop.simps)
qed

section \<open>Integer expressions\<close>

text \<open>
  The integer expressions a module can use for an offset or an initial value, as a tree, with the
  code a compiler emits for them and their value: the evaluator computes that value.
\<close>

datatype arith = Add | Sub | Mul

datatype int_expr =
    Const32 i32
  | Const64 i64
  | GlobalGet Index
  | Arith32 arith int_expr int_expr
  | Arith64 arith int_expr int_expr

fun arith_op :: "arith \<Rightarrow> 'a::len word \<Rightarrow> 'a word \<Rightarrow> 'a word" where
  "arith_op Add a b = a + b"
| "arith_op Sub a b = a - b"
| "arith_op Mul a b = a * b"

fun emit :: "int_expr \<Rightarrow> byte list" where
  "emit (Const32 v) = OpcodeI32Const # EncodeInt32 v"
| "emit (Const64 v) = OpcodeI64Const # EncodeInt64 v"
| "emit (GlobalGet i) = OpcodeGlobalGet # EncodeUint32 i"
| "emit (Arith32 opn a b) = emit a @ emit b @
     [case opn of Add \<Rightarrow> OpcodeI32Add | Sub \<Rightarrow> OpcodeI32Sub | Mul \<Rightarrow> OpcodeI32Mul]"
| "emit (Arith64 opn a b) = emit a @ emit b @
     [case opn of Add \<Rightarrow> OpcodeI64Add | Sub \<Rightarrow> OpcodeI64Sub | Mul \<Rightarrow> OpcodeI64Mul]"

text \<open>The type and value of an expression under a valuation of the globals, \<open>None\<close> if ill-typed.\<close>

fun int_value :: "(Index \<Rightarrow> (ValueType \<times> u64) option) \<Rightarrow> int_expr \<Rightarrow> (ValueType \<times> u64) option" where
  "int_value G (Const32 v) = Some (ValueTypeI32, ucast v)"
| "int_value G (Const64 v) = Some (ValueTypeI64, v)"
| "int_value G (GlobalGet i) = G i"
| "int_value G (Arith32 opn a b) =
     (case (int_value G a, int_value G b) of
        (Some (t, x), Some (t', y)) \<Rightarrow>
          if t = ValueTypeI32 \<and> t' = ValueTypeI32
          then Some (ValueTypeI32, ucast (arith_op opn (ucast x) (ucast y :: u32))) else None
      | _ \<Rightarrow> None)"
| "int_value G (Arith64 opn a b) =
     (case (int_value G a, int_value G b) of
        (Some (t, x), Some (t', y)) \<Rightarrow>
          if t = ValueTypeI64 \<and> t' = ValueTypeI64
          then Some (ValueTypeI64, arith_op opn x y) else None
      | _ \<Rightarrow> None)"

definition resolves :: "(Index \<Rightarrow> (ValueType \<times> u64) option) \<Rightarrow> global_resolver \<Rightarrow> bool" where
  "resolves G g \<longleftrightarrow>
     (\<forall>i t v. G i = Some (t, v) \<longrightarrow> t \<noteq> ValueTypeV128 \<and> (\<exists>hi. g i = Ok (t, v, hi)))"

lemma evaluateConstExpr_loop_emit:
  assumes "resolves G g"
  shows "int_value G e = Some (t, v) \<Longrightarrow>
     evaluateConstExpr_loop g f (emit e @ rs) stack ts = evaluateConstExpr_loop g f rs (stack @ [v]) (ts @ [t])"
proof (induction e arbitrary: t v rs stack ts)
  case (Arith32 opn a b)
  then obtain x y where "int_value G a = Some (ValueTypeI32, x)" "int_value G b = Some (ValueTypeI32, y)"
    "t = ValueTypeI32" "v = ucast (arith_op opn (ucast x) (ucast y :: u32))"
    by (auto split: option.splits if_splits)
  then show ?case
    by (cases opn) (simp_all add: Arith32.IH evaluateConstExpr_loop.simps [of g f "_ # _"] constStep_def
        constBinop_def index_def nth_append)
next
  case (Arith64 opn a b)
  then obtain x y where "int_value G a = Some (ValueTypeI64, x)" "int_value G b = Some (ValueTypeI64, y)"
    "t = ValueTypeI64" "v = arith_op opn x y"
    by (auto split: option.splits if_splits)
  then show ?case
    by (cases opn) (simp_all add: Arith64.IH evaluateConstExpr_loop.simps [of g f "_ # _"] constStep_def
        constBinop_def index_def nth_append)
next
  case (GlobalGet i)
  then obtain hi where "g i = Ok (t, v, hi)" "t \<noteq> ValueTypeV128" using assms by (fastforce simp: resolves_def)
  then show ?case
    by (simp add: evaluateConstExpr_loop.simps [of g f "_ # _"] constStep_def u32.dec_enc)
qed (auto simp: evaluateConstExpr_loop.simps [of g f "_ # _"] constStep_def i32.dec_enc i64.dec_enc)

section \<open>Properties\<close>

text \<open>
  C21 (evaluation of constant expressions). The evaluator computes the value and type of every
  well-typed integer expression: constants, \<open>global.get\<close> and wrapping arithmetic, nested to any
  depth.
\<close>

theorem evaluateConstExpr_correct:
  assumes "resolves G g" and "int_value G e = Some (t, v)"
  shows "evaluateConstExpr \<lparr>ce_Data = emit e @ [OpcodeEnd]\<rparr> g f = Ok ([v], t)"
  by (simp add: evaluateConstExpr_def evaluateConstExpr_loop_emit [OF assms]
      evaluateConstExpr_loop.simps [of g f "_ # _"] constStep_def)

theorem evaluateConstExpr_correct_witness:
  "evaluateConstExpr
     \<lparr>ce_Data = emit (Arith32 Add (GlobalGet 0) (Arith32 Mul (Const32 2) (Const32 3))) @ [OpcodeEnd]\<rparr>
     (\<lambda>_. Ok (ValueTypeI32, 1, 0)) (\<lambda>_. Ok 0) = Ok ([7], ValueTypeI32)"
  by (rule evaluateConstExpr_correct [where G = "\<lambda>_. Some (ValueTypeI32, 1)"]) (simp_all add: resolves_def)

text \<open>
  C28 (safety of constant evaluation). If the resolvers do not panic and the bytes do not end in the
  vector prefix \<open>0xfd\<close>, evaluation does not panic on any byte string, and a value it returns has two
  words exactly if its type is v128.
\<close>

theorem evaluateConstExpr_safe:
  assumes "\<And>i. \<not> panics (g i)" and "\<And>i. \<not> panics (f i)"
    and "ce_Data e = [] \<or> last (ce_Data e) \<noteq> OpcodeVecPrefix"
  shows "\<not> panics (evaluateConstExpr e g f) \<and>
         (case evaluateConstExpr e g f of
            Ok (ws, t) \<Rightarrow> length ws = (if t = ValueTypeV128 then 2 else 1) | _ \<Rightarrow> True)"
proof -
  have "holds (\<lambda>(ws, t). length ws = slots t) (evaluateConstExpr e g f)"
    unfolding evaluateConstExpr_def by (rule evaluateConstExpr_loop_agrees) (use assms in auto)
  then show ?thesis by (cases "evaluateConstExpr e g f") (auto simp: slots_def)
qed

theorem evaluateConstExpr_safe_witness:
  "\<not> panics (evaluateConstExpr \<lparr>ce_Data = [OpcodeVecPrefix, OpcodeVecV128Const, 1]\<rparr>
               (\<lambda>_. Ok (ValueTypeI32, 1, 0)) (\<lambda>_. Ok 0))"
  using evaluateConstExpr_safe [of "\<lambda>_. Ok (ValueTypeI32, 1, 0)" "\<lambda>_. Ok 0"
      "\<lparr>ce_Data = [OpcodeVecPrefix, OpcodeVecV128Const, 1]\<rparr>"]
  by simp

text \<open>
  Truncated vector constant. The condition on the last byte is needed: the case of the vector
  prefix reads the next byte without checking that there is one, and panics.
\<close>

theorem evaluateConstExpr_vec_prefix_panics:
  "panics (evaluateConstExpr \<lparr>ce_Data = [OpcodeVecPrefix]\<rparr> g f)"
  by (simp add: evaluateConstExpr_def evaluateConstExpr_loop.simps [of g f "_ # _"] constStep_def index_def)

text \<open>
  Import independence. An expression for which \<^verbatim>\<open>constExprReferencesGlobal\<close> answers false
  evaluates to the same result, and without a panic, whatever the globals and functions of the
  module are.
\<close>

theorem constExprReferencesGlobal_sound:
  assumes "\<not> constExprReferencesGlobal e"
  shows "evaluateConstExpr e g f = evaluateConstExpr e g' f'"
  using assms unfolding constExprReferencesGlobal_def evaluateConstExpr_def
  by (rule evaluateConstExpr_loop_independent)

theorem constExprReferencesGlobal_sound_witness:
  "evaluateConstExpr \<lparr>ce_Data = [OpcodeI32Const, 3, OpcodeEnd]\<rparr> (\<lambda>_. Err EOF) (\<lambda>_. Err EOF) =
   evaluateConstExpr \<lparr>ce_Data = [OpcodeI32Const, 3, OpcodeEnd]\<rparr> (\<lambda>_. Panic []) (\<lambda>_. Panic [])"
  by (rule constExprReferencesGlobal_sound)
    (simp add: constExprReferencesGlobal_def constExprReferencesGlobal_loop.simps LoadInt32_def
      decodeInt32_def maxVarintLen32_def)

text \<open>
  Constants. The expressions built by \<^verbatim>\<open>NewConstantExpressionFromI32\<close> and
  \<^verbatim>\<open>NewConstantExpressionFromI64\<close> evaluate to the constant they were built from, and do not refer
  to a global.
\<close>

theorem NewConstantExpression_roundtrip:
  "evaluateConstExpr (NewConstantExpressionFromI32 a) g f = Ok ([ucast a], ValueTypeI32) \<and>
   evaluateConstExpr (NewConstantExpressionFromI64 b) g f = Ok ([b], ValueTypeI64) \<and>
   \<not> constExprReferencesGlobal (NewConstantExpressionFromI32 a) \<and>
   \<not> constExprReferencesGlobal (NewConstantExpressionFromI64 b)"
  by (simp add: NewConstantExpressionFromI32_def NewConstantExpressionFromI64_def
      NewConstantExpressionFromOpcode_def evaluateConstExpr_def constExprReferencesGlobal_def
      evaluateConstExpr_loop.simps [of g f "_ # _"] constExprReferencesGlobal_loop.simps [of "_ # _"]
      constStep_def i32.dec_enc i64.dec_enc)

end
