(* ===== verification/BinaryTypes.thy ===== *)
theory BinaryTypes
  imports Leb128 ConstExpr MemoryInstance
begin

text \<open>
  The decoders of the parts of a section: value types, names, limits, memories, tables, globals,
  function types, constant expressions, imports and exports (\<^verbatim>\<open>internal/wasm/binary\<close>, one file
  each). A decoder maps the reader to the decoded value and the reader after it. An error formatted
  with \<^verbatim>\<open>%w\<close> is \<open>Wrapf\<close>, one formatted with \<^verbatim>\<open>%v\<close> keeps no cause and is \<open>Errorf\<close>.
\<close>

section \<open>Names\<close>

text \<open>\<^verbatim>\<open>utf8.Valid\<close> of the standard library.\<close>

definition cont :: "byte \<Rightarrow> byte \<Rightarrow> byte \<Rightarrow> bool" where
  "cont lo hi b \<longleftrightarrow> lo \<le> b \<and> b \<le> hi"

fun utf8_Valid :: "byte list \<Rightarrow> bool" where
  "utf8_Valid [] = True"
| "utf8_Valid (b0 # bs) =
     (if b0 < 0x80 then utf8_Valid bs
      else if cont 0xc2 0xdf b0 then
        (case bs of b1 # bs' \<Rightarrow> cont 0x80 0xbf b1 \<and> utf8_Valid bs' | _ \<Rightarrow> False)
      else if cont 0xe0 0xef b0 then
        (case bs of
           b1 # b2 # bs' \<Rightarrow>
             cont (if b0 = 0xe0 then 0xa0 else 0x80) (if b0 = 0xed then 0x9f else 0xbf) b1 \<and>
             cont 0x80 0xbf b2 \<and> utf8_Valid bs'
         | _ \<Rightarrow> False)
      else if cont 0xf0 0xf4 b0 then
        (case bs of
           b1 # b2 # b3 # bs' \<Rightarrow>
             cont (if b0 = 0xf0 then 0x90 else 0x80) (if b0 = 0xf4 then 0x8f else 0xbf) b1 \<and>
             cont 0x80 0xbf b2 \<and> cont 0x80 0xbf b3 \<and> utf8_Valid bs'
         | _ \<Rightarrow> False)
      else False)"

definition decodeUTF8 :: "string \<Rightarrow> reader \<Rightarrow> ((byte list \<times> u32) \<times> reader) outcome" where
  "decodeUTF8 context r =
     bindO (mapErr (Wrapf (''failed to read '' @ context @ '' size'')) (DecodeUint32 r)) (\<lambda>(size, sizeOfSize, r).
     if size = 0 then Ok (([], of_nat sizeOfSize), r)
     else
       bindO (mapErr (Wrapf (''failed to read '' @ context)) (ReadFull (unat size) r)) (\<lambda>(buf, r).
       if \<not> utf8_Valid buf then Err (Errorf (context @ '' is not valid UTF-8''))
       else Ok ((buf, size + of_nat sizeOfSize), r)))"

section \<open>Value types\<close>

definition decodeRefType :: "bool \<Rightarrow> reader \<Rightarrow> (ValueType \<times> reader) outcome" where
  "decodeRefType nullable r =
     bindO (mapErr (Wrapf ''read ref heap type'') (DecodeInt33AsInt64 r)) (\<lambda>(ht, _, r).
     bindO
       (if ht = HeapTypeFunc then Ok ValueTypeFuncref
        else if ht = HeapTypeExtern then Ok ValueTypeExternref
        else if ht = HeapTypeExn then Ok ValueTypeExnref
        else if ht <s 0 then Err (Errorf ''unknown abstract heap type: %d'')
        else Ok (ValueTypeConcreteRef (ucast ht) nullable)) (\<lambda>vt.
     Ok (if \<not> nullable then AsNonNullable vt else vt, r)))"

definition decodeValueType :: "CoreFeatures \<Rightarrow> reader \<Rightarrow> (ValueType \<times> reader) outcome" where
  "decodeValueType enabledFeatures r =
     bindO (ReadByte r) (\<lambda>(b, r).
     if b \<in> {Kind ValueTypeI32, Kind ValueTypeF32, Kind ValueTypeI64, Kind ValueTypeF64,
             Kind ValueTypeExternref, Kind ValueTypeFuncref, Kind ValueTypeV128, Kind ValueTypeExnref}
     then Ok (ucast b, r)
     else if b = RefPrefixNullable \<or> b = RefPrefixNonNullable then
       bindO (mapErr (\<lambda>_. Errorf ''concrete reference type invalid as %v'')
                (RequireEnabled enabledFeatures CoreFeaturesTypedFunctionReferences)) (\<lambda>_.
       decodeRefType (b = RefPrefixNullable) r)
     else Err (Errorf ''invalid value type: %d''))"

definition decodeValueTypes :: "u32 \<Rightarrow> CoreFeatures \<Rightarrow> reader \<Rightarrow> (ValueType list \<times> reader) outcome" where
  "decodeValueTypes num enabledFeatures r = decodeN (unat num) (decodeValueType enabledFeatures) r"

section \<open>Limits and memories\<close>

definition decodeLimitsType :: "reader \<Rightarrow> ((u32 \<times> u32 option \<times> bool) \<times> reader) outcome" where
  "decodeLimitsType r =
     bindO (mapErr (\<lambda>_. Errorf ''read leading byte: %v'') (ReadByte r)) (\<lambda>(flag, r).
     let shared = (flag = 0x02 \<or> flag = 0x03) in
     if flag = 0x00 \<or> flag = 0x02 then
       bindO (mapErr (\<lambda>_. Errorf ''read min of limit: %v'') (DecodeUint32 r)) (\<lambda>(min, _, r).
         Ok ((min, None, shared), r))
     else if flag = 0x01 \<or> flag = 0x03 then
       bindO (mapErr (\<lambda>_. Errorf ''read min of limit: %v'') (DecodeUint32 r)) (\<lambda>(min, _, r).
       bindO (mapErr (\<lambda>_. Errorf ''read max of limit: %v'') (DecodeUint32 r)) (\<lambda>(m, _, r).
         Ok ((min, Some m, shared), r)))
     else Err (Errorf ''%v for limits: %#x not in (0x00, 0x01, 0x02, 0x03)''))"

text \<open>\<^verbatim>\<open>Memory.Validate\<close> of \<^verbatim>\<open>internal/wasm/module.go\<close>.\<close>

definition Memory_Validate :: "Memory \<Rightarrow> u32 \<Rightarrow> unit outcome" where
  "Memory_Validate m memoryLimitPages =
     (let min = mem_Min m; capacity = mem_Cap m; max = mem_Max m in
      if max > memoryLimitPages then Err (Errorf ''max %d pages (%s) over limit of %d pages (%s)'')
      else if min > memoryLimitPages then Err (Errorf ''min %d pages (%s) over limit of %d pages (%s)'')
      else if min > max then Err (Errorf ''min %d pages (%s) > max %d pages (%s)'')
      else if capacity < min then Err (Errorf ''capacity %d pages (%s) less than minimum %d pages (%s)'')
      else if capacity > memoryLimitPages then Err (Errorf ''capacity %d pages (%s) over limit of %d pages (%s)'')
      else Ok ())"

type_synonym memorySizer = "u32 \<Rightarrow> u32 option \<Rightarrow> u32 \<times> u32 \<times> u32"

definition newMemorySizer :: "u32 \<Rightarrow> bool \<Rightarrow> memorySizer" where
  "newMemorySizer memoryLimitPages memoryCapacityFromMax = (\<lambda>minPages maxPages.
     case maxPages of
       Some maxP \<Rightarrow>
         (if memoryCapacityFromMax then (minPages, maxP, maxP)
          else if maxP > MemoryLimitPages then (minPages, minPages, maxP)
          else if maxP > memoryLimitPages then (minPages, minPages, memoryLimitPages)
          else (minPages, minPages, maxP))
     | None \<Rightarrow>
         (if memoryCapacityFromMax then (minPages, memoryLimitPages, memoryLimitPages)
          else (minPages, minPages, memoryLimitPages)))"

definition decodeMemory ::
    "CoreFeatures \<Rightarrow> memorySizer \<Rightarrow> u32 \<Rightarrow> reader \<Rightarrow> (Memory \<times> reader) outcome" where
  "decodeMemory enabledFeatures memorySizer memoryLimitPages r =
     bindO (decodeLimitsType r) (\<lambda>((min, maxP, shared), r).
     bindO (require (\<not> (shared \<and> \<not> IsEnabled enabledFeatures CoreFeaturesThreads))
              (Errorf ''shared memory requested but threads feature not enabled'')) (\<lambda>_.
     bindO (require (\<not> (shared \<and> maxP = None))
              (Errorf ''shared memory requires a maximum size to be specified'')) (\<lambda>_.
     let (min, capacity, max) = memorySizer min maxP;
         mem = \<lparr>mem_Min = min, mem_Cap = capacity, mem_Max = max, mem_IsMaxEncoded = maxP \<noteq> None,
                mem_IsShared = shared\<rparr>
     in bindO (Memory_Validate mem memoryLimitPages) (\<lambda>_. Ok (mem, r)))))"

section \<open>Constant expressions\<close>

text \<open>A float is its bit pattern (\<^verbatim>\<open>internal/ieee754/ieee754.go\<close>).\<close>

definition DecodeFloat32 :: "byte list \<Rightarrow> u32 outcome" where
  "DecodeFloat32 buf = (if length buf < 4 then Err ErrUnexpectedEOF else Ok (le_get (take 4 buf)))"

definition DecodeFloat64 :: "byte list \<Rightarrow> u64 outcome" where
  "DecodeFloat64 buf = (if length buf < 8 then Err ErrUnexpectedEOF else Ok (le_get (take 8 buf)))"

abbreviation readValue :: "'a outcome \<Rightarrow> 'a outcome" where
  "readValue \<equiv> mapErr (\<lambda>_. Errorf ''read value: %v'')"

text \<open>
  One round of the loop of \<^verbatim>\<open>decodeConstantExpression\<close>: the reader after the operands, and whether
  the opcode was \<open>end\<close>.
\<close>

definition decodeConst_op :: "CoreFeatures \<Rightarrow> reader \<Rightarrow> (bool \<times> reader) outcome" where
  "decodeConst_op enabledFeatures r =
     (bindO (mapErr (\<lambda>_. Errorf ''read const expression opcode: %v'') (ReadByte r)) (\<lambda>(opcode, r).
      if opcode = OpcodeI32Const then
        bindO (readValue (DecodeInt32 r)) (\<lambda>(_, _, r). Ok (False, r))
      else if opcode \<in> {OpcodeI32Add, OpcodeI32Sub, OpcodeI32Mul} then
        bindO (require (IsEnabled enabledFeatures CoreFeaturesExtendedConst)
          (Errorf ''%v is not supported in a constant expression as feature extended-const is disabled''))
          (\<lambda>_. Ok (False, r))
      else if opcode = OpcodeI64Const then
        bindO (readValue (DecodeInt64 r)) (\<lambda>(_, _, r). Ok (False, r))
      else if opcode \<in> {OpcodeI64Add, OpcodeI64Sub, OpcodeI64Mul} then
        bindO (require (IsEnabled enabledFeatures CoreFeaturesExtendedConst)
          (Errorf ''%v is not supported in a constant expression as feature extended-const is disabled''))
          (\<lambda>_. Ok (False, r))
      else if opcode = OpcodeF32Const then
        bindO (mapErr (\<lambda>_. Errorf ''read f32 constant: %v'') (ReadFull 4 r)) (\<lambda>(buf, r).
        bindO (readValue (DecodeFloat32 buf)) (\<lambda>_. Ok (False, r)))
      else if opcode = OpcodeF64Const then
        bindO (mapErr (\<lambda>_. Errorf ''read f64 constant: %v'') (ReadFull 8 r)) (\<lambda>(buf, r).
        bindO (readValue (DecodeFloat64 buf)) (\<lambda>_. Ok (False, r)))
      else if opcode = OpcodeGlobalGet then
        bindO (readValue (DecodeUint32 r)) (\<lambda>(_, _, r). Ok (False, r))
      else if opcode = OpcodeRefNull then
        bindO (mapErr (Wrapf ''ref.null is not supported as'')
                 (RequireEnabled enabledFeatures CoreFeatureBulkMemoryOperations)) (\<lambda>_.
        bindO (mapErr (Wrapf ''read reference type for ref.null'') (ReadByte r)) (\<lambda>(b, r).
        let reftype = ucast b in
        if reftype \<in> {RefTypeFuncref, RefTypeExternref, ValueTypeExnref} then Ok (False, r)
        else
          bindO (mapErr (Wrapf ''unread byte for ref.null'') (UnreadByte r)) (\<lambda>r.
          bindO (mapErr (\<lambda>_. Errorf ''invalid type for ref.null: 0x%x'') (DecodeUint32 r)) (\<lambda>(_, _, r).
            Ok (False, r)))))
      else if opcode = OpcodeRefFunc then
        bindO (mapErr (Wrapf ''ref.func is not supported as'')
                 (RequireEnabled enabledFeatures CoreFeatureBulkMemoryOperations)) (\<lambda>_.
        bindO (readValue (DecodeUint32 r)) (\<lambda>(_, _, r). Ok (False, r)))
      else if opcode = OpcodeVecPrefix then
        bindO (mapErr (Wrapf ''vector instructions are not supported as'')
                 (RequireEnabled enabledFeatures CoreFeatureSIMD)) (\<lambda>_.
        bindO (mapErr (Wrapf ''read vector instruction opcode suffix'') (ReadByte r)) (\<lambda>(opcode, r).
        if opcode \<noteq> OpcodeVecV128Const then Err (Errorf ''invalid vector opcode for const expression: %#x'')
        else
          bindO (mapErr (Wrapf ''read vector const instruction immediates'') (Read 16 r)) (\<lambda>(_, n, r).
          if n \<noteq> 16
          then Err (Errorf ''read vector const instruction immediates: needs 16 bytes but was %d bytes'')
          else Ok (False, r))))
      else if opcode = OpcodeEnd then Ok (True, r)
      else Err (Errorf ''%v for const expression op code: %#x'')))"

lemma holds_DecodeFloat [wpI]:
  "(\<And>x. P x) \<Longrightarrow> holds P (DecodeFloat32 buf)" "(\<And>y. Q y) \<Longrightarrow> holds Q (DecodeFloat64 buf)"
  by (simp_all add: DecodeFloat32_def DecodeFloat64_def)

lemma decodeConst_op_consumes: "holds (consumes r) (decodeConst_op enabledFeatures r)"
  unfolding decodeConst_op_def by (auto simp: wp Let_def intro!: wpI; arith)

function decodeConst_loop :: "CoreFeatures \<Rightarrow> reader \<Rightarrow> reader outcome" where
  "decodeConst_loop enabledFeatures r =
     bindO (decodeConst_op enabledFeatures r) (\<lambda>(ended, r').
       if ended then Ok r' else decodeConst_loop enabledFeatures r')"
  by pat_completeness auto

termination
  by (relation "measure (\<lambda>(_, r). Len r)")
    (auto dest: holds_OkD [OF decodeConst_op_consumes] intro: consumes_Len)

declare decodeConst_loop.simps [simp del]

definition decodeConstantExpression :: "CoreFeatures \<Rightarrow> reader \<Rightarrow> (ConstantExpression \<times> reader) outcome" where
  "decodeConstantExpression enabledFeatures r =
     (let lenAtStart = Len r; startPos = Size r - lenAtStart in
      bindO (decodeConst_loop enabledFeatures r) (\<lambda>r.
      bindO (mapErr (Wrapf ''error re-buffering ConstantExpression.Data'') (ReadAt (lenAtStart - Len r) startPos r)) (\<lambda>data.
        Ok (\<lparr>ce_Data = data\<rparr>, r))))"

section \<open>Function types, globals and tables\<close>

definition decodeFunctionType :: "CoreFeatures \<Rightarrow> reader \<Rightarrow> (FunctionType \<times> reader) outcome" where
  "decodeFunctionType enabledFeatures r =
     bindO (mapErr (Wrapf ''read leading byte'') (ReadByte r)) (\<lambda>(b, r).
     if b \<noteq> 0x60 then Err (Wrapf ''%#x != 0x60'' ErrInvalidByte)
     else
       bindO (mapErr (Wrapf ''could not read parameter count'') (DecodeUint32 r)) (\<lambda>(paramCount, _, r).
       bindO (mapErr (Wrapf ''could not read parameter types'') (decodeValueTypes paramCount enabledFeatures r)) (\<lambda>(paramTypes, r).
       bindO (mapErr (Wrapf ''could not read result count'') (DecodeUint32 r)) (\<lambda>(resultCount, _, r).
       bindO (if resultCount > 1
              then mapErr (\<lambda>_. Errorf ''multiple result types invalid as %v'')
                     (RequireEnabled enabledFeatures CoreFeatureMultiValue)
              else Ok ()) (\<lambda>_.
       bindO (mapErr (Wrapf ''could not read result types'') (decodeValueTypes resultCount enabledFeatures r)) (\<lambda>(resultTypes, r).
         Ok (cacheKey \<lparr>ft_Params = paramTypes, ft_Results = resultTypes, ft_ParamNumInUint64 = 0, ft_ResultNumInUint64 = 0,
               ft_RecGroupSize = 0, ft_RecGroupPosition = 0, ft_string = []\<rparr>, r)))))))"

definition decodeGlobalType :: "CoreFeatures \<Rightarrow> reader \<Rightarrow> (GlobalType \<times> reader) outcome" where
  "decodeGlobalType enabledFeatures r =
     bindO (mapErr (Wrapf ''read value type'') (decodeValueTypes 1 enabledFeatures r)) (\<lambda>(vt, r).
     bindO (index vt 0) (\<lambda>valType.
     bindO (mapErr (Wrapf ''read mutablity'') (ReadByte r)) (\<lambda>(m, r).
     if m = 0x00 then Ok (\<lparr>gt_ValType = valType, gt_Mutable = False\<rparr>, r)
     else if m = 0x01 then Ok (\<lparr>gt_ValType = valType, gt_Mutable = True\<rparr>, r)
     else Err (Wrapf ''for mutability: %#x != 0x00 or 0x01'' ErrInvalidByte))))"

definition decodeGlobal :: "CoreFeatures \<Rightarrow> reader \<Rightarrow> (Global \<times> reader) outcome" where
  "decodeGlobal enabledFeatures r =
     bindO (decodeGlobalType enabledFeatures r) (\<lambda>(typ, r).
     bindO (decodeConstantExpression enabledFeatures r) (\<lambda>(init, r).
       Ok (\<lparr>glo_Type = typ, glo_Init = init\<rparr>, r)))"

abbreviation (input) MaximumFunctionIndex :: u32 where "MaximumFunctionIndex \<equiv> 2 ^ 27"

text \<open>The leading bytes of a table: whether it has an initialiser, and the byte of its type.\<close>

definition decodeTable_prefix :: "reader \<Rightarrow> ((bool \<times> byte) \<times> reader) outcome" where
  "decodeTable_prefix r =
     bindO (mapErr (\<lambda>_. Errorf ''read leading byte: %v'') (ReadByte r)) (\<lambda>(b, r).
     if b = 0x40 then
       bindO (mapErr (\<lambda>_. Errorf ''read reserved byte after 0x40: %v'') (ReadByte r)) (\<lambda>(reserved, r).
       if reserved \<noteq> 0x00 then Err (Errorf ''expected 0x00 after 0x40 table prefix, got 0x%02x'')
       else bindO (mapErr (\<lambda>_. Errorf ''read table ref type: %v'') (ReadByte r)) (\<lambda>(b, r). Ok ((True, b), r)))
     else Ok ((False, b), r))"

definition decodeTable :: "CoreFeatures \<Rightarrow> reader \<Rightarrow> (Table \<times> reader) outcome" where
  "decodeTable enabledFeatures r =
     bindO (decodeTable_prefix r) (\<lambda>((hasInitExpr, b), r).
     bindO (if b = RefPrefixNullable \<or> b = RefPrefixNonNullable
            then decodeRefType (b = RefPrefixNullable) r else Ok (ucast b, r)) (\<lambda>(typ, r).
     if \<not> IsRef typ then Err (Errorf ''invalid table element type: %s (0x%x)'')
     else
       bindO (if typ \<noteq> RefTypeFuncref
              then mapErr (Wrapf ''table type funcref is invalid'') (RequireEnabled enabledFeatures CoreFeatureReferenceTypes)
              else Ok ()) (\<lambda>_.
       bindO (mapErr (\<lambda>_. Errorf ''read limits: %v'') (decodeLimitsType r)) (\<lambda>((min, max, shared), r).
       if min > MaximumFunctionIndex then Err (Errorf ''table min must be at most %d'')
       else if (case max of Some m \<Rightarrow> m < min | None \<Rightarrow> False)
       then Err (Errorf ''table size minimum must not be greater than maximum'')
       else if shared then Err (Errorf ''tables cannot be marked as shared'')
       else
         bindO (if hasInitExpr
                then bindO (mapErr (\<lambda>_. Errorf ''read table init expr: %v'') (decodeConstantExpression enabledFeatures r))
                       (\<lambda>(e, r). Ok (Some e, r))
                else Ok (None, r)) (\<lambda>(initExpr, r).
         Ok (\<lparr>tab_Min = min, tab_Max = max, tab_Type = typ, tab_InitExpr = initExpr\<rparr>, r))))))"

section \<open>Imports and exports\<close>

definition externTypeOf :: "byte \<Rightarrow> ExternType option" where
  "externTypeOf b =
     (if b = 0 then Some ExternTypeFunc else if b = 1 then Some ExternTypeTable
      else if b = 2 then Some ExternTypeMemory else if b = 3 then Some ExternTypeGlobal
      else if b = 4 then Some ExternTypeTag else None)"

definition emptyTable :: Table where
  "emptyTable = \<lparr>tab_Min = 0, tab_Max = None, tab_Type = 0, tab_InitExpr = None\<rparr>"

definition decodeImport ::
    "memorySizer \<Rightarrow> u32 \<Rightarrow> CoreFeatures \<Rightarrow> reader \<Rightarrow> (Import \<times> reader) outcome" where
  "decodeImport memorySizer memoryLimitPages enabledFeatures r =
     bindO (mapErr (Wrapf ''import[%d] error decoding module'') (decodeUTF8 ''import module'' r)) (\<lambda>((modl, _), r).
     bindO (mapErr (Wrapf ''import[%d] error decoding name'') (decodeUTF8 ''import name'' r)) (\<lambda>((name, _), r).
     bindO (mapErr (Wrapf ''import[%d] error decoding type'') (ReadByte r)) (\<lambda>(b, r).
     let imp = (\<lambda>typ. \<lparr>imp_Type = typ, imp_Module = modl, imp_Name = name, imp_DescFunc = 0, imp_DescTable = emptyTable,
                        imp_DescMem = None, imp_DescGlobal = \<lparr>gt_ValType = 0, gt_Mutable = False\<rparr>, imp_DescTag = 0,
                        imp_IndexPerType = 0\<rparr>) in
     mapErr (Wrapf ''import[%d] %s[%s.%s]'')
       (case externTypeOf b of
          Some ExternTypeFunc \<Rightarrow>
            bindO (DecodeUint32 r) (\<lambda>(idx, _, r). Ok ((imp ExternTypeFunc)\<lparr>imp_DescFunc := idx\<rparr>, r))
        | Some ExternTypeTable \<Rightarrow>
            bindO (decodeTable enabledFeatures r) (\<lambda>(t, r). Ok ((imp ExternTypeTable)\<lparr>imp_DescTable := t\<rparr>, r))
        | Some ExternTypeMemory \<Rightarrow>
            bindO (decodeMemory enabledFeatures memorySizer memoryLimitPages r) (\<lambda>(m, r).
              Ok ((imp ExternTypeMemory)\<lparr>imp_DescMem := Some m\<rparr>, r))
        | Some ExternTypeGlobal \<Rightarrow>
            bindO (decodeGlobalType enabledFeatures r) (\<lambda>(g, r). Ok ((imp ExternTypeGlobal)\<lparr>imp_DescGlobal := g\<rparr>, r))
        | Some ExternTypeTag \<Rightarrow>
            bindO (mapErr (Wrapf ''tag imports require exception handling feature'')
                     (RequireEnabled enabledFeatures (push_bit 4 CoreFeatureSIMD))) (\<lambda>_.
            bindO (ReadByte r) (\<lambda>(attr, r).
            if attr \<noteq> 0x00 then Err (Errorf ''invalid tag attribute: %#x'')
            else bindO (DecodeUint32 r) (\<lambda>(idx, _, r). Ok ((imp ExternTypeTag)\<lparr>imp_DescTag := idx\<rparr>, r))))
        | None \<Rightarrow> Err (Wrapf ''invalid byte for importdesc: %#x'' ErrInvalidByte)))))"

definition decodeExport :: "reader \<Rightarrow> (Export \<times> reader) outcome" where
  "decodeExport r =
     bindO (decodeUTF8 ''export name'' r) (\<lambda>((name, _), r).
     bindO (mapErr (Wrapf ''error decoding export kind'') (ReadByte r)) (\<lambda>(b, r).
     case externTypeOf b of
       Some typ \<Rightarrow>
         bindO (mapErr (Wrapf ''error decoding export index'') (DecodeUint32 r)) (\<lambda>(idx, _, r).
           Ok (\<lparr>exp_Type = typ, exp_Name = name, exp_Index = idx\<rparr>, r))
     | None \<Rightarrow> Err (Wrapf ''invalid byte for exportdesc: %#x'' ErrInvalidByte)))"

section \<open>Decoders move forward\<close>

lemma decodeUTF8_consumes: "holds (consumes r) (decodeUTF8 c r)"
  unfolding decodeUTF8_def by (auto simp: wp intro!: wpI; arith)

lemma decodeRefType_consumes: "holds (consumes r) (decodeRefType b r)"
  unfolding decodeRefType_def by (auto simp: wp intro!: wpI)

lemmas BinaryTypes_wpI1 [wpI] = decodeUTF8_consumes [THEN holds_consumesI] decodeRefType_consumes [THEN holds_consumesI]

lemma decodeValueType_consumes: "holds (consumes r) (decodeValueType f r)"
  unfolding decodeValueType_def by (auto simp: wp intro!: wpI; arith)

lemma decodeValueTypes_length:
  "holds (\<lambda>(xs, r'). skips r (xs, r') \<and> length xs = unat n) (decodeValueTypes n f r)"
  unfolding decodeValueTypes_def
  by (rule holds_mono [OF decodeN_holds [where Q = "\<lambda>_. True"]])
    (use decodeValueType_consumes in \<open>auto simp: case_prod_unfold skips_def\<close>)

lemma holds_decodeValueTypes [wpI]:
  "(\<And>xs k. k \<le> Len r \<Longrightarrow> length xs = unat n \<Longrightarrow> P (xs, advance k r)) \<Longrightarrow> holds P (decodeValueTypes n f r)"
  by (rule holds_mono [OF decodeValueTypes_length]) (auto simp: skips_def)

lemma decodeLimitsType_consumes: "holds (consumes r) (decodeLimitsType r)"
  unfolding decodeLimitsType_def by (auto simp: wp Let_def intro!: wpI; arith)

lemmas BinaryTypes_wpI2 [wpI] = decodeLimitsType_consumes [THEN holds_consumesI]

definition wf_memory_type :: "u32 \<Rightarrow> Memory \<Rightarrow> bool" where
  "wf_memory_type lim m \<longleftrightarrow> mem_Min m \<le> mem_Max m \<and> mem_Max m \<le> lim \<and> mem_Min m \<le> mem_Cap m \<and> mem_Cap m \<le> lim \<and>
     (mem_IsShared m \<longrightarrow> mem_IsMaxEncoded m)"

lemma decodeMemory_wf:
  "holds (\<lambda>(m, r'). consumes r (m, r') \<and> wf_memory_type lim m) (decodeMemory f sizer lim r)"
  unfolding decodeMemory_def
  by (auto simp: wp Memory_Validate_def wf_memory_type_def Let_def not_less split: prod.splits intro!: wpI)

lemma decodeConst_op_end:
  "holds (\<lambda>(ended, r'). ended \<longrightarrow> r' = advance 1 r \<and> rest r \<noteq> [] \<and> hd (rest r) = OpcodeEnd)
     (decodeConst_op f r)"
proof (cases "rest r")
  case (Cons b bs)
  then show ?thesis unfolding decodeConst_op_def by (auto simp: wp Let_def intro!: wpI)
qed (simp add: decodeConst_op_def ReadByte_def)

lemma decodeConst_loop_end:
  "holds (\<lambda>r'. \<exists>k. 0 < k \<and> k \<le> Len r \<and> r' = advance k r \<and> rest r ! (k - Suc 0) = OpcodeEnd) (decodeConst_loop f r)"
proof (induction f r rule: decodeConst_loop.induct)
  case (1 f r)
  have op: "holds (\<lambda>(ended, r'). consumes r (ended, r') \<and>
          (ended \<longrightarrow> r' = advance 1 r \<and> rest r \<noteq> [] \<and> hd (rest r) = OpcodeEnd)) (decodeConst_op f r)"
    using holds_conj [OF decodeConst_op_consumes [of r f] decodeConst_op_end [of r f]]
    by (auto simp: case_prod_unfold elim: holds_mono)
  have rec: "holds (\<lambda>r'. \<exists>k. 0 < k \<and> k \<le> Len r \<and> r' = advance k r \<and> rest r ! (k - Suc 0) = OpcodeEnd)
                   (decodeConst_loop f (advance k r))"
    if "decodeConst_op f r = Ok (False, advance k r)" "0 < k" "k \<le> Len r" for k
    by (rule holds_mono [OF 1 [OF that(1)]]) (use that(2,3) in auto)
  show ?case
    unfolding decodeConst_loop.simps [of f r] holds_bindO
    by (rule holds_mono [OF op]) (auto simp: consumes_def hd_conv_nth intro!: rec)
qed

lemma decodeConstantExpression_data:
  "holds (\<lambda>(e, r'). \<exists>k. 0 < k \<and> k \<le> Len r \<and> r' = advance k r \<and> ce_Data e = take k (rest r) \<and> last (ce_Data e) = OpcodeEnd)
     (decodeConstantExpression f r)"
proof -
  have take: "take k (drop (Size r - Len r) (rd_s r)) = take k (rest r)" if "0 < Len r" for k
    using that by (simp add: Size_def Len_def rest_def)
  have last: "last (take k (rest r)) = rest r ! (k - Suc 0)" if "0 < k" "k \<le> Len r" for k
    using that by (subst last_conv_nth) (auto simp flip: length_greater_0_conv)
  show ?thesis
    unfolding decodeConstantExpression_def Let_def holds_bindO
    by (rule holds_mono [OF decodeConst_loop_end]) (auto simp: wp ReadAt_def take last)
qed

text \<open>The expressions that decoding puts into a module end in \<open>end\<close>.\<close>

definition wf_expr :: "ConstantExpression \<Rightarrow> bool" where
  "wf_expr e \<longleftrightarrow> ce_Data e \<noteq> [] \<and> last (ce_Data e) = OpcodeEnd"

lemma holds_decodeConstantExpression [wpI]:
  "(\<And>e k. 0 < k \<Longrightarrow> k \<le> Len r \<Longrightarrow> wf_expr e \<Longrightarrow> P (e, advance k r)) \<Longrightarrow>
   holds P (decodeConstantExpression f r)"
  by (rule holds_mono [OF decodeConstantExpression_data])
    (auto simp: wf_expr_def simp flip: length_greater_0_conv)

lemma decodeFunctionType_wf:
  "holds (\<lambda>(ft, r'). consumes r (ft, r') \<and> ft_RecGroupSize ft = 0 \<and> ft_RecGroupPosition ft = 0 \<and> key_cached ft)
     (decodeFunctionType f r)"
proof -
  have "ft_RecGroupSize (cacheKey ft) = ft_RecGroupSize ft" "ft_RecGroupPosition (cacheKey ft) = ft_RecGroupPosition ft" for ft
    by (simp_all add: cacheKey_def)
  then show ?thesis unfolding decodeFunctionType_def by (auto simp: wp intro!: wpI key_cached_cacheKey; arith)
qed

lemma decodeGlobalType_consumes: "holds (consumes r) (decodeGlobalType f r)"
  unfolding decodeGlobalType_def by (auto simp: wp intro!: wpI; arith)

lemmas BinaryTypes_wpI3 [wpI] = decodeGlobalType_consumes [THEN holds_consumesI]

lemma decodeGlobal_wf: "holds (\<lambda>(g, r'). consumes r (g, r') \<and> wf_expr (glo_Init g)) (decodeGlobal f r)"
  unfolding decodeGlobal_def by (auto simp: wp intro!: wpI; arith)

definition wf_table_type :: "Table \<Rightarrow> bool" where
  "wf_table_type t \<longleftrightarrow> IsRef (tab_Type t) \<and> tab_Min t \<le> MaximumFunctionIndex \<and>
     (case tab_Max t of Some m \<Rightarrow> tab_Min t \<le> m | None \<Rightarrow> True) \<and>
     (case tab_InitExpr t of Some e \<Rightarrow> wf_expr e | None \<Rightarrow> True)"

lemma decodeTable_prefix_consumes: "holds (consumes r) (decodeTable_prefix r)"
  unfolding decodeTable_prefix_def by (auto simp: wp intro!: wpI; arith)

lemmas BinaryTypes_wpI4 [wpI] = decodeTable_prefix_consumes [THEN holds_consumesI]

lemma decodeTable_wf: "holds (\<lambda>(t, r'). consumes r (t, r') \<and> wf_table_type t) (decodeTable f r)"
  unfolding decodeTable_def
  by (auto simp: wp wf_table_type_def not_less not_le split: option.splits intro!: wpI; arith?)

definition wf_import :: "u32 \<Rightarrow> Import \<Rightarrow> bool" where
  "wf_import lim imp \<longleftrightarrow>
     (imp_Type imp = ExternTypeTable \<longrightarrow> wf_table_type (imp_DescTable imp)) \<and>
     (imp_Type imp = ExternTypeMemory \<longrightarrow> (\<exists>m. imp_DescMem imp = Some m \<and> wf_memory_type lim m))"

lemma holds_decodeTable [wpI]:
  "(\<And>t k. 0 < k \<Longrightarrow> k \<le> Len r \<Longrightarrow> wf_table_type t \<Longrightarrow> P (t, advance k r)) \<Longrightarrow> holds P (decodeTable f r)"
  by (rule holds_mono [OF decodeTable_wf]) (auto simp: consumes_def)

lemma holds_decodeMemory [wpI]:
  "(\<And>m k. 0 < k \<Longrightarrow> k \<le> Len r \<Longrightarrow> wf_memory_type lim m \<Longrightarrow> P (m, advance k r)) \<Longrightarrow>
   holds P (decodeMemory f sizer lim r)"
  by (rule holds_mono [OF decodeMemory_wf]) (auto simp: consumes_def)

lemma decodeImport_wf:
  "holds (\<lambda>(i, r'). consumes r (i, r') \<and> wf_import lim i) (decodeImport sizer lim f r)"
  unfolding decodeImport_def
  by (auto simp: wp Let_def wf_import_def split: option.splits ExternType.splits intro!: wpI; arith)

lemma decodeExport_consumes: "holds (consumes r) (decodeExport r)"
  unfolding decodeExport_def by (auto simp: wp split: option.splits intro!: wpI; arith)

section \<open>Properties\<close>

text \<open>
  C17 (decoded constant expressions). The bytes kept for a constant expression are exactly the bytes
  read for it, the last of which is \<open>end\<close>. So the evaluator cannot run into a truncated operand:
  on a decoded expression it panics only if one of the resolvers does.
\<close>

theorem decodeConstantExpression_safe:
  assumes "decodeConstantExpression enabledFeatures r = Ok (e, r')"
    and "\<And>i. \<not> panics (globalResolver i)" and "\<And>i. \<not> panics (funcRefResolver i)"
  shows "(\<exists>k. 0 < k \<and> k \<le> Len r \<and> r' = advance k r \<and> ce_Data e = take k (rest r)) \<and> last (ce_Data e) = OpcodeEnd \<and>
         \<not> panics (evaluateConstExpr e globalResolver funcRefResolver)"
proof -
  note data = holds_OkD [OF decodeConstantExpression_data assms(1)]
  then have "holds (\<lambda>_. True) (evaluateConstExpr e globalResolver funcRefResolver)"
    unfolding evaluateConstExpr_def
    by (intro holds_mono [OF evaluateConstExpr_loop_agrees [OF assms(2,3)]]) auto
  with data show ?thesis by (auto simp: holds_True_iff)
qed

theorem decodeConstantExpression_safe_witness:
  "\<not> panics (evaluateConstExpr \<lparr>ce_Data = [OpcodeI32Const, 5, OpcodeEnd]\<rparr> (\<lambda>_. Err EOF) (\<lambda>_. Err EOF))"
proof -
  have "decodeConstantExpression 0 (NewReader [OpcodeI32Const, 5, OpcodeEnd, 9]) =
      Ok (\<lparr>ce_Data = [OpcodeI32Const, 5, OpcodeEnd]\<rparr>, advance 3 (NewReader [OpcodeI32Const, 5, OpcodeEnd, 9]))"
    by code_simp
  from decodeConstantExpression_safe [OF this, of "\<lambda>_. Err EOF" "\<lambda>_. Err EOF"] show ?thesis by simp
qed

text \<open>
  C18 (memory limits). A decoded memory type satisfies \<open>Min \<le> Max \<le> limit\<close> and
  \<open>Min \<le> Cap \<le> limit\<close>, and a shared one has an explicit maximum and needs the threads feature. The maximum
  is the encoded one, lowered to the limit of the run time, and the limit when none is encoded. The capacity is the maximum when
  it is configured so, whether or not a maximum is encoded, and the minimum otherwise.
\<close>

theorem decodeMemory_limits:
  assumes "decodeMemory enabledFeatures (newMemorySizer lim fromMax) lim r = Ok (m, r')"
  shows "mem_Min m \<le> mem_Max m \<and> mem_Max m \<le> lim \<and> mem_Min m \<le> mem_Cap m \<and> mem_Cap m \<le> lim \<and>
         (if mem_IsShared m then mem_IsMaxEncoded m \<and> IsEnabled enabledFeatures CoreFeaturesThreads else True) \<and>
         (\<exists>maxP. decodeLimitsType r = Ok ((mem_Min m, maxP, mem_IsShared m), r') \<and> mem_IsMaxEncoded m = (maxP \<noteq> None) \<and>
            mem_Max m = (case maxP of None \<Rightarrow> lim | Some n \<Rightarrow> min n lim)) \<and>
         mem_Cap m = (if fromMax then mem_Max m else mem_Min m)"
proof -
  obtain mn maxP sh where d: "decodeLimitsType r = Ok ((mn, maxP, sh), r')"
    using assms by (auto simp: decodeMemory_def bindO_Ok_iff Let_def split_beta)
  have "(if mem_IsShared m then mem_IsMaxEncoded m \<and> IsEnabled enabledFeatures CoreFeaturesThreads else True) \<and>
      mem_Min m = mn \<and> mem_IsShared m = sh \<and> mem_IsMaxEncoded m = (maxP \<noteq> None) \<and>
      mem_Max m = (case maxP of None \<Rightarrow> lim | Some n \<Rightarrow> min n lim) \<and>
      mem_Cap m = (if fromMax then mem_Max m else mem_Min m)"
    using assms
    by (cases maxP; cases fromMax)
      (auto simp: decodeMemory_def bindO_Ok_iff d require_def newMemorySizer_def Memory_Validate_def Let_def min_def
        split: if_splits)
  then show ?thesis
    using d assms decodeMemory_wf [where f = enabledFeatures and sizer = "newMemorySizer lim fromMax" and lim = lim and r = r]
    by (auto simp: wf_memory_type_def)
qed

theorem decodeMemory_limits_witness:
  "\<exists>m r'. decodeMemory 0 (newMemorySizer 4 False) 4 (NewReader [1, 1, 9]) = Ok (m, r') \<and>
     mem_Min m = 1 \<and> mem_Max m = 4 \<and> mem_Cap m = 1 \<and> mem_IsMaxEncoded m"
proof -
  have d: "decodeLimitsType (NewReader [1, 1, 9]) = Ok ((1, Some 9, False), advance 3 (NewReader [1, 1, 9]))" by code_simp
  obtain m r' where m: "decodeMemory 0 (newMemorySizer 4 False) 4 (NewReader [1, 1, 9]) = Ok (m, r')"
    by (cases "decodeMemory 0 (newMemorySizer 4 False) 4 (NewReader [1, 1, 9])")
      (auto simp: decodeMemory_def d require_def newMemorySizer_def Memory_Validate_def Let_def)
  from decodeMemory_limits [OF m] m show ?thesis by (auto simp: d)
qed

end
