(* ===== verification/BinarySections.thy ===== *)
theory BinarySections
  imports BinaryTypes TypeEquivalence
begin

text \<open>
  The sections of a binary module: \<^verbatim>\<open>section.go\<close>, \<^verbatim>\<open>element.go\<close>, \<^verbatim>\<open>data.go\<close>, \<^verbatim>\<open>code.go\<close>, \<^verbatim>\<open>custom.go\<close>
  and \<^verbatim>\<open>names.go\<close> of \<^verbatim>\<open>internal/wasm/binary\<close>.
\<close>

section \<open>Vectors\<close>

definition ensureVectorCountFits :: "reader \<Rightarrow> u32 \<Rightarrow> string \<Rightarrow> unit outcome" where
  "ensureVectorCountFits r vs what =
     (if unat vs > Len r then Err (Errorf (what @ '' vector count %d exceeds remaining bytes %d'')) else Ok ())"

text \<open>The count that starts a section, and the check that follows it.\<close>

definition decodeCount :: "string \<Rightarrow> reader \<Rightarrow> (u32 \<times> reader) outcome" where
  "decodeCount what r =
     bindO (mapErr (Wrapf ''get size of vector'') (DecodeUint32 r)) (\<lambda>(vs, _, r).
     bindO (ensureVectorCountFits r vs what) (\<lambda>_. Ok (vs, r)))"

section \<open>Type section\<close>

definition forwardRef :: "u32 \<Rightarrow> ValueType \<Rightarrow> bool" where
  "forwardRef maxTypeIndex vt \<longleftrightarrow> IsConcreteRef vt \<and> TypeIndex vt \<ge> maxTypeIndex"

definition validateTypeForwardRefs :: "FunctionType \<Rightarrow> u32 \<Rightarrow> unit outcome" where
  "validateTypeForwardRefs ft maxTypeIndex =
     (if list_ex (forwardRef maxTypeIndex) (ft_Params ft) then Err (Errorf ''unknown type index %d in param[%d]'')
      else if list_ex (forwardRef maxTypeIndex) (ft_Results ft) then Err (Errorf ''unknown type index %d in result[%d]'')
      else Ok ())"

primrec decodeRecGroup :: "nat list \<Rightarrow> CoreFeatures \<Rightarrow> u32 \<Rightarrow> FunctionType list \<Rightarrow> reader \<Rightarrow> (FunctionType list \<times> reader) outcome" where
  "decodeRecGroup [] enabledFeatures recCount result r = Ok (result, r)"
| "decodeRecGroup (j # js) enabledFeatures recCount result r =
     bindO (mapErr (\<lambda>_. Errorf ''read %d-th type in rec group: %v'') (decodeFunctionType enabledFeatures r)) (\<lambda>(ft, r).
       decodeRecGroup js enabledFeatures recCount
         (result @ [ft\<lparr>ft_RecGroupSize := unat recCount, ft_RecGroupPosition := j\<rparr>]) r)"

definition validateRecGroup :: "FunctionType list \<Rightarrow> u32 \<Rightarrow> u32 \<Rightarrow> nat \<Rightarrow> unit \<Rightarrow> unit outcome" where
  "validateRecGroup result startIdx recCount j _ =
     bindO (index result (unat (startIdx + of_nat j))) (\<lambda>ft. validateTypeForwardRefs ft (startIdx + recCount))"

text \<open>A rec group after its leading byte \<open>0x4e\<close>, and a standalone type.\<close>

definition decodeRecTypes :: "CoreFeatures \<Rightarrow> FunctionType list \<Rightarrow> reader \<Rightarrow> (FunctionType list \<times> reader) outcome" where
  "decodeRecTypes enabledFeatures result r =
     bindO (mapErr (\<lambda>_. Errorf ''read rec group count: %v'') (DecodeUint32 r)) (\<lambda>(recCount, _, r).
     let startIdx = of_nat (length result) in
     bindO (decodeRecGroup [0..<unat recCount] enabledFeatures recCount result r) (\<lambda>(result, r).
     bindO (foldO (validateRecGroup result startIdx recCount) [0..<unat recCount] ()) (\<lambda>_.
       Ok (result, r))))"

definition decodeOneType :: "CoreFeatures \<Rightarrow> FunctionType list \<Rightarrow> reader \<Rightarrow> (FunctionType list \<times> reader) outcome" where
  "decodeOneType enabledFeatures result r =
     bindO (UnreadByte r) (\<lambda>r.
     bindO (mapErr (\<lambda>_. Errorf ''read %d-th type: %v'') (decodeFunctionType enabledFeatures r)) (\<lambda>(ft, r).
     bindO (validateTypeForwardRefs ft (of_nat (length result))) (\<lambda>_.
       Ok (result @ [ft], r))))"

definition decodeType :: "CoreFeatures \<Rightarrow> FunctionType list \<Rightarrow> reader \<Rightarrow> (FunctionType list \<times> reader) outcome" where
  "decodeType enabledFeatures result r =
     bindO (mapErr (\<lambda>_. Errorf ''read %d-th type: %v'') (ReadByte r)) (\<lambda>(b, r).
     if b = 0x4e then decodeRecTypes enabledFeatures result r
     else decodeOneType enabledFeatures result r)"

primrec decodeTypes :: "nat \<Rightarrow> CoreFeatures \<Rightarrow> FunctionType list \<Rightarrow> reader \<Rightarrow> (FunctionType list \<times> reader) outcome" where
  "decodeTypes 0 enabledFeatures result r = Ok (result, r)"
| "decodeTypes (Suc n) enabledFeatures result r =
     bindO (decodeType enabledFeatures result r) (\<lambda>(result, r). decodeTypes n enabledFeatures result r)"

definition decodeTypeSection :: "CoreFeatures \<Rightarrow> reader \<Rightarrow> (FunctionType list \<times> reader) outcome" where
  "decodeTypeSection enabledFeatures r =
     bindO (mapErr (Wrapf ''get size of vector'') (DecodeUint32 r)) (\<lambda>(vs, _, r).
       decodeTypes (unat vs) enabledFeatures [] r)"

section \<open>Import section\<close>

record import_state =
  is_result :: "Import list"
  is_perModule :: "byte list \<rightharpoonup> Import list"
  is_funcCount :: Index
  is_globalCount :: Index
  is_memoryCount :: Index
  is_tableCount :: Index
  is_tagCount :: Index

definition no_imports :: import_state where
  "no_imports = \<lparr>is_result = [], is_perModule = Map.empty, is_funcCount = 0, is_globalCount = 0, is_memoryCount = 0,
                 is_tableCount = 0, is_tagCount = 0\<rparr>"

text \<open>The body of the loop after \<^verbatim>\<open>decodeImport\<close>: number the import among those of its type.\<close>

definition addImport :: "Import \<Rightarrow> import_state \<Rightarrow> import_state" where
  "addImport imp s =
     (let (imp, s) =
        (case imp_Type imp of
           ExternTypeFunc \<Rightarrow> (imp\<lparr>imp_IndexPerType := is_funcCount s\<rparr>, s\<lparr>is_funcCount := is_funcCount s + 1\<rparr>)
         | ExternTypeGlobal \<Rightarrow> (imp\<lparr>imp_IndexPerType := is_globalCount s\<rparr>, s\<lparr>is_globalCount := is_globalCount s + 1\<rparr>)
         | ExternTypeMemory \<Rightarrow> (imp\<lparr>imp_IndexPerType := is_memoryCount s\<rparr>, s\<lparr>is_memoryCount := is_memoryCount s + 1\<rparr>)
         | ExternTypeTable \<Rightarrow> (imp\<lparr>imp_IndexPerType := is_tableCount s\<rparr>, s\<lparr>is_tableCount := is_tableCount s + 1\<rparr>)
         | ExternTypeTag \<Rightarrow> (imp\<lparr>imp_IndexPerType := is_tagCount s\<rparr>, s\<lparr>is_tagCount := is_tagCount s + 1\<rparr>));
          previous = (case is_perModule s (imp_Module imp) of Some is \<Rightarrow> is | None \<Rightarrow> [])
      in s\<lparr>is_result := is_result s @ [imp], is_perModule := (is_perModule s)(imp_Module imp \<mapsto> previous @ [imp])\<rparr>)"

primrec decodeImports ::
    "nat \<Rightarrow> memorySizer \<Rightarrow> u32 \<Rightarrow> CoreFeatures \<Rightarrow> import_state \<Rightarrow> reader \<Rightarrow> (import_state \<times> reader) outcome" where
  "decodeImports 0 memorySizer memoryLimitPages enabledFeatures s r = Ok (s, r)"
| "decodeImports (Suc n) memorySizer memoryLimitPages enabledFeatures s r =
     bindO (decodeImport memorySizer memoryLimitPages enabledFeatures r) (\<lambda>(imp, r).
       decodeImports n memorySizer memoryLimitPages enabledFeatures (addImport imp s) r)"

definition decodeImportSection ::
    "memorySizer \<Rightarrow> u32 \<Rightarrow> CoreFeatures \<Rightarrow> reader \<Rightarrow> (import_state \<times> reader) outcome" where
  "decodeImportSection memorySizer memoryLimitPages enabledFeatures r =
     bindO (decodeCount ''import'' r) (\<lambda>(vs, r).
       decodeImports (unat vs) memorySizer memoryLimitPages enabledFeatures no_imports r)"

section \<open>Function, table, memory, global, start and tag sections\<close>

definition decodeFunctionSection :: "reader \<Rightarrow> (Index list \<times> reader) outcome" where
  "decodeFunctionSection r =
     bindO (decodeCount ''function'' r) (\<lambda>(vs, r).
       decodeN (unat vs) (\<lambda>r. bindO (mapErr (Wrapf ''get type index'') (DecodeUint32 r)) (\<lambda>(v, _, r). Ok (v, r))) r)"

definition decodeTableSection :: "CoreFeatures \<Rightarrow> reader \<Rightarrow> (Table list \<times> reader) outcome" where
  "decodeTableSection enabledFeatures r =
     bindO (mapErr (\<lambda>_. Errorf ''error reading size'') (DecodeUint32 r)) (\<lambda>(vs, _, r).
     bindO (if vs > 1
            then mapErr (Wrapf ''at most one table allowed in module as'') (RequireEnabled enabledFeatures CoreFeatureReferenceTypes)
            else Ok ()) (\<lambda>_.
     bindO (ensureVectorCountFits r vs ''table'') (\<lambda>_.
       decodeN (unat vs) (decodeTable enabledFeatures) r)))"

definition decodeMemorySection ::
    "CoreFeatures \<Rightarrow> memorySizer \<Rightarrow> u32 \<Rightarrow> reader \<Rightarrow> (Memory option \<times> reader) outcome" where
  "decodeMemorySection enabledFeatures memorySizer memoryLimitPages r =
     bindO (mapErr (\<lambda>_. Errorf ''error reading size'') (DecodeUint32 r)) (\<lambda>(vs, _, r).
     if vs > 1 then Err (Errorf ''at most one memory allowed in module, but read %d'')
     else if vs = 0 then Ok (None, r)
     else bindO (decodeMemory enabledFeatures memorySizer memoryLimitPages r) (\<lambda>(m, r). Ok (Some m, r)))"

definition decodeGlobalSection :: "CoreFeatures \<Rightarrow> reader \<Rightarrow> (Global list \<times> reader) outcome" where
  "decodeGlobalSection enabledFeatures r =
     bindO (decodeCount ''global'' r) (\<lambda>(vs, r).
       decodeN (unat vs) (\<lambda>r. mapErr (Wrapf ''global[%d]'') (decodeGlobal enabledFeatures r)) r)"

definition decodeStartSection :: "reader \<Rightarrow> (Index \<times> reader) outcome" where
  "decodeStartSection r = bindO (mapErr (Wrapf ''get function index'') (DecodeUint32 r)) (\<lambda>(vs, _, r). Ok (vs, r))"

definition decodeTag :: "reader \<Rightarrow> (Tag \<times> reader) outcome" where
  "decodeTag r =
     bindO (mapErr (Wrapf ''read tag[%d] attribute'') (ReadByte r)) (\<lambda>(attr, r).
     if attr \<noteq> 0x00 then Err (Errorf ''tag[%d] has invalid attribute: %#x'')
     else bindO (mapErr (Wrapf ''read tag[%d] type index'') (DecodeUint32 r)) (\<lambda>(v, _, r). Ok (\<lparr>tag_Type = v\<rparr>, r)))"

definition decodeTagSection :: "reader \<Rightarrow> (Tag list \<times> reader) outcome" where
  "decodeTagSection r = bindO (decodeCount ''tag'' r) (\<lambda>(vs, r). decodeN (unat vs) decodeTag r)"

text \<open>
  \<^verbatim>\<open>decodeDataCountSection\<close> takes the end of the input for an absent count: the decoder has then
  read every byte left, and the count is 0.
\<close>

definition decodeDataCountSection :: "reader \<Rightarrow> (u32 \<times> reader) outcome" where
  "decodeDataCountSection r =
     (case DecodeUint32 r of
        Ok (v, _, r) \<Rightarrow> Ok (v, r)
      | Err e \<Rightarrow> if e = EOF then Ok (0, advance (Len r) r) else Err e
      | Panic p \<Rightarrow> Panic p)"

section \<open>Export section\<close>

primrec decodeExports ::
    "nat \<Rightarrow> Export list \<Rightarrow> (byte list \<rightharpoonup> Export) \<Rightarrow> reader \<Rightarrow> ((Export list \<times> (byte list \<rightharpoonup> Export)) \<times> reader) outcome" where
  "decodeExports 0 exportSection exportMap r = Ok ((exportSection, exportMap), r)"
| "decodeExports (Suc n) exportSection exportMap r =
     bindO (mapErr (Wrapf ''read export'') (decodeExport r)) (\<lambda>(export, r).
     if exportMap (exp_Name export) \<noteq> None then Err (Errorf ''export[%d] duplicates name %q'')
     else decodeExports n (exportSection @ [export]) (exportMap(exp_Name export \<mapsto> export)) r)"

definition decodeExportSection :: "reader \<Rightarrow> ((Export list \<times> (byte list \<rightharpoonup> Export)) \<times> reader) outcome" where
  "decodeExportSection r =
     bindO (mapErr (\<lambda>_. Errorf ''get size of vector: %v'') (DecodeUint32 r)) (\<lambda>(vs, _, r).
     bindO (ensureVectorCountFits r vs ''export'') (\<lambda>_.
       decodeExports (unat vs) [] Map.empty r))"

section \<open>Element section\<close>

definition ensureElementKindFuncRef :: "reader \<Rightarrow> reader outcome" where
  "ensureElementKindFuncRef r =
     bindO (mapErr (Wrapf ''read element prefix'') (ReadByte r)) (\<lambda>(elemKind, r).
     if elemKind \<noteq> 0x0 then Err (Errorf ''element kind must be zero but was 0x%x'') else Ok r)"

definition decodeElementInitValue :: "reader \<Rightarrow> (ConstantExpression \<times> reader) outcome" where
  "decodeElementInitValue r =
     bindO (mapErr (Wrapf ''read function index'') (DecodeUint32 r)) (\<lambda>(idx, _, r).
     if idx \<ge> MaximumFunctionIndex then Err (Errorf ''too large function index in Element init: %d'')
     else Ok (NewConstantExpressionFromOpcode OpcodeRefFunc (EncodeUint32 idx), r))"

definition decodeElementInitValueVector :: "reader \<Rightarrow> (ConstantExpression list \<times> reader) outcome" where
  "decodeElementInitValueVector r =
     bindO (mapErr (Wrapf ''get size of vector'') (DecodeUint32 r)) (\<lambda>(vs, _, r).
       decodeN (unat vs) decodeElementInitValue r)"

definition decodeElementConstExprVector :: "CoreFeatures \<Rightarrow> reader \<Rightarrow> (ConstantExpression list \<times> reader) outcome" where
  "decodeElementConstExprVector enabledFeatures r =
     bindO (mapErr (Wrapf ''failed to get the size of constexpr vector'') (DecodeUint32 r)) (\<lambda>(vs, _, r).
       decodeN (unat vs) (decodeConstantExpression enabledFeatures) r)"

definition decodeElementRefType :: "reader \<Rightarrow> (ValueType \<times> reader) outcome" where
  "decodeElementRefType r =
     bindO (mapErr (Wrapf ''read element ref type'') (ReadByte r)) (\<lambda>(b, r).
     if b = RefPrefixNullable \<or> b = RefPrefixNonNullable then decodeRefType (b = RefPrefixNullable) r
     else
       let ret = ucast b in
       if ret \<noteq> RefTypeFuncref \<and> ret \<noteq> RefTypeExternref then Err (Errorf ''invalid ref type for element: 0x%x'')
       else Ok (ret, r))"

text \<open>The table index of the prefixes 2 and 6.\<close>

definition decodeElementTableIndex :: "CoreFeatures \<Rightarrow> reader \<Rightarrow> (Index \<times> reader) outcome" where
  "decodeElementTableIndex enabledFeatures r =
     bindO (mapErr (Wrapf ''get size of vector'') (DecodeUint32 r)) (\<lambda>(tableIndex, _, r).
     bindO (if tableIndex \<noteq> 0
            then mapErr (Wrapf ''table index must be zero but was %d'') (RequireEnabled enabledFeatures CoreFeatureReferenceTypes)
            else Ok ()) (\<lambda>_. Ok (tableIndex, r)))"

abbreviation elementOffset :: "CoreFeatures \<Rightarrow> reader \<Rightarrow> (ConstantExpression \<times> reader) outcome" where
  "elementOffset enabledFeatures r \<equiv>
     mapErr (Wrapf ''read expr for offset'') (decodeConstantExpression enabledFeatures r)"

definition elementSegment ::
    "ConstantExpression \<Rightarrow> Index \<Rightarrow> ConstantExpression list \<Rightarrow> ValueType \<Rightarrow> ElementMode \<Rightarrow> ElementSegment" where
  "elementSegment off tableIndex init typ mode =
     \<lparr>es_OffsetExpr = off, es_TableIndex = tableIndex, es_Init = init, es_Type = typ, es_Mode = mode\<rparr>"

definition noOffset :: ConstantExpression where
  "noOffset = \<lparr>ce_Data = []\<rparr>"

definition decodeElementSegment :: "CoreFeatures \<Rightarrow> reader \<Rightarrow> (ElementSegment \<times> reader) outcome" where
  "decodeElementSegment enabledFeatures r =
     bindO (mapErr (Wrapf ''read element prefix'') (DecodeUint32 r)) (\<lambda>(prefix, _, r).
     bindO (if prefix \<noteq> 0
            then mapErr (Wrapf ''non-zero prefix for element segment is invalid as'')
                   (RequireEnabled enabledFeatures CoreFeatureBulkMemoryOperations)
            else Ok ()) (\<lambda>_.
     if prefix = 0 then
       bindO (elementOffset enabledFeatures r) (\<lambda>(off, r).
       bindO (decodeElementInitValueVector r) (\<lambda>(init, r).
         Ok (elementSegment off 0 init (AsNonNullable RefTypeFuncref) ElementModeActive, r)))
     else if prefix = 1 then
       bindO (ensureElementKindFuncRef r) (\<lambda>r.
       bindO (decodeElementInitValueVector r) (\<lambda>(init, r).
         Ok (elementSegment noOffset 0 init (AsNonNullable RefTypeFuncref) ElementModePassive, r)))
     else if prefix = 2 then
       bindO (decodeElementTableIndex enabledFeatures r) (\<lambda>(tableIndex, r).
       bindO (elementOffset enabledFeatures r) (\<lambda>(off, r).
       bindO (ensureElementKindFuncRef r) (\<lambda>r.
       bindO (decodeElementInitValueVector r) (\<lambda>(init, r).
         Ok (elementSegment off tableIndex init (AsNonNullable RefTypeFuncref) ElementModeActive, r)))))
     else if prefix = 3 then
       bindO (ensureElementKindFuncRef r) (\<lambda>r.
       bindO (decodeElementInitValueVector r) (\<lambda>(init, r).
         Ok (elementSegment noOffset 0 init (AsNonNullable RefTypeFuncref) ElementModeDeclarative, r)))
     else if prefix = 4 then
       bindO (elementOffset enabledFeatures r) (\<lambda>(off, r).
       bindO (decodeElementConstExprVector enabledFeatures r) (\<lambda>(init, r).
         Ok (elementSegment off 0 init RefTypeFuncref ElementModeActive, r)))
     else if prefix = 5 then
       bindO (decodeElementRefType r) (\<lambda>(typ, r).
       bindO (decodeElementConstExprVector enabledFeatures r) (\<lambda>(init, r).
         Ok (elementSegment noOffset 0 init typ ElementModePassive, r)))
     else if prefix = 6 then
       bindO (decodeElementTableIndex enabledFeatures r) (\<lambda>(tableIndex, r).
       bindO (elementOffset enabledFeatures r) (\<lambda>(off, r).
       bindO (decodeElementRefType r) (\<lambda>(typ, r).
       bindO (decodeElementConstExprVector enabledFeatures r) (\<lambda>(init, r).
         Ok (elementSegment off tableIndex init typ ElementModeActive, r)))))
     else if prefix = 7 then
       bindO (decodeElementRefType r) (\<lambda>(typ, r).
       bindO (decodeElementConstExprVector enabledFeatures r) (\<lambda>(init, r).
         Ok (elementSegment noOffset 0 init typ ElementModeDeclarative, r)))
     else Err (Errorf ''invalid element segment prefix: 0x%x'')))"

definition decodeElementSection :: "CoreFeatures \<Rightarrow> reader \<Rightarrow> (ElementSegment list \<times> reader) outcome" where
  "decodeElementSection enabledFeatures r =
     bindO (decodeCount ''element'' r) (\<lambda>(vs, r).
       decodeN (unat vs) (\<lambda>r. mapErr (Wrapf ''read element'') (decodeElementSegment enabledFeatures r)) r)"

section \<open>Data section\<close>

definition decodeDataOffset :: "CoreFeatures \<Rightarrow> u32 \<Rightarrow> reader \<Rightarrow> ((ConstantExpression \<times> bool) \<times> reader) outcome" where
  "decodeDataOffset enabledFeatures prefix r =
     (if prefix = 0 \<or> prefix = 2 then
        bindO (if prefix = 2 then
                 bindO (mapErr (\<lambda>_. Errorf ''read memory index: %v'') (DecodeUint32 r)) (\<lambda>(d, _, r).
                 if d \<noteq> 0 then Err (Errorf ''memory index must be zero but was %d'') else Ok r)
               else Ok r) (\<lambda>r.
        bindO (mapErr (\<lambda>_. Errorf ''read offset expression: %v'') (decodeConstantExpression enabledFeatures r)) (\<lambda>(e, r).
          Ok ((e, False), r)))
      else if prefix = 1 then Ok ((noOffset, True), r)
      else Err (Errorf ''invalid data segment prefix: 0x%x''))"

definition decodeDataSegment :: "CoreFeatures \<Rightarrow> reader \<Rightarrow> (DataSegment \<times> reader) outcome" where
  "decodeDataSegment enabledFeatures r =
     bindO (mapErr (Wrapf ''read data segment prefix'') (DecodeUint32 r)) (\<lambda>(prefix, _, r).
     bindO (if prefix \<noteq> 0
            then mapErr (Wrapf ''non-zero prefix for data segment is invalid as'')
                   (RequireEnabled enabledFeatures CoreFeatureBulkMemoryOperations)
            else Ok ()) (\<lambda>_.
     bindO (decodeDataOffset enabledFeatures prefix r) (\<lambda>((off, passive), r).
     bindO (mapErr (\<lambda>_. Errorf ''get the size of vector: %v'') (DecodeUint32 r)) (\<lambda>(vs, _, r).
     bindO (mapErr (\<lambda>_. Errorf ''read bytes for init: %v'') (ReadFull (unat vs) r)) (\<lambda>(init, r).
       Ok (\<lparr>ds_OffsetExpression = off, ds_Init = init, ds_Passive = passive\<rparr>, r))))))"

definition decodeDataSection :: "CoreFeatures \<Rightarrow> reader \<Rightarrow> (DataSegment list \<times> reader) outcome" where
  "decodeDataSection enabledFeatures r =
     bindO (decodeCount ''data'' r) (\<lambda>(vs, r).
       decodeN (unat vs) (\<lambda>r. mapErr (Wrapf ''read data segment'') (decodeDataSegment enabledFeatures r)) r)"

section \<open>Code section\<close>

abbreviation (input) maxFunctionLocals :: u64 where "maxFunctionLocals \<equiv> 1000000"

text \<open>
  The first pass over the locals: the number of locals and the number of bytes of their
  declarations. The test \<^verbatim>\<open>remaining < 0\<close> in it cannot succeed, as \<^verbatim>\<open>remaining\<close> was tested before
  and does not change.
\<close>

primrec countLocals :: "nat \<Rightarrow> int \<Rightarrow> u64 \<Rightarrow> nat \<Rightarrow> reader \<Rightarrow> ((u64 \<times> nat) \<times> reader) outcome" where
  "countLocals 0 remaining n_sum bytesRead r = Ok ((n_sum, bytesRead), r)"
| "countLocals (Suc i) remaining n_sum bytesRead r =
     bindO (mapErr (\<lambda>_. Errorf ''read n of locals: %v'') (DecodeUint32 r)) (\<lambda>(num, n, r).
     if remaining < 0 then Err EOF
     else
       let n_sum = n_sum + ucast num in
       bindO (mapErr (\<lambda>_. Errorf ''read type of local: %v'') (ReadByte r)) (\<lambda>(b, r).
       let bytesRead = bytesRead + (n + 1) in
       if ucast b \<in> {ValueTypeI32, ValueTypeF32, ValueTypeI64, ValueTypeF64, ValueTypeFuncref,
                     ValueTypeExternref, ValueTypeV128, ValueTypeExnref}
       then countLocals i remaining n_sum bytesRead r
       else if b = RefPrefixNullable \<or> b = RefPrefixNonNullable then
         bindO (mapErr (\<lambda>_. Errorf ''read local ref heap type: %v'') (DecodeInt33AsInt64 r)) (\<lambda>(_, htNum, r).
           countLocals i remaining n_sum (bytesRead + htNum) r)
       else Err (Errorf ''invalid local type: 0x%x'')))"

text \<open>The second pass: the types of the locals, and what is left of the declared size.\<close>

primrec readLocals :: "nat \<Rightarrow> int \<Rightarrow> ValueType list \<Rightarrow> reader \<Rightarrow> ((int \<times> ValueType list) \<times> reader) outcome" where
  "readLocals 0 remaining localTypes r = Ok ((remaining, localTypes), r)"
| "readLocals (Suc i) remaining localTypes r =
     bindO (mapErr (\<lambda>_. Errorf ''read n of locals: %v'') (DecodeUint32 r)) (\<lambda>(num, bytesRead, r).
     let remaining = remaining - (int bytesRead + 1) in
     if remaining < 0 then Err EOF
     else
       bindO (mapErr (\<lambda>_. Errorf ''read type of local: %v'') (ReadByte r)) (\<lambda>(b, r).
       bindO (if b = RefPrefixNullable \<or> b = RefPrefixNonNullable then
                let before = Len r in
                bindO (decodeRefType (b = RefPrefixNullable) r) (\<lambda>(vt, r).
                  Ok ((vt, remaining - int (before - Len r)), r))
              else Ok ((ucast b, remaining), r)) (\<lambda>((vt, remaining), r).
         readLocals i remaining (localTypes @ replicate (unat num) vt) r)))"

text \<open>\<^verbatim>\<open>make([]byte, n)\<close>: a negative length panics.\<close>

definition make_len :: "int \<Rightarrow> nat outcome" where
  "make_len n = (if n < 0 then Panic ''makeslice: len out of range'' else Ok (nat n))"

definition decodeLocals :: "u32 \<Rightarrow> int \<Rightarrow> reader \<Rightarrow> ((int \<times> ValueType list) \<times> reader) outcome" where
  "decodeLocals ls remaining r =
     bindO (countLocals (unat ls) remaining 0 0 r) (\<lambda>((n_sum, bytesRead), r).
     if n_sum > 0xffffffff then Err (Errorf ''too many locals: %d'')
     else if n_sum > maxFunctionLocals then Err (Errorf ''too many locals: %d exceeds the limit of %d'')
     else bindO (Seek_back bytesRead r) (\<lambda>r. readLocals (unat ls) remaining [] r))"

definition decodeBody :: "u64 \<Rightarrow> int \<Rightarrow> ValueType list \<Rightarrow> reader \<Rightarrow> (Code \<times> reader) outcome" where
  "decodeBody codeSectionStart remaining localTypes r =
     (let bodyOffsetInCodeSection = codeSectionStart - of_nat (Len r) in
      bindO (make_len remaining) (\<lambda>n.
      bindO (mapErr (Wrapf ''read body'') (ReadFull n r)) (\<lambda>(body, r).
      if body = [] \<or> last body \<noteq> OpcodeEnd then Err (Errorf ''expr not end with OpcodeEnd'')
      else Ok (\<lparr>code_LocalTypes = localTypes, code_Body = body, code_GoFunc = False,
                code_BodyOffset = bodyOffsetInCodeSection\<rparr>, r))))"

definition decodeCode :: "u64 \<Rightarrow> reader \<Rightarrow> (Code \<times> reader) outcome" where
  "decodeCode codeSectionStart r =
     bindO (mapErr (Wrapf ''get the size of code'') (DecodeUint32 r)) (\<lambda>(ss, _, r).
     let remaining = int (unat ss) in
     bindO (mapErr (\<lambda>_. Errorf ''get the size locals: %v'') (DecodeUint32 r)) (\<lambda>(ls, bytesRead, r).
     let remaining = remaining - int bytesRead in
     if remaining < 0 then Err EOF
     else
       bindO (decodeLocals ls remaining r) (\<lambda>((remaining, localTypes), r).
         decodeBody codeSectionStart remaining localTypes r)))"

definition decodeCodeSection :: "reader \<Rightarrow> (Code list \<times> reader) outcome" where
  "decodeCodeSection r =
     (let codeSectionStart = of_nat (Len r) in
      bindO (decodeCount ''code'' r) (\<lambda>(vs, r).
        decodeN (unat vs) (\<lambda>r. mapErr (\<lambda>_. Errorf ''read %d-th code segment: %v'') (decodeCode codeSectionStart r)) r))"

section \<open>Custom sections\<close>

definition decodeCustomSection :: "byte list \<Rightarrow> nat \<Rightarrow> reader \<Rightarrow> (CustomSection \<times> reader) outcome" where
  "decodeCustomSection name limit r = bindO (Read limit r) (\<lambda>(buf, _, r). Ok (\<lparr>cs_Name = name, cs_Data = buf\<rparr>, r))"

definition decodeFunctionIndex :: "reader \<Rightarrow> (u32 \<times> reader) outcome" where
  "decodeFunctionIndex r =
     bindO (mapErr (Wrapf ''failed to read a function index in subsection[%d]'') (DecodeUint32 r)) (\<lambda>(i, _, r). Ok (i, r))"

definition decodeFunctionCount :: "reader \<Rightarrow> (u32 \<times> reader) outcome" where
  "decodeFunctionCount r =
     bindO (mapErr (Wrapf ''failed to read the function count of subsection[%d]'') (DecodeUint32 r)) (\<lambda>(n, _, r). Ok (n, r))"

definition decodeFunctionNames :: "reader \<Rightarrow> (NameAssoc list \<times> reader) outcome" where
  "decodeFunctionNames r =
     bindO (decodeFunctionCount r) (\<lambda>(functionCount, r).
       decodeN (unat functionCount) (\<lambda>r.
         bindO (decodeFunctionIndex r) (\<lambda>(functionIndex, r).
         bindO (decodeUTF8 ''function[%d] name'' r) (\<lambda>((name, _), r).
           Ok (\<lparr>na_Index = functionIndex, na_Name = name\<rparr>, r)))) r)"

definition decodeLocalName :: "reader \<Rightarrow> (NameAssoc \<times> reader) outcome" where
  "decodeLocalName r =
     bindO (mapErr (Wrapf ''failed to read a local index of function[%d]'') (DecodeUint32 r)) (\<lambda>(localIndex, _, r).
     bindO (decodeUTF8 ''function[%d] local[%d] name'' r) (\<lambda>((name, _), r).
       Ok (\<lparr>na_Index = localIndex, na_Name = name\<rparr>, r)))"

definition decodeLocalNames :: "reader \<Rightarrow> (NameMapAssoc list \<times> reader) outcome" where
  "decodeLocalNames r =
     bindO (decodeFunctionCount r) (\<lambda>(functionCount, r).
       decodeN (unat functionCount) (\<lambda>r.
         bindO (decodeFunctionIndex r) (\<lambda>(functionIndex, r).
         bindO (mapErr (Wrapf ''failed to read the local count for function[%d]'') (DecodeUint32 r)) (\<lambda>(localCount, _, r).
         bindO (decodeN (unat localCount) decodeLocalName r) (\<lambda>(locals, r).
           Ok (\<lparr>nma_Index = functionIndex, nma_NameMap = locals\<rparr>, r))))) r)"

definition decodeSubsection :: "byte \<Rightarrow> u32 \<Rightarrow> NameSection \<Rightarrow> reader \<Rightarrow> (NameSection \<times> reader) outcome" where
  "decodeSubsection subsectionID subsectionSize result r =
     (if subsectionID = 0 then
        bindO (decodeUTF8 ''module name'' r) (\<lambda>((name, _), r). Ok (result\<lparr>ns_ModuleName := name\<rparr>, r))
      else if subsectionID = 1 then
        bindO (decodeFunctionNames r) (\<lambda>(names, r). Ok (result\<lparr>ns_FunctionNames := names\<rparr>, r))
      else if subsectionID = 2 then
        bindO (decodeLocalNames r) (\<lambda>(names, r). Ok (result\<lparr>ns_LocalNames := names\<rparr>, r))
      else
        bindO (mapErr (Wrapf ''failed to skip subsection[%d]'') (CopyN_Discard (unat subsectionSize) r)) (\<lambda>r.
          Ok (result, r)))"

section \<open>Decoders move forward\<close>

text \<open>Results that move the reader by a known-to-be-positive, or an arbitrary, amount.\<close>

lemma holds_consumes_andI:
  "holds (\<lambda>(x, r'). consumes r (x, r') \<and> Q x) m \<Longrightarrow>
   (\<And>x k. 0 < k \<Longrightarrow> k \<le> Len r \<Longrightarrow> Q x \<Longrightarrow> P (x, advance k r)) \<Longrightarrow> holds P m"
  by (erule holds_mono) (auto simp: consumes_def)

lemma holds_skips_andI:
  "holds (\<lambda>(x, r'). skips r (x, r') \<and> Q x) m \<Longrightarrow>
   (\<And>x k. k \<le> Len r \<Longrightarrow> Q x \<Longrightarrow> P (x, advance k r)) \<Longrightarrow> holds P m"
  by (erule holds_mono) (auto simp: skips_def)

lemma holds_decodeNI:
  assumes "\<And>r. holds (\<lambda>(x, r'). consumes r (x, r') \<and> Q x) (d r)"
    and "\<And>xs k. n \<le> k \<Longrightarrow> k \<le> Len r \<Longrightarrow> length xs = n \<Longrightarrow> (\<And>x. x \<in> set xs \<Longrightarrow> Q x) \<Longrightarrow> P (xs, advance k r)"
  shows "holds P (decodeN n d r)"
  by (rule holds_mono [OF decodeN_holds [OF assms(1)]]) (use assms(2) in auto)

lemma decodeCount_consumes: "holds (consumes r) (decodeCount c r)"
  unfolding decodeCount_def ensureVectorCountFits_def by (auto simp: wp intro!: wpI)

lemmas BinarySections_wpI1 [wpI] = decodeCount_consumes [THEN holds_consumesI]
  decodeFunctionType_wf [THEN holds_consumes_andI] decodeGlobal_wf [THEN holds_consumes_andI]
  decodeImport_wf [THEN holds_consumes_andI] decodeExport_consumes [THEN holds_consumesI]

subsection \<open>Types\<close>

definition rec_group :: "FunctionType list \<Rightarrow> u32 \<Rightarrow> nat list \<Rightarrow> bool" where
  "rec_group fts recCount js \<longleftrightarrow> length fts = length js \<and>
     (\<forall>i < length js. ft_RecGroupSize (fts ! i) = unat recCount \<and> ft_RecGroupPosition (fts ! i) = js ! i \<and> key_cached (fts ! i))"

lemma rec_group_Cons:
  "rec_group fts recCount js \<Longrightarrow> key_cached ft \<Longrightarrow>
   rec_group (ft\<lparr>ft_RecGroupSize := unat recCount, ft_RecGroupPosition := j\<rparr> # fts) recCount (j # js)"
  by (auto simp: rec_group_def nth_Cons split: nat.splits)

lemma holds_decodeRecGroup [wpI]:
  "(\<And>fts k. rec_group fts recCount js \<Longrightarrow> length js \<le> k \<Longrightarrow> k \<le> Len r \<Longrightarrow> P (result @ fts, advance k r)) \<Longrightarrow>
   holds P (decodeRecGroup js f recCount result r)"
proof (induction js arbitrary: result r)
  case Nil
  then show ?case using Nil.prems [of "[]" 0] by (simp add: rec_group_def)
next
  case (Cons j js)
  have "holds P (decodeRecGroup js f recCount
          (result @ [ft\<lparr>ft_RecGroupSize := unat recCount, ft_RecGroupPosition := j\<rparr>]) (advance k r))"
    if "0 < k" "k \<le> Len r" "key_cached ft" for k ft
  proof (rule Cons.IH)
    fix fts k'
    assume *: "rec_group fts recCount js" "length js \<le> k'" "k' \<le> Len (advance k r)"
    show "P ((result @ [ft\<lparr>ft_RecGroupSize := unat recCount, ft_RecGroupPosition := j\<rparr>]) @ fts, advance k' (advance k r))"
      using Cons.prems [OF rec_group_Cons [OF *(1) that(3), where j = j], of "k + k'"] *(2,3) that by simp
  qed
  then show ?case
    unfolding decodeRecGroup.simps by (auto simp: wp intro!: wpI)
qed

lemma foldO_unit_Ok_iff: "foldO f xs () = Ok () \<longleftrightarrow> (\<forall>x \<in> set xs. f x () = Ok ())"
  by (induction xs) (auto simp: bindO_Ok_iff)

lemma unat_of_nat_le: "unat (of_nat n :: u32) \<le> n"
  by (simp add: unsigned_of_nat take_bit_nat_less_eq_self)

lemma unat_index_le: "unat (of_nat a + of_nat j :: u32) \<le> a + j"
  using unat_of_nat_le [of "a + j"] by simp

definition refs_below :: "nat \<Rightarrow> FunctionType \<Rightarrow> bool" where
  "refs_below n ft \<longleftrightarrow>
     list_all (\<lambda>v. IsConcreteRef v \<longrightarrow> unat (TypeIndex v) < n) (ft_Params ft @ ft_Results ft)"

lemma validateTypeForwardRefs_Ok: "validateTypeForwardRefs ft mx = Ok () \<longleftrightarrow> refs_below (unat mx) ft"
  unfolding validateTypeForwardRefs_def refs_below_def forwardRef_def list_ex_iff list_all_iff
    word_le_nat_alt linorder_not_le [symmetric]
  by auto

lemma holds_validateTypeForwardRefs [wpI]:
  "(refs_below (unat mx) ft \<Longrightarrow> P ()) \<Longrightarrow> holds P (validateTypeForwardRefs ft mx)"
  using validateTypeForwardRefs_Ok [of ft mx] by (auto simp: validateTypeForwardRefs_def split: if_splits)

lemma holds_validateRecGroups [wpI]:
  assumes len: "length result = start + unat recCount"
    and P: "(\<And>j. j < unat recCount \<Longrightarrow>
               refs_below (unat (of_nat start + recCount)) (result ! unat (of_nat start + of_nat j :: u32))) \<Longrightarrow> P ()"
  shows "holds P (foldO (validateRecGroup result (of_nat start) recCount) [0..<unat recCount] ())"
proof (rule holds_of_not_panics)
  have "holds (\<lambda>_. True) (foldO (validateRecGroup result (of_nat start) recCount) [0..<unat recCount] ())"
  proof (rule holds_foldO)
    fix j s assume "j \<in> set [0..<unat recCount]"
    then have "unat (of_nat start + of_nat j :: u32) < length result"
      using unat_index_le [of start j] len by simp
    then show "holds (\<lambda>_. True) (validateRecGroup result (of_nat start) recCount j s)"
      by (auto simp: validateRecGroup_def wp intro!: wpI)
  qed simp
  then show "\<not> panics (foldO (validateRecGroup result (of_nat start) recCount) [0..<unat recCount] ())"
    by (rule holds_not_panics)
next
  fix u assume "foldO (validateRecGroup result (of_nat start) recCount) [0..<unat recCount] () = Ok u"
  then show "P u"
    by (cases u)
      (auto intro!: P simp: foldO_unit_Ok_iff validateRecGroup_def bindO_Ok_iff index_Ok_iff validateTypeForwardRefs_Ok)
qed

text \<open>What one round of the loop appends: a rec group, or a standalone type.\<close>

definition new_group :: "nat \<Rightarrow> FunctionType list \<Rightarrow> bool" where
  "new_group start fts \<longleftrightarrow>
     (start + length fts < 2 ^ 32 \<longrightarrow>
        (rec_group fts (of_nat (length fts)) [0..<length fts] \<or> (\<exists>ft. fts = [ft] \<and> ft_RecGroupSize ft = 0)) \<and>
        (\<forall>ft \<in> set fts. refs_below (start + length fts) ft \<and> key_cached ft))"

lemma new_group_rec:
  assumes g: "rec_group fts v [0..<unat v]"
    and refs: "\<forall>j < unat v.
      refs_below (unat (of_nat (length result) + v)) ((result @ fts) ! unat (of_nat (length result) + of_nat j :: u32))"
  shows "new_group (length result) fts"
  unfolding new_group_def
proof (intro impI conjI ballI)
  assume b: "length result + length fts < 2 ^ 32"
  have l: "length fts = unat v" using g by (simp add: rec_group_def)
  show "rec_group fts (of_nat (length fts)) [0..<length fts] \<or> (\<exists>ft. fts = [ft] \<and> ft_RecGroupSize ft = 0)"
    using g l by simp
  fix ft assume "ft \<in> set fts"
  then obtain j where j: "j < unat v" "ft = fts ! j" using l by (auto simp: in_set_conv_nth)
  have "unat (of_nat (length result) + of_nat j :: u32) = length result + j"
    using b j l unfolding of_nat_add [symmetric] unsigned_of_nat by (simp add: take_bit_nat_eq_self)
  moreover have "unat (of_nat (length result) + v) = length result + length fts"
    using b l by (simp add: unat_word_ariths unsigned_of_nat take_bit_nat_eq_self)
  ultimately show "refs_below (length result + length fts) ft" using refs [rule_format, OF j(1)] j l by simp
  show "key_cached ft" using g j by (simp add: rec_group_def)
qed

lemma refs_below_mono: "refs_below m ft \<Longrightarrow> m \<le> n \<Longrightarrow> refs_below n ft"
  by (auto simp: refs_below_def list_all_iff)

lemma new_group_single:
  assumes "refs_below (unat (of_nat (length result) :: u32)) ft" and "ft_RecGroupSize ft = 0" "key_cached ft"
  shows "new_group (length result) [ft]"
  using assms refs_below_mono [OF assms(1), of "Suc (length result)"] unat_of_nat_le [of "length result"]
  by (auto simp: new_group_def)

definition group_appended :: "FunctionType list \<Rightarrow> reader \<Rightarrow> FunctionType list \<times> reader \<Rightarrow> bool" where
  "group_appended result r = (\<lambda>(res, r'). \<exists>fts k. 0 < k \<and> k \<le> Len r \<and> length fts \<le> k \<and>
     new_group (length result) fts \<and> res = result @ fts \<and> r' = advance k r)"

lemma group_appended_advance [simp]:
  "group_appended result r (result @ fts, advance k r) \<longleftrightarrow>
     0 < k \<and> k \<le> Len r \<and> length fts \<le> k \<and> new_group (length result) fts"
  by (auto simp: group_appended_def)

lemma fits: "k \<le> L - n \<Longrightarrow> n \<le> L \<Longrightarrow> n + k \<le> (L :: nat)"
  by simp

lemma rec_group_length: "rec_group fts v js \<Longrightarrow> length fts = length js"
  by (simp add: rec_group_def)

lemma decodeRecTypes_group:
  "k \<le> Len r \<Longrightarrow> holds (group_appended result r) (decodeRecTypes f result (advance k r))"
  unfolding decodeRecTypes_def Let_def
  by (auto simp: holds_bindO holds_mapErr rec_group_length intro!: wpI fits; erule (1) new_group_rec)

lemma decodeOneType_group:
  "0 < k \<Longrightarrow> k \<le> Len r \<Longrightarrow> holds (group_appended result r) (decodeOneType f result (advance k r))"
  unfolding decodeOneType_def
  by (auto simp: wp intro!: wpI intro: new_group_single)

lemma decodeType_group: "holds (group_appended result r) (decodeType f result r)"
  unfolding decodeType_def by (auto simp: wp intro!: wpI decodeOneType_group decodeRecTypes_group)

text \<open>The invariant of the type section while it is decoded.\<close>

definition in_group :: "FunctionType list \<Rightarrow> nat \<Rightarrow> nat \<Rightarrow> nat \<Rightarrow> bool" where
  "in_group ts i n p \<longleftrightarrow> p < n \<and> p \<le> i \<and> i - p + n \<le> length ts \<and>
     (\<forall>j < n. ft_RecGroupSize (ts ! (i - p + j)) = n \<and> ft_RecGroupPosition (ts ! (i - p + j)) = j)"

definition grouped :: "FunctionType list \<Rightarrow> bool" where
  "grouped ts \<longleftrightarrow> (\<forall>i < length ts. 1 < ft_RecGroupSize (ts ! i) \<longrightarrow>
     in_group ts i (ft_RecGroupSize (ts ! i)) (ft_RecGroupPosition (ts ! i)))"

definition type_inv :: "FunctionType list \<Rightarrow> bool" where
  "type_inv ts \<longleftrightarrow> grouped ts \<and> (\<forall>ft \<in> set ts. refs_below (length ts) ft \<and> key_cached ft)"

lemma in_group_append: "in_group ts i n p \<Longrightarrow> in_group (ts @ fts) i n p"
  by (auto simp: in_group_def nth_append)

lemma in_group_new:
  assumes "rec_group fts (of_nat (length fts)) [0..<length fts]" and "length fts < 2 ^ 32"
    and "k < length fts"
  shows "in_group (ts @ fts) (length ts + k) (ft_RecGroupSize (fts ! k)) (ft_RecGroupPosition (fts ! k))"
proof -
  have "unat (of_nat (length fts) :: u32) = length fts"
    using assms(2) by (simp add: unsigned_of_nat take_bit_nat_eq_self)
  then have f: "ft_RecGroupSize (fts ! j) = length fts" "ft_RecGroupPosition (fts ! j) = j" if "j < length fts" for j
    using assms(1) that by (simp_all add: rec_group_def)
  then show ?thesis using assms(3) by (simp add: in_group_def nth_append)
qed

lemma grouped_append:
  assumes "grouped ts" and "new_group (length ts) fts" and b: "length ts + length fts < 2 ^ 32"
  shows "grouped (ts @ fts)"
  unfolding grouped_def
proof (intro allI impI)
  fix i assume i: "i < length (ts @ fts)" and big: "1 < ft_RecGroupSize ((ts @ fts) ! i)"
  show "in_group (ts @ fts) i (ft_RecGroupSize ((ts @ fts) ! i)) (ft_RecGroupPosition ((ts @ fts) ! i))"
  proof (cases "i < length ts")
    case True
    then show ?thesis using assms(1) big unfolding grouped_def by (simp add: nth_append in_group_append)
  next
    case False
    then obtain k where k: "i = length ts + k" "k < length fts" using i by (auto simp: not_less le_iff_add)
    then have "rec_group fts (of_nat (length fts)) [0..<length fts]"
      using assms(2) b big by (auto simp: new_group_def nth_append)
    then show ?thesis using in_group_new [of fts k ts] k b by (simp add: nth_append)
  qed
qed

lemma type_inv_append:
  assumes "type_inv ts" and "new_group (length ts) fts" and "length ts + length fts < 2 ^ 32"
  shows "type_inv (ts @ fts)"
  using assms grouped_append [of ts fts] unfolding type_inv_def new_group_def
  by (auto intro: refs_below_mono)

lemma unat_sub_of_nat: "p \<le> unat t \<Longrightarrow> unat (t - of_nat p :: u32) = unat t - p"
proof -
  assume p: "p \<le> unat t"
  then have "unat (of_nat p :: u32) = p"
    using unsigned_less [of t, where 'a = nat] by (simp add: unsigned_of_nat take_bit_nat_eq_self)
  with p show ?thesis by (simp add: unat_sub word_le_nat_alt)
qed

lemma group_alone: "ft_RecGroupSize (typeAt m t) \<le> 1 \<Longrightarrow> group m t = (t, 1)"
  by (cases "ft_RecGroupSize (typeAt m t)") (auto simp: group_def)

lemma group_many:
  assumes "1 < ft_RecGroupSize (typeAt m t)" and "ft_RecGroupSize (typeAt m t) < 2 ^ 32"
  shows "group m t = (t - of_nat (ft_RecGroupPosition (typeAt m t)), of_nat (ft_RecGroupSize (typeAt m t)))"
proof -
  have "unat (of_nat (ft_RecGroupSize (typeAt m t)) :: u32) = ft_RecGroupSize (typeAt m t)"
    using assms(2) by (simp add: unsigned_of_nat take_bit_nat_eq_self)
  then have "\<not> (of_nat (ft_RecGroupSize (typeAt m t)) :: u32) \<le> 1"
    using assms(1) by (simp add: word_le_nat_alt)
  then show ?thesis by (simp add: group_def)
qed

lemma type_inv_wf_types:
  assumes inv: "type_inv (TypeSection m)" and b: "length (TypeSection m) < 2 ^ 32"
  shows "wf_types m"
  unfolding wf_types_def
proof (intro conjI ballI allI impI)
  fix ft assume "ft \<in> set (TypeSection m)"
  then have "refs_below (length (TypeSection m)) ft" using inv by (simp add: type_inv_def)
  then show "list_all (wf_value_type m) (ft_Params ft @ ft_Results ft)"
    by (simp add: refs_below_def wf_value_type_def inRange_def list_all_iff)
next
  fix t assume t: "inRange m t"
  have *: "t - fst (group m t) < snd (group m t) \<and> group m (fst (group m t)) = group m t \<and>
       unat (fst (group m t)) + unat (snd (group m t)) \<le> length (TypeSection m)"
  proof (cases "ft_RecGroupSize (typeAt m t) \<le> 1")
    case True
    then show ?thesis using t by (simp add: group_alone inRange_def)
  next
    case False
    define n p where np: "n = ft_RecGroupSize (typeAt m t)" "p = ft_RecGroupPosition (typeAt m t)"
    have g: "in_group (TypeSection m) (unat t) n p"
      using inv t False unfolding type_inv_def grouped_def inRange_def typeAt_def np by simp
    then have "n < 2 ^ 32" "p \<le> unat t" "p < n" using b by (auto simp: in_group_def)
    then have u: "unat (of_nat n :: u32) = n" "unat (of_nat p :: u32) = p" "unat (t - of_nat p) = unat t - p"
      using unat_sub_of_nat by (auto simp: unsigned_of_nat take_bit_nat_eq_self)
    have first: "ft_RecGroupSize (typeAt m (t - of_nat p)) = n" "ft_RecGroupPosition (typeAt m (t - of_nat p)) = 0"
      using g unfolding in_group_def typeAt_def u by (metis add_0_right less_imp_neq gr_zeroI not_less0)+
    have gt: "group m t = (t - of_nat p, of_nat n)"
      using group_many [of m t] False \<open>n < 2 ^ 32\<close> by (simp add: np)
    moreover have "group m (t - of_nat p) = (t - of_nat p, of_nat n)"
      using group_many [of m "t - of_nat p"] first False \<open>n < 2 ^ 32\<close> by (simp add: np)
    moreover have "t - (t - of_nat p) < of_nat n" using \<open>p < n\<close> u by (simp add: word_less_nat_alt)
    moreover have "unat t - p + n \<le> length (TypeSection m)" using g unfolding in_group_def by blast
    ultimately show ?thesis by (simp add: u)
  qed
  from * show "t - fst (group m t) < snd (group m t)" by blast
  from * show "group m (fst (group m t)) = group m t" by blast
  from * show "unat (fst (group m t)) + unat (snd (group m t)) \<le> length (TypeSection m)" by blast
qed (rule b)

lemma decodeTypes_inv:
  "holds (\<lambda>(ts, r'). skips r (ts, r') \<and>
            (type_inv result \<and> length result + Len r < 2 ^ 32 \<longrightarrow> type_inv ts \<and> length ts + Len r' < 2 ^ 32))
     (decodeTypes n f result r)"
proof (induction n arbitrary: result r)
  case (Suc n)
  have "holds (\<lambda>(ts, r'). skips r (ts, r') \<and>
            (type_inv result \<and> length result + Len r < 2 ^ 32 \<longrightarrow> type_inv ts \<and> length ts + Len r' < 2 ^ 32))
          (decodeTypes n f (result @ fts) (advance k r))"
    if "k \<le> Len r" "length fts \<le> k" "new_group (length result) fts" for fts k
    by (rule holds_mono [OF Suc.IH]) (use that in \<open>auto simp: skips_def intro!: type_inv_append\<close>)
  then show ?case
    unfolding decodeTypes.simps holds_bindO
    by (intro holds_mono [OF decodeType_group]) (auto simp: group_appended_def)
qed simp

subsection \<open>Imports and exports\<close>

definition count_type :: "ExternType \<Rightarrow> Import list \<Rightarrow> nat" where
  "count_type t imps = length (filter (\<lambda>i. imp_Type i = t) imps)"

lemma count_type_simps [simp]:
  "count_type t [] = 0"
  "count_type t (imps @ [i]) = count_type t imps + (if imp_Type i = t then 1 else 0)"
  by (simp_all add: count_type_def)

text \<open>
  The imports are numbered per type, the counts are the numbers of imports of each type, and
  \<open>perModule\<close> groups the imports by module in their order.
\<close>

definition numbered :: "Import list \<Rightarrow> bool" where
  "numbered imps \<longleftrightarrow>
     (\<forall>k < length imps. imp_IndexPerType (imps ! k) = of_nat (count_type (imp_Type (imps ! k)) (take k imps)))"

definition imports_inv :: "u32 \<Rightarrow> import_state \<Rightarrow> bool" where
  "imports_inv lim s \<longleftrightarrow>
     is_funcCount s = of_nat (count_type ExternTypeFunc (is_result s)) \<and>
     is_globalCount s = of_nat (count_type ExternTypeGlobal (is_result s)) \<and>
     is_memoryCount s = of_nat (count_type ExternTypeMemory (is_result s)) \<and>
     is_tableCount s = of_nat (count_type ExternTypeTable (is_result s)) \<and>
     is_tagCount s = of_nat (count_type ExternTypeTag (is_result s)) \<and>
     numbered (is_result s) \<and>
     (\<forall>m. (case is_perModule s m of Some is \<Rightarrow> is | None \<Rightarrow> []) = filter (\<lambda>i. imp_Module i = m) (is_result s)) \<and>
     (\<forall>i \<in> set (is_result s). wf_import lim i)"

lemma numbered_snoc:
  "numbered (imps @ [i]) \<longleftrightarrow> numbered imps \<and> imp_IndexPerType i = of_nat (count_type (imp_Type i) imps)"
  by (auto simp: numbered_def nth_append less_Suc_eq)

lemma imports_inv_empty: "imports_inv lim no_imports"
  by (simp add: imports_inv_def no_imports_def numbered_def)

lemma addImport_inv:
  assumes "imports_inv lim s" and "wf_import lim imp"
  shows "imports_inv lim (addImport imp s)"
  using assms
  by (cases "imp_Type imp")
    (auto simp: imports_inv_def addImport_def Let_def numbered_snoc wf_import_def split: option.splits)

lemma decodeImports_inv:
  "imports_inv lim s \<Longrightarrow>
     holds (\<lambda>(s', r'). skips r (s', r') \<and> imports_inv lim s') (decodeImports n sizer lim f s r)"
proof (induction n arbitrary: s r)
  case (Suc n)
  have "holds (\<lambda>(s', r'). skips r (s', r') \<and> imports_inv lim s') (decodeImports n sizer lim f (addImport imp s) (advance k r))"
    if "k \<le> Len r" "wf_import lim imp" for imp k
    by (rule holds_mono [OF Suc.IH [OF addImport_inv]]) (use Suc.prems that in \<open>auto simp: skips_def\<close>)
  then show ?case unfolding decodeImports.simps by (auto simp: wp intro!: wpI)
qed simp

definition exports_inv :: "Export list \<times> (byte list \<rightharpoonup> Export) \<Rightarrow> bool" where
  "exports_inv = (\<lambda>(es, em). distinct (map exp_Name es) \<and> em = map_of (map (\<lambda>e. (exp_Name e, e)) es))"

lemma exports_inv_snoc:
  assumes "exports_inv (es, em)" and "em (exp_Name e) = None"
  shows "exports_inv (es @ [e], em(exp_Name e \<mapsto> e))"
proof -
  have "exp_Name e \<notin> exp_Name ` set es"
    using assms by (simp add: exports_inv_def map_of_eq_None_iff image_image)
  then show ?thesis
    using assms by (auto simp: exports_inv_def map_add_def fun_eq_iff dest: map_of_SomeD split: option.splits)
qed

lemma decodeExports_inv:
  "exports_inv (es, em) \<Longrightarrow>
     holds (\<lambda>(x, r'). skips r (x, r') \<and> exports_inv x) (decodeExports n es em r)"
proof (induction n arbitrary: es em r)
  case (Suc n)
  have "holds (\<lambda>(x, r'). skips r (x, r') \<and> exports_inv x) (decodeExports n (es @ [e]) (em(exp_Name e \<mapsto> e)) (advance k r))"
    if "k \<le> Len r" "em (exp_Name e) = None" for e k
    by (rule holds_mono [OF Suc.IH [OF exports_inv_snoc]]) (use Suc.prems that in \<open>auto simp: skips_def\<close>)
  then show ?case unfolding decodeExports.simps by (auto simp: wp intro!: wpI)
qed simp

subsection \<open>Code\<close>

lemma countLocals_reads:
  "holds (\<lambda>((c, br'), r'). \<exists>k \<le> Len r. r' = advance k r \<and> br' = br + k) (countLocals n rem c br r)"
proof (induction n arbitrary: c br r)
  case (Suc n)
  have "holds (\<lambda>((c, br'), r'). \<exists>k \<le> Len r. r' = advance k r \<and> br' = br + k) (countLocals n rem c' (br + k) (advance k r))"
    if "k \<le> Len r" for c' k
    by (rule holds_mono [OF Suc.IH]) (use that in auto)
  from this [of "Suc _", simplified] this show ?case
    unfolding countLocals.simps by (auto simp: wp Let_def add.assoc intro!: wpI fits)
qed simp

lemma readLocals_reads:
  "holds (\<lambda>((rem', ls'), r'). \<exists>k \<le> Len r. r' = advance k r \<and> rem' = rem - int k) (readLocals n rem ls r)"
proof (induction n arbitrary: rem ls r)
  case (Suc n)
  have "holds (\<lambda>((rem', ls'), r'). \<exists>k \<le> Len r. r' = advance k r \<and> rem' = rem - int k)
          (readLocals n rem' ls' (advance k r))"
    if "k \<le> Len r" "rem' = rem - int k" for rem' ls' k
    by (rule holds_mono [OF Suc.IH]) (use that in auto)
  note rec = this
  show ?case
    unfolding readLocals.simps
    by (auto simp: wp Let_def of_nat_diff intro!: wpI rec; arith)
qed simp

lemma decodeRefType_Ok_reader:
  "decodeRefType b r = Ok (vt, r') \<Longrightarrow> DecodeInt33AsInt64 r = Ok (ht, n, r'') \<Longrightarrow> r' = r''"
  by (auto simp: decodeRefType_def bindO_Ok_iff split: if_splits)

text \<open>The two passes over the locals read the same declarations.\<close>

lemma locals_counted:
  "countLocals n rem c br r = Ok ((c', br'), r') \<Longrightarrow> readLocals n rem0 ls r = Ok ((rem1, ls'), r'') \<Longrightarrow>
     \<exists>l \<le> n * (2 ^ 32 - 1). length ls' = length ls + l \<and> c' = c + of_nat l"
proof (induction n arbitrary: rem c br r rem0 ls)
  case (Suc n)
  from Suc.prems obtain num k ra b rb where first: "DecodeUint32 r = Ok (num, k, ra)" "ReadByte ra = Ok (b, rb)"
    by (auto simp: bindO_Ok_iff Let_def split: if_splits)
  have "\<exists>rem2 br2 rem3 vt rc. countLocals n rem2 (c + ucast num) br2 rc = Ok ((c', br'), r') \<and>
          readLocals n rem3 (ls @ replicate (unat num) vt) rc = Ok ((rem1, ls'), r'')"
    using Suc.prems first decodeRefType_Ok_reader [of _ rb]
    by (auto simp: bindO_Ok_iff Let_def split: if_splits) blast+
  then obtain rem2 br2 rem3 vt rc where "countLocals n rem2 (c + ucast num) br2 rc = Ok ((c', br'), r')"
    "readLocals n rem3 (ls @ replicate (unat num) vt) rc = Ok ((rem1, ls'), r'')"
    by blast
  from Suc.IH [OF this] obtain l where l: "l \<le> n * (2 ^ 32 - 1)" "length ls' = length ls + unat num + l"
    "c' = c + ucast num + of_nat l" by auto
  have "unat num \<le> 2 ^ 32 - 1" using unsigned_less [of num, where 'a = nat] by simp
  moreover have "(ucast num :: u64) = of_nat (unat num)" by (rule unsigned_word_eqI) (simp add: unsigned_of_nat unsigned_ucast_eq)
  ultimately show ?case using l by (intro exI [of _ "unat num + l"]) simp
qed simp

definition wf_code_entry :: "Code \<Rightarrow> bool" where
  "wf_code_entry c \<longleftrightarrow> code_Body c \<noteq> [] \<and> last (code_Body c) = OpcodeEnd \<and> length (code_LocalTypes c) \<le> 1000000 \<and>
     \<not> code_GoFunc c"

abbreviation makeslice_panic :: string where
  "makeslice_panic \<equiv> ''makeslice: len out of range''"

lemma locals_bound:
  fixes ls :: u32
  assumes "countLocals (unat ls) rem 0 0 r = Ok ((c, k), r1)" and "c \<le> 1000000"
    and "readLocals (unat ls) rem [] r = Ok ((rem', lts), r2)"
  shows "length lts \<le> 1000000"
proof -
  obtain l where l: "l \<le> unat ls * (2 ^ 32 - 1)" "length lts = l" "c = of_nat l"
    using locals_counted [OF assms(1,3)] by auto
  have "unat ls * (2 ^ 32 - 1) \<le> (2 ^ 32 - 1) * (2 ^ 32 - 1)"
    using unsigned_less [of ls, where 'a = nat] by (intro mult_right_mono) simp_all
  then have "l < 2 ^ 64" using l(1) by simp
  then have "unat c = l" using l by (simp add: unsigned_of_nat take_bit_nat_eq_self)
  then show ?thesis using assms(2) l by (simp add: word_le_nat_alt)
qed

lemma holds_decodeLocals [wpI]:
  assumes "\<And>lts k. k \<le> Len r \<Longrightarrow> length lts \<le> 1000000 \<Longrightarrow> P ((rem - int k, lts), advance k r)"
  shows "holds P (decodeLocals ls rem r)"
proof -
  have "holds P (readLocals (unat ls) rem [] r)"
    if "countLocals (unat ls) rem 0 0 r = Ok ((c, k), r')" "c \<le> 1000000" for c k r'
    by (rule holds_mono [OF readLocals_reads])
      (use assms locals_bound [OF that] in \<open>auto\<close>)
  then show ?thesis
    unfolding decodeLocals_def holds_bindO
    by (intro holds_mono [OF countLocals_reads]) (auto simp: wp not_less)
qed

lemma decodeBody_read:
  "length lts \<le> 1000000 \<Longrightarrow>
   holds_or makeslice_panic (\<lambda>(c, r'). 0 \<le> rem \<and> nat rem \<le> Len r \<and> r' = advance (nat rem) r \<and> wf_code_entry c)
     (decodeBody start rem lts r)"
  by (auto simp: decodeBody_def make_len_def ReadFull_def wf_code_entry_def Let_def)

text \<open>
  A function body: what is read is the size field and exactly the number of bytes it declares. The
  only panic is the one of a negative remaining size.
\<close>

definition code_read :: "reader \<Rightarrow> Code \<times> reader \<Rightarrow> bool" where
  "code_read r = (\<lambda>(c, r'). wf_code_entry c \<and>
     (\<exists>ss n. DecodeUint32 r = Ok (ss, n, advance n r) \<and> 0 < n \<and> n + unat ss \<le> Len r \<and> r' = advance (n + unat ss) r))"

lemma DecodeUint32_cases:
  obtains (fails) e where "DecodeUint32 r = Err e"
  | (num) v n where "DecodeUint32 r = Ok (v, n, advance n r)" "0 < n" "n \<le> Len r"
proof -
  have "holds (\<lambda>(v, n, r'). r' = advance n r \<and> 0 < n \<and> n \<le> Len r) (DecodeUint32 r)" by (auto intro!: wpI)
  then show ?thesis using that by (cases "DecodeUint32 r") auto
qed

lemma decodeCode_read: "holds_or makeslice_panic (code_read r) (decodeCode start r)"
proof (cases r rule: DecodeUint32_cases)
  case (fails e)
  then show ?thesis by (simp add: decodeCode_def)
next
  case (num ss n)
  have body: "holds_or makeslice_panic (code_read r) (decodeBody start rem lts (advance m r))"
    if "rem = int (unat ss) - int (m - n)" "n \<le> m" "m \<le> Len r" "length lts \<le> 1000000" for rem m lts
  proof (rule holds_or_mono [OF decodeBody_read [OF that(4)]])
    fix a
    assume "case a of (c, r') \<Rightarrow> 0 \<le> rem \<and> nat rem \<le> Len (advance m r) \<and> r' = advance (nat rem) (advance m r) \<and> wf_code_entry c"
    then obtain c where a: "a = (c, advance (m + nat rem) r)" "0 \<le> rem" "nat rem \<le> Len r - m" "wf_code_entry c"
      by auto
    have "m + nat rem = n + unat ss" using that(1,2) a(2) by linarith
    then show "code_read r a" using a num that(3) by (auto simp: code_read_def)
  qed
  show ?thesis
  proof (cases "advance n r" rule: DecodeUint32_cases)
    case (fails e)
    then show ?thesis using num by (simp add: decodeCode_def)
  next
    case (num ls m)
    have "holds_or makeslice_panic (code_read r)
            (bindO (decodeLocals ls (int (unat ss) - int m) (advance (n + m) r)) (\<lambda>((remaining, localTypes), r).
               decodeBody start remaining localTypes r))"
      unfolding holds_or_bindO by (rule holds_imp_holds_or) (use num in \<open>auto intro!: wpI body\<close>)
    then show ?thesis
      using num \<open>DecodeUint32 r = Ok (ss, n, advance n r)\<close> by (simp add: decodeCode_def Let_def)
  qed
qed

subsection \<open>Segments\<close>

definition wf_element :: "ElementSegment \<Rightarrow> bool" where
  "wf_element e \<longleftrightarrow> (\<forall>i \<in> set (es_Init e). wf_expr i) \<and> (es_Mode e = ElementModeActive \<longrightarrow> wf_expr (es_OffsetExpr e))"

definition wf_data :: "DataSegment \<Rightarrow> bool" where
  "wf_data d \<longleftrightarrow> ds_Passive d \<or> wf_expr (ds_OffsetExpression d)"

lemma wf_expr_FromOpcode [simp]: "wf_expr (NewConstantExpressionFromOpcode opc bs)"
  by (simp add: wf_expr_def NewConstantExpressionFromOpcode_def)

lemma holds_ensureElementKindFuncRef [wpI]:
  "(0 < Len r \<Longrightarrow> P (advance 1 r)) \<Longrightarrow> holds P (ensureElementKindFuncRef r)"
  unfolding ensureElementKindFuncRef_def by (auto simp: wp intro!: wpI)

lemma decodeElementInitValueVector_wf:
  "holds (\<lambda>(xs, r'). consumes r (xs, r') \<and> (\<forall>x \<in> set xs. wf_expr x)) (decodeElementInitValueVector r)"
proof -
  have "holds (\<lambda>(x, r'). consumes r (x, r') \<and> wf_expr x) (decodeElementInitValue r)" for r
    unfolding decodeElementInitValue_def by (auto simp: wp intro!: wpI)
  then show ?thesis
    unfolding decodeElementInitValueVector_def
    by (auto simp: wp intro!: wpI holds_decodeNI [where d = decodeElementInitValue and Q = wf_expr] fits)
qed

lemma decodeElementConstExprVector_wf:
  "holds (\<lambda>(xs, r'). consumes r (xs, r') \<and> (\<forall>x \<in> set xs. wf_expr x)) (decodeElementConstExprVector f r)"
proof -
  have "holds (\<lambda>(x, r'). consumes r (x, r') \<and> wf_expr x) (decodeConstantExpression f r)" for r
    by (auto intro!: wpI)
  then show ?thesis
    unfolding decodeElementConstExprVector_def
    by (auto simp: wp intro!: wpI holds_decodeNI [where d = "decodeConstantExpression f" and Q = wf_expr] fits)
qed

lemma decodeElementRefType_consumes: "holds (consumes r) (decodeElementRefType r)"
  unfolding decodeElementRefType_def by (auto simp: wp Let_def intro!: wpI fits; arith)

lemma decodeElementTableIndex_consumes: "holds (consumes r) (decodeElementTableIndex f r)"
  unfolding decodeElementTableIndex_def by (auto simp: wp intro!: wpI)

lemmas BinarySections_wpI2 [wpI] = decodeElementInitValueVector_wf [THEN holds_consumes_andI]
  decodeElementConstExprVector_wf [THEN holds_consumes_andI]
  decodeElementRefType_consumes [THEN holds_consumesI] decodeElementTableIndex_consumes [THEN holds_consumesI]

lemma decodeElementSegment_wf:
  "holds (\<lambda>(e, r'). consumes r (e, r') \<and> wf_element e) (decodeElementSegment f r)"
  unfolding decodeElementSegment_def
  by (auto simp: wp wf_element_def elementSegment_def intro!: wpI fits; arith)

lemma decodeDataOffset_wf:
  "holds (\<lambda>(x, r'). skips r (x, r') \<and> (case x of (off, passive) \<Rightarrow> passive \<or> wf_expr off)) (decodeDataOffset f prefix r)"
  unfolding decodeDataOffset_def by (auto simp: wp intro!: wpI fits)

lemma decodeDataSegment_wf:
  "holds (\<lambda>(d, r'). consumes r (d, r') \<and> wf_data d) (decodeDataSegment f r)"
  unfolding decodeDataSegment_def
  by (auto simp: wp wf_data_def intro!: wpI decodeDataOffset_wf [THEN holds_skips_andI] fits)

subsection \<open>Names\<close>

lemma decodeFunctionIndex_consumes: "holds (consumes r) (decodeFunctionIndex r)"
  unfolding decodeFunctionIndex_def by (auto simp: wp intro!: wpI)

lemma decodeFunctionCount_consumes: "holds (consumes r) (decodeFunctionCount r)"
  unfolding decodeFunctionCount_def by (auto simp: wp intro!: wpI)

lemma decodeLocalName_consumes: "holds (consumes r) (decodeLocalName r)"
  unfolding decodeLocalName_def by (auto simp: wp intro!: wpI fits)

lemmas BinarySections_wpI3 [wpI] = decodeFunctionIndex_consumes [THEN holds_consumesI] decodeFunctionCount_consumes [THEN holds_consumesI]

lemma decodeFunctionNames_consumes: "holds (consumes r) (decodeFunctionNames r)"
  unfolding decodeFunctionNames_def
  by (auto simp: wp intro!: wpI decodeN_skips [THEN holds_skipsI] fits)

lemma decodeLocalNames_consumes: "holds (consumes r) (decodeLocalNames r)"
  unfolding decodeLocalNames_def
  by (auto simp: wp intro!: wpI decodeN_skips [THEN holds_skipsI] decodeLocalName_consumes fits)

lemmas BinarySections_wpI4 [wpI] = decodeFunctionNames_consumes [THEN holds_consumesI] decodeLocalNames_consumes [THEN holds_consumesI]

lemma decodeSubsection_skips: "holds (skips r) (decodeSubsection i n res r)"
  unfolding decodeSubsection_def by (auto simp: wp intro!: wpI)

lemma ReadByte_OkD: "ReadByte r = Ok (b, r') \<Longrightarrow> r' = advance 1 r \<and> 0 < Len r"
  by (auto simp: ReadByte_def simp flip: length_rest split: list.splits)

function decodeNameSection_loop :: "u64 \<Rightarrow> NameSection \<Rightarrow> reader \<Rightarrow> (NameSection \<times> reader) outcome" where
  "decodeNameSection_loop limit result r =
     (if limit = 0 then Ok (result, r)
      else
        case ReadByte r of
          Err e \<Rightarrow> if e = EOF then Ok (result, r) else Err (Wrapf ''failed to read a subsection ID'' e)
        | Panic p \<Rightarrow> Panic p
        | Ok (subsectionID, r1) \<Rightarrow>
            bindO (mapErr (Wrapf ''failed to read the size of subsection[%d]'') (DecodeUint32 r1)) (\<lambda>(subsectionSize, bytesRead, r2).
            bindO (decodeSubsection subsectionID subsectionSize result r2) (\<lambda>(result, r3).
              decodeNameSection_loop (limit - 1 - of_nat bytesRead - ucast subsectionSize) result r3)))"
  by pat_completeness auto

termination
proof (relation "measure (\<lambda>(_, _, r). Len r)", goal_cases)
  case (2 limit result r a b r1 x v y n r2 z res r3)
  have "holds (\<lambda>(v, n, r'). \<exists>k \<le> Len r1. r' = advance k r1) (DecodeUint32 r1)" by (auto intro!: wpI)
  moreover have "holds (skips r2) (decodeSubsection b v result r2)" by (rule decodeSubsection_skips)
  ultimately show ?case using 2 by (auto simp: skips_def dest!: ReadByte_OkD)
qed simp

declare decodeNameSection_loop.simps [simp del]

definition decodeNameSection :: "u64 \<Rightarrow> reader \<Rightarrow> (NameSection \<times> reader) outcome" where
  "decodeNameSection limit r =
     decodeNameSection_loop limit
       \<lparr>ns_ModuleName = [], ns_FunctionNames = [], ns_LocalNames = [], ns_ResultNames = []\<rparr> r"

lemma decodeNameSection_loop_skips: "holds (skips r) (decodeNameSection_loop limit res r)"
proof (induction "Len r" arbitrary: limit res r rule: less_induct)
  case less
  have rec: "holds (skips r) (decodeNameSection_loop l res' (advance k r))" if "0 < k" "k \<le> Len r" for k l res'
    by (rule holds_mono [OF less]) (use that in \<open>auto simp: skips_def\<close>)
  show ?case
  proof (cases "rest r")
    case Nil
    then show ?thesis by (simp add: decodeNameSection_loop.simps [of limit] ReadByte_def)
  next
    case (Cons b bs)
    then have "0 < Len r" by (metis length_rest length_greater_0_conv list.distinct(1))
    with Cons show ?thesis
      by (auto simp: decodeNameSection_loop.simps [of limit] wp
          intro!: wpI decodeSubsection_skips [THEN holds_skipsI] rec; arith)
  qed
qed

end
