(* ===== verification/BinaryDecoder.thy ===== *)
theory BinaryDecoder
  imports BinarySections
begin

text \<open>
  \<^verbatim>\<open>internal/wasm/binary/decoder.go\<close>: the loop over the sections of a module. The DWARF data that the
  loop collects from custom sections has no effect on the decoded module and is left out.
\<close>

section \<open>Decoding a module\<close>

definition checkSectionOrder :: "byte \<Rightarrow> byte \<Rightarrow> byte \<times> bool" where
  "checkSectionOrder current previous =
     (if current = SectionIDCustom then (previous, True)
      else if current = SectionIDTag then (current, previous \<le> SectionIDMemory)
      else if previous = SectionIDTag then (current, current \<ge> SectionIDGlobal)
      else if current > SectionIDDataCount then (current, False)
      else if current = SectionIDDataCount then (current, previous \<le> SectionIDElement)
      else if previous = SectionIDDataCount then (current, current \<ge> SectionIDCode)
      else (current, current > previous))"

abbreviation sectionErr :: "'a outcome \<Rightarrow> 'a outcome" where
  "sectionErr \<equiv> mapErr (\<lambda>_. Errorf ''section %s: %v'')"

text \<open>The custom section \<open>name\<close>, in bytes.\<close>

definition name_name :: "byte list" where
  "name_name = [0x6e, 0x61, 0x6d, 0x65]"

definition decodeCustom :: "bool \<Rightarrow> bool \<Rightarrow> u32 \<Rightarrow> Module \<Rightarrow> reader \<Rightarrow> (Module \<times> reader) outcome" where
  "decodeCustom dwarfEnabled storeCustomSections sectionSize m r =
     bindO (sectionErr (decodeUTF8 ''custom section name'' r)) (\<lambda>((name, nameSize), r).
     if sectionSize < nameSize then sectionErr (Err (Errorf ''malformed custom section %s''))
     else if name = name_name \<and> mod_NameSection m \<noteq> None
     then sectionErr (Err (Errorf ''redundant custom section %s''))
     else
       let limit = sectionSize - nameSize in
       if name \<noteq> name_name then
         if storeCustomSections \<or> dwarfEnabled then
           bindO (mapErr (Wrapf ''failed to read custom section name[%s]'') (decodeCustomSection name (unat limit) r)) (\<lambda>(c, r).
             Ok (m\<lparr>CustomSections := CustomSections m @ [c]\<rparr>, r))
         else
           bindO (mapErr (Wrapf ''failed to skip name[%s]'') (CopyN_Discard (unat limit) r)) (\<lambda>r. Ok (m, r))
       else
         bindO (sectionErr (decodeNameSection (ucast limit) r)) (\<lambda>(ns, r).
           Ok (m\<lparr>mod_NameSection := Some ns\<rparr>, r)))"

definition setImports :: "import_state \<Rightarrow> Module \<Rightarrow> Module" where
  "setImports s m =
     m\<lparr>ImportSection := is_result s, ImportPerModule := is_perModule s, ImportFunctionCount := is_funcCount s,
       ImportGlobalCount := is_globalCount s, ImportMemoryCount := is_memoryCount s, ImportTableCount := is_tableCount s,
       ImportTagCount := is_tagCount s\<rparr>"

text \<open>The switch over the section identifier.\<close>

definition decodeSection ::
    "CoreFeatures \<Rightarrow> u32 \<Rightarrow> memorySizer \<Rightarrow> bool \<Rightarrow> bool \<Rightarrow> byte \<Rightarrow> u32 \<Rightarrow> Module \<Rightarrow> reader \<Rightarrow> (Module \<times> reader) outcome" where
  "decodeSection enabledFeatures memoryLimitPages memSizer dwarfEnabled storeCustomSections sectionID sectionSize m r =
     (if sectionID = SectionIDCustom then decodeCustom dwarfEnabled storeCustomSections sectionSize m r
      else if sectionID = SectionIDType then
        bindO (sectionErr (decodeTypeSection enabledFeatures r)) (\<lambda>(x, r). Ok (m\<lparr>TypeSection := x\<rparr>, r))
      else if sectionID = SectionIDImport then
        bindO (decodeImportSection memSizer memoryLimitPages enabledFeatures r) (\<lambda>(s, r). Ok (setImports s m, r))
      else if sectionID = SectionIDFunction then
        bindO (sectionErr (decodeFunctionSection r)) (\<lambda>(x, r). Ok (m\<lparr>FunctionSection := x\<rparr>, r))
      else if sectionID = SectionIDTable then
        bindO (sectionErr (decodeTableSection enabledFeatures r)) (\<lambda>(x, r). Ok (m\<lparr>TableSection := x\<rparr>, r))
      else if sectionID = SectionIDMemory then
        bindO (sectionErr (decodeMemorySection enabledFeatures memSizer memoryLimitPages r)) (\<lambda>(x, r).
          Ok (m\<lparr>MemorySection := x\<rparr>, r))
      else if sectionID = SectionIDTag then
        bindO (mapErr (\<lambda>_. Errorf ''tag section not supported as %v'')
                 (RequireEnabled enabledFeatures CoreFeaturesExceptionHandling)) (\<lambda>_.
        bindO (sectionErr (decodeTagSection r)) (\<lambda>(x, r). Ok (m\<lparr>TagSection := x\<rparr>, r)))
      else if sectionID = SectionIDGlobal then
        bindO (decodeGlobalSection enabledFeatures r) (\<lambda>(x, r). Ok (m\<lparr>GlobalSection := x\<rparr>, r))
      else if sectionID = SectionIDExport then
        bindO (sectionErr (decodeExportSection r)) (\<lambda>((es, em), r). Ok (m\<lparr>ExportSection := es, Exports := em\<rparr>, r))
      else if sectionID = SectionIDStart then
        bindO (sectionErr (decodeStartSection r)) (\<lambda>(x, r). Ok (m\<lparr>StartSection := Some x\<rparr>, r))
      else if sectionID = SectionIDElement then
        bindO (sectionErr (decodeElementSection enabledFeatures r)) (\<lambda>(x, r). Ok (m\<lparr>ElementSection := x\<rparr>, r))
      else if sectionID = SectionIDCode then
        bindO (sectionErr (decodeCodeSection r)) (\<lambda>(x, r). Ok (m\<lparr>CodeSection := x\<rparr>, r))
      else if sectionID = SectionIDData then
        bindO (sectionErr (decodeDataSection enabledFeatures r)) (\<lambda>(x, r). Ok (m\<lparr>DataSection := x\<rparr>, r))
      else if sectionID = SectionIDDataCount then
        bindO (mapErr (\<lambda>_. Errorf ''data count section not supported as %v'')
                 (RequireEnabled enabledFeatures CoreFeatureBulkMemoryOperations)) (\<lambda>_.
        bindO (sectionErr (decodeDataCountSection r)) (\<lambda>(x, r). Ok (m\<lparr>DataCountSection := Some x\<rparr>, r)))
      else sectionErr (Err ErrInvalidSectionID))"

lemma ReadByte_Len: "ReadByte r = Ok (b, r') \<Longrightarrow> Len r' < Len r"
  by (auto dest: ReadByte_OkD)

lemma DecodeUint32_Len: "DecodeUint32 r = Ok (v, n, r') \<Longrightarrow> Len r' < Len r"
  using holds_Decode(1) [of r "\<lambda>(v, n, r'). Len r' < Len r"] by auto

lemma section_shrinks: "uint (s :: u32) = int a - int b \<Longrightarrow> a < c \<Longrightarrow> c < d \<Longrightarrow> b < d"
  using uint_ge_0 [of s] by linarith

function decodeSections ::
    "CoreFeatures \<Rightarrow> u32 \<Rightarrow> memorySizer \<Rightarrow> bool \<Rightarrow> bool \<Rightarrow> byte \<Rightarrow> Module \<Rightarrow> reader \<Rightarrow> Module outcome" where
  "decodeSections enabledFeatures memoryLimitPages memSizer dwarfEnabled storeCustomSections lastSectionID m r =
     (case ReadByte r of
        Err e \<Rightarrow> if e = EOF then Ok m else Err (Wrapf ''read section id'' e)
      | Panic p \<Rightarrow> Panic p
      | Ok (sectionID, r1) \<Rightarrow>
          bindO (mapErr (\<lambda>_. Errorf ''get size of section %s: %v'') (DecodeUint32 r1)) (\<lambda>(sectionSize, _, r2).
          let (lastSectionID', ok) = checkSectionOrder sectionID lastSectionID in
          if \<not> ok then Err (Errorf ''invalid section order'')
          else
            let sectionContentStart = Len r2 in
            bindO (decodeSection enabledFeatures memoryLimitPages memSizer dwarfEnabled storeCustomSections
                     sectionID sectionSize m r2) (\<lambda>(m', r3).
            let readBytes = int sectionContentStart - int (Len r3) in
            if int (unat sectionSize) \<noteq> readBytes
            then sectionErr (Err (Errorf ''invalid section length: expected to be %d but got %d''))
            else decodeSections enabledFeatures memoryLimitPages memSizer dwarfEnabled storeCustomSections
                   lastSectionID' m' r3)))"
  by pat_completeness auto

termination
  by (relation "measure (\<lambda>(_, _, _, _, _, _, _, r). Len r)")
    (auto dest!: ReadByte_Len DecodeUint32_Len intro: section_shrinks)

declare decodeSections.simps [simp del]

definition Magic :: "byte list" where
  "Magic = [0x00, 0x61, 0x73, 0x6d]"

definition version :: "byte list" where
  "version = [0x01, 0x00, 0x00, 0x00]"

definition checkHeader :: "byte list \<Rightarrow> go_error \<Rightarrow> reader \<Rightarrow> reader outcome" where
  "checkHeader expected e r =
     (case ReadFull 4 r of Ok (buf, r) \<Rightarrow> if buf \<noteq> expected then Err e else Ok r | _ \<Rightarrow> Err e)"

definition DecodeModule ::
    "byte list \<Rightarrow> CoreFeatures \<Rightarrow> u32 \<Rightarrow> bool \<Rightarrow> bool \<Rightarrow> bool \<Rightarrow> Module outcome" where
  "DecodeModule binary enabledFeatures memoryLimitPages memoryCapacityFromMax dwarfEnabled storeCustomSections =
     bindO (checkHeader Magic ErrInvalidMagicNumber (NewReader binary)) (\<lambda>r.
     bindO (checkHeader version ErrInvalidVersion r) (\<lambda>r.
     let memSizer = newMemorySizer memoryLimitPages memoryCapacityFromMax in
     bindO (decodeSections enabledFeatures memoryLimitPages memSizer dwarfEnabled storeCustomSections 0 emptyModule r) (\<lambda>m.
     bindO (SectionElementCount m SectionIDFunction) (\<lambda>functionCount.
     bindO (SectionElementCount m SectionIDCode) (\<lambda>codeCount.
     if functionCount \<noteq> codeCount
     then Err (Errorf ''function and code section have inconsistent lengths: %d != %d'')
     else Ok m)))))"

section \<open>The decoded module\<close>

text \<open>
  What decoding promises of the module, section by section; the type section is well-formed in the
  sense of the type equivalence algorithm.
\<close>

definition imports_of :: "Module \<Rightarrow> import_state" where
  "imports_of m =
     \<lparr>is_result = ImportSection m, is_perModule = ImportPerModule m, is_funcCount = ImportFunctionCount m,
      is_globalCount = ImportGlobalCount m, is_memoryCount = ImportMemoryCount m, is_tableCount = ImportTableCount m,
      is_tagCount = ImportTagCount m\<rparr>"

definition module_inv :: "u32 \<Rightarrow> Module \<Rightarrow> bool" where
  "module_inv lim m \<longleftrightarrow>
     type_inv (TypeSection m) \<and> length (TypeSection m) < 2 ^ 32 \<and>
     imports_inv lim (imports_of m) \<and>
     length (FunctionSection m) < 2 ^ 32 \<and> length (CodeSection m) < 2 ^ 32 \<and>
     (\<forall>t \<in> set (TableSection m). wf_table_type t) \<and>
     (case MemorySection m of Some mem \<Rightarrow> wf_memory_type lim mem | None \<Rightarrow> True) \<and>
     (\<forall>g \<in> set (GlobalSection m). wf_expr (glo_Init g)) \<and>
     exports_inv (ExportSection m, Exports m) \<and>
     (\<forall>e \<in> set (ElementSection m). wf_element e) \<and>
     (\<forall>c \<in> set (CodeSection m). wf_code_entry c) \<and>
     (\<forall>d \<in> set (DataSection m). wf_data d)"

lemma module_inv_empty: "module_inv lim emptyModule"
  using imports_inv_empty [of lim]
  by (simp add: module_inv_def emptyModule_def type_inv_def grouped_def imports_of_def no_imports_def exports_inv_def)

lemma type_inv_Nil [simp]: "type_inv []"
  by (simp add: type_inv_def grouped_def)

lemma exports_inv_Nil [simp]: "exports_inv ([], Map.empty)"
  by (simp add: exports_inv_def)

text \<open>The section decoders, with the part of the invariant each establishes.\<close>

lemma decodeTypeSection_inv:
  "holds (\<lambda>(ts, r'). skips r (ts, r') \<and> (Len r < 2 ^ 32 \<longrightarrow> type_inv ts \<and> length ts < 2 ^ 32)) (decodeTypeSection f r)"
proof -
  have "holds (\<lambda>(ts, r'). skips r (ts, r') \<and> (Len r < 2 ^ 32 \<longrightarrow> type_inv ts \<and> length ts < 2 ^ 32))
          (decodeTypes n f [] (advance k r))" if "k \<le> Len r" for n k
    by (rule holds_mono [OF decodeTypes_inv]) (use that in \<open>auto simp: skips_def\<close>)
  then show ?thesis unfolding decodeTypeSection_def by (auto simp: wp intro!: wpI)
qed

lemma decodeImportSection_inv:
  "holds (\<lambda>(s, r'). skips r (s, r') \<and> imports_inv lim s) (decodeImportSection sizer lim f r)"
  unfolding decodeImportSection_def
  by (auto simp: wp intro!: wpI decodeImports_inv [THEN holds_skips_andI] imports_inv_empty fits)

lemma unat_u32_less [simp]: "unat (x :: u32) < 4294967296"
  using unsigned_less [of x, where 'a = nat] by simp

lemma decodeFunctionSection_len:
  "holds (\<lambda>(xs, r'). skips r (xs, r') \<and> length xs < 2 ^ 32) (decodeFunctionSection r)"
  unfolding decodeFunctionSection_def
  by (auto simp: wp intro!: wpI holds_decodeNI [where Q = "\<lambda>_. True"] fits)

lemma decodeTableSection_wf:
  "holds (\<lambda>(xs, r'). skips r (xs, r') \<and> (\<forall>t \<in> set xs. wf_table_type t)) (decodeTableSection f r)"
  unfolding decodeTableSection_def ensureVectorCountFits_def
  by (auto simp: wp intro!: wpI holds_decodeNI [where Q = wf_table_type] decodeTable_wf fits)

lemma decodeMemorySection_wf:
  "holds (\<lambda>(x, r'). skips r (x, r') \<and> (case x of Some m \<Rightarrow> wf_memory_type lim m | None \<Rightarrow> True))
     (decodeMemorySection f sizer lim r)"
  unfolding decodeMemorySection_def by (auto simp: wp intro!: wpI fits)

lemma decodeGlobalSection_wf:
  "holds (\<lambda>(xs, r'). skips r (xs, r') \<and> (\<forall>g \<in> set xs. wf_expr (glo_Init g))) (decodeGlobalSection f r)"
  unfolding decodeGlobalSection_def
  by (auto simp: wp intro!: wpI holds_decodeNI [where Q = "\<lambda>g. wf_expr (glo_Init g)"] fits)

lemma decodeExportSection_inv:
  "holds (\<lambda>(x, r'). skips r (x, r') \<and> exports_inv x) (decodeExportSection r)"
  unfolding decodeExportSection_def ensureVectorCountFits_def
  by (auto simp: wp intro!: wpI decodeExports_inv [THEN holds_skips_andI] fits)

lemma decodeStartSection_skips: "holds (skips r) (decodeStartSection r)"
  unfolding decodeStartSection_def by (auto simp: wp intro!: wpI)

lemma decodeTagSection_skips: "holds (skips r) (decodeTagSection r)"
proof -
  have "holds (consumes r) (decodeTag r)" for r
    unfolding decodeTag_def by (auto simp: wp intro!: wpI; arith)
  then show ?thesis
    unfolding decodeTagSection_def by (auto simp: wp intro!: wpI decodeN_skips [THEN holds_skipsI] fits)
qed

lemma decodeElementSection_wf:
  "holds (\<lambda>(xs, r'). skips r (xs, r') \<and> (\<forall>e \<in> set xs. wf_element e)) (decodeElementSection f r)"
  unfolding decodeElementSection_def
  by (auto simp: holds_bindO holds_mapErr decodeElementSegment_wf intro!: wpI holds_decodeNI [where Q = wf_element] fits)

lemma decodeDataSection_wf:
  "holds (\<lambda>(xs, r'). skips r (xs, r') \<and> (\<forall>d \<in> set xs. wf_data d)) (decodeDataSection f r)"
  unfolding decodeDataSection_def
  by (auto simp: holds_bindO holds_mapErr decodeDataSegment_wf intro!: wpI holds_decodeNI [where Q = wf_data] fits)

lemma decodeDataCountSection_skips: "holds (skips r) (decodeDataCountSection r)"
  by (cases r rule: DecodeUint32_cases) (auto simp: decodeDataCountSection_def)

lemma decodeN_holds_or:
  assumes d: "\<And>r. holds_or p (\<lambda>(x, r'). consumes r (x, r') \<and> Q x) (d r)"
  shows "holds_or p (\<lambda>(xs, r'). skips r (xs, r') \<and> length xs = n \<and> (\<forall>x \<in> set xs. Q x)) (decodeN n d r)"
proof (induction n arbitrary: r)
  case (Suc n)
  have step: "holds_or p (\<lambda>(xs, r''). skips r (xs, r'') \<and> length xs = Suc n \<and> (\<forall>x \<in> set xs. Q x))
                (bindO (decodeN n d r') (\<lambda>(xs, r). Ok (x # xs, r)))"
    if "consumes r (x, r')" "Q x" for x r'
    unfolding holds_or_bindO
    by (rule holds_or_mono [OF Suc.IH]) (use that in \<open>auto simp: consumes_def skips_def\<close>)
  show ?case
    unfolding decodeN.simps holds_or_bindO by (rule holds_or_mono [OF d]) (use step in auto)
qed simp

lemma decodeCodeSection_wf:
  "holds_or makeslice_panic
     (\<lambda>(xs, r'). skips r (xs, r') \<and> length xs < 2 ^ 32 \<and> (\<forall>c \<in> set xs. wf_code_entry c)) (decodeCodeSection r)"
proof -
  have code: "holds_or makeslice_panic (\<lambda>(c, r'). consumes r (c, r') \<and> wf_code_entry c)
          (mapErr (\<lambda>_. Errorf ''read %d-th code segment: %v'') (decodeCode start r))" for start r
    unfolding holds_or_mapErr
    by (rule holds_or_mono [OF decodeCode_read]) (auto simp: code_read_def)
  have each: "holds_or makeslice_panic (\<lambda>(xs, r'). skips r (xs, r') \<and> length xs < 2 ^ 32 \<and> (\<forall>c \<in> set xs. wf_code_entry c))
     (decodeN (unat (vs :: u32)) (\<lambda>r. mapErr (\<lambda>_. Errorf ''read %d-th code segment: %v'') (decodeCode start r)) (advance k r))"
    if "k \<le> Len r" for vs start k
    by (rule holds_or_mono [OF decodeN_holds_or [OF code]]) (use that in \<open>auto simp: skips_def\<close>)
  show ?thesis
    unfolding decodeCodeSection_def Let_def holds_or_bindO
    by (rule holds_imp_holds_or, rule holds_mono [OF decodeCount_consumes]) (use each in \<open>auto simp: consumes_def\<close>)
qed

lemma module_inv_updates [simp]:
  "module_inv lim (m\<lparr>CustomSections := x\<rparr>) = module_inv lim m"
  "module_inv lim (m\<lparr>mod_NameSection := y\<rparr>) = module_inv lim m"
  "module_inv lim (m\<lparr>TagSection := z\<rparr>) = module_inv lim m"
  "module_inv lim (m\<lparr>StartSection := i\<rparr>) = module_inv lim m"
  "module_inv lim (m\<lparr>DataCountSection := j\<rparr>) = module_inv lim m"
  by (simp_all add: module_inv_def imports_of_def)

lemma decodeCustom_inv:
  "module_inv lim m \<Longrightarrow> holds (\<lambda>(m', r'). skips r (m', r') \<and> module_inv lim m') (decodeCustom d st n m r)"
  unfolding decodeCustom_def decodeCustomSection_def decodeNameSection_def
  by (auto simp: wp Let_def intro!: wpI decodeNameSection_loop_skips [THEN holds_skipsI] fits)

lemma imports_of_setImports [simp]: "imports_of (setImports s m) = s"
  by (cases s) (simp add: imports_of_def setImports_def)

lemma module_inv_setImports: "module_inv lim m \<Longrightarrow> imports_inv lim s \<Longrightarrow> module_inv lim (setImports s m)"
  unfolding module_inv_def imports_of_setImports by (simp add: setImports_def)

text \<open>A section decoder whose result is put into the module.\<close>

lemma put_section:
  assumes "holds (\<lambda>(x, r'). skips r (x, r') \<and> Q x) dec" and "\<And>x. Q x \<Longrightarrow> module_inv lim (put x m)"
  shows "holds_or p (\<lambda>(m', r'). skips r (m', r') \<and> module_inv lim m') (bindO dec (\<lambda>(x, r). Ok (put x m, r)))"
  unfolding holds_or_bindO
  by (rule holds_imp_holds_or, rule holds_mono [OF assms(1)]) (use assms(2) in \<open>auto simp: skips_def\<close>)

lemmas put_section_err = put_section [where dec = "sectionErr _", unfolded holds_mapErr]

lemma decodeSection_inv:
  assumes m: "module_inv lim m" and r: "Len r < 2 ^ 32"
  shows "holds_or makeslice_panic (\<lambda>(m', r'). skips r (m', r') \<and> module_inv lim m')
           (decodeSection f lim sizer d st i n m r)" (is "holds_or _ ?P _")
proof -
  have 1: "holds_or makeslice_panic ?P (bindO (sectionErr (decodeTypeSection f r)) (\<lambda>(x, r). Ok (m\<lparr>TypeSection := x\<rparr>, r)))"
    by (rule put_section_err [OF decodeTypeSection_inv]) (use m r in \<open>auto simp: module_inv_def imports_of_def\<close>)
  have 2: "holds_or makeslice_panic ?P (bindO (decodeImportSection sizer lim f r) (\<lambda>(s, r). Ok (setImports s m, r)))"
    by (rule put_section [OF decodeImportSection_inv]) (rule module_inv_setImports [OF m])
  have 3: "holds_or makeslice_panic ?P (bindO (sectionErr (decodeFunctionSection r)) (\<lambda>(x, r). Ok (m\<lparr>FunctionSection := x\<rparr>, r)))"
    by (rule put_section_err [OF decodeFunctionSection_len]) (use m in \<open>auto simp: module_inv_def imports_of_def\<close>)
  have 4: "holds_or makeslice_panic ?P (bindO (sectionErr (decodeTableSection f r)) (\<lambda>(x, r). Ok (m\<lparr>TableSection := x\<rparr>, r)))"
    by (rule put_section_err [OF decodeTableSection_wf]) (use m in \<open>auto simp: module_inv_def imports_of_def\<close>)
  have 5: "holds_or makeslice_panic ?P (bindO (sectionErr (decodeMemorySection f sizer lim r)) (\<lambda>(x, r). Ok (m\<lparr>MemorySection := x\<rparr>, r)))"
    by (rule put_section_err [OF decodeMemorySection_wf]) (use m in \<open>auto simp: module_inv_def imports_of_def\<close>)
  have 6: "holds_or makeslice_panic ?P (bindO (decodeGlobalSection f r) (\<lambda>(x, r). Ok (m\<lparr>GlobalSection := x\<rparr>, r)))"
    by (rule put_section [OF decodeGlobalSection_wf]) (use m in \<open>auto simp: module_inv_def imports_of_def\<close>)
  have 7: "holds_or makeslice_panic ?P (bindO (sectionErr (decodeExportSection r)) (\<lambda>((es, em), r). Ok (m\<lparr>ExportSection := es, Exports := em\<rparr>, r)))"
    using put_section_err [OF decodeExportSection_inv, where put = "\<lambda>(es, em) m. m\<lparr>ExportSection := es, Exports := em\<rparr>" and m = m and lim = lim] m
    by (auto simp: module_inv_def imports_of_def case_prod_unfold)
  have 9: "holds_or makeslice_panic ?P (bindO (sectionErr (decodeElementSection f r)) (\<lambda>(x, r). Ok (m\<lparr>ElementSection := x\<rparr>, r)))"
    by (rule put_section_err [OF decodeElementSection_wf]) (use m in \<open>auto simp: module_inv_def imports_of_def\<close>)
  have 10: "holds_or makeslice_panic ?P (bindO (sectionErr (decodeCodeSection r)) (\<lambda>(x, r). Ok (m\<lparr>CodeSection := x\<rparr>, r)))"
    unfolding holds_or_bindO holds_or_mapErr
    by (rule holds_or_mono [OF decodeCodeSection_wf]) (use m in \<open>auto simp: module_inv_def imports_of_def skips_def\<close>)
  have 11: "holds_or makeslice_panic ?P (bindO (sectionErr (decodeDataSection f r)) (\<lambda>(x, r). Ok (m\<lparr>DataSection := x\<rparr>, r)))"
    by (rule put_section_err [OF decodeDataSection_wf]) (use m in \<open>auto simp: module_inv_def imports_of_def\<close>)
  have rest: "holds ?P (decodeCustom d st n m r)"
    "holds ?P (bindO (mapErr g (RequireEnabled f x)) (\<lambda>_. bindO (sectionErr (decodeTagSection r)) (\<lambda>(x, r). Ok (m\<lparr>TagSection := x\<rparr>, r))))"
    "holds ?P (bindO (sectionErr (decodeStartSection r)) (\<lambda>(x, r). Ok (m\<lparr>StartSection := Some x\<rparr>, r)))"
    "holds ?P (bindO (mapErr g (RequireEnabled f x)) (\<lambda>_. bindO (sectionErr (decodeDataCountSection r)) (\<lambda>(x, r). Ok (m\<lparr>DataCountSection := Some x\<rparr>, r))))"
    for g x
    using m decodeCustom_inv
    by (auto simp: wp intro!: wpI decodeTagSection_skips [THEN holds_skipsI] decodeStartSection_skips [THEN holds_skipsI]
        decodeDataCountSection_skips [THEN holds_skipsI])
  note or = rest [THEN holds_imp_holds_or [where p = makeslice_panic]]
  show ?thesis
    unfolding decodeSection_def holds_or_if
    using 1 2 3 4 5 6 7 9 10 11 or by simp
qed

lemma decodeSections_inv:
  "module_inv lim m \<Longrightarrow> Len r < 2 ^ 32 \<Longrightarrow>
     holds_or makeslice_panic (module_inv lim) (decodeSections f lim sizer d st prev m r)"
proof (induction "Len r" arbitrary: prev m r rule: less_induct)
  case less
  show ?case
  proof (cases "ReadByte r")
    case (Ok a)
    obtain i r1 where a: "a = (i, r1)" by (cases a)
    then have r1: "r1 = advance 1 r" "0 < Len r" using ReadByte_OkD [of r i r1] Ok by auto
    show ?thesis
    proof (cases r1 rule: DecodeUint32_cases)
      case (fails e)
      then show ?thesis using Ok a by (simp add: decodeSections.simps)
    next
      case (num n k)
      obtain last ok where order: "checkSectionOrder i prev = (last, ok)" by (cases "checkSectionOrder i prev")
      have rec: "holds_or makeslice_panic (module_inv lim) (decodeSections f lim sizer d st last m' (advance j (advance k r1)))"
        if "j \<le> Len (advance k r1)" "module_inv lim m'" for j m'
        by (rule less) (use num r1 less.prems that in auto)
      have "holds_or makeslice_panic
              (\<lambda>a. holds_or makeslice_panic (module_inv lim)
                (case a of (m', r3) \<Rightarrow>
                   if int (unat n) \<noteq> int (Len (advance k r1)) - int (Len r3)
                   then sectionErr (Err (Errorf ''invalid section length: expected to be %d but got %d''))
                   else decodeSections f lim sizer d st last m' r3))
              (decodeSection f lim sizer d st i n m (advance k r1))"
        by (rule holds_or_mono [OF decodeSection_inv])
          (use less.prems num r1 rec in \<open>auto simp: skips_def simp del: advance_advance\<close>)
      then show ?thesis
        using Ok a num order
        by (simp add: decodeSections.simps [of f lim sizer d st prev] Let_def holds_or_bindO)
    qed
  next
    case (Err e)
    then show ?thesis using less.prems by (simp add: decodeSections.simps)
  next
    case (Panic p)
    then show ?thesis by (simp add: ReadByte_def split: list.splits)
  qed
qed

lemma of_nat_u32_eq: "a < 2 ^ 32 \<Longrightarrow> b < 2 ^ 32 \<Longrightarrow> (of_nat a :: u32) = of_nat b \<longleftrightarrow> a = b"
  by (simp add: word_of_nat_eq_iff take_bit_nat_eq_self)

lemma holds_or_bind_mono:
  "holds_or p Q m \<Longrightarrow> (\<And>a. Q a \<Longrightarrow> holds_or p P (f a)) \<Longrightarrow> holds_or p P (bindO m f)"
  by (cases m) auto

lemma checkHeader_skips: "holds_or p (\<lambda>r'. Len r' \<le> Len r) (checkHeader e err r)"
  by (auto simp: checkHeader_def ReadFull_def)

lemma counts_agree:
  assumes "module_inv lim m"
  shows "holds_or p (\<lambda>m. module_inv lim m \<and> length (FunctionSection m) = length (CodeSection m))
      (bindO (SectionElementCount m SectionIDFunction) (\<lambda>functionCount.
       bindO (SectionElementCount m SectionIDCode) (\<lambda>codeCount.
       if functionCount \<noteq> codeCount
       then Err (Errorf ''function and code section have inconsistent lengths: %d != %d'')
       else Ok m)))"
proof -
  have "length (FunctionSection m) < 2 ^ 32" "length (CodeSection m) < 2 ^ 32"
    using assms unfolding module_inv_def by blast+
  then show ?thesis using assms by (simp add: SectionElementCount_def of_nat_u32_eq)
qed

lemma DecodeModule_inv:
  assumes "length binary < 2 ^ 32"
  shows "holds_or makeslice_panic (\<lambda>m. module_inv lim m \<and> length (FunctionSection m) = length (CodeSection m))
           (DecodeModule binary f lim cm d st)"
  unfolding DecodeModule_def Let_def
proof (rule holds_or_bind_mono [OF checkHeader_skips], rule holds_or_bind_mono [OF checkHeader_skips])
  fix r r' assume "Len r \<le> Len (NewReader binary)" "Len r' \<le> Len r"
  then have "Len r' < 2 ^ 32" using assms by simp
  then show "holds_or makeslice_panic (\<lambda>m. module_inv lim m \<and> length (FunctionSection m) = length (CodeSection m))
      (bindO (decodeSections f lim (newMemorySizer lim cm) d st 0 emptyModule r') (\<lambda>m.
       bindO (SectionElementCount m SectionIDFunction) (\<lambda>functionCount.
       bindO (SectionElementCount m SectionIDCode) (\<lambda>codeCount.
       if functionCount \<noteq> codeCount
       then Err (Errorf ''function and code section have inconsistent lengths: %d != %d'')
       else Ok m))))"
    by (intro holds_or_bind_mono [OF decodeSections_inv [OF module_inv_empty]] counts_agree)
qed

section \<open>Section order\<close>

text \<open>The place of a section in a module, as the specification orders them; 0 stands for the start.\<close>

definition section_rank :: "byte \<Rightarrow> nat" where
  "section_rank i =
     (if i \<le> SectionIDMemory then unat i
      else if i = SectionIDTag then 6
      else if i \<le> SectionIDElement then unat i + 1
      else if i = SectionIDDataCount then 11
      else unat i + 2)"

text \<open>The identifiers of the sections that a module consists of.\<close>

function section_ids :: "reader \<Rightarrow> byte list" where
  "section_ids r =
     (case ReadByte r of
        Ok (i, r1) \<Rightarrow>
          (case DecodeUint32 r1 of
             Ok (n, _, r2) \<Rightarrow> i # section_ids (advance (unat n) r2)
           | _ \<Rightarrow> [])
      | _ \<Rightarrow> [])"
  by pat_completeness auto

termination
  by (relation "measure Len") (auto dest!: ReadByte_Len DecodeUint32_Len)

declare section_ids.simps [simp del]

lemma checkSectionOrder_rank:
  assumes "i \<le> SectionIDTag" and "prev \<le> SectionIDTag" and "i \<noteq> SectionIDCustom"
  shows "checkSectionOrder i prev = (i, section_rank prev < section_rank i)"
proof -
  have all: "list_all (\<lambda>a. list_all (\<lambda>b. word_of_nat a = SectionIDCustom \<or>
          checkSectionOrder (word_of_nat a) (word_of_nat b) =
            (word_of_nat a, section_rank (word_of_nat b) < section_rank (word_of_nat a))) [0..<14]) [0..<14]"
    by code_simp
  have "list_all (\<lambda>b. i = SectionIDCustom \<or>
          checkSectionOrder i (word_of_nat b) = (i, section_rank (word_of_nat b) < section_rank i)) [0..<14]"
    by (rule byte_range [OF all]) (use assms in \<open>auto simp: word_le_nat_alt\<close>)
  from byte_range [OF this, of prev] assms show ?thesis by (auto simp: word_le_nat_alt)
qed

definition in_order :: "byte \<Rightarrow> byte list \<Rightarrow> bool" where
  "in_order prev ids \<longleftrightarrow> (\<forall>i \<in> set ids. i \<le> SectionIDTag) \<and>
     sorted_wrt (\<lambda>a b. section_rank a < section_rank b) (prev # filter (\<lambda>i. i \<noteq> SectionIDCustom) ids)"

lemma in_order_Cons:
  assumes "checkSectionOrder i prev = (cur, True)" and "i \<le> SectionIDTag" and "prev \<le> SectionIDTag" and "in_order cur ids"
  shows "in_order prev (i # ids)"
proof (cases "i = SectionIDCustom")
  case True
  then show ?thesis using assms by (simp add: in_order_def checkSectionOrder_def)
next
  case False
  then have "cur = i" "section_rank prev < section_rank i" using assms checkSectionOrder_rank [of i prev] by auto
  then show ?thesis using assms False unfolding in_order_def by auto
qed

lemma decodeSection_known:
  assumes "decodeSection f lim sizer d st i n m r = Ok (m', r')"
  shows "i \<le> SectionIDTag"
proof (rule ccontr)
  assume "\<not> i \<le> SectionIDTag"
  then have "i \<notin> {0, 1, 2, 3, 4, 5, 6, 7, 8, 9, 10, 11, 12, 13}" by auto
  then show False using assms by (simp add: decodeSection_def)
qed

lemma checkSectionOrder_le:
  "checkSectionOrder i prev = (cur, ok) \<Longrightarrow> i \<le> SectionIDTag \<Longrightarrow> prev \<le> SectionIDTag \<Longrightarrow> cur \<le> SectionIDTag"
  by (auto simp: checkSectionOrder_def split: if_splits)

lemma decodeSections_in_order:
  "decodeSections f lim sizer d st prev m r = Ok m' \<Longrightarrow> module_inv lim m \<Longrightarrow> Len r < 2 ^ 32 \<Longrightarrow> prev \<le> SectionIDTag \<Longrightarrow>
     in_order prev (section_ids r)"
proof (induction "Len r" arbitrary: prev m r rule: less_induct)
  case less
  show ?case
  proof (cases "ReadByte r")
    case (Ok a)
    obtain i r1 where a: "a = (i, r1)" by (cases a)
    then have r1: "r1 = advance 1 r" "0 < Len r" using ReadByte_OkD [of r i r1] Ok by auto
    show ?thesis
    proof (cases r1 rule: DecodeUint32_cases)
      case (fails e)
      then show ?thesis using Ok a less.prems(1) by (simp add: decodeSections.simps)
    next
      case (num n k)
      obtain cur ok where order: "checkSectionOrder i prev = (cur, ok)" by (cases "checkSectionOrder i prev")
      with less.prems(1) Ok a num obtain m1 r3 where run: "ok"
        "decodeSection f lim sizer d st i n m (advance k r1) = Ok (m1, r3)"
        "int (unat n) = int (Len (advance k r1)) - int (Len r3)"
        "decodeSections f lim sizer d st cur m1 r3 = Ok m'"
        by (auto simp: decodeSections.simps [of f lim sizer d st prev] Let_def bindO_Ok_iff split: if_splits)
      have inv: "skips (advance k r1) (m1, r3)" "module_inv lim m1"
        using decodeSection_inv [of lim m "advance k r1" f sizer d st i n] run(2) less.prems r1 num by auto
      then obtain j where j: "j \<le> Len (advance k r1)" "r3 = advance j (advance k r1)" by (auto simp: skips_def)
      have "Len r3 = Len (advance k r1) - j" using j by simp
      then have "j = unat n" using run(3) j(1) by linarith
      then have r3: "r3 = advance (unat n) (advance k r1)" using j by simp
      have i: "i \<le> SectionIDTag" using decodeSection_known [OF run(2)] .
      have "in_order cur (section_ids r3)"
        by (rule less.hyps [OF _ run(4) inv(2)])
          (use r3 r1 num less.prems checkSectionOrder_le [OF order i] in auto)
      with in_order_Cons [of i prev cur] order i less.prems(4) run(1) have "in_order prev (i # section_ids r3)" by simp
      then show ?thesis using Ok a num r3 by (simp add: section_ids.simps [of r])
    qed
  next
    case (Err e)
    then show ?thesis by (simp add: section_ids.simps in_order_def)
  next
    case (Panic p)
    then show ?thesis by (simp add: section_ids.simps in_order_def)
  qed
qed

section \<open>Properties\<close>

text \<open>
  C1 (decoded modules are well-formed). For a binary of less than 4 GiB, every decoded module
  satisfies the invariant of its sections: its types form complete rec groups without dangling
  references (the hypothesis under which type equivalence is decided), the imports are numbered and
  counted per type, memory and table limits are consistent, export names are unique and mapped, every
  constant expression and every function body ends in \<open>end\<close>, no function has more than a million
  locals, and there are as many bodies as functions.
\<close>

theorem DecodeModule_wf:
  assumes "length binary < 2 ^ 32"
    and "DecodeModule binary enabledFeatures memoryLimitPages memoryCapacityFromMax dwarfEnabled storeCustomSections = Ok m"
  shows "wf_types m \<and> module_inv memoryLimitPages m \<and> length (FunctionSection m) = length (CodeSection m)"
proof -
  have "module_inv memoryLimitPages m \<and> length (FunctionSection m) = length (CodeSection m)"
    using holds_or_OkD [OF DecodeModule_inv [OF assms(1)] assms(2)] .
  then show ?thesis using type_inv_wf_types [of m] unfolding module_inv_def by blast
qed

text \<open>A module with one type, one function and its body.\<close>

definition tinyModule :: "byte list" where
  "tinyModule = [0x00, 0x61, 0x73, 0x6d, 1, 0, 0, 0,
                 1, 4, 1, 0x60, 0, 0,
                 3, 2, 1, 0,
                 10, 4, 1, 2, 0, 0x0b]"

theorem DecodeModule_wf_witness:
  "\<exists>m. DecodeModule tinyModule 0 65536 False False False = Ok m \<and> wf_types m \<and> length (CodeSection m) = 1"
proof -
  have "case DecodeModule tinyModule 0 65536 False False False of Ok m \<Rightarrow> length (FunctionSection m) = 1 | _ \<Rightarrow> False"
    by code_simp
  then obtain m where m: "DecodeModule tinyModule 0 65536 False False False = Ok m" "length (FunctionSection m) = 1"
    by (auto split: outcome.splits)
  with DecodeModule_wf [OF _ m(1)] show ?thesis by (simp add: tinyModule_def)
qed

text \<open>
  C16 (section order). The sections of a decoded module are known ones, and apart from custom
  sections they come in the order of the specification (with the tag section between memory and
  global, and the data count section between element and code), each at most once.
\<close>

theorem DecodeModule_section_order:
  assumes "length binary < 2 ^ 32"
    and "DecodeModule binary enabledFeatures memoryLimitPages memoryCapacityFromMax dwarfEnabled storeCustomSections = Ok m"
  shows "(\<forall>i \<in> set (section_ids (advance 8 (NewReader binary))). i \<le> SectionIDTag) \<and>
         sorted_wrt (\<lambda>a b. section_rank a < section_rank b)
           (filter (\<lambda>i. i \<noteq> SectionIDCustom) (section_ids (advance 8 (NewReader binary))))"
proof -
  have "decodeSections enabledFeatures memoryLimitPages (newMemorySizer memoryLimitPages memoryCapacityFromMax)
          dwarfEnabled storeCustomSections 0 emptyModule (advance 8 (NewReader binary)) = Ok m"
    using assms(2) by (auto simp: DecodeModule_def Let_def bindO_Ok_iff checkHeader_def ReadFull_def split: if_splits)
  from decodeSections_in_order [OF this module_inv_empty] assms(1) show ?thesis
    by (simp add: in_order_def)
qed

theorem DecodeModule_section_order_witness:
  "sorted_wrt (\<lambda>a b. section_rank a < section_rank b)
     (filter (\<lambda>i. i \<noteq> SectionIDCustom) (section_ids (advance 8 (NewReader tinyModule))))"
proof -
  have "case DecodeModule tinyModule 0 65536 False False False of Ok m \<Rightarrow> True | _ \<Rightarrow> False"
    by code_simp
  then obtain m where m: "DecodeModule tinyModule 0 65536 False False False = Ok m" by (auto split: outcome.splits)
  show ?thesis by (rule DecodeModule_section_order [THEN conjunct2, OF _ m]) (simp add: tinyModule_def)
qed

text \<open>
  C19 (the only panic of the decoder). Decoding a binary of less than 4 GiB panics in one way only:
  when the locals of a function take more bytes than the declared size of its body, and the decoder
  makes a slice of negative length. One such module is given: the size of its body leaves no room
  for the heap type of its local.
\<close>

definition badLocalsModule :: "byte list" where
  "badLocalsModule = [0x00, 0x61, 0x73, 0x6d, 1, 0, 0, 0,
                      1, 4, 1, 0x60, 0, 0,
                      3, 2, 1, 0,
                      10, 6, 1, 3, 1, 1, 0x63, 0x70]"

theorem DecodeModule_panic:
  "panics (DecodeModule badLocalsModule 0 65536 False False False) \<and>
   (if length binary < 2 ^ 32 \<and> panics (DecodeModule binary f lim c d s)
    then DecodeModule binary f lim c d s = Panic ''makeslice: len out of range'' else True)"
proof
  show "panics (DecodeModule badLocalsModule 0 65536 False False False)" by code_simp
  show "if length binary < 2 ^ 32 \<and> panics (DecodeModule binary f lim c d s)
    then DecodeModule binary f lim c d s = Panic ''makeslice: len out of range'' else True"
    using DecodeModule_inv [of binary lim f c d s] by (auto simp: panics_def)
qed

text \<open>
  Truncated data count. A data count section whose only byte is the start of an unfinished
  number is accepted, with the count 0, if it ends the module: the decoder takes the end of the
  input for an absent count.
\<close>

theorem DecodeModule_truncated_data_count:
  "case DecodeModule [0x00, 0x61, 0x73, 0x6d, 1, 0, 0, 0, 12, 1, 0x80] CoreFeatureBulkMemoryOperations 65536 False False False of
     Ok m \<Rightarrow> DataCountSection m = Some 0 | _ \<Rightarrow> False"
  by code_simp

text \<open>
  Empty custom section. A module that ends in a custom section without content is decoded when
  custom sections are skipped, and rejected when they are kept: reading no bytes at the end of the
  input is an error of the reader.
\<close>

theorem DecodeModule_empty_custom_section:
  "case (DecodeModule [0x00, 0x61, 0x73, 0x6d, 1, 0, 0, 0, 0, 2, 1, 0x61] 0 65536 False False False,
         DecodeModule [0x00, 0x61, 0x73, 0x6d, 1, 0, 0, 0, 0, 2, 1, 0x61] 0 65536 False False True) of
     (Ok m, Err e) \<Rightarrow> CustomSections m = [] \<and> e = Wrapf ''failed to read custom section name[%s]'' EOF
   | _ \<Rightarrow> False"
  by code_simp

end
