(* ===== verification/ModuleValidation.thy ===== *)
theory ModuleValidation
  imports ValidatorSafety BinaryDecoder
begin

text \<open>
  \<^verbatim>\<open>Module.Validate\<close> and the checks it calls (\<^verbatim>\<open>internal/wasm/module.go\<close>, \<^verbatim>\<open>validateTable\<close> of
  \<^verbatim>\<open>internal/wasm/table.go\<close>), in the order of the source.
\<close>

section \<open>The resolvers of constant expressions\<close>

text \<open>
  The validators pass closures to \<^verbatim>\<open>evaluateConstExpr\<close> that record which indexes they were called
  with. \<open>resolverCalls\<close> is the sequence of these calls, made by the same loop; a call is recorded also when
  the evaluation fails later.
\<close>

datatype resolver_call = ResolveGlobal Index | ResolveFunc Index

definition callsOf :: "byte \<Rightarrow> byte list \<Rightarrow> resolver_call list" where
  "callsOf opCode data =
     (if opCode = OpcodeGlobalGet then (case LoadUint32 data of Ok (v, _) \<Rightarrow> [ResolveGlobal v] | _ \<Rightarrow> [])
      else if opCode = OpcodeRefFunc then (case LoadUint32 data of Ok (v, _) \<Rightarrow> [ResolveFunc v] | _ \<Rightarrow> [])
      else [])"

function resolverCalls_loop ::
    "global_resolver \<Rightarrow> func_resolver \<Rightarrow> byte list \<Rightarrow> u64 list \<Rightarrow> ValueType list \<Rightarrow> resolver_call list" where
  "resolverCalls_loop g f data stack typeStack =
     (case data of
        [] \<Rightarrow> []
      | opCode # data' \<Rightarrow>
          callsOf opCode data' @
          (case constStep g f opCode data' stack typeStack of
             Ok (Continue n stack' typeStack') \<Rightarrow> resolverCalls_loop g f (drop n data') stack' typeStack'
           | _ \<Rightarrow> []))"
  by pat_completeness auto

termination
  by (relation "measure (\<lambda>(g, f, data, stack, typeStack). length data)") auto

declare resolverCalls_loop.simps [simp del]

definition resolverCalls :: "ConstantExpression \<Rightarrow> global_resolver \<Rightarrow> func_resolver \<Rightarrow> resolver_call list" where
  "resolverCalls e g f = resolverCalls_loop g f (ce_Data e) [] []"

definition resolvedFuncs :: "resolver_call list \<Rightarrow> Index list" where
  "resolvedFuncs cs = concat (map (\<lambda>c. case c of ResolveFunc i \<Rightarrow> [i] | _ \<Rightarrow> []) cs)"

definition resolvedGlobals :: "resolver_call list \<Rightarrow> Index list" where
  "resolvedGlobals cs = concat (map (\<lambda>c. case c of ResolveGlobal i \<Rightarrow> [i] | _ \<Rightarrow> []) cs)"

section \<open>Functions\<close>

text \<open>The loop over the imports: the import of the given type with index \<open>idx\<close>, counting from \<open>cur\<close>.\<close>

fun findImport :: "ExternType \<Rightarrow> Index \<Rightarrow> Index \<Rightarrow> Import list \<Rightarrow> Import option" where
  "findImport t idx cur [] = None"
| "findImport t idx cur (imp # imps) =
     (if imp_Type imp \<noteq> t then findImport t idx cur imps
      else if idx = cur then Some imp
      else findImport t idx (cur + 1) imps)"

definition typeIndexOfFunction :: "Module \<Rightarrow> Index \<Rightarrow> Index option outcome" where
  "typeIndexOfFunction m funcIdx =
     (let typeSectionLength = of_nat (length (TypeSection m)) :: u32;
          fromSection =
            (let funcSectionIdx = funcIdx - ImportFunctionCount m in
             if funcSectionIdx \<ge> of_nat (length (FunctionSection m)) then Ok None
             else bindO (index (FunctionSection m) (unat funcSectionIdx)) (\<lambda>typeIdx.
               Ok (if typeIdx \<ge> typeSectionLength then None else Some typeIdx))) in
      if funcIdx < ImportFunctionCount m then
        case findImport ExternTypeFunc funcIdx 0 (ImportSection m) of
          Some imp \<Rightarrow> Ok (if imp_DescFunc imp \<ge> typeSectionLength then None else Some (imp_DescFunc imp))
        | None \<Rightarrow> fromSection
      else fromSection)"

definition typeOfFunction :: "Module \<Rightarrow> Index \<Rightarrow> FunctionType option outcome" where
  "typeOfFunction m funcIdx =
     bindO (typeIndexOfFunction m funcIdx) (\<lambda>r.
       case r of
         None \<Rightarrow> Ok None
       | Some typeIdx \<Rightarrow> bindO (index (TypeSection m) (unat typeIdx)) (\<lambda>ft. Ok (Some ft)))"

section \<open>Types, tags and the start function\<close>

text \<open>A loop that returns the first error.\<close>

definition checkAll :: "('a \<Rightarrow> unit outcome) \<Rightarrow> 'a list \<Rightarrow> unit outcome" where
  "checkAll f xs = foldO (\<lambda>x _. f x) xs ()"

definition checkConcreteRef :: "string \<Rightarrow> u32 \<Rightarrow> ValueType \<Rightarrow> unit outcome" where
  "checkConcreteRef msg numTypes vt = require (\<not> (IsConcreteRef vt \<and> TypeIndex vt \<ge> numTypes)) (Errorf msg)"

definition validateConcreteRefTypes :: "Module \<Rightarrow> unit outcome" where
  "validateConcreteRefTypes m =
     (let numTypes = of_nat (length (TypeSection m)) in
      bindO (checkAll (\<lambda>g. checkConcreteRef ''unknown type %d in global[%d]'' numTypes (gt_ValType (glo_Type g))) (GlobalSection m)) (\<lambda>_.
      bindO (checkAll (\<lambda>t. checkConcreteRef ''unknown type %d in table[%d]'' numTypes (tab_Type t)) (TableSection m)) (\<lambda>_.
      bindO (checkAll (\<lambda>c. checkAll (checkConcreteRef ''unknown type %d in func[%d].local[%d]'' numTypes) (code_LocalTypes c)) (CodeSection m)) (\<lambda>_.
      checkAll (\<lambda>e. checkConcreteRef ''unknown type %d in element[%d]'' numTypes (es_Type e)) (ElementSection m)))))"

definition validateTagSection :: "Module \<Rightarrow> unit outcome" where
  "validateTagSection m =
     checkAll (\<lambda>tag.
       bindO (require (tag_Type tag < of_nat (length (TypeSection m))) (Errorf ''tag[%d] type index out of range'')) (\<lambda>_.
       bindO (index (TypeSection m) (unat (tag_Type tag))) (\<lambda>ft.
       require (ft_Results ft = []) (Errorf ''tag[%d] type must have empty results, got %v'')))) (TagSection m)"

definition validateStartSection :: "Module \<Rightarrow> unit outcome" where
  "validateStartSection m =
     (case StartSection m of
        None \<Rightarrow> Ok ()
      | Some startIndex \<Rightarrow>
          bindO (typeOfFunction m startIndex) (\<lambda>r.
            case r of
              None \<Rightarrow> Err (Errorf ''invalid start function: func[%d] has an invalid type'')
            | Some ft \<Rightarrow> require (ft_Params ft = [] \<and> ft_Results ft = [])
                (Errorf ''invalid start function: func[%d] must have an empty (nullary) signature: %s'')))"

section \<open>Constant expressions\<close>

definition validateConstExpression ::
    "Module \<Rightarrow> GlobalType list \<Rightarrow> u32 \<Rightarrow> ConstantExpression \<Rightarrow> ValueType \<Rightarrow> unit outcome" where
  "validateConstExpression m globals numFuncs expr expectedType =
     (let globalResolver = (\<lambda>globalIndex.
            if of_nat (length globals) \<le> globalIndex then Err (Errorf ''global index out of range'')
            else bindO (index globals (unat globalIndex)) (\<lambda>g. Ok (gt_ValType g, 0, 0)));
          funcRefResolver = (\<lambda>funcIndex.
            if funcIndex \<ge> numFuncs then Err (Errorf ''ref.func index out of range [%d] with length %d'') else Ok 0);
          funcs = resolvedFuncs (resolverCalls expr globalResolver funcRefResolver);
          lastRefFuncIdx = (if funcs = [] then 0 else last funcs) in
      bindO (evaluateConstExpr expr globalResolver funcRefResolver) (\<lambda>(_, typ).
      bindO (if typ = ValueTypeFuncref then
               bindO (typeIndexOfFunction m lastRefFuncIdx) (\<lambda>r.
                 Ok (case r of Some typeIndex \<Rightarrow> ValueTypeConcreteRef typeIndex False | None \<Rightarrow> typ))
             else Ok typ) (\<lambda>typ.
      bindO (isRefSubtypeOf m typ expectedType) (\<lambda>sub.
      require sub (Errorf ''const expression type mismatch expected %s but got %s'')))))"

definition validateTableInitExprs :: "Module \<Rightarrow> GlobalType list \<Rightarrow> u32 \<Rightarrow> unit outcome" where
  "validateTableInitExprs m globals numFuncs =
     bindO (slice_to globals (unat (ImportGlobalCount m))) (\<lambda>importedGlobals.
     checkAll (\<lambda>t.
       bindO (require (IsNullable (tab_Type t) \<or> tab_InitExpr t \<noteq> None)
                (Errorf ''type mismatch: non-nullable table[%d] requires an init expression'')) (\<lambda>_.
       case tab_InitExpr t of
         None \<Rightarrow> Ok ()
       | Some e \<Rightarrow> mapErr (Wrapf ''table[%d] init'') (validateConstExpression m importedGlobals numFuncs e (tab_Type t))))
       (TableSection m))"

definition MaximumGlobals :: u32 where "MaximumGlobals = 2 ^ 27"

definition validateGlobals :: "Module \<Rightarrow> GlobalType list \<Rightarrow> u32 \<Rightarrow> u32 \<Rightarrow> unit outcome" where
  "validateGlobals m globals numFuncs maxGlobals =
     bindO (require (of_nat (length globals) \<le> maxGlobals) (Errorf ''too many globals in a module'')) (\<lambda>_.
     bindO (slice_to globals (unat (ImportGlobalCount m))) (\<lambda>importedGlobals.
     checkAll (\<lambda>g. validateConstExpression m importedGlobals numFuncs (glo_Init g) (gt_ValType (glo_Type g)))
       (GlobalSection m)))"

definition validateMemory :: "Module \<Rightarrow> Memory option \<Rightarrow> GlobalType list \<Rightarrow> unit outcome" where
  "validateMemory m memory globals =
     bindO (require (\<not> (list_ex (\<lambda>d. \<not> ds_Passive d) (DataSection m) \<and> memory = None)) (Errorf ''unknown memory'')) (\<lambda>_.
     bindO (slice_to globals (unat (ImportGlobalCount m))) (\<lambda>importedGlobals.
     checkAll (\<lambda>d. if ds_Passive d then Ok ()
       else mapErr (Wrapf ''calculate offset'') (validateConstExpression m importedGlobals 0 (ds_OffsetExpression d) ValueTypeI32))
       (DataSection m)))"

section \<open>Imports and exports\<close>

definition validateImport :: "CoreFeatures \<Rightarrow> Module \<Rightarrow> Import \<Rightarrow> unit outcome" where
  "validateImport enabledFeatures m imp =
     bindO (require (imp_Module imp \<noteq> []) (Errorf ''import[%d] has an empty module name'')) (\<lambda>_.
     case imp_Type imp of
       ExternTypeFunc \<Rightarrow>
         require (unat (imp_DescFunc imp) < length (TypeSection m))
           (Errorf ''invalid import[%q.%q] function: type index out of range'')
     | ExternTypeGlobal \<Rightarrow>
         if \<not> gt_Mutable (imp_DescGlobal imp) then Ok ()
         else mapErr (Wrapf ''invalid import[%q.%q] global'') (RequireEnabled enabledFeatures CoreFeatureMutableGlobal)
     | ExternTypeTag \<Rightarrow>
         bindO (require (unat (imp_DescTag imp) < length (TypeSection m))
                  (Errorf ''invalid import[%q.%q] tag: type index out of range'')) (\<lambda>_.
         bindO (index (TypeSection m) (unat (imp_DescTag imp))) (\<lambda>ft.
         require (ft_Results ft = []) (Errorf ''invalid import[%q.%q] tag: tag types must have no results'')))
     | _ \<Rightarrow> Ok ())"

definition validateImports :: "CoreFeatures \<Rightarrow> Module \<Rightarrow> unit outcome" where
  "validateImports enabledFeatures m = checkAll (validateImport enabledFeatures m) (ImportSection m)"

definition validateExport :: "CoreFeatures \<Rightarrow> Declarations \<Rightarrow> Export \<Rightarrow> unit outcome" where
  "validateExport enabledFeatures d exp =
     (let idx = exp_Index exp in
      case exp_Type exp of
        ExternTypeFunc \<Rightarrow>
          require (idx < of_nat (length (decl_functions d))) (Errorf ''unknown function for export[%q]'')
      | ExternTypeGlobal \<Rightarrow>
          bindO (require (idx < of_nat (length (decl_globals d))) (Errorf ''unknown global for export[%q]'')) (\<lambda>_.
          bindO (index (decl_globals d) (unat idx)) (\<lambda>g.
          if \<not> gt_Mutable g then Ok ()
          else mapErr (Wrapf ''invalid export[%q] global[%d]'') (RequireEnabled enabledFeatures CoreFeatureMutableGlobal)))
      | ExternTypeMemory \<Rightarrow>
          require (\<not> (idx > 0 \<or> decl_memory d = None)) (Errorf ''memory for export[%q] out of range'')
      | ExternTypeTable \<Rightarrow>
          require (idx < of_nat (length (decl_tables d))) (Errorf ''table for export[%q] out of range'')
      | ExternTypeTag \<Rightarrow>
          require (idx < of_nat (length (decl_tags d))) (Errorf ''tag for export[%q] out of range''))"

definition validateExports :: "CoreFeatures \<Rightarrow> Module \<Rightarrow> Declarations \<Rightarrow> unit outcome" where
  "validateExports enabledFeatures m d = checkAll (validateExport enabledFeatures d) (ExportSection m)"

section \<open>Globals in constant expressions\<close>

text \<open>
  The last test of the comparison is written as in the source, which compares the index of the section's element,
  not the identifier of the section, with \<^verbatim>\<open>SectionIDGlobal\<close>.
\<close>

definition resolveConstExprGlobalType :: "CoreFeatures \<Rightarrow> Module \<Rightarrow> byte \<Rightarrow> Index \<Rightarrow> Index \<Rightarrow> ValueType outcome" where
  "resolveConstExprGlobalType enabledFeatures m sectionID sectionIdx idx =
     (if idx < ImportGlobalCount m then
        (case findImport ExternTypeGlobal idx 0 (ImportSection m) of
           Some imp \<Rightarrow>
             bindO (require (\<not> gt_Mutable (imp_DescGlobal imp))
               (Errorf ''%s[%d] (global.get %d): constant expression cannot reference a mutable global'')) (\<lambda>_.
             Ok (gt_ValType (imp_DescGlobal imp)))
         | None \<Rightarrow> Err (Errorf ''index %d not found in imported globals''))
      else
        bindO (require (IsEnabled enabledFeatures CoreFeaturesExtendedConst)
          (Errorf ''%s[%d] (global.get %d): out of range of imported globals'')) (\<lambda>_.
        let idx = idx - ImportGlobalCount m in
        bindO (require (\<not> (sectionIdx = ucast SectionIDGlobal \<and> idx \<ge> sectionIdx))
          (Errorf ''%s[%d] global %d out of range of initialized globals'')) (\<lambda>_.
        bindO (require (idx < of_nat (length (GlobalSection m)))
          (Errorf ''%s[%d] (global.get %d): out of range of initialized globals'')) (\<lambda>_.
        bindO (index (GlobalSection m) (unat idx)) (\<lambda>g.
        bindO (require (\<not> gt_Mutable (glo_Type g))
          (Errorf ''%s[%d] (global.get %d): constant expression cannot reference a mutable global'')) (\<lambda>_.
        Ok (gt_ValType (glo_Type g))))))))"

abbreviation globalTypeResolver :: "CoreFeatures \<Rightarrow> Module \<Rightarrow> byte \<Rightarrow> Index \<Rightarrow> global_resolver" where
  "globalTypeResolver enabledFeatures m sectionID i \<equiv>
     (\<lambda>globalIndex. bindO (resolveConstExprGlobalType enabledFeatures m sectionID i globalIndex) (\<lambda>vt. Ok (vt, 0, 0)))"

section \<open>Functions\<close>

text \<open>
  The function indexes that \<^verbatim>\<open>ref.func\<close> may name. The errors of the element segments are dropped, their function
  indexes are kept up to the point of the error.
\<close>

definition declaredByGlobal :: "CoreFeatures \<Rightarrow> Module \<Rightarrow> nat \<times> Global \<Rightarrow> Index set \<Rightarrow> Index set outcome" where
  "declaredByGlobal enabledFeatures m = (\<lambda>(i, g) ret.
     let gr = globalTypeResolver enabledFeatures m SectionIDGlobal (of_nat i); fr = (\<lambda>_. Ok 0) in
     bindO (mapErr (Wrapf ''%s[%d] failed to initialize'') (evaluateConstExpr (glo_Init g) gr fr)) (\<lambda>_.
     Ok (ret \<union> set (resolvedFuncs (resolverCalls (glo_Init g) gr fr)))))"

definition declaredByInit :: "CoreFeatures \<Rightarrow> Module \<Rightarrow> nat \<Rightarrow> ConstantExpression \<Rightarrow> Index set \<Rightarrow> Index set outcome" where
  "declaredByInit enabledFeatures m i initExpr ret =
     (let gr = globalTypeResolver enabledFeatures m SectionIDElement (of_nat i); fr = (\<lambda>_. Ok 0);
          ret = ret \<union> set (resolvedFuncs (resolverCalls initExpr gr fr)) in
      case evaluateConstExpr initExpr gr fr of Panic p \<Rightarrow> Panic p | _ \<Rightarrow> Ok ret)"

definition declaredFunctionIndexes :: "CoreFeatures \<Rightarrow> Module \<Rightarrow> Index set outcome" where
  "declaredFunctionIndexes enabledFeatures m =
     (let ret = exp_Index ` set (filter (\<lambda>exp. exp_Type exp = ExternTypeFunc) (ExportSection m)) in
      bindO (foldO (declaredByGlobal enabledFeatures m) (enumerate 0 (GlobalSection m)) ret) (\<lambda>ret.
      foldO (\<lambda>(i, elem). foldO (declaredByInit enabledFeatures m i) (es_Init elem)) (enumerate 0 (ElementSection m)) ret))"

definition newStacks :: stacks where
  "newStacks =
     \<lparr>sts_vs = \<lparr>vs_module = emptyModule, vs_stack = [], vs_stackLimits = [], vs_maximumStackPointer = 0\<rparr>,
      sts_cs = [], sts_ls = [], sts_initLocals = None\<rparr>"

definition validateFunctionAt ::
    "CoreFeatures \<Rightarrow> Module \<Rightarrow> Declarations \<Rightarrow> Index set \<Rightarrow> nat \<times> Index \<Rightarrow> stacks \<Rightarrow> stacks outcome" where
  "validateFunctionAt enabledFeatures m d declaredFuncIndexes = (\<lambda>(idx, typeIndex) vs.
     bindO (SectionElementCount m SectionIDType) (\<lambda>typeCount.
     bindO (require (typeIndex < typeCount) (Errorf ''invalid %s: type section index %d out of range'')) (\<lambda>_.
     bindO (index (CodeSection m) idx) (\<lambda>c.
     if code_GoFunc c then Ok vs
     else mapErr (Wrapf ''invalid %s'') (validateFunction m vs enabledFeatures (of_nat idx) d declaredFuncIndexes)))))"

definition validateFunctions :: "CoreFeatures \<Rightarrow> Module \<Rightarrow> Declarations \<Rightarrow> u32 \<Rightarrow> unit outcome" where
  "validateFunctions enabledFeatures m d maximumFunctionIndex =
     bindO (require (of_nat (length (decl_functions d)) \<le> maximumFunctionIndex)
       (Errorf ''too many functions (%d) in a module'')) (\<lambda>_.
     bindO (SectionElementCount m SectionIDFunction) (\<lambda>functionCount.
     bindO (SectionElementCount m SectionIDCode) (\<lambda>codeCount.
     if functionCount = 0 \<and> codeCount = 0 then Ok ()
     else
       bindO (require (codeCount = functionCount) (Errorf ''code count (%d) != function count (%d)'')) (\<lambda>_.
       bindO (declaredFunctionIndexes enabledFeatures m) (\<lambda>declaredFuncIndexes.
       bindO (foldO (validateFunctionAt enabledFeatures m d declaredFuncIndexes) (enumerate 0 (FunctionSection m)) newStacks)
         (\<lambda>_. Ok ()))))))"

section \<open>Element segments\<close>

definition elementInitType :: "CoreFeatures \<Rightarrow> Module \<Rightarrow> nat \<Rightarrow> ConstantExpression \<Rightarrow> ValueType outcome" where
  "elementInitType enabledFeatures m i initExpr =
     bindO (SectionElementCount m SectionIDFunction) (\<lambda>functionCount.
     bindO (SectionElementCount m SectionIDGlobal) (\<lambda>globalCount.
     let funcCount = ImportFunctionCount m + functionCount; globalsCount = ImportGlobalCount m + globalCount in
     bindO (evaluateConstExpr initExpr
       (\<lambda>globalIndex.
          if globalIndex \<ge> globalsCount then Err (Errorf ''%s[%d].init[%d] global index %d out of range'')
          else globalTypeResolver enabledFeatures m SectionIDElement (of_nat i) globalIndex)
       (\<lambda>funcIndex.
          if funcIndex \<ge> funcCount then Err (Errorf ''%s[%d].init[%d] func index %d out of range'') else Ok 0)) (\<lambda>(_, initType).
     Ok initType)))"

definition validateElementInit :: "CoreFeatures \<Rightarrow> Module \<Rightarrow> nat \<Rightarrow> ValueType \<Rightarrow> ConstantExpression \<Rightarrow> unit outcome" where
  "validateElementInit enabledFeatures m i elemType initExpr =
     bindO (elementInitType enabledFeatures m i initExpr) (\<lambda>initType.
     if elemType = RefTypeFuncref then
       require (initType = ValueTypeFuncref) (Errorf ''%s[%d].init[%d] must be funcref but was %s'')
     else if elemType = RefTypeExternref then
       require (initType = ValueTypeExternref) (Errorf ''%s[%d].init[%d] must be externref but was %s'')
     else
       bindO (isRefSubtypeOf m initType elemType) (\<lambda>sub.
       require (sub \<or> initType = ValueTypeFuncref) (Errorf ''%s[%d].init[%d] must be %s but was %s'')))"

definition elementOffsetResolver :: "CoreFeatures \<Rightarrow> Module \<Rightarrow> u32 \<Rightarrow> nat \<Rightarrow> global_resolver" where
  "elementOffsetResolver enabledFeatures m globalsCount i = (\<lambda>globalIndex.
     bindO (require (globalIndex < globalsCount) (Errorf ''%s[%d] global index %d out of range'')) (\<lambda>_.
     bindO (resolveConstExprGlobalType enabledFeatures m SectionIDElement (of_nat i) globalIndex) (\<lambda>vt.
     bindO (require (vt = ValueTypeI32) (Errorf ''%s[%d] (global.get %d): import[%d].global.ValType != i32'')) (\<lambda>_.
     Ok (ValueTypeI32, 0, 0)))))"

definition validateActiveElement :: "CoreFeatures \<Rightarrow> Module \<Rightarrow> Table list \<Rightarrow> nat \<Rightarrow> ElementSegment \<Rightarrow> unit outcome" where
  "validateActiveElement enabledFeatures m tables i elem =
     bindO (require (unat (es_TableIndex elem) < length tables) (Errorf ''unknown table %d as active element target'')) (\<lambda>_.
     bindO (index tables (unat (es_TableIndex elem))) (\<lambda>t.
     bindO (isRefSubtypeOf m (es_Type elem) (tab_Type t)) (\<lambda>sub.
     bindO (require sub (Errorf ''element type mismatch: table has %s but element has %s'')) (\<lambda>_.
     bindO (SectionElementCount m SectionIDGlobal) (\<lambda>globalCount.
     let gr = elementOffsetResolver enabledFeatures m (ImportGlobalCount m + globalCount) i; fr = (\<lambda>_. Ok 0);
         hasGlobalRef = (resolvedGlobals (resolverCalls (es_OffsetExpr elem) gr fr) \<noteq> []) in
     bindO (mapErr (Wrapf ''%s[%d] couldn't evaluate offset expression'')
       (evaluateConstExpr (es_OffsetExpr elem) gr fr)) (\<lambda>(offsetExprResults, offsetExprType).
     bindO (require (offsetExprType = ValueTypeI32) (Errorf ''%s[%d] offset expression must return i32 but was %s'')) (\<lambda>_.
     if \<not> IsEnabled enabledFeatures CoreFeatureReferenceTypes \<and> \<not> hasGlobalRef \<and> es_TableIndex elem \<ge> ImportTableCount m then
       bindO (index offsetExprResults 0) (\<lambda>v.
       checkSegmentBounds (tab_Min t) (ucast (of_nat (length (es_Init elem)) :: u32) + ucast (ucast v :: u32)))
     else Ok ())))))))"

definition validateElement :: "CoreFeatures \<Rightarrow> Module \<Rightarrow> Table list \<Rightarrow> nat \<times> ElementSegment \<Rightarrow> unit outcome" where
  "validateElement enabledFeatures m tables = (\<lambda>(i, elem).
     bindO (checkAll (validateElementInit enabledFeatures m i (es_Type elem)) (es_Init elem)) (\<lambda>_.
     if ElementSegment_IsActive elem then validateActiveElement enabledFeatures m tables i elem else Ok ()))"

definition validateTable :: "CoreFeatures \<Rightarrow> Module \<Rightarrow> Table list \<Rightarrow> u32 \<Rightarrow> unit outcome" where
  "validateTable enabledFeatures m tables maximumTableIndex =
     bindO (require (int (length tables) \<le> uint maximumTableIndex)
       (Errorf ''too many tables in a module: %d given with limit %d'')) (\<lambda>_.
     checkAll (validateElement enabledFeatures m tables) (enumerate 0 (ElementSection m)))"

section \<open>The module\<close>

definition validateDataCountSection :: "Module \<Rightarrow> unit outcome" where
  "validateDataCountSection m =
     (case DataCountSection m of
        None \<Rightarrow> Ok ()
      | Some n \<Rightarrow> require (unat n = length (DataSection m))
          (Errorf ''data count section (%d) doesn't match the length of data section (%d)''))"

text \<open>The loop over \<^verbatim>\<open>CacheNumInUint64\<close> with which validation starts.\<close>

definition cached :: "Module \<Rightarrow> Module" where
  "cached m = m\<lparr>TypeSection := map CacheNumInUint64 (TypeSection m)\<rparr>"

text \<open>
  The argument \<open>hasCode\<close> is the test \<^verbatim>\<open>m.CodeSection != nil\<close>, which the list of bodies does not record: a code section
  without bodies is an empty slice, no code section a nil one. The result is the module, whose types got their sizes cached.
\<close>

definition Validate :: "CoreFeatures \<Rightarrow> bool \<Rightarrow> Module \<Rightarrow> Module outcome" where
  "Validate enabledFeatures hasCode m =
     (let m = cached m in
      bindO (validateConcreteRefTypes m) (\<lambda>_.
      bindO (validateStartSection m) (\<lambda>_.
      bindO (AllDeclarations m) (\<lambda>d.
      let numFuncs = of_nat (length (decl_functions d)) in
      bindO (validateTableInitExprs m (decl_globals d) numFuncs) (\<lambda>_.
      bindO (validateImports enabledFeatures m) (\<lambda>_.
      bindO (validateGlobals m (decl_globals d) numFuncs MaximumGlobals) (\<lambda>_.
      bindO (validateMemory m (decl_memory d) (decl_globals d)) (\<lambda>_.
      bindO (validateExports enabledFeatures m d) (\<lambda>_.
      bindO (validateTagSection m) (\<lambda>_.
      bindO (if hasCode then validateFunctions enabledFeatures m d MaximumFunctionIndex else Ok ()) (\<lambda>_.
      bindO (validateTable enabledFeatures m (decl_tables d) MaximumTableIndex) (\<lambda>_.
      bindO (validateDataCountSection m) (\<lambda>_.
      Ok m)))))))))))))"

section \<open>The resolver calls determine the result\<close>

text \<open>
  An evaluation only depends on what the resolvers return for the recorded calls, so that the calls are those of the loop:
  resolvers that agree on them give the same result and make the same calls.
\<close>

definition agree_on :: "resolver_call list \<Rightarrow> global_resolver \<Rightarrow> func_resolver \<Rightarrow> global_resolver \<Rightarrow> func_resolver \<Rightarrow> bool" where
  "agree_on cs g f g' f' \<longleftrightarrow>
     (\<forall>i \<in> set (resolvedGlobals cs). g i = g' i) \<and> (\<forall>i \<in> set (resolvedFuncs cs). f i = f' i)"

lemma resolved_simps [simp]:
  "resolvedGlobals [] = []" "resolvedFuncs [] = []"
  "resolvedGlobals (cs @ ds) = resolvedGlobals cs @ resolvedGlobals ds"
  "resolvedFuncs (cs @ ds) = resolvedFuncs cs @ resolvedFuncs ds"
  "resolvedGlobals [ResolveGlobal i] = [i]" "resolvedFuncs [ResolveFunc i] = [i]"
  "resolvedGlobals [ResolveFunc i] = []" "resolvedFuncs [ResolveGlobal i] = []"
  by (simp_all add: resolvedGlobals_def resolvedFuncs_def)

lemma agree_on_append [simp]: "agree_on (cs @ ds) g f g' f' \<longleftrightarrow> agree_on cs g f g' f' \<and> agree_on ds g f g' f'"
  by (auto simp: agree_on_def)

lemma constStep_agree:
  assumes "agree_on (callsOf opCode data) g f g' f'"
  shows "constStep g f opCode data stack ts = constStep g' f' opCode data stack ts"
proof (cases "opCode \<in> {OpcodeGlobalGet, OpcodeRefFunc}")
  case True
  then show ?thesis using assms
    by (cases "LoadUint32 data") (auto simp: constStep_def callsOf_def agree_on_def)
qed (rule constStep_resolver_free)

lemma resolverCalls_determine:
  "agree_on (resolverCalls_loop g f data stack ts) g f g' f' \<Longrightarrow>
     evaluateConstExpr_loop g f data stack ts = evaluateConstExpr_loop g' f' data stack ts \<and>
     resolverCalls_loop g f data stack ts = resolverCalls_loop g' f' data stack ts"
proof (induction data arbitrary: stack ts rule: length_induct)
  case (1 data)
  show ?case
  proof (cases data)
    case (Cons opCode data')
    note unf = evaluateConstExpr_loop.simps [of _ _ "opCode # data'"] resolverCalls_loop.simps [of _ _ "opCode # data'"] list.simps
    have a: "agree_on (callsOf opCode data') g f g' f'"
      using 1(2) unfolding Cons unf by simp
    have rest: "agree_on (resolverCalls_loop g f (drop n data') s ts') g f g' f'"
      if "constStep g f opCode data' stack ts = Ok (Continue n s ts')" for n s ts'
      using 1(2) that unfolding Cons unf by simp
    have "evaluateConstExpr_loop g f (drop n data') s ts' = evaluateConstExpr_loop g' f' (drop n data') s ts' \<and>
        resolverCalls_loop g f (drop n data') s ts' = resolverCalls_loop g' f' (drop n data') s ts'"
      if "constStep g f opCode data' stack ts = Ok (Continue n s ts')" for n s ts'
      using 1(1) rest [OF that] Cons by (simp add: less_Suc_eq_le)
    then show ?thesis
      unfolding Cons unf constStep_agree [OF a, symmetric]
      by (auto split: outcome.splits const_step.splits)
  qed (simp add: evaluateConstExpr_loop.simps resolverCalls_loop.simps)
qed

section \<open>Loops\<close>

lemma checkAll_Ok_iff: "checkAll f xs = Ok u \<longleftrightarrow> (\<forall>x \<in> set xs. f x = Ok ())"
  by (simp add: checkAll_def foldO_unit_Ok_iff)

lemma holds_checkAllI [wpI]:
  assumes "\<And>x. x \<in> set xs \<Longrightarrow> holds (\<lambda>_. True) (f x)" and "\<forall>x \<in> set xs. f x = Ok () \<Longrightarrow> P ()"
  shows "holds P (checkAll f xs)"
proof (rule holds_of_not_panics)
  have "holds (\<lambda>_. True) (checkAll f xs)" unfolding checkAll_def by (rule holds_foldO) (simp_all add: assms(1))
  then show "\<not> panics (checkAll f xs)" by (rule holds_not_panics)
  show "P u" if "checkAll f xs = Ok u" for u using that assms(2) by (simp add: checkAll_Ok_iff)
qed

section \<open>Safety of the checks\<close>

lemma holds_evaluateConstExpr:
  assumes "wf_expr e" "\<And>i. \<not> panics (g i)" "\<And>i. \<not> panics (f i)" "\<And>s t. length s = slots t \<Longrightarrow> P (s, t)"
  shows "holds P (evaluateConstExpr e g f)"
proof -
  have "last (ce_Data e) \<noteq> OpcodeVecPrefix" using assms(1) by (simp add: wf_expr_def)
  then have "holds (\<lambda>(s, t). length s = slots t) (evaluateConstExpr e g f)"
    unfolding evaluateConstExpr_def using evaluateConstExpr_loop_agrees [OF assms(2,3), of "[]" "[]"] by simp
  then show ?thesis by (rule holds_mono) (use assms(4) in auto)
qed

lemma typeIndexOfFunction_range:
  "holds (\<lambda>r. \<forall>i. r = Some i \<longrightarrow> unat i < length (TypeSection m)) (typeIndexOfFunction m i)"
  unfolding typeIndexOfFunction_def by (auto simp: wp Let_def not_le split: option.splits if_splits)

lemmas holds_typeIndexOfFunction [wpI] = typeIndexOfFunction_range [THEN holds_mono]

lemma holds_typeOfFunction [wpI]: "(\<And>r. P r) \<Longrightarrow> holds P (typeOfFunction m i)"
  unfolding typeOfFunction_def by (auto simp: wp intro!: wpI split: option.splits)

lemma holds_SectionElementCount [wp]:
  "holds P (SectionElementCount m SectionIDFunction) = P (of_nat (length (FunctionSection m)))"
  "holds P (SectionElementCount m SectionIDGlobal) = P (of_nat (length (GlobalSection m)))"
  "holds P (SectionElementCount m SectionIDCode) = P (of_nat (length (CodeSection m)))"
  "holds P (SectionElementCount m SectionIDType) = P (of_nat (length (TypeSection m)))"
  by (simp_all add: SectionElementCount_def)

lemma resolveConstExprGlobalType_safe: "holds (\<lambda>_. True) (resolveConstExprGlobalType f m sid i idx)"
  unfolding resolveConstExprGlobalType_def by (auto simp: wp Let_def split: option.splits)

lemmas holds_resolveConstExprGlobalType [wpI] = resolveConstExprGlobalType_safe [THEN holds_mono]

lemma globalTypeResolver_safe: "\<not> panics (globalTypeResolver f m sid i idx)"
  unfolding holds_True_iff [symmetric] by (auto simp: wp intro!: wpI)

lemma holds_validateConstExpression [wpI]:
  assumes "wf_types m" "wf_expr e" "P ()"
  shows "holds P (validateConstExpression m gs n e t)"
  unfolding validateConstExpression_def Let_def holds_bindO
  by (rule holds_evaluateConstExpr [OF assms(2)], unfold holds_True_iff [symmetric])
    (use assms in \<open>auto simp: wp not_le intro!: wpI\<close>)

text \<open>What the checks rely on: the part of the decoder's invariant that concerns the validator.\<close>

definition decoded :: "Module \<Rightarrow> bool" where
  "decoded m \<longleftrightarrow> wf_types m \<and>
     unat (ImportGlobalCount m) \<le> count_type ExternTypeGlobal (ImportSection m) \<and>
     length (FunctionSection m) = length (CodeSection m) \<and> length (CodeSection m) < 2 ^ 32 \<and>
     (\<forall>t \<in> set (TableSection m). case tab_InitExpr t of Some e \<Rightarrow> wf_expr e | None \<Rightarrow> True) \<and>
     (\<forall>g \<in> set (GlobalSection m). wf_expr (glo_Init g)) \<and>
     (\<forall>e \<in> set (ElementSection m). wf_element e) \<and>
     (\<forall>c \<in> set (CodeSection m). code_Body c \<noteq> [] \<and> last (code_Body c) = OpcodeEnd) \<and>
     (\<forall>d \<in> set (DataSection m). wf_data d)"

lemma module_inv_decoded:
  assumes "module_inv lim m" "length (FunctionSection m) = length (CodeSection m)"
  shows "decoded m"
proof -
  have "unat (ImportGlobalCount m) \<le> count_type ExternTypeGlobal (ImportSection m)"
    using assms(1) by (simp add: module_inv_def imports_inv_def imports_of_def unat_of_nat_le)
  moreover have "wf_types m" using assms(1) type_inv_wf_types [of m] unfolding module_inv_def by blast
  ultimately show ?thesis using assms by (auto simp: decoded_def module_inv_def wf_table_type_def wf_code_entry_def)
qed

lemma AllDeclarations_imports:
  "decl_functions (foldl AllDeclarations_import d imps) = decl_functions d @ map imp_DescFunc (filter (\<lambda>i. imp_Type i = ExternTypeFunc) imps)"
  "decl_globals (foldl AllDeclarations_import d imps) = decl_globals d @ map imp_DescGlobal (filter (\<lambda>i. imp_Type i = ExternTypeGlobal) imps)"
  "decl_tables (foldl AllDeclarations_import d imps) = decl_tables d @ map imp_DescTable (filter (\<lambda>i. imp_Type i = ExternTypeTable) imps)"
  "decl_tags (foldl AllDeclarations_import d imps) = decl_tags d @ map imp_DescTag (filter (\<lambda>i. imp_Type i = ExternTypeTag) imps)"
  by (induction imps arbitrary: d) (auto simp: AllDeclarations_import_def split: ExternType.splits)

lemma AllDeclarations_Ok:
  assumes "AllDeclarations m = Ok d"
  shows
    "decl_functions d = map imp_DescFunc (filter (\<lambda>i. imp_Type i = ExternTypeFunc) (ImportSection m)) @ FunctionSection m"
    "decl_globals d = map imp_DescGlobal (filter (\<lambda>i. imp_Type i = ExternTypeGlobal) (ImportSection m)) @ map glo_Type (GlobalSection m)"
    "decl_tables d = map imp_DescTable (filter (\<lambda>i. imp_Type i = ExternTypeTable) (ImportSection m)) @ TableSection m"
    "decl_tags d = map imp_DescTag (filter (\<lambda>i. imp_Type i = ExternTypeTag) (ImportSection m)) @ map tag_Type (TagSection m)"
  using assms by (auto simp: AllDeclarations_def Let_def AllDeclarations_imports split: option.splits if_splits)

lemma holds_AllDeclarations [wpI]: "(\<And>d. AllDeclarations m = Ok d \<Longrightarrow> P d) \<Longrightarrow> holds P (AllDeclarations m)"
  by (auto simp: AllDeclarations_def Let_def split: option.splits)

lemma ImportGlobalCount_le:
  "decoded m \<Longrightarrow> AllDeclarations m = Ok d \<Longrightarrow> unat (ImportGlobalCount m) \<le> length (decl_globals d)"
  by (simp add: decoded_def AllDeclarations_Ok count_type_def)

lemma holds_validateConcreteRefTypes [wpI]: "P () \<Longrightarrow> holds P (validateConcreteRefTypes m)"
  unfolding validateConcreteRefTypes_def checkConcreteRef_def by (auto simp: wp Let_def intro!: wpI)

lemma holds_validateStartSection [wpI]: "P () \<Longrightarrow> holds P (validateStartSection m)"
  unfolding validateStartSection_def by (auto simp: wp intro!: wpI split: option.splits)

lemma holds_validateTableInitExprs [wpI]:
  "decoded m \<Longrightarrow> AllDeclarations m = Ok d \<Longrightarrow> P () \<Longrightarrow> holds P (validateTableInitExprs m (decl_globals d) n)"
  unfolding validateTableInitExprs_def
  by (auto simp: wp ImportGlobalCount_le intro!: wpI split: option.splits) (auto simp: decoded_def)

lemma holds_validateGlobals [wpI]:
  "decoded m \<Longrightarrow> AllDeclarations m = Ok d \<Longrightarrow> P () \<Longrightarrow> holds P (validateGlobals m (decl_globals d) n k)"
  unfolding validateGlobals_def
  by (auto simp: wp ImportGlobalCount_le intro!: wpI) (auto simp: decoded_def)

lemma holds_validateMemory [wpI]:
  "decoded m \<Longrightarrow> AllDeclarations m = Ok d \<Longrightarrow> P () \<Longrightarrow> holds P (validateMemory m mem (decl_globals d))"
  unfolding validateMemory_def
  by (auto simp: wp ImportGlobalCount_le intro!: wpI) (auto simp: decoded_def wf_data_def)

text \<open>The imports and tags of a module that passes these checks have types that exist.\<close>

lemma validateImport_inRange:
  "validateImport f m i = Ok () \<Longrightarrow> imp_Type i = ExternTypeFunc \<Longrightarrow> inRange m (imp_DescFunc i)"
  "validateImport f m i = Ok () \<Longrightarrow> imp_Type i = ExternTypeTag \<Longrightarrow> inRange m (imp_DescTag i)"
  by (auto simp: validateImport_def bindO_Ok_iff inRange_def)

lemma holds_validateImports [wpI]:
  assumes "(\<And>i. i \<in> set (ImportSection m) \<Longrightarrow> imp_Type i = ExternTypeFunc \<Longrightarrow> inRange m (imp_DescFunc i)) \<Longrightarrow>
     (\<And>i. i \<in> set (ImportSection m) \<Longrightarrow> imp_Type i = ExternTypeTag \<Longrightarrow> inRange m (imp_DescTag i)) \<Longrightarrow> P ()"
  shows "holds P (validateImports f m)"
proof -
  have "holds (\<lambda>_. True) (validateImport f m i)" for i
    unfolding validateImport_def by (cases "imp_Type i") (auto simp: wp)
  then show ?thesis
    unfolding validateImports_def by (rule holds_checkAllI) (use assms validateImport_inRange in blast)
qed

lemma holds_validateTagSection [wpI]:
  "((\<And>t. t \<in> set (TagSection m) \<Longrightarrow> inRange m (tag_Type t)) \<Longrightarrow> P ()) \<Longrightarrow> holds P (validateTagSection m)"
  unfolding validateTagSection_def
  by (rule holds_checkAllI) (auto simp: wp inRange_def bindO_Ok_iff)

lemma holds_validateExports [wpI]: "P () \<Longrightarrow> holds P (validateExports f m d)"
proof -
  assume "P ()"
  have "holds (\<lambda>_. True) (validateExport f d e)" for e
    unfolding validateExport_def by (cases "exp_Type e") (auto simp: wp Let_def)
  with \<open>P ()\<close> show ?thesis unfolding validateExports_def by (auto intro!: wpI)
qed

lemma holds_validateDataCountSection [wpI]: "P () \<Longrightarrow> holds P (validateDataCountSection m)"
  unfolding validateDataCountSection_def by (auto simp: wp split: option.splits)

lemma in_enumerateD: "x \<in> set (enumerate 0 xs) \<Longrightarrow> fst x < length xs \<and> snd x \<in> set xs"
  by (cases x) (auto simp: in_set_enumerate_eq)

lemma holds_declaredFunctionIndexes [wpI]:
  assumes "decoded m" "\<And>s. P s"
  shows "holds P (declaredFunctionIndexes f m)"
proof -
  have r: "holds (\<lambda>_. True) (Ok (0 :: Reference))" by simp
  have 1: "holds (\<lambda>_. True) (declaredByGlobal f m x s)" if "x \<in> set (enumerate 0 (GlobalSection m))" for x s
  proof -
    have "wf_expr (glo_Init (snd x))" using in_enumerateD [OF that] assms(1) by (simp add: decoded_def)
    then show ?thesis
      unfolding declaredByGlobal_def case_prod_unfold Let_def holds_bindO holds_mapErr
      by (rule holds_evaluateConstExpr) (auto simp: globalTypeResolver_safe)
  qed
  have 2: "holds (\<lambda>_. True) (declaredByInit f m i e s)" if "wf_expr e" for i e s
  proof -
    have "holds (\<lambda>_. True) (evaluateConstExpr e (globalTypeResolver f m SectionIDElement (of_nat i)) (\<lambda>_. Ok 0))"
      using that by (rule holds_evaluateConstExpr) (auto simp: globalTypeResolver_safe)
    then show ?thesis by (auto simp: declaredByInit_def Let_def split: outcome.splits)
  qed
  have 3: "holds (\<lambda>_. True) (foldO (declaredByInit f m (fst x)) (es_Init (snd x)) s)"
    if "x \<in> set (enumerate 0 (ElementSection m))" for x s
    using in_enumerateD [OF that] assms(1)
    by (intro holds_foldO 2) (auto simp: decoded_def wf_element_def)
  have "holds (\<lambda>_. True) (declaredFunctionIndexes f m)"
    unfolding declaredFunctionIndexes_def Let_def holds_bindO case_prod_unfold
    by (rule holds_mono [OF holds_foldO [where I = "\<lambda>_. True"]]) (auto intro!: holds_foldO 1 3)
  then show ?thesis by (rule holds_mono) (rule assms(2))
qed

text \<open>
  The hypotheses of the function validator that the checks before it do not establish: every function's type exists, and,
  with exception handling, no local has a non-nullable reference type.
\<close>

definition functions_ok :: "CoreFeatures \<Rightarrow> Module \<Rightarrow> bool" where
  "functions_ok features m \<longleftrightarrow> list_all (inRange m) (FunctionSection m) \<and>
     (IsEnabled features CoreFeaturesExceptionHandling \<longrightarrow>
        (\<forall>c \<in> set (CodeSection m). list_all (\<lambda>t. IsRef t \<longrightarrow> IsNullable t) (code_LocalTypes c)))"

lemma function_okI:
  assumes "decoded m" "functions_ok features m" "AllDeclarations m = Ok d"
    and "\<And>i. i \<in> set (ImportSection m) \<Longrightarrow> imp_Type i = ExternTypeFunc \<Longrightarrow> inRange m (imp_DescFunc i)"
    and "\<And>i. i \<in> set (ImportSection m) \<Longrightarrow> imp_Type i = ExternTypeTag \<Longrightarrow> inRange m (imp_DescTag i)"
    and "\<And>t. t \<in> set (TagSection m) \<Longrightarrow> inRange m (tag_Type t)"
    and "i < length (FunctionSection m)"
  shows "function_ok m features d (of_nat i)"
proof -
  have len: "length (FunctionSection m) = length (CodeSection m)" "length (CodeSection m) < 2 ^ 32"
    using assms(1) by (simp_all add: decoded_def)
  then have i: "unat (of_nat i :: u32) = i" "i < length (CodeSection m)" "i < length (FunctionSection m)"
    using assms(7) by (simp_all add: unsigned_of_nat take_bit_nat_eq_self)
  have c: "CodeSection m ! i \<in> set (CodeSection m)" "FunctionSection m ! i \<in> set (FunctionSection m)" using i by simp_all
  then show ?thesis
    using assms i
    by (auto simp: function_ok_def decoded_def functions_ok_def AllDeclarations_Ok list_all_iff Let_def)
qed

lemma holds_validateFunctions [wpI]:
  assumes "decoded m" "\<And>i. i < length (FunctionSection m) \<Longrightarrow> function_ok m features d (of_nat i)" "P ()"
  shows "holds P (validateFunctions features m d k)"
proof -
  have 1: "holds (\<lambda>_. True) (validateFunctionAt features m d ds x s)" if "x \<in> set (enumerate 0 (FunctionSection m))" for x s ds
    using in_enumerateD [OF that] assms(1,2)
    by (auto simp: validateFunctionAt_def case_prod_unfold wp decoded_def intro!: holds_validateFunction)
  have "holds (\<lambda>_. True) (foldO (validateFunctionAt features m d ds) (enumerate 0 (FunctionSection m)) s)" for ds s
    by (rule holds_foldO) (auto intro: 1)
  then show ?thesis
    unfolding validateFunctions_def
    using assms(1,3) by (auto simp: wp intro!: wpI elim: holds_mono)
qed

lemma holds_validateTable [wpI]:
  assumes "decoded m" "P ()"
  shows "holds P (validateTable features m ts k)"
proof -
  have wf: "wf_types m" using assms(1) by (simp add: decoded_def)
  have init: "holds (\<lambda>_. True) (validateElementInit features m i t e)" if "wf_expr e" for i t e
    unfolding validateElementInit_def elementInitType_def Let_def holds_bindO holds_SectionElementCount
    by (rule holds_evaluateConstExpr [OF that])
      (use wf in \<open>auto simp: wp globalTypeResolver_safe\<close>)
  have offset: "\<not> panics (elementOffsetResolver features m n i j)" for n i j
    unfolding elementOffsetResolver_def holds_True_iff [symmetric] by (auto simp: wp intro!: wpI)
  have active: "holds (\<lambda>_. True) (validateActiveElement features m ts i e)" if "wf_expr (es_OffsetExpr e)" for i e
    unfolding validateActiveElement_def Let_def
    by (auto simp: wp wf checkSegmentBounds_def intro!: holds_evaluateConstExpr [OF that] offset)
  have "holds (\<lambda>_. True) (validateElement features m ts x)" if "x \<in> set (enumerate 0 (ElementSection m))" for x
    using in_enumerateD [OF that] assms(1)
    by (auto simp: validateElement_def case_prod_unfold wp decoded_def wf_element_def ElementSegment_IsActive_def
        intro!: wpI init active)
  then show ?thesis unfolding validateTable_def using assms(2) by (auto simp: wp intro!: wpI)
qed

section \<open>Caching the sizes of the types\<close>

lemma CacheNumInUint64_keeps [simp]:
  "ft_Params (CacheNumInUint64 ft) = ft_Params ft" "ft_Results (CacheNumInUint64 ft) = ft_Results ft"
  "ft_RecGroupSize (CacheNumInUint64 ft) = ft_RecGroupSize ft"
  "ft_RecGroupPosition (CacheNumInUint64 ft) = ft_RecGroupPosition ft"
  by (simp_all add: CacheNumInUint64_def Let_def)

lemma inRange_cached [simp]: "inRange (cached m) = inRange m"
  by (simp add: inRange_def cached_def fun_eq_iff)

lemma group_cached: "inRange m t \<Longrightarrow> group (cached m) t = group m t"
  by (simp add: group_def typeAt_def inRange_def cached_def)

lemma wf_types_cached:
  assumes "wf_types m"
  shows "wf_types (cached m)"
proof -
  have "inRange m (fst (group m t))" if "inRange m t" for t
  proof -
    have "t - fst (group m t) < snd (group m t)"
      and le: "unat (fst (group m t)) + unat (snd (group m t)) \<le> length (TypeSection m)"
      using assms that by (auto simp: wf_types_def)
    then have "snd (group m t) \<noteq> 0" by auto
    then have "0 < unat (snd (group m t))" by (simp add: unat_gt_0)
    with le show ?thesis by (simp add: inRange_def)
  qed
  moreover have "wf_value_type (cached m) = wf_value_type m" by (simp add: fun_eq_iff wf_value_type_def)
  ultimately show ?thesis
    using assms by (auto simp: wf_types_def group_cached) (auto simp: cached_def)
qed

lemma decoded_cached: "decoded m \<Longrightarrow> decoded (cached m)"
  using wf_types_cached by (auto simp: decoded_def) (auto simp: cached_def)

lemma functions_ok_cached: "functions_ok f m \<Longrightarrow> functions_ok f (cached m)"
  by (auto simp: functions_ok_def) (auto simp: cached_def)

lemma holds_Validate:
  assumes "decoded m" "functions_ok enabledFeatures m"
  shows "holds (\<lambda>_. True) (Validate enabledFeatures hasCode m)"
proof -
  note ok = decoded_cached [OF assms(1)] functions_ok_cached [OF assms(2)]
  show ?thesis
    unfolding Validate_def Let_def
    by (auto simp: wp intro!: wpI ok function_okI [OF ok])
qed

section \<open>What an accepted module satisfies\<close>

text \<open>The loop over the functions: every function passed, on the stacks left by the ones before it.\<close>

lemma foldO_Ok_each:
  "foldO f xs s = Ok s' \<Longrightarrow> x \<in> set xs \<Longrightarrow> \<exists>u u'. f x u = Ok u'"
  by (induction xs arbitrary: s) (auto simp: bindO_Ok_iff)

lemma validateFunctions_Ok:
  assumes "validateFunctions features m d k = Ok u" "length (FunctionSection m) = length (CodeSection m)"
    "length (CodeSection m) < 2 ^ 32" "i < length (CodeSection m)"
  shows "inRange m (FunctionSection m ! i)" "\<exists>declared. declaredFunctionIndexes features m = Ok declared \<and>
    (code_GoFunc (CodeSection m ! i) \<or> (\<exists>sts sts'. validateFunction m sts features (of_nat i) d declared = Ok sts'))"
proof -
  have "(of_nat (length (CodeSection m)) :: u32) \<noteq> 0"
    using of_nat_u32_eq [of "length (CodeSection m)" 0] assms(3,4) by auto
  then obtain declared s where dec: "declaredFunctionIndexes features m = Ok declared" and
    run: "foldO (validateFunctionAt features m d declared) (enumerate 0 (FunctionSection m)) newStacks = Ok s"
    using assms(1,2) by (auto simp: validateFunctions_def SectionElementCount_def bindO_Ok_iff split: if_splits)
  have "(i, FunctionSection m ! i) \<in> set (enumerate 0 (FunctionSection m))"
    using assms(2,4) by (simp add: in_set_enumerate_eq)
  from foldO_Ok_each [OF run this]
  obtain u u' where *: "validateFunctionAt features m d declared (i, FunctionSection m ! i) u = Ok u'" by blast
  then show "inRange m (FunctionSection m ! i)"
    by (auto simp: validateFunctionAt_def SectionElementCount_def bindO_Ok_iff inRange_def)
  from * dec show "\<exists>declared. declaredFunctionIndexes features m = Ok declared \<and>
    (code_GoFunc (CodeSection m ! i) \<or> (\<exists>sts sts'. validateFunction m sts features (of_nat i) d declared = Ok sts'))"
    using assms(4)
    by (auto simp: validateFunctionAt_def SectionElementCount_def bindO_Ok_iff index_def split: if_splits)
qed

lemma Validate_OkE:
  assumes "Validate features hasCode m = Ok m'"
  obtains d where "m' = cached m" "validateStartSection m' = Ok ()" "AllDeclarations m' = Ok d"
    "validateImports features m' = Ok ()" "validateMemory m' (decl_memory d) (decl_globals d) = Ok ()"
    "validateExports features m' d = Ok ()" "validateTagSection m' = Ok ()"
    "hasCode \<Longrightarrow> validateFunctions features m' d MaximumFunctionIndex = Ok ()"
    "validateTable features m' (decl_tables d) MaximumTableIndex = Ok ()" "validateDataCountSection m' = Ok ()"
  using assms unfolding Validate_def Let_def bindO_Ok_iff by (elim exE conjE) (rule that, auto)

lemma Validate_inRange:
  assumes "validateImports features m = Ok ()" "validateTagSection m = Ok ()"
  shows "i \<in> set (ImportSection m) \<Longrightarrow> imp_Type i = ExternTypeFunc \<Longrightarrow> inRange m (imp_DescFunc i)"
    "i \<in> set (ImportSection m) \<Longrightarrow> imp_Type i = ExternTypeTag \<Longrightarrow> inRange m (imp_DescTag i)"
    "t \<in> set (TagSection m) \<Longrightarrow> inRange m (tag_Type t)"
  using assms validateImport_inRange
  by (auto simp: validateImports_def validateTagSection_def checkAll_Ok_iff bindO_Ok_iff inRange_def)

lemma Validate_function_ok:
  assumes "decoded m" "Validate features True m = Ok m'" "i < length (CodeSection m)" "\<not> code_GoFunc (CodeSection m ! i)"
    and eh: "IsEnabled features CoreFeaturesExceptionHandling \<Longrightarrow>
      \<forall>c \<in> set (CodeSection m). list_all (\<lambda>t. IsRef t \<longrightarrow> IsNullable t) (code_LocalTypes c)"
  shows "\<exists>d declared sts sts'. AllDeclarations m' = Ok d \<and> declaredFunctionIndexes features m' = Ok declared \<and>
    function_ok m' features d (of_nat i) \<and> validateFunction m' sts features (of_nat i) d declared = Ok sts'"
proof -
  from assms(2) obtain d where v: "m' = cached m" "AllDeclarations m' = Ok d" "validateImports features m' = Ok ()"
    "validateTagSection m' = Ok ()" "validateFunctions features m' d MaximumFunctionIndex = Ok ()"
    by (auto elim!: Validate_OkE)
  have dec: "decoded m'" using decoded_cached [OF assms(1)] v(1) by simp
  then have len: "length (FunctionSection m') = length (CodeSection m')" "length (CodeSection m') < 2 ^ 32"
    by (simp_all add: decoded_def)
  have i: "i < length (CodeSection m')" "CodeSection m' = CodeSection m" using assms(3) v(1) by (simp_all add: cached_def)
  have "inRange m' t" if "t \<in> set (FunctionSection m')" for t
    using that len validateFunctions_Ok(1) [OF v(5) len] by (auto simp: in_set_conv_nth)
  then have fok: "functions_ok features m'" using eh i(2) by (simp add: functions_ok_def list_all_iff)
  have ok: "function_ok m' features d (of_nat i)"
    by (rule function_okI [OF dec fok v(2)]) (use Validate_inRange [OF v(3,4)] i len in auto)
  show ?thesis using validateFunctions_Ok(2) [OF v(5) len i(1)] v(2) ok assms(4) i(2) by auto
qed

lemma accepted_export:
  "validateExports features m d = Ok () \<Longrightarrow> x \<in> set (ExportSection m) \<Longrightarrow>
     case exp_Type x of
       ExternTypeFunc \<Rightarrow> unat (exp_Index x) < length (decl_functions d)
     | ExternTypeGlobal \<Rightarrow> unat (exp_Index x) < length (decl_globals d)
     | ExternTypeMemory \<Rightarrow> exp_Index x = 0 \<and> decl_memory d \<noteq> None
     | ExternTypeTable \<Rightarrow> unat (exp_Index x) < length (decl_tables d)
     | ExternTypeTag \<Rightarrow> unat (exp_Index x) < length (decl_tags d)"
  by (cases "exp_Type x")
    (auto simp: validateExports_def checkAll_Ok_iff validateExport_def Let_def bindO_Ok_iff word_gt_0 dest!: bspec)

lemma accepted_start:
  "validateStartSection m = Ok () \<Longrightarrow> StartSection m = Some i \<Longrightarrow>
     \<exists>ft. typeOfFunction m i = Ok (Some ft) \<and> ft_Params ft = [] \<and> ft_Results ft = []"
  by (auto simp: validateStartSection_def bindO_Ok_iff split: option.splits)

lemma accepted_tag:
  assumes "AllDeclarations m = Ok d" "validateImports features m = Ok ()" "validateTagSection m = Ok ()" "t \<in> set (decl_tags d)"
  shows "inRange m t \<and> ft_Results (typeAt m t) = []"
proof -
  have "inRange m (imp_DescTag i) \<and> ft_Results (typeAt m (imp_DescTag i)) = []"
    if "i \<in> set (ImportSection m)" "imp_Type i = ExternTypeTag" for i
  proof -
    have "validateImport features m i = Ok ()" using that(1) assms(2) by (simp add: validateImports_def checkAll_Ok_iff)
    then show ?thesis using that(2) by (simp add: validateImport_def bindO_Ok_iff index_Ok_iff inRange_def typeAt_def)
  qed
  moreover have "inRange m (tag_Type g) \<and> ft_Results (typeAt m (tag_Type g)) = []" if "g \<in> set (TagSection m)" for g
    using that assms(3) by (auto simp: validateTagSection_def checkAll_Ok_iff bindO_Ok_iff index_Ok_iff inRange_def typeAt_def)
  ultimately show ?thesis using assms(4) by (auto simp: AllDeclarations_Ok [OF assms(1)])
qed

lemma accepted_element:
  assumes "wf_types m" "validateTable features m ts k = Ok ()" "e \<in> set (ElementSection m)" "ElementSegment_IsActive e"
  shows "unat (es_TableIndex e) < length ts \<and> ref_subtype m (es_Type e) (tab_Type (ts ! unat (es_TableIndex e)))"
proof -
  from assms(3) obtain i where "i < length (ElementSection m)" "ElementSection m ! i = e" by (auto simp: in_set_conv_nth)
  then have "(i, e) \<in> set (enumerate 0 (ElementSection m))" by (simp add: in_set_enumerate_eq)
  then have "validateElement features m ts (i, e) = Ok ()"
    using assms(2) by (auto simp: validateTable_def bindO_Ok_iff checkAll_Ok_iff)
  then have "validateActiveElement features m ts i e = Ok ()"
    using assms(4) by (simp add: validateElement_def bindO_Ok_iff)
  then show ?thesis by (auto simp: validateActiveElement_def bindO_Ok_iff index_Ok_iff isRefSubtypeOf_iff [OF assms(1)])
qed

lemma accepted_data:
  "validateMemory m mem gs = Ok () \<Longrightarrow> s \<in> set (DataSection m) \<Longrightarrow> ds_Passive s \<or> mem \<noteq> None"
  by (auto simp: validateMemory_def bindO_Ok_iff list_ex_iff)

lemma accepted_data_count:
  "validateDataCountSection m = Ok () \<Longrightarrow> DataCountSection m = Some n \<Longrightarrow> unat n = length (DataSection m)"
  by (simp add: validateDataCountSection_def)

section \<open>Properties\<close>

text \<open>
  C9 (an accepted module refers to what it declares). If \<^verbatim>\<open>Validate\<close> accepts a module with well-formed types, every export
  names a function, global, memory, table or tag that exists, the start function takes and returns nothing, imported
  functions and tags have types that exist, no tag has results, every active element segment names a table whose type
  its own is a subtype of, there is a memory for every active data segment, and the data count is the number of segments.
\<close>

theorem Validate_references:
  assumes "wf_types m" "Validate features hasCode m = Ok m'"
  shows "\<exists>d. AllDeclarations m' = Ok d \<and>
    (\<forall>x \<in> set (ExportSection m').
       case exp_Type x of
         ExternTypeFunc \<Rightarrow> unat (exp_Index x) < length (decl_functions d)
       | ExternTypeGlobal \<Rightarrow> unat (exp_Index x) < length (decl_globals d)
       | ExternTypeMemory \<Rightarrow> exp_Index x = 0 \<and> decl_memory d \<noteq> None
       | ExternTypeTable \<Rightarrow> unat (exp_Index x) < length (decl_tables d)
       | ExternTypeTag \<Rightarrow> unat (exp_Index x) < length (decl_tags d)) \<and>
    (\<forall>i. StartSection m' = Some i \<longrightarrow>
       (\<exists>ft. typeOfFunction m' i = Ok (Some ft) \<and> ft_Params ft = [] \<and> ft_Results ft = [])) \<and>
    (\<forall>i \<in> set (ImportSection m'). imp_Type i = ExternTypeFunc \<longrightarrow> inRange m' (imp_DescFunc i)) \<and>
    (\<forall>t \<in> set (decl_tags d). inRange m' t \<and> ft_Results (typeAt m' t) = []) \<and>
    (\<forall>e \<in> set (ElementSection m'). ElementSegment_IsActive e \<longrightarrow> unat (es_TableIndex e) < length (decl_tables d) \<and>
       ref_subtype m' (es_Type e) (tab_Type (decl_tables d ! unat (es_TableIndex e)))) \<and>
    (\<forall>s \<in> set (DataSection m'). ds_Passive s \<or> decl_memory d \<noteq> None) \<and>
    (\<forall>n. DataCountSection m' = Some n \<longrightarrow> unat n = length (DataSection m'))"
proof -
  from assms(2) obtain d where v: "m' = cached m" "validateStartSection m' = Ok ()" "AllDeclarations m' = Ok d"
    "validateImports features m' = Ok ()" "validateMemory m' (decl_memory d) (decl_globals d) = Ok ()"
    "validateExports features m' d = Ok ()" "validateTagSection m' = Ok ()"
    "validateTable features m' (decl_tables d) MaximumTableIndex = Ok ()" "validateDataCountSection m' = Ok ()"
    by (rule Validate_OkE)
  have wf: "wf_types m'" using wf_types_cached [OF assms(1)] v(1) by simp
  show ?thesis
    by (rule exI [of _ d])
      (intro conjI ballI allI impI v(3) accepted_export [OF v(6)] accepted_start [OF v(2)] Validate_inRange(1) [OF v(4,7)]
        accepted_tag [OF v(3,4,7), THEN conjunct1] accepted_tag [OF v(3,4,7), THEN conjunct2]
        accepted_element [OF wf v(8), THEN conjunct1] accepted_element [OF wf v(8), THEN conjunct2]
        accepted_data [OF v(5)] accepted_data_count [OF v(9)])
qed

text \<open>A module with one function, exported and started.\<close>

definition startedModule :: Module where
  "startedModule = (sampleModule [] [OpcodeEnd])\<lparr>
     TypeSection := [\<lparr>ft_Params = [], ft_Results = [], ft_ParamNumInUint64 = 0, ft_ResultNumInUint64 = 0,
        ft_RecGroupSize = 1, ft_RecGroupPosition = 0, ft_string = []\<rparr>],
     ExportSection := [\<lparr>exp_Type = ExternTypeFunc, exp_Name = [], exp_Index = 0\<rparr>], StartSection := Some 0\<rparr>"

theorem Validate_references_witness:
  "\<exists>m' ft. Validate 0 True startedModule = Ok m' \<and> typeOfFunction m' 0 = Ok (Some ft) \<and> ft_Params ft = []"
proof -
  have "case Validate 0 True startedModule of Ok m' \<Rightarrow> StartSection m' = Some 0 | _ \<Rightarrow> False" by code_simp
  then obtain m' where m: "Validate 0 True startedModule = Ok m'" "StartSection m' = Some 0" by (auto split: outcome.splits)
  have "wf_types startedModule" using sole_type_wf [of startedModule] by (simp add: startedModule_def)
  from Validate_references [OF this m(1)] m show ?thesis by blast
qed




lemma ConcreteRef_not_nullable: "\<not> IsNullable (ValueTypeConcreteRef t False)"
proof -
  have "bit (ValueTypeConcreteRef t False AND flagNonNullable) 8"
    by (simp add: ValueTypeConcreteRef_def Let_def bit_simps)
  then have "ValueTypeConcreteRef t False AND flagNonNullable \<noteq> 0" by (metis bit_0_eq bot_apply bot_bool_def)
  then show ?thesis by (simp add: IsNullable_def)
qed

lemma validateConstExpression_mutability:
  assumes "map gt_ValType globals = map gt_ValType globals'"
  shows "validateConstExpression m globals numFuncs expr t = validateConstExpression m globals' numFuncs expr t"
proof -
  have l: "length globals = length globals'" using assms by (metis length_map)
  have "bindO (index globals (unat i)) (\<lambda>g. Ok (gt_ValType g, 0 :: u64, 0 :: u64)) = bindO (index globals' (unat i)) (\<lambda>g. Ok (gt_ValType g, 0, 0))" for i :: u32
    using l arg_cong [OF assms, of "\<lambda>xs. xs ! unat i"] by (auto simp: index_def)
  then show ?thesis unfolding validateConstExpression_def l by (simp only:)
qed




text \<open>
  C39 (null where it is not allowed). \<^verbatim>\<open>validateConstExpression\<close> gives every function reference the non-null type of the last
  function named by \<^verbatim>\<open>ref.func\<close>, and of function 0 when there was none. So in any module whose function 0 has a type, that
  type's non-null reference accepts \<^verbatim>\<open>ref.null func\<close> as its initial value, which evaluates to null, and the value of any
  imported global of the type \<^verbatim>\<open>funcref\<close>.
\<close>

theorem validateConstExpression_accepts_null:
  assumes "typeIndexOfFunction m 0 = Ok (Some t)"
  shows "validateConstExpression m globals numFuncs \<lparr>ce_Data = [OpcodeRefNull, 0x70, OpcodeEnd]\<rparr> (ValueTypeConcreteRef t False) = Ok () \<and>
    evaluateConstExpr \<lparr>ce_Data = [OpcodeRefNull, 0x70, OpcodeEnd]\<rparr> g f = Ok ([0], ValueTypeFuncref) \<and>
    (length globals < 2 ^ 32 \<and> unat i < length globals \<and> gt_ValType (globals ! unat i) = ValueTypeFuncref \<longrightarrow>
       validateConstExpression m globals numFuncs \<lparr>ce_Data = OpcodeGlobalGet # EncodeUint32 i @ [OpcodeEnd]\<rparr> (ValueTypeConcreteRef t False) = Ok ()) \<and>
    \<not> IsNullable (ValueTypeConcreteRef t False)"
proof (intro conjI impI)
  have ev: "evaluateConstExpr \<lparr>ce_Data = [OpcodeRefNull, 0x70, OpcodeEnd]\<rparr> g f = Ok ([0], ValueTypeFuncref)" for g f
    by (simp add: evaluateConstExpr_def evaluateConstExpr_loop.simps constStep_def Kind_def)
  then show "evaluateConstExpr \<lparr>ce_Data = [OpcodeRefNull, 0x70, OpcodeEnd]\<rparr> g f = Ok ([0], ValueTypeFuncref)" .
  have "resolverCalls \<lparr>ce_Data = [OpcodeRefNull, 0x70, OpcodeEnd]\<rparr> g f = []" for g f
    by (simp add: resolverCalls_def resolverCalls_loop.simps callsOf_def constStep_def Kind_def)
  then show "validateConstExpression m globals numFuncs \<lparr>ce_Data = [OpcodeRefNull, 0x70, OpcodeEnd]\<rparr> (ValueTypeConcreteRef t False) = Ok ()"
    using assms ev by (simp add: validateConstExpression_def Let_def isRefSubtypeOf_def require_def)
  show "\<not> IsNullable (ValueTypeConcreteRef t False)" by (rule ConcreteRef_not_nullable)
next
  let ?e = "\<lparr>ce_Data = OpcodeGlobalGet # EncodeUint32 i @ [OpcodeEnd]\<rparr>"
  assume i: "length globals < 2 ^ 32 \<and> unat i < length globals \<and> gt_ValType (globals ! unat i) = ValueTypeFuncref"
  then have lt: "\<not> of_nat (length globals) \<le> i" by (simp add: word_le_nat_alt unsigned_of_nat take_bit_nat_eq_self)
  have ev: "evaluateConstExpr ?e g f = Ok ([0], ValueTypeFuncref)" "resolvedFuncs (resolverCalls ?e g f) = []"
    if "g i = Ok (ValueTypeFuncref, 0, 0)" for g f
    using that
    by (simp_all add: evaluateConstExpr_def evaluateConstExpr_loop.simps resolverCalls_def resolverCalls_loop.simps callsOf_def constStep_def
        u32.dec_enc)
  show "validateConstExpression m globals numFuncs ?e (ValueTypeConcreteRef t False) = Ok ()"
    using assms i lt by (simp add: validateConstExpression_def Let_def isRefSubtypeOf_def require_def ev index_def)
qed

definition nullGlobalModule :: "byte list" where
  "nullGlobalModule = [0x00, 0x61, 0x73, 0x6d, 1, 0, 0, 0,
     1, 4, 1, 0x60, 0, 0,
     3, 2, 1, 0,
     6, 7, 1, 0x64, 0, 0, OpcodeRefNull, 0x70, OpcodeEnd,
     10, 4, 1, 2, 0, OpcodeEnd]"

abbreviation (input) refFeatures :: CoreFeatures where
  "refFeatures \<equiv> CoreFeatureBulkMemoryOperations OR CoreFeatureReferenceTypes OR CoreFeaturesTypedFunctionReferences"

theorem validateConstExpression_accepts_null_witness:
  "\<exists>m m'. DecodeModule nullGlobalModule refFeatures 65536 False False False = Ok m \<and> Validate refFeatures True m = Ok m' \<and>
     map glo_Init (GlobalSection m) = [\<lparr>ce_Data = [OpcodeRefNull, 0x70, OpcodeEnd]\<rparr>] \<and>
     map (\<lambda>g. gt_ValType (glo_Type g)) (GlobalSection m) = [ValueTypeConcreteRef 0 False] \<and>
     validateConstExpression m [] 1 \<lparr>ce_Data = [OpcodeRefNull, 0x70, OpcodeEnd]\<rparr> (ValueTypeConcreteRef 0 False) = Ok () \<and>
     \<not> IsNullable (ValueTypeConcreteRef 0 False)"
proof -
  have "case DecodeModule nullGlobalModule refFeatures 65536 False False False of
      Ok m \<Rightarrow> (case Validate refFeatures True m of Ok _ \<Rightarrow> True | _ \<Rightarrow> False) \<and>
        map glo_Init (GlobalSection m) = [\<lparr>ce_Data = [OpcodeRefNull, 0x70, OpcodeEnd]\<rparr>] \<and>
        map (\<lambda>g. gt_ValType (glo_Type g)) (GlobalSection m) = [ValueTypeConcreteRef 0 False] \<and> typeIndexOfFunction m 0 = Ok (Some 0)
    | _ \<Rightarrow> False"
    by code_simp
  then obtain m m' where m: "DecodeModule nullGlobalModule refFeatures 65536 False False False = Ok m" "Validate refFeatures True m = Ok m'"
    "map glo_Init (GlobalSection m) = [\<lparr>ce_Data = [OpcodeRefNull, 0x70, OpcodeEnd]\<rparr>]"
    "map (\<lambda>g. gt_ValType (glo_Type g)) (GlobalSection m) = [ValueTypeConcreteRef 0 False]" "typeIndexOfFunction m 0 = Ok (Some 0)"
    by (auto split: outcome.splits)
  show ?thesis
    using m(1-4) validateConstExpression_accepts_null [OF m(5), of "[]" 1 "\<lambda>_. Err EOF" "\<lambda>_. Err EOF" 0]
    by (intro exI [of _ m] exI [of _ m']) (elim conjE, intro conjI)
qed

text \<open>
  C40 (data offsets may read a mutable global). A constant expression must not read a mutable global: the resolver of the
  offsets of element segments rejects an imported one. But whether the offsets of the data segments are accepted does not depend on
  which globals are mutable.
\<close>

theorem validateMemory_ignores_mutability:
  assumes "map gt_ValType globals = map gt_ValType globals'"
    and "idx < ImportGlobalCount m" "findImport ExternTypeGlobal idx 0 (ImportSection m) = Some imp" "gt_Mutable (imp_DescGlobal imp)"
  shows "validateMemory m memory globals = validateMemory m memory globals' \<and>
    (\<exists>er. elementOffsetResolver features m globalsCount k idx = Err er)"
proof
  have t: "map gt_ValType (take n globals) = map gt_ValType (take n globals')" for n by (simp add: assms(1) flip: take_map)
  have l: "length globals = length globals'" using assms(1) by (metis length_map)
  show "validateMemory m memory globals = validateMemory m memory globals'"
    unfolding validateMemory_def slice_to_def l by (simp add: validateConstExpression_mutability [OF t] cong: if_cong)
  show "\<exists>er. elementOffsetResolver features m globalsCount k idx = Err er"
    using assms(2-4) by (simp add: elementOffsetResolver_def resolveConstExprGlobalType_def require_def)
qed

definition mutableOffsetModule :: "byte list \<Rightarrow> byte \<Rightarrow> byte list" where
  "mutableOffsetModule target section = [0x00, 0x61, 0x73, 0x6d, 1, 0, 0, 0,
     2, 8, 1, 1, 0x6d, 1, 0x67, 3, 0x7f, 1] @ target @
     [section, 6, 1, 0, OpcodeGlobalGet, 0, OpcodeEnd, 0]"

theorem validateMemory_ignores_mutability_witness:
  "\<exists>m m'. DecodeModule (mutableOffsetModule [SectionIDMemory, 3, 1, 0, 1] SectionIDData) CoreFeatureMutableGlobal 65536 False False False = Ok m \<and>
     Validate CoreFeatureMutableGlobal False m = Ok m' \<and>
     validateMemory m (MemorySection m) [\<lparr>gt_ValType = ValueTypeI32, gt_Mutable = True\<rparr>] =
       validateMemory m (MemorySection m) [\<lparr>gt_ValType = ValueTypeI32, gt_Mutable = False\<rparr>] \<and>
     (\<exists>er. elementOffsetResolver CoreFeatureMutableGlobal m 1 0 0 = Err er)"
proof -
  have "case DecodeModule (mutableOffsetModule [SectionIDMemory, 3, 1, 0, 1] SectionIDData) CoreFeatureMutableGlobal 65536 False False False of
      Ok m \<Rightarrow> (case Validate CoreFeatureMutableGlobal False m of Ok _ \<Rightarrow> True | _ \<Rightarrow> False) \<and> 0 < ImportGlobalCount m \<and>
        (case findImport ExternTypeGlobal 0 0 (ImportSection m) of Some imp \<Rightarrow> gt_Mutable (imp_DescGlobal imp) | None \<Rightarrow> False)
    | _ \<Rightarrow> False"
    by code_simp
  then obtain m m' imp where
    m: "DecodeModule (mutableOffsetModule [SectionIDMemory, 3, 1, 0, 1] SectionIDData) CoreFeatureMutableGlobal 65536 False False False = Ok m"
      "Validate CoreFeatureMutableGlobal False m = Ok m'"
    and i: "0 < ImportGlobalCount m" "findImport ExternTypeGlobal 0 0 (ImportSection m) = Some imp" "gt_Mutable (imp_DescGlobal imp)"
    by (auto split: outcome.splits option.splits)
  from validateMemory_ignores_mutability [OF _ i, of "[\<lparr>gt_ValType = ValueTypeI32, gt_Mutable = True\<rparr>]"
      "[\<lparr>gt_ValType = ValueTypeI32, gt_Mutable = False\<rparr>]" "MemorySection m" CoreFeatureMutableGlobal 1 0] m
  show ?thesis by simp
qed

text \<open>
  The test that a constant expression only reads globals defined before it compares the wrong number with
  \<^verbatim>\<open>SectionIDGlobal\<close>: it does not stop global 0 from reading global 1, and it stops the element segment with the
  index 6 from reading global 6, which the segment with the index 5 may read.
\<close>

definition eightGlobals :: Module where
  "eightGlobals = emptyModule\<lparr>GlobalSection := replicate 8
     \<lparr>glo_Type = \<lparr>gt_ValType = ValueTypeI32, gt_Mutable = False\<rparr>, glo_Init = NewConstantExpressionFromI32 0\<rparr>\<rparr>"

lemma resolveConstExprGlobalType_order:
  "resolveConstExprGlobalType CoreFeaturesExtendedConst eightGlobals SectionIDGlobal 0 1 = Ok ValueTypeI32 \<and>
   resolveConstExprGlobalType CoreFeaturesExtendedConst eightGlobals SectionIDElement 5 6 = Ok ValueTypeI32 \<and>
   resolveConstExprGlobalType CoreFeaturesExtendedConst eightGlobals SectionIDElement 6 6 =
     Err (Errorf ''%s[%d] global %d out of range of initialized globals'')"
  by (simp add: resolveConstExprGlobalType_def eightGlobals_def emptyModule_def IsEnabled_def index_def bit_numeral_rec)

end
