(* ===== verification/ModuleLifetime.thy ===== *)
theory ModuleLifetime
  imports Prelude "HOL-Library.AList"
begin

text \<open>
  \<^verbatim>\<open>internal/wasm/execution.go\<close>, first part: which closed modules may give back their memory. An instance keeps the
  instances it imports alive, and instances that share a table keep each other alive, so that the graph of imports may have
  cycles. Instances are named by their address in a list of records; all of this runs under one lock.
\<close>

section \<open>Instances and imports\<close>

text \<open>
  \<open>mi_Closed\<close> is \<^verbatim>\<open>Closed != 0\<close>. \<open>mi_allocated\<close> is the condition under which \<^verbatim>\<open>retireMemory\<close> collects a memory: the
  instance owns one and its \<^verbatim>\<open>expBuffer\<close> is not nil. \<open>mi_importers\<close> is a map of counters, nil (\<open>None\<close>) until the first
  import; the order in which the source ranges over it is unspecified.
\<close>

record lifetime =
  mi_Closed :: bool
  mi_importedModules :: "nat list"
  mi_importers :: "(nat \<times> u32) list option"
  mi_memoryClosed :: bool
  mi_memoryReleased :: bool
  mi_allocated :: bool

type_synonym heap = "lifetime list"

definition newInstance :: lifetime where
  "newInstance = \<lparr>mi_Closed = False, mi_importedModules = [], mi_importers = None, mi_memoryClosed = False,
     mi_memoryReleased = False, mi_allocated = False\<rparr>"

definition update_at :: "heap \<Rightarrow> nat \<Rightarrow> (lifetime \<Rightarrow> lifetime) \<Rightarrow> heap outcome" where
  "update_at h a f = bindO (index h a) (\<lambda>i. Ok (h[a := f i]))"

definition importersOf :: "lifetime \<Rightarrow> (nat \<times> u32) list" where
  "importersOf i = (case mi_importers i of None \<Rightarrow> [] | Some xs \<Rightarrow> xs)"

definition counter :: "(nat \<times> u32) list \<Rightarrow> nat \<Rightarrow> u32" where
  "counter xs m = (case map_of xs m of Some n \<Rightarrow> n | None \<Rightarrow> 0)"

definition retainImport :: "heap \<Rightarrow> nat \<Rightarrow> nat \<Rightarrow> (bool \<times> heap) outcome" where
  "retainImport h m imported =
     bindO (index h imported) (\<lambda>i.
     if mi_Closed i \<or> mi_memoryClosed i then Ok (False, h)
     else
       let xs = importersOf i in
       bindO (update_at h imported (\<lambda>i. i\<lparr>mi_importers := Some (AList.update m (counter xs m + 1) xs)\<rparr>)) (\<lambda>h.
       bindO (update_at h m (\<lambda>i. i\<lparr>mi_importedModules := mi_importedModules i @ [imported]\<rparr>)) (\<lambda>h.
       Ok (True, h))))"

section \<open>Modules that nothing refers to any more\<close>

text \<open>
  The loop over the importers of one module: \<open>None\<close> when one of them is live, otherwise the modules seen so far in the
  order in which they were found, which is also the map \<^verbatim>\<open>seen\<close>.
\<close>

fun addImporters :: "heap \<Rightarrow> nat list \<Rightarrow> nat list \<Rightarrow> nat list option outcome" where
  "addImporters h [] modules = Ok (Some modules)"
| "addImporters h (importer # rest) modules =
     bindO (index h importer) (\<lambda>i.
     if \<not> mi_memoryClosed i then Ok None
     else if importer \<in> set modules then addImporters h rest modules
     else addImporters h rest (modules @ [importer]))"

lemma addImporters_step:
  "addImporters h (a # imps) ms = Ok (Some ms') \<longleftrightarrow> a < length h \<and> mi_memoryClosed (h ! a) \<and>
     addImporters h imps (if a \<in> set ms then ms else ms @ [a]) = Ok (Some ms')"
  by (auto simp: index_def)

lemma addImporters_all:
  "addImporters h imps ms = Ok (Some ms') \<Longrightarrow> (\<exists>new. ms' = ms @ new) \<and> set ms' = set ms \<union> set imps \<and>
     (distinct ms \<longrightarrow> distinct ms') \<and> (\<forall>a \<in> set imps. a < length h \<and> mi_memoryClosed (h ! a))"
proof (induction imps arbitrary: ms)
  case (Cons a imps)
  then have *: "a < length h" "mi_memoryClosed (h ! a)"
    "addImporters h imps (if a \<in> set ms then ms else ms @ [a]) = Ok (Some ms')"
    by (simp_all only: addImporters_step)
  then show ?case using Cons.IH [OF *(3)] by (cases "a \<in> set ms") auto
qed simp

lemmas addImporters_Ok = addImporters_all [THEN conjunct1] addImporters_all [THEN conjunct2, THEN conjunct1]
  addImporters_all [THEN conjunct2, THEN conjunct2, THEN conjunct1, rule_format]
  addImporters_all [THEN conjunct2, THEN conjunct2, THEN conjunct2]

lemma addImporters_seen: "set imps \<subseteq> set ms \<Longrightarrow> addImporters h imps ms = Ok (Some ms') \<Longrightarrow> ms' = ms"
  by (induction imps) (simp_all only: addImporters_step, simp_all)

lemma unvisited_decreases:
  assumes "addImporters h imps ms = Ok (Some ms')" "length ms < length ms'"
  shows "card ({..<length h} - set ms') < card ({..<length h} - set ms)"
proof -
  obtain new where new: "ms' = ms @ new" using addImporters_Ok(1) [OF assms(1)] by blast
  have sub: "set ms' = set ms \<union> set imps" "\<forall>a \<in> set imps. a < length h" using addImporters_Ok(2,4) [OF assms(1)] by auto
  have "\<not> set imps \<subseteq> set ms" using addImporters_seen [OF _ assms(1)] assms(2) by auto
  then obtain a where "a \<in> set imps" "a \<notin> set ms" by blast
  with sub have "a \<in> {..<length h} - set ms" "a \<notin> {..<length h} - set ms'" by auto
  then show ?thesis using sub by (intro psubset_card_mono) auto
qed

function collectImporters :: "heap \<Rightarrow> nat list \<Rightarrow> nat \<Rightarrow> nat list option outcome" where
  "collectImporters h modules i =
     (if i < length modules then
        bindO (index h (modules ! i)) (\<lambda>m.
        bindO (addImporters h (map fst (importersOf m)) modules) (\<lambda>r.
          case r of None \<Rightarrow> Ok None | Some modules \<Rightarrow> collectImporters h modules (i + 1)))
      else Ok (Some modules))"
  by pat_completeness auto

termination
proof (relation "inv_image (less_than <*lex*> less_than) (\<lambda>(h, ms, i). (card ({..<length h} - set ms), length ms - i))")
  fix h ms i m r ms'
  assume i: "i < length ms" and "addImporters h (map fst (importersOf m)) ms = Ok r" "r = Some ms'"
  then have add: "addImporters h (map fst (importersOf m)) ms = Ok (Some ms')" by simp
  then obtain new where new: "ms' = ms @ new" using addImporters_Ok(1) by blast
  show "((h, ms', i + 1), h, ms, i) \<in>
      inv_image (less_than <*lex*> less_than) (\<lambda>(h, ms, i). (card ({..<length h} - set ms), length ms - i))"
    using unvisited_decreases [OF add] new i by (cases new) auto
qed auto

declare collectImporters.simps [simp del]

definition unreferencedClosedModules :: "heap \<Rightarrow> nat \<Rightarrow> nat list option outcome" where
  "unreferencedClosedModules h m =
     bindO (index h m) (\<lambda>i. if importersOf i = [] then Ok (Some [m]) else collectImporters h [m] 0)"

section \<open>Giving back memory\<close>

text \<open>\<^verbatim>\<open>imported.importers[closed]--\<close>, and the deletion of a counter that has become zero.\<close>

definition dropImporter :: "heap \<Rightarrow> nat \<Rightarrow> nat \<Rightarrow> heap outcome" where
  "dropImporter h closed imported =
     bindO (index h imported) (\<lambda>i.
     case mi_importers i of
       None \<Rightarrow> Panic ''assignment to entry in nil map''
     | Some xs \<Rightarrow>
         let n = counter xs closed - 1 in
         update_at h imported (\<lambda>i. i\<lparr>mi_importers := Some (if n = 0 then AList.delete closed xs else AList.update closed n xs)\<rparr>))"

definition markReleased :: "nat list \<Rightarrow> heap \<Rightarrow> heap outcome" where
  "markReleased modules h = foldO (\<lambda>a h. update_at h a (\<lambda>i. i\<lparr>mi_memoryReleased := True\<rparr>)) modules h"

text \<open>One round of the second loop: the state is the heap, the work list and the instances whose memory is retired.\<close>

definition releaseModule :: "nat \<Rightarrow> heap \<times> nat list \<times> nat list \<Rightarrow> (heap \<times> nat list \<times> nat list) outcome" where
  "releaseModule closed = (\<lambda>(h, ready, retired).
     bindO (index h closed) (\<lambda>i.
     bindO (foldO (\<lambda>imported h. dropImporter h closed imported) (mi_importedModules i) h) (\<lambda>h.
     bindO (update_at h closed (\<lambda>i. i\<lparr>mi_importedModules := []\<rparr>)) (\<lambda>h.
     Ok (h, ready @ mi_importedModules i, if mi_allocated i then retired @ [closed] else retired)))))"

definition unreleased :: "heap \<Rightarrow> nat" where
  "unreleased h = length (filter (\<lambda>i. \<not> mi_memoryReleased i) h)"

lemma update_at_Ok_iff: "update_at h a f = Ok h' \<longleftrightarrow> a < length h \<and> h' = h[a := f (h ! a)]"
  by (auto simp: update_at_def bindO_Ok_iff index_Ok_iff)

lemma holds_update_at [wp]: "holds P (update_at h a f) = (a < length h \<and> P (h[a := f (h ! a)]))"
  by (simp add: update_at_def wp)

text \<open>What the updates of the import lists leave alone.\<close>

definition flags :: "lifetime \<Rightarrow> bool \<times> bool \<times> bool \<times> bool" where
  "flags i = (mi_Closed i, mi_memoryClosed i, mi_memoryReleased i, mi_allocated i)"

lemma flags_simps [simp]:
  "flags (i\<lparr>mi_importers := x\<rparr>) = flags i" "flags (i\<lparr>mi_importedModules := y\<rparr>) = flags i"
  by (simp_all add: flags_def)

lemma map_update_same: "a < length h \<Longrightarrow> g (f (h ! a)) = g (h ! a) \<Longrightarrow> map g (h[a := f (h ! a)]) = map g h"
  by (simp add: list_update_id map_update) (metis length_map list_update_id nth_map)

lemma unreleased_flags: "map flags h' = map flags h \<Longrightarrow> unreleased h' = unreleased h"
proof -
  have "unreleased h = length (filter (\<lambda>(_, _, r, _). \<not> r) (map flags h))" for h
    by (simp add: unreleased_def filter_map comp_def flags_def)
  then show "map flags h' = map flags h \<Longrightarrow> unreleased h' = unreleased h" by metis
qed

lemma flags_nth: "map flags h' = map flags h \<Longrightarrow> length h' = length h \<and> (\<forall>a < length h. flags (h' ! a) = flags (h ! a))"
  by (metis length_map nth_map)

lemma dropImporter_flags: "dropImporter h c b = Ok h' \<Longrightarrow> map flags h' = map flags h"
  by (auto simp: dropImporter_def bindO_Ok_iff update_at_Ok_iff map_update_same Let_def split: option.splits)

lemma dropImporters_flags: "foldO (\<lambda>imported h. dropImporter h c imported) bs h = Ok h' \<Longrightarrow> map flags h' = map flags h"
  by (induction bs arbitrary: h) (auto simp: bindO_Ok_iff dest!: dropImporter_flags)

lemma releaseModule_flags: "releaseModule c (h, r, x) = Ok (h', r', x') \<Longrightarrow> map flags h' = map flags h"
  by (auto simp: releaseModule_def bindO_Ok_iff update_at_Ok_iff map_update_same dest!: dropImporters_flags)

lemma releaseModules_flags: "foldO releaseModule cs (h, r, x) = Ok (h', r', x') \<Longrightarrow> map flags h' = map flags h"
proof (induction cs arbitrary: h r x)
  case (Cons c cs)
  then obtain h1 r1 x1 where "releaseModule c (h, r, x) = Ok (h1, r1, x1)" "foldO releaseModule cs (h1, r1, x1) = Ok (h', r', x')"
    by (auto simp: bindO_Ok_iff)
  with Cons.IH releaseModule_flags show ?case by metis
qed simp

lemma markReleased_Ok:
  "markReleased ms h = Ok h' \<Longrightarrow> length h' = length h \<and> (\<forall>a \<in> set ms. a < length h) \<and>
     (\<forall>a < length h. h' ! a = (if a \<in> set ms then (h ! a)\<lparr>mi_memoryReleased := True\<rparr> else h ! a))"
proof (induction ms arbitrary: h)
  case (Cons m ms)
  then have m: "m < length h" "markReleased ms (h[m := (h ! m)\<lparr>mi_memoryReleased := True\<rparr>]) = Ok h'"
    by (auto simp: markReleased_def bindO_Ok_iff update_at_Ok_iff)
  from Cons.IH [OF m(2)] m(1) show ?case by (auto simp: nth_list_update)
qed (simp add: markReleased_def)

lemma unreleased_card: "unreleased h = card {a. a < length h \<and> \<not> mi_memoryReleased (h ! a)}"
  by (simp add: unreleased_def length_filter_conv_card)

lemma markReleased_decreases:
  assumes "markReleased ms h = Ok h'" "a \<in> set ms" "\<not> mi_memoryReleased (h ! a)"
  shows "unreleased h' < unreleased h"
proof -
  note ok = markReleased_Ok [OF assms(1)]
  have "{b. b < length h' \<and> \<not> mi_memoryReleased (h' ! b)} \<subset> {b. b < length h \<and> \<not> mi_memoryReleased (h ! b)}"
  proof
    show "{b. b < length h' \<and> \<not> mi_memoryReleased (h' ! b)} \<subseteq> {b. b < length h \<and> \<not> mi_memoryReleased (h ! b)}"
      using ok by (auto split: if_splits)
    have "a < length h" "mi_memoryReleased (h' ! a)" using ok assms(2) by auto
    then show "{b. b < length h' \<and> \<not> mi_memoryReleased (h' ! b)} \<noteq> {b. b < length h \<and> \<not> mi_memoryReleased (h ! b)}"
      using assms(3) by blast
  qed
  then show ?thesis unfolding unreleased_card by (rule psubset_card_mono [rotated]) simp
qed

lemma collectImporters_Some:
  "collectImporters h ms i = Ok (Some ms') \<longleftrightarrow>
     (if i < length ms then ms ! i < length h \<and>
        (\<exists>ms1. addImporters h (map fst (importersOf (h ! (ms ! i)))) ms = Ok (Some ms1) \<and> collectImporters h ms1 (i + 1) = Ok (Some ms'))
      else ms' = ms)"
  by (subst collectImporters.simps) (auto simp: bindO_Ok_iff index_Ok_iff split: option.splits)

text \<open>The list that comes back contains the list it started from, is closed, and contains the importers of its members.\<close>

definition closed_under_importers :: "heap \<Rightarrow> nat list \<Rightarrow> bool" where
  "closed_under_importers h ms \<longleftrightarrow>
     distinct ms \<and> (\<forall>a \<in> set ms. a < length h \<and> mi_memoryClosed (h ! a) \<and> set (map fst (importersOf (h ! a))) \<subseteq> set ms)"

lemma collectImporters_closure:
  "collectImporters h ms i = Ok (Some ms') \<Longrightarrow> i \<le> length ms \<Longrightarrow> distinct ms \<Longrightarrow>
     \<forall>a \<in> set ms. a < length h \<and> mi_memoryClosed (h ! a) \<Longrightarrow>
     \<forall>j < i. set (map fst (importersOf (h ! (ms ! j)))) \<subseteq> set ms \<Longrightarrow>
     set ms \<subseteq> set ms' \<and> closed_under_importers h ms'"
proof (induction h ms i rule: collectImporters.induct)
  case (1 h ms i)
  show ?case
  proof (cases "i < length ms")
    case True
    with "1.prems"(1) obtain ms1 where i: "ms ! i < length h"
      and add: "addImporters h (map fst (importersOf (h ! (ms ! i)))) ms = Ok (Some ms1)"
      and rest: "collectImporters h ms1 (i + 1) = Ok (Some ms')"
      by (auto simp: collectImporters_Some [of h ms i])
    obtain new where new: "ms1 = ms @ new" using addImporters_Ok(1) [OF add] by blast
    have 1: "distinct ms1" using addImporters_Ok(3) [OF add "1.prems"(3)] .
    have 2: "\<forall>a \<in> set ms1. a < length h \<and> mi_memoryClosed (h ! a)"
      using addImporters_Ok(2,4) [OF add] "1.prems"(4) by auto
    have 3: "set (map fst (importersOf (h ! (ms1 ! j)))) \<subseteq> set ms1" if "j < i + 1" for j
    proof (cases "j = i")
      case True
      then show ?thesis using addImporters_Ok(2) [OF add] new \<open>i < length ms\<close> by (simp add: nth_append)
    next
      case False
      then have "j < i" using that by simp
      then have "set (map fst (importersOf (h ! (ms ! j)))) \<subseteq> set ms" "ms1 ! j = ms ! j"
        using "1.prems"(5) new \<open>i < length ms\<close> by (simp_all add: nth_append)
      then show ?thesis using new by auto
    qed
    have "set ms1 \<subseteq> set ms' \<and> closed_under_importers h ms'"
      using "1.IH" [OF True _ add refl rest] i 1 2 3 new True by (simp add: index_def)
    then show ?thesis using new by auto
  next
    case False
    then have "ms' = ms" using "1.prems"(1) by (simp only: collectImporters_Some [of h ms i] if_False)
    have "i = length ms" using False "1.prems"(2) by simp
    have "set (map fst (importersOf (h ! a))) \<subseteq> set ms" if a: "a \<in> set ms" for a
    proof -
      obtain j where "j < length ms" "a = ms ! j" using a by (auto simp: in_set_conv_nth)
      then show ?thesis using "1.prems"(5) \<open>i = length ms\<close> by blast
    qed
    then show ?thesis using "1.prems"(3,4) \<open>ms' = ms\<close> by (simp add: closed_under_importers_def)
  qed
qed

lemma unreferencedClosedModules_closure:
  assumes "unreferencedClosedModules h m = Ok (Some ms)" "m < length h" "mi_memoryClosed (h ! m)"
  shows "m \<in> set ms" "closed_under_importers h ms"
  using assms collectImporters_closure [of h "[m]" 0 ms]
  by (auto simp: unreferencedClosedModules_def bindO_Ok_iff index_Ok_iff closed_under_importers_def split: if_splits)

function retireLoop :: "heap \<Rightarrow> nat list \<Rightarrow> nat list \<Rightarrow> (heap \<times> nat list) outcome" where
  "retireLoop h ready retired =
     (if ready = [] then Ok (h, retired)
      else
        let module = last ready; ready = butlast ready in
        bindO (index h module) (\<lambda>i.
        if \<not> mi_memoryClosed i \<or> mi_memoryReleased i then retireLoop h ready retired
        else
          bindO (unreferencedClosedModules h module) (\<lambda>r.
          case r of
            None \<Rightarrow> retireLoop h ready retired
          | Some modules \<Rightarrow>
              bindO (markReleased modules h) (\<lambda>h.
              bindO (foldO releaseModule modules (h, ready, retired)) (\<lambda>(h, ready, retired).
              retireLoop h ready retired)))))"
  by pat_completeness auto

termination
proof (relation "inv_image (less_than <*lex*> less_than) (\<lambda>(h, ready, retired). (unreleased h, length ready))")
  fix h ready retired module ready' i r modules h1 x h2 y ready2 retired2
  assume "module = last ready" "index h module = Ok i" "\<not> (\<not> mi_memoryClosed i \<or> mi_memoryReleased i)"
    "unreferencedClosedModules h module = Ok r" "r = Some modules" "markReleased modules h = Ok h1"
    "foldO releaseModule modules (h1, ready', retired) = Ok x" "(h2, y) = x" "(ready2, retired2) = y"
  then have i: "module < length h" "mi_memoryClosed (h ! module)" "\<not> mi_memoryReleased (h ! module)"
    and c: "unreferencedClosedModules h module = Ok (Some modules)" and m: "markReleased modules h = Ok h1"
    and r: "foldO releaseModule modules (h1, ready', retired) = Ok (h2, ready2, retired2)"
    by (simp_all add: index_Ok_iff)
  have "unreleased h1 < unreleased h"
    using markReleased_decreases [OF m unreferencedClosedModules_closure(1) [OF c i(1,2)] i(3)] .
  moreover have "unreleased h2 = unreleased h1" using unreleased_flags [OF releaseModules_flags [OF r]] .
  ultimately show "((h2, ready2, retired2), h, ready, retired) \<in>
      inv_image (less_than <*lex*> less_than) (\<lambda>(h, ready, retired). (unreleased h, length ready))"
    by simp
qed (simp_all add: wf_inv_image wf_lex_prod)

declare retireLoop.simps [simp del]

definition releaseMemory :: "heap \<Rightarrow> nat \<Rightarrow> (heap \<times> nat list) outcome" where
  "releaseMemory h m =
     bindO (index h m) (\<lambda>i.
     if mi_memoryClosed i then Ok (h, [])
     else bindO (update_at h m (\<lambda>i. i\<lparr>mi_memoryClosed := True\<rparr>)) (\<lambda>h. retireLoop h [m] []))"

section \<open>The invariant\<close>

text \<open>
  The links ever made are a relation \<open>L\<close>, which the program does not keep. An instance is unused when all its direct and
  indirect users are closed, itself included.
\<close>

definition linked :: "heap \<Rightarrow> (nat \<times> nat) set" where
  "linked h = {(a, b). b < length h \<and> a \<in> fst ` set (importersOf (h ! b))}"

definition unused :: "(nat \<times> nat) set \<Rightarrow> heap \<Rightarrow> nat set" where
  "unused L h = {x. x < length h \<and> (\<forall>u. (u, x) \<in> L\<^sup>* \<longrightarrow> mi_memoryClosed (h ! u))}"

definition released :: "heap \<Rightarrow> nat set" where
  "released h = {x. x < length h \<and> mi_memoryReleased (h ! x)}"

definition links_ok :: "(nat \<times> nat) set \<Rightarrow> heap \<Rightarrow> bool" where
  "links_ok L h \<longleftrightarrow>
     L \<subseteq> {..<length h} \<times> {..<length h} \<and> linked h \<subseteq> L \<and>
     (\<forall>a b. (a, b) \<in> L \<longrightarrow> a \<notin> released h \<longrightarrow> (a, b) \<in> linked h \<and> b \<in> set (mi_importedModules (h ! a))) \<and>
     (\<forall>a < length h. \<forall>b \<in> set (mi_importedModules (h ! a)). (a, b) \<in> L \<and> mi_importers (h ! b) \<noteq> None) \<and>
     released h \<subseteq> unused L h"

lemma links_okI:
  assumes "L \<subseteq> {..<length h} \<times> {..<length h}" "linked h \<subseteq> L"
    "\<And>a b. (a, b) \<in> L \<Longrightarrow> a \<notin> released h \<Longrightarrow> (a, b) \<in> linked h \<and> b \<in> set (mi_importedModules (h ! a))"
    "\<And>a b. a < length h \<Longrightarrow> b \<in> set (mi_importedModules (h ! a)) \<Longrightarrow> (a, b) \<in> L \<and> mi_importers (h ! b) \<noteq> None"
    "released h \<subseteq> unused L h"
  shows "links_ok L h"
  unfolding links_ok_def using assms by simp

lemma links_okD:
  assumes "links_ok L h"
  shows "L \<subseteq> {..<length h} \<times> {..<length h}" "linked h \<subseteq> L"
    "(a, b) \<in> L \<Longrightarrow> a \<notin> released h \<Longrightarrow> (a, b) \<in> linked h"
    "(a, b) \<in> L \<Longrightarrow> a \<notin> released h \<Longrightarrow> b \<in> set (mi_importedModules (h ! a))"
    "a < length h \<Longrightarrow> b \<in> set (mi_importedModules (h ! a)) \<Longrightarrow> (a, b) \<in> L"
    "a < length h \<Longrightarrow> b \<in> set (mi_importedModules (h ! a)) \<Longrightarrow> mi_importers (h ! b) \<noteq> None"
    "released h \<subseteq> unused L h"
    "(a, b) \<in> L \<Longrightarrow> a < length h" "(a, b) \<in> L \<Longrightarrow> b < length h"
proof -
  have *: "L \<subseteq> {..<length h} \<times> {..<length h}" "linked h \<subseteq> L" "released h \<subseteq> unused L h"
    "\<forall>a b. (a, b) \<in> L \<longrightarrow> a \<notin> released h \<longrightarrow> (a, b) \<in> linked h \<and> b \<in> set (mi_importedModules (h ! a))"
    "\<forall>a < length h. \<forall>b \<in> set (mi_importedModules (h ! a)). (a, b) \<in> L \<and> mi_importers (h ! b) \<noteq> None"
    using assms unfolding links_ok_def by - (elim conjE, assumption)+
  show "L \<subseteq> {..<length h} \<times> {..<length h}" "linked h \<subseteq> L" "released h \<subseteq> unused L h" by (rule *)+
  show "(a, b) \<in> L \<Longrightarrow> a < length h" "(a, b) \<in> L \<Longrightarrow> b < length h" using *(1) by auto
  show "(a, b) \<in> L \<Longrightarrow> a \<notin> released h \<Longrightarrow> (a, b) \<in> linked h"
    "(a, b) \<in> L \<Longrightarrow> a \<notin> released h \<Longrightarrow> b \<in> set (mi_importedModules (h ! a))"
    using *(4) by blast+
  show "a < length h \<Longrightarrow> b \<in> set (mi_importedModules (h ! a)) \<Longrightarrow> (a, b) \<in> L"
    "a < length h \<Longrightarrow> b \<in> set (mi_importedModules (h ! a)) \<Longrightarrow> mi_importers (h ! b) \<noteq> None"
    using *(5) by blast+
qed

text \<open>An instance's view of everything but the counters.\<close>

definition frame :: "lifetime \<Rightarrow> (bool \<times> bool \<times> bool \<times> bool) \<times> nat list \<times> bool" where
  "frame i = (flags i, mi_importedModules i, mi_importers i = None)"

lemma frame_nth: "map frame h' = map frame h \<Longrightarrow> length h' = length h \<and> (\<forall>a < length h. frame (h' ! a) = frame (h ! a))"
  by (metis length_map nth_map)

lemma unused_flags: "map flags h' = map flags h \<Longrightarrow> L \<subseteq> {..<length h} \<times> {..<length h} \<Longrightarrow> unused L h' = unused L h"
proof -
  assume f: "map flags h' = map flags h" and L: "L \<subseteq> {..<length h} \<times> {..<length h}"
  have "mi_memoryClosed (h' ! u) = mi_memoryClosed (h ! u)" if "(u, x) \<in> L\<^sup>*" "x < length h" for u x
  proof -
    from that L have "u < length h" by (induction rule: converse_rtrancl_induct) auto
    with flags_nth [OF f] show ?thesis by (simp add: flags_def)
  qed
  then show ?thesis using flags_nth [OF f] by (auto simp: unused_def)
qed

lemma released_flags: "map flags h' = map flags h \<Longrightarrow> released h' = released h"
  by (auto dest!: flags_nth simp: released_def flags_def)

lemma frame_flags: "map frame h' = map frame h \<Longrightarrow> map flags h' = map flags h"
proof -
  have "map flags h = map fst (map frame h)" for h by (simp add: frame_def)
  then show "map frame h' = map frame h \<Longrightarrow> map flags h' = map flags h" by metis
qed

lemma links_ok_frame:
  assumes ok: "links_ok L h" and f: "map frame h' = map frame h"
    and more: "linked h' \<subseteq> L" and less: "\<And>a b. (a, b) \<in> linked h \<Longrightarrow> a \<notin> released h \<Longrightarrow> (a, b) \<in> linked h'"
  shows "links_ok L h'"
proof (rule links_okI)
  have len: "length h' = length h" using frame_nth [OF f] by simp
  have imps: "mi_importedModules (h' ! a) = mi_importedModules (h ! a)"
    and "mi_importers (h' ! a) = None \<longleftrightarrow> mi_importers (h ! a) = None" if "a < length h" for a
    using that frame_nth [OF f] by (simp_all add: frame_def)
  note rel = released_flags [OF frame_flags [OF f]]
  show "L \<subseteq> {..<length h'} \<times> {..<length h'}" using links_okD(1) [OF ok] len by simp
  show "linked h' \<subseteq> L" by (rule more)
  show "released h' \<subseteq> unused L h'"
    using links_okD(7) [OF ok] rel unused_flags [OF frame_flags [OF f] links_okD(1) [OF ok]] by simp
  show "(a, b) \<in> linked h' \<and> b \<in> set (mi_importedModules (h' ! a))" if "(a, b) \<in> L" "a \<notin> released h'" for a b
    using that links_okD(3,4,8) [OF ok that(1)] less rel imps by simp
  show "(a, b) \<in> L \<and> mi_importers (h' ! b) \<noteq> None" if "a < length h'" "b \<in> set (mi_importedModules (h' ! a))" for a b
    using that links_okD(5,6,9) [OF ok, of a b] imps len \<open>\<And>a. a < length h \<Longrightarrow> (mi_importers (h' ! a) = None) = (mi_importers (h ! a) = None)\<close>
    by simp
qed

section \<open>Each operation keeps it\<close>

lemma linked_update:
  "b < length h \<Longrightarrow> linked (h[b := i]) = {(a, c) \<in> linked h. c \<noteq> b} \<union> {(a, c). c = b \<and> a \<in> fst ` set (importersOf i)}"
  by (auto simp: linked_def nth_list_update split: if_splits)

lemma holds_dropImporter:
  assumes ok: "links_ok L h" and c: "c \<in> released h" and cb: "(c, b) \<in> L" and b: "mi_importers (h ! b) \<noteq> None"
  shows "holds (\<lambda>h'. links_ok L h' \<and> map frame h' = map frame h) (dropImporter h c b)"
proof -
  obtain xs where xs: "mi_importers (h ! b) = Some xs" using b by auto
  let ?n = "counter xs c - 1"
  let ?i = "(h ! b)\<lparr>mi_importers := Some (if ?n = 0 then AList.delete c xs else AList.update c ?n xs)\<rparr>"
  have len: "b < length h" using links_okD(9) [OF ok cb] .
  define K where "K = fst ` set (importersOf ?i)"
  have K: "K - {c} = fst ` set (importersOf (h ! b)) - {c}"
    by (auto simp: K_def importersOf_def xs update_keys delete_keys simp flip: set_map)
  have f: "map frame (h[b := ?i]) = map frame h"
    using len xs by (intro map_update_same) (simp_all add: frame_def)
  have "links_ok L (h[b := ?i])"
  proof (rule links_ok_frame [OF ok f])
    note new = linked_update [OF len, of ?i, folded K_def]
    have "(a, b) \<in> L" if "a \<in> K" for a
      using that K links_okD(2) [OF ok] cb len by (cases "a = c") (auto simp: linked_def)
    then show "linked (h[b := ?i]) \<subseteq> L" using links_okD(2) [OF ok] unfolding new by fast
    show "(a, d) \<in> linked (h[b := ?i])" if "(a, d) \<in> linked h" "a \<notin> released h" for a d
    proof (cases "d = b")
      case True
      then have "a \<in> K" using that K c by (auto simp: linked_def)
      then show ?thesis unfolding new using True by simp
    next
      case False
      then show ?thesis unfolding new using that by simp
    qed
  qed
  then show ?thesis using f len xs by (simp add: dropImporter_def wp Let_def)
qed

lemma holds_dropImporters:
  assumes ok: "links_ok L h" and c: "c \<in> released h" and bs: "set bs \<subseteq> set (mi_importedModules (h ! c))"
  shows "holds (\<lambda>h'. links_ok L h' \<and> map frame h' = map frame h) (foldO (\<lambda>imported h. dropImporter h c imported) bs h)"
proof (rule holds_foldO)
  fix b h'
  assume b: "b \<in> set bs" and h': "links_ok L h' \<and> map frame h' = map frame h"
  have len: "c < length h'" and imps: "mi_importedModules (h' ! c) = mi_importedModules (h ! c)"
    using c h' frame_nth [of h' h] by (auto simp: released_def frame_def)
  have "c \<in> released h'" using c h' released_flags frame_flags by blast
  moreover have "(c, b) \<in> L" "mi_importers (h' ! b) \<noteq> None"
    using links_okD(5,6) [of L h' c b] h' len imps b bs by auto
  ultimately show "holds (\<lambda>h'. links_ok L h' \<and> map frame h' = map frame h) (dropImporter h' c b)"
    using holds_dropImporter [of L h' c b] h' by simp
qed (use ok in simp)

lemma links_ok_clear_imports:
  assumes ok: "links_ok L h" and c: "c \<in> released h"
  shows "links_ok L (h[c := (h ! c)\<lparr>mi_importedModules := []\<rparr>])"
proof (rule links_okI)
  let ?h = "h[c := (h ! c)\<lparr>mi_importedModules := []\<rparr>]"
  have len: "c < length h" using c by (simp add: released_def)
  have f: "map flags ?h = map flags h" using len by (intro map_update_same) simp_all
  have l: "linked ?h = linked h" using len by (auto simp: linked_def nth_list_update importersOf_def split: if_splits)
  show "L \<subseteq> {..<length ?h} \<times> {..<length ?h}" "linked ?h \<subseteq> L" using links_okD(1,2) [OF ok] l by simp_all
  show "released ?h \<subseteq> unused L ?h"
    using links_okD(1,7) [OF ok] released_flags [OF f] unused_flags [OF f] by simp
  show "(a, b) \<in> linked ?h \<and> b \<in> set (mi_importedModules (?h ! a))" if "(a, b) \<in> L" "a \<notin> released ?h" for a b
    using that links_okD(3,4) [OF ok, of a b] c l released_flags [OF f] by (cases "a = c") simp_all
  show "(a, b) \<in> L \<and> mi_importers (?h ! b) \<noteq> None" if "a < length ?h" "b \<in> set (mi_importedModules (?h ! a))" for a b
    using that links_okD(5,6) [OF ok, of a b] len by (cases "a = c"; cases "b = c") simp_all
qed

lemma holds_releaseModule:
  assumes ok: "links_ok L h" and c: "c \<in> released h"
  shows "holds (\<lambda>(h', ready', retired'). links_ok L h' \<and> map flags h' = map flags h \<and>
      (\<forall>a < length h. a \<noteq> c \<longrightarrow> mi_importedModules (h' ! a) = mi_importedModules (h ! a)) \<and>
      ready' = ready @ mi_importedModules (h ! c) \<and> retired' = retired @ filter (\<lambda>a. mi_allocated (h ! a)) [c])
    (releaseModule c (h, ready, retired))"
proof -
  have len: "c < length h" using c by (simp add: released_def)
  have step: "links_ok L (h'[c := (h' ! c)\<lparr>mi_importedModules := []\<rparr>]) \<and>
      map flags (h'[c := (h' ! c)\<lparr>mi_importedModules := []\<rparr>]) = map flags h \<and> length h' = length h \<and>
      (\<forall>a < length h. mi_importedModules (h' ! a) = mi_importedModules (h ! a))"
    if h': "links_ok L h'" "map frame h' = map frame h" for h'
  proof -
    have l: "length h' = length h" and i: "\<forall>a < length h. mi_importedModules (h' ! a) = mi_importedModules (h ! a)"
      using frame_nth [OF h'(2)] by (simp_all add: frame_def)
    have "c \<in> released h'" using c released_flags [OF frame_flags [OF h'(2)]] by simp
    moreover have "map flags (h'[c := (h' ! c)\<lparr>mi_importedModules := []\<rparr>]) = map flags h'"
      using len l by (intro map_update_same) simp_all
    ultimately show ?thesis using links_ok_clear_imports [OF h'(1)] frame_flags [OF h'(2)] l i by simp
  qed
  show ?thesis unfolding releaseModule_def prod.case holds_bindO holds_index
    by (intro conjI len holds_mono [OF holds_dropImporters [OF ok c subset_refl]]) (use step len in \<open>auto simp: wp\<close>)
qed

lemma holds_releaseModules:
  assumes "links_ok L h" "set cs \<subseteq> released h" "distinct cs"
  shows "holds (\<lambda>(h', ready', retired'). links_ok L h' \<and> map flags h' = map flags h \<and>
      ready' = ready @ concat (map (\<lambda>c. mi_importedModules (h ! c)) cs) \<and>
      retired' = retired @ filter (\<lambda>a. mi_allocated (h ! a)) cs)
    (foldO releaseModule cs (h, ready, retired))"
  using assms
proof (induction cs arbitrary: h ready retired)
  case (Cons c cs)
  have c: "c \<in> released h" "c \<notin> set cs" using Cons.prems by simp_all
  have rest: "holds (\<lambda>(h', ready', retired'). links_ok L h' \<and> map flags h' = map flags h \<and>
      ready' = ready @ concat (map (\<lambda>c. mi_importedModules (h ! c)) (c # cs)) \<and>
      retired' = retired @ filter (\<lambda>a. mi_allocated (h ! a)) (c # cs)) (foldO releaseModule cs (h1, ready1, retired1))"
    if h1: "links_ok L h1" "map flags h1 = map flags h"
      "\<forall>a < length h. a \<noteq> c \<longrightarrow> mi_importedModules (h1 ! a) = mi_importedModules (h ! a)"
      "ready1 = ready @ mi_importedModules (h ! c)" "retired1 = retired @ filter (\<lambda>a. mi_allocated (h ! a)) [c]"
    for h1 ready1 retired1
  proof -
    have cs: "\<forall>a \<in> set cs. a < length h \<and> a \<noteq> c" using Cons.prems(2) c(2) by (auto simp: released_def)
    have 1: "map (\<lambda>c. mi_importedModules (h1 ! c)) cs = map (\<lambda>c. mi_importedModules (h ! c)) cs"
      using cs h1(3) by simp
    have 2: "filter (\<lambda>a. mi_allocated (h1 ! a)) cs = filter (\<lambda>a. mi_allocated (h ! a)) cs"
      using cs flags_nth [OF h1(2)] by (intro filter_cong) (simp_all add: flags_def)
    show ?thesis
      by (rule holds_mono [OF Cons.IH [OF h1(1)]])
         (use Cons.prems(2,3) released_flags [OF h1(2)] 1 2 h1(2,4,5) in \<open>auto split: prod.splits\<close>)
  qed
  show ?case unfolding foldO.simps holds_bindO
    by (rule holds_mono [OF holds_releaseModule [OF Cons.prems(1) c(1)]]) (clarify, rule rest, (assumption | rule refl)+)
qed simp

section \<open>The counters\<close>

text \<open>
  The counter of an importer is the number of its imports, modulo \<open>2 ^ 32\<close>. An instance that has been dealt with (the set
  \<open>D\<close>) is counted nowhere, so that it can never be released a second time.
\<close>

definition keys :: "lifetime \<Rightarrow> nat set" where
  "keys i = fst ` set (importersOf i)"

definition count_of :: "lifetime \<Rightarrow> nat \<Rightarrow> u32" where
  "count_of i a = counter (importersOf i) a"

definition counts_ok :: "nat set \<Rightarrow> heap \<Rightarrow> bool" where
  "counts_ok D h \<longleftrightarrow> (\<forall>a < length h. \<forall>b < length h.
     if a \<in> D then a \<notin> keys (h ! b)
     else count_of (h ! b) a = of_nat (count_list (mi_importedModules (h ! a)) b) \<and>
       (a \<in> keys (h ! b) \<longrightarrow> b \<in> set (mi_importedModules (h ! a))))"

lemma counter_update [simp]: "counter (AList.update k v xs) a = (if a = k then v else counter xs a)"
  by (simp add: counter_def update_conv)

lemma counter_delete [simp]: "counter (AList.delete k xs) a = (if a = k then 0 else counter xs a)"
  by (simp add: counter_def delete_conv)

lemma keys_set_importers [simp]: "keys (i\<lparr>mi_importers := Some xs\<rparr>) = fst ` set xs"
  by (simp add: keys_def importersOf_def)

lemma count_of_set_importers [simp]: "count_of (i\<lparr>mi_importers := Some xs\<rparr>) = counter xs"
  by (simp add: count_of_def importersOf_def fun_eq_iff)

lemma keys_update: "fst ` set (AList.update k v xs) = insert k (fst ` set xs)"
  using update_keys [of k v xs] by (auto simp flip: set_map)

lemma keys_delete: "fst ` set (AList.delete k xs) = fst ` set xs - {k}"
  using delete_keys [of k xs] by (auto simp flip: set_map)

lemma dropImporter_counts:
  assumes "dropImporter h c b = Ok h'" "a < length h" "d < length h"
  shows "length h' = length h" "mi_importedModules (h' ! d) = mi_importedModules (h ! d)"
    "count_of (h' ! d) a = (if a = c \<and> d = b then count_of (h ! b) c - 1 else count_of (h ! d) a)"
    "a \<in> keys (h' ! d) \<longleftrightarrow> (if a = c \<and> d = b then count_of (h ! b) c \<noteq> 1 else a \<in> keys (h ! d))"
proof -
  obtain xs where b: "b < length h" and xs: "mi_importers (h ! b) = Some xs"
    and h': "h' = h[b := (h ! b)\<lparr>mi_importers := Some (if counter xs c - 1 = 0 then AList.delete c xs else AList.update c (counter xs c - 1) xs)\<rparr>]"
    using assms(1) by (auto simp: dropImporter_def bindO_Ok_iff index_Ok_iff update_at_Ok_iff Let_def split: option.splits if_splits)
  have k: "keys (h ! b) = fst ` set xs" "count_of (h ! b) = counter xs"
    using xs by (simp_all add: keys_def count_of_def importersOf_def fun_eq_iff)
  show "length h' = length h" using h' by simp
  show "mi_importedModules (h' ! d) = mi_importedModules (h ! d)" using h' b by (simp add: nth_list_update)
  show "count_of (h' ! d) a = (if a = c \<and> d = b then count_of (h ! b) c - 1 else count_of (h ! d) a)"
    using h' b k by (auto simp: nth_list_update)
  show "a \<in> keys (h' ! d) \<longleftrightarrow> (if a = c \<and> d = b then count_of (h ! b) c \<noteq> 1 else a \<in> keys (h ! d))"
    using h' b k by (auto simp: nth_list_update keys_update keys_delete)
qed

lemma dropImporters_counts:
  assumes "foldO (\<lambda>imported h. dropImporter h c imported) bs h = Ok h'" "c < length h"
    "\<And>d. d < length h \<Longrightarrow> count_of (h ! d) c = of_nat (count_list bs d)"
    "\<And>d. d < length h \<Longrightarrow> c \<in> keys (h ! d) \<Longrightarrow> d \<in> set bs"
  shows "length h' = length h \<and> (\<forall>d < length h. c \<notin> keys (h' ! d) \<and> mi_importedModules (h' ! d) = mi_importedModules (h ! d) \<and>
    (\<forall>a < length h. a \<noteq> c \<longrightarrow> count_of (h' ! d) a = count_of (h ! d) a \<and> (a \<in> keys (h' ! d) \<longleftrightarrow> a \<in> keys (h ! d))))"
  using assms
proof (induction bs arbitrary: h)
  case (Cons b bs)
  then obtain h1 where h1: "dropImporter h c b = Ok h1" "foldO (\<lambda>imported h. dropImporter h c imported) bs h1 = Ok h'"
    by (auto simp: bindO_Ok_iff)
  have c: "c < length h" using Cons.prems(2) .
  note d = dropImporter_counts [OF h1(1)]
  have b: "b < length h" using h1(1) by (auto simp: dropImporter_def bindO_Ok_iff index_Ok_iff)
  have len: "length h1 = length h" using d(1) c by blast
  have cb: "count_of (h ! b) c = of_nat (count_list bs b) + 1" using Cons.prems(3) [OF b] by simp
  have A: "count_of (h1 ! x) c = of_nat (count_list bs x)" if "x < length h1" for x
    using that d(3) [OF c, of x] len cb Cons.prems(3) [of x] by (auto split: if_splits)
  have B: "x \<in> set bs" if "x < length h1" "c \<in> keys (h1 ! x)" for x
  proof (cases "x = b")
    case True
    then have "count_of (h ! b) c \<noteq> 1" using that(2) d(4) [OF c b] by simp
    moreover have "count_of (h ! b) c = 1" if "b \<notin> set bs" using cb count_notin [OF that] by simp
    ultimately show ?thesis using True by blast
  next
    case False
    then show ?thesis using that d(4) [OF c, of x] Cons.prems(4) [of x] len by auto
  qed
  have "c < length h1" using c len by simp
  note ih = Cons.IH [OF h1(2) this A B]
  have "count_of (h1 ! x) a = count_of (h ! x) a" "a \<in> keys (h1 ! x) \<longleftrightarrow> a \<in> keys (h ! x)"
    "mi_importedModules (h1 ! x) = mi_importedModules (h ! x)" if "x < length h" "a < length h" "a \<noteq> c" for a x
    using d(2-4) [OF that(2,1)] that(3) by simp_all
  moreover have "mi_importedModules (h1 ! x) = mi_importedModules (h ! x)" if "x < length h" for x
    using d(2) [OF c that] .
  ultimately show ?case using ih len by simp
qed auto

lemma releaseModule_counts:
  assumes r: "releaseModule c (h, ready, retired) = Ok (h', ready', retired')" and ok: "counts_ok D h" and c: "c \<notin> D"
  shows "counts_ok (insert c D) h'"
proof -
  obtain h1 where len: "c < length h" and h1: "foldO (\<lambda>imported h. dropImporter h c imported) (mi_importedModules (h ! c)) h = Ok h1"
    and h': "c < length h1" "h' = h1[c := (h1 ! c)\<lparr>mi_importedModules := []\<rparr>]"
    using r by (auto simp: releaseModule_def bindO_Ok_iff index_Ok_iff update_at_Ok_iff)
  have "count_of (h ! d) c = of_nat (count_list (mi_importedModules (h ! c)) d)"
    "c \<in> keys (h ! d) \<Longrightarrow> d \<in> set (mi_importedModules (h ! c))" if "d < length h" for d
    using ok that c len by (auto simp: counts_ok_def)
  note n = dropImporters_counts [OF h1 len this]
  have same: "keys (h' ! d) = keys (h1 ! d)" "count_of (h' ! d) = count_of (h1 ! d)" if "d < length h" for d
    using that h' n by (auto simp: nth_list_update keys_def count_of_def importersOf_def fun_eq_iff)
  show ?thesis unfolding counts_ok_def
  proof (intro allI impI)
    fix a b assume ab: "a < length h'" "b < length h'"
    then have l: "a < length h" "b < length h" using n h' by simp_all
    show "if a \<in> insert c D then a \<notin> keys (h' ! b)
      else count_of (h' ! b) a = of_nat (count_list (mi_importedModules (h' ! a)) b) \<and>
        (a \<in> keys (h' ! b) \<longrightarrow> b \<in> set (mi_importedModules (h' ! a)))"
    proof (cases "a = c")
      case True
      then show ?thesis using n l same by simp
    next
      case False
      then have "mi_importedModules (h' ! a) = mi_importedModules (h ! a)" using n l h' by simp
      then show ?thesis using False n l same [OF l(2)] ok unfolding counts_ok_def by simp
    qed
  qed
qed

lemma releaseModules_counts:
  assumes "foldO releaseModule cs (h, ready, retired) = Ok (h', ready', retired')" "counts_ok D h" "set cs \<inter> D = {}" "distinct cs"
  shows "counts_ok (D \<union> set cs) h'"
  using assms
proof (induction cs arbitrary: h ready retired D)
  case (Cons c cs)
  then obtain h1 ready1 retired1 where 1: "releaseModule c (h, ready, retired) = Ok (h1, ready1, retired1)"
    and 2: "foldO releaseModule cs (h1, ready1, retired1) = Ok (h', ready', retired')"
    by (auto simp: bindO_Ok_iff)
  have "counts_ok (insert c D) h1" using releaseModule_counts [OF 1 Cons.prems(2)] Cons.prems(3) by simp
  moreover have "set cs \<inter> insert c D = {}" using Cons.prems(3,4) by auto
  ultimately have "counts_ok (insert c D \<union> set cs) h'" using Cons.IH [OF 2] Cons.prems(4) by fastforce
  then show ?case by simp
qed simp

lemma collectImporters_members:
  "collectImporters h ms i = Ok (Some ms') \<Longrightarrow> x \<in> set ms' \<Longrightarrow> x \<in> set ms \<or> (\<exists>b < length h. x \<in> keys (h ! b))"
proof (induction h ms i rule: collectImporters.induct)
  case (1 h ms i)
  show ?case
  proof (cases "i < length ms")
    case True
    with "1.prems"(1) obtain ms1 where i: "ms ! i < length h"
      and add: "addImporters h (map fst (importersOf (h ! (ms ! i)))) ms = Ok (Some ms1)"
      and rest: "collectImporters h ms1 (i + 1) = Ok (Some ms')"
      by (auto simp: collectImporters_Some [of h ms i])
    have "x \<in> set ms1 \<or> (\<exists>b < length h. x \<in> keys (h ! b))"
      using "1.IH" [OF True _ add refl rest] "1.prems"(2) i by (simp add: index_def)
    moreover have "set ms1 = set ms \<union> keys (h ! (ms ! i))" using addImporters_Ok(2) [OF add] by (simp add: keys_def)
    ultimately show ?thesis using i by auto
  next
    case False
    then have "ms' = ms" using "1.prems"(1) by (simp only: collectImporters_Some [of h ms i] if_False)
    then show ?thesis using "1.prems"(2) by simp
  qed
qed

lemma unreferencedClosedModules_unreleased:
  assumes "unreferencedClosedModules h m = Ok (Some ms)" "counts_ok D h" "closed_under_importers h ms" "m \<notin> D"
  shows "set ms \<inter> D = {}"
proof -
  have "x \<notin> D" if x: "x \<in> set ms" for x
  proof -
    have "x = m \<or> (\<exists>b < length h. x \<in> keys (h ! b))"
      using assms(1) x collectImporters_members [of h "[m]" 0 ms x]
      by (auto simp: unreferencedClosedModules_def bindO_Ok_iff index_Ok_iff split: if_splits)
    moreover have "x < length h" using assms(3) x by (simp add: closed_under_importers_def)
    ultimately show ?thesis using assms(2,4) by (auto simp: counts_ok_def)
  qed
  then show ?thesis by blast
qed

section \<open>Marking a closed set of modules\<close>

lemma holds_markReleased: "\<forall>a \<in> set ms. a < length h \<Longrightarrow> holds (\<lambda>_. True) (markReleased ms h)"
  unfolding markReleased_def
  by (rule holds_mono [OF holds_foldO [where I = "\<lambda>h'. length h' = length h"]]) (auto simp: wp)

text \<open>Everybody who uses a member of such a set is closed: a user is in the set, or uses something already released.\<close>

lemma closed_set_unused:
  assumes ok: "links_ok L h" and ms: "closed_under_importers h ms"
  shows "set ms \<subseteq> unused L h"
proof
  fix x assume x: "x \<in> set ms"
  have "u \<in> set ms \<or> (\<exists>y \<in> released h. (u, y) \<in> L\<^sup>*)" if "(u, x) \<in> L\<^sup>*" for u
    using that
  proof (induction rule: converse_rtrancl_induct)
    case (step w u)
    then consider "w \<in> released h" | "u \<in> set ms" "(w, u) \<in> linked h" | y where "y \<in> released h" "(u, y) \<in> L\<^sup>*"
      using links_okD(3) [OF ok step(1)] by blast
    then show ?case
    proof cases
      case 2
      then show ?thesis using ms by (force simp: closed_under_importers_def linked_def)
    next
      case 3
      then show ?thesis using converse_rtrancl_into_rtrancl [OF step(1)] by blast
    qed blast
  qed (use x in simp)
  moreover have "mi_memoryClosed (h ! u)" if "(u, y) \<in> L\<^sup>*" "y \<in> released h" for u y
    using that links_okD(7) [OF ok] by (auto simp: unused_def)
  ultimately show "x \<in> unused L h" using ms x unfolding unused_def closed_under_importers_def by blast
qed

lemma markReleased_links_ok:
  assumes ok: "links_ok L h" and ms: "closed_under_importers h ms" and h': "markReleased ms h = Ok h'"
  shows "links_ok L h'" "released h' = released h \<union> set ms" "length h' = length h"
    "\<And>a. a < length h \<Longrightarrow> h' ! a = (if a \<in> set ms then (h ! a)\<lparr>mi_memoryReleased := True\<rparr> else h ! a)"
proof -
  note n = markReleased_Ok [OF h']
  show len: "length h' = length h" and nth: "\<And>a. a < length h \<Longrightarrow> h' ! a = (if a \<in> set ms then (h ! a)\<lparr>mi_memoryReleased := True\<rparr> else h ! a)"
    using n by simp_all
  show rel: "released h' = released h \<union> set ms"
    using n by (auto simp: released_def)
  have same: "mi_importedModules (h' ! a) = mi_importedModules (h ! a)" "mi_importers (h' ! a) = mi_importers (h ! a)"
    "mi_memoryClosed (h' ! a) = mi_memoryClosed (h ! a)" if "a < length h" for a
    using nth that by simp_all
  have "importersOf (h' ! a) = importersOf (h ! a)" if "a < length h" for a using same(2) [OF that] by (simp add: importersOf_def)
  then have l: "linked h' = linked h" using len by (auto simp: linked_def)
  have u: "unused L h' = unused L h"
  proof -
    have "u < length h" if "(u, x) \<in> L\<^sup>*" "x < length h" for u x
      using that by (induction rule: converse_rtrancl_induct) (simp_all add: links_okD(8) [OF ok])
    then show ?thesis using len same(3) by (auto simp: unused_def)
  qed
  show "links_ok L h'"
  proof (rule links_okI)
    show "L \<subseteq> {..<length h'} \<times> {..<length h'}" "linked h' \<subseteq> L" using links_okD(1,2) [OF ok] l len by simp_all
    show "released h' \<subseteq> unused L h'" using links_okD(7) [OF ok] closed_set_unused [OF ok ms] rel u by simp
    show "(a, b) \<in> linked h' \<and> b \<in> set (mi_importedModules (h' ! a))" if "(a, b) \<in> L" "a \<notin> released h'" for a b
      using that links_okD(3,4,8) [OF ok that(1)] rel l same by simp
    show "(a, b) \<in> L \<and> mi_importers (h' ! b) \<noteq> None" if "a < length h'" "b \<in> set (mi_importedModules (h' ! a))" for a b
      using that links_okD(5,6) [OF ok, of a b] links_okD(9) [OF ok, of a b] len same by simp
  qed
qed

section \<open>The search\<close>

lemma holds_addImporters:
  "\<forall>a \<in> set imps. a < length h \<Longrightarrow>
     holds (\<lambda>r. (\<forall>a \<in> set imps. mi_memoryClosed (h ! a)) \<longrightarrow> r \<noteq> None) (addImporters h imps ms)"
  by (induction imps arbitrary: ms) (auto simp: wp)

lemma holds_collectImporters:
  assumes S: "S \<subseteq> {..<length h}" "\<forall>x \<in> S. fst ` set (importersOf (h ! x)) \<subseteq> S"
  shows "set ms \<subseteq> S \<Longrightarrow> holds (\<lambda>r. (\<forall>x \<in> S. mi_memoryClosed (h ! x)) \<longrightarrow> r \<noteq> None) (collectImporters h ms i)"
  using S
proof (induction h ms i rule: collectImporters.induct)
  case (1 h ms i)
  show ?case
  proof (cases "i < length ms")
    case True
    then have m: "ms ! i \<in> S" using "1.prems"(1) by auto
    let ?imps = "map fst (importersOf (h ! (ms ! i)))"
    have imps: "set ?imps \<subseteq> S" using m "1.prems"(3) by auto
    have len: "ms ! i < length h" using m "1.prems"(2) by auto
    have "holds (\<lambda>r. (\<forall>a \<in> set ?imps. mi_memoryClosed (h ! a)) \<longrightarrow> r \<noteq> None) (addImporters h ?imps ms)"
      by (rule holds_addImporters) (use imps "1.prems"(2) in blast)
    then have "holds (\<lambda>r. holds (\<lambda>r. (\<forall>x \<in> S. mi_memoryClosed (h ! x)) \<longrightarrow> r \<noteq> None)
        (case r of None \<Rightarrow> Ok None | Some modules \<Rightarrow> collectImporters h modules (i + 1))) (addImporters h ?imps ms)"
    proof (rule holds_mono)
      fix r
      assume r: "addImporters h ?imps ms = Ok r" "(\<forall>a \<in> set ?imps. mi_memoryClosed (h ! a)) \<longrightarrow> r \<noteq> None"
      show "holds (\<lambda>r. (\<forall>x \<in> S. mi_memoryClosed (h ! x)) \<longrightarrow> r \<noteq> None)
          (case r of None \<Rightarrow> Ok None | Some modules \<Rightarrow> collectImporters h modules (i + 1))"
      proof (cases r)
        case None
        then show ?thesis using r(2) imps by auto
      next
        case (Some ms1)
        then have "set ms1 \<subseteq> S" using addImporters_Ok(2) [of h ?imps ms ms1] r(1) imps "1.prems"(1) by auto
        then show ?thesis using "1.IH" [OF True _ r(1) Some] "1.prems"(2,3) len Some by (simp add: index_def)
      qed
    qed
    then show ?thesis
      using True len by (simp only: collectImporters.simps [of h ms i] if_True holds_bindO holds_index simp_thms)
  qed (simp add: collectImporters.simps [of h ms i])
qed

lemma holds_unreferencedClosedModules:
  assumes ok: "links_ok L h" and m: "m < length h" "mi_memoryClosed (h ! m)"
  shows "holds (\<lambda>r. (m \<in> unused L h \<longrightarrow> r \<noteq> None) \<and> (\<forall>ms. r = Some ms \<longrightarrow> m \<in> set ms \<and> closed_under_importers h ms))
    (unreferencedClosedModules h m)"
proof (rule holds_conj)
  let ?S = "{u. (u, m) \<in> L\<^sup>*}"
  have S: "?S \<subseteq> {..<length h}" "\<forall>x \<in> ?S. fst ` set (importersOf (h ! x)) \<subseteq> ?S"
  proof -
    show S1: "?S \<subseteq> {..<length h}"
    proof clarify
      fix u assume "(u, m) \<in> L\<^sup>*"
      then show "u < length h" by (induction rule: converse_rtrancl_induct) (simp_all add: m links_okD(8) [OF ok])
    qed
    show "\<forall>x \<in> ?S. fst ` set (importersOf (h ! x)) \<subseteq> ?S"
    proof clarify
      fix x a n assume x: "(x, m) \<in> L\<^sup>*" and "(a, n) \<in> set (importersOf (h ! x))"
      then have "(a, x) \<in> linked h" using S1 by (force simp: linked_def)
      then have "(a, x) \<in> L" using links_okD(2) [OF ok] by blast
      then show "(fst (a, n), m) \<in> L\<^sup>*" using x by (simp add: converse_rtrancl_into_rtrancl)
    qed
  qed
  have "holds (\<lambda>r. (\<forall>x \<in> ?S. mi_memoryClosed (h ! x)) \<longrightarrow> r \<noteq> None) (collectImporters h [m] 0)"
    by (rule holds_collectImporters [OF S]) simp
  then show "holds (\<lambda>r. m \<in> unused L h \<longrightarrow> r \<noteq> None) (unreferencedClosedModules h m)"
    unfolding unreferencedClosedModules_def holds_bindO holds_index
    by (intro conjI m holds_ifI) (simp, erule holds_mono, simp add: unused_def)
  then show "holds (\<lambda>r. \<forall>ms. r = Some ms \<longrightarrow> m \<in> set ms \<and> closed_under_importers h ms) (unreferencedClosedModules h m)"
    by (rule holds_mono) (use unreferencedClosedModules_closure [OF _ m] in blast)
qed

section \<open>The work list\<close>

text \<open>
  What is unused and not yet released can be reached from the work list without passing through a released module. When a
  set of modules is released, the last of them on such a path has put its successor on the list.
\<close>

definition outside :: "nat set \<Rightarrow> (nat \<times> nat) set \<Rightarrow> (nat \<times> nat) set" where
  "outside R L = {(a, b) \<in> L. a \<notin> R \<and> b \<notin> R}"

definition pending :: "(nat \<times> nat) set \<Rightarrow> heap \<Rightarrow> nat list \<Rightarrow> bool" where
  "pending L h ready \<longleftrightarrow> (\<forall>x \<in> unused L h - released h. \<exists>r \<in> set ready. (r, x) \<in> (outside (released h) L)\<^sup>*)"

lemma path_leaves:
  assumes "(r, x) \<in> (outside R L)\<^sup>*" "x \<notin> C"
  shows "r \<notin> C \<and> (r, x) \<in> (outside (R \<union> C) L)\<^sup>* \<or>
    (\<exists>a b. a \<in> C \<and> a \<notin> R \<and> (a, b) \<in> L \<and> (b, x) \<in> (outside (R \<union> C) L)\<^sup>*)"
  using assms
proof (induction rule: converse_rtrancl_induct)
  case (step w u)
  show ?case
  proof (cases "u \<notin> C \<and> (u, x) \<in> (outside (R \<union> C) L)\<^sup>*")
    case True
    show ?thesis
    proof (cases "w \<in> C")
      case False
      then have "(w, u) \<in> outside (R \<union> C) L" using step(1) True by (auto simp: outside_def)
      then show ?thesis using False True by (meson converse_rtrancl_into_rtrancl)
    qed (use True step(1) in \<open>auto simp: outside_def\<close>)
  qed (use step in blast)
qed simp

lemma outside_user: "(r, x) \<in> (outside R L)\<^sup>* \<Longrightarrow> x \<in> unused L h \<Longrightarrow> L \<subseteq> {..<length h} \<times> {..<length h} \<Longrightarrow> r \<in> unused L h"
proof -
  assume r: "(r, x) \<in> (outside R L)\<^sup>*" and x: "x \<in> unused L h" and L: "L \<subseteq> {..<length h} \<times> {..<length h}"
  have "(r, x) \<in> L\<^sup>*" using r by (rule rtrancl_mono [THEN subsetD, rotated]) (auto simp: outside_def)
  moreover have "r < length h"
    using \<open>(r, x) \<in> L\<^sup>*\<close> x L by (induction rule: converse_rtrancl_induct) (auto simp: unused_def)
  ultimately show ?thesis using x by (auto simp: unused_def intro: rtrancl_trans)
qed

lemma outside_not_released: "(r, x) \<in> (outside R L)\<^sup>* \<Longrightarrow> x \<notin> R \<Longrightarrow> r \<notin> R"
  by (induction rule: converse_rtrancl_induct) (auto simp: outside_def)

lemma in_butlast: "x \<in> set xs \<Longrightarrow> x \<noteq> last xs \<Longrightarrow> x \<in> set (butlast xs)"
  by (cases xs rule: rev_cases) auto

lemma pending_skip:
  assumes "pending L h ready" "last ready \<notin> unused L h - released h" "L \<subseteq> {..<length h} \<times> {..<length h}"
  shows "pending L h (butlast ready)"
  unfolding pending_def
proof
  fix x assume x: "x \<in> unused L h - released h"
  then obtain r where r: "r \<in> set ready" "(r, x) \<in> (outside (released h) L)\<^sup>*" using assms(1) by (auto simp: pending_def)
  then have "r \<in> unused L h - released h" using x outside_user outside_not_released assms(3) by blast
  then have "r \<noteq> last ready" using assms(2) by blast
  then have "r \<in> set (butlast ready)" using r(1) by (intro in_butlast)
  then show "\<exists>r \<in> set (butlast ready). (r, x) \<in> (outside (released h) L)\<^sup>*" using r(2) by blast
qed

lemma pending_release:
  assumes p: "pending L h ready" and ok: "links_ok L h" and C: "last ready \<in> C"
    and h': "unused L h' = unused L h" "released h' = released h \<union> C"
    and ready': "set (butlast ready) \<subseteq> set ready'" "\<And>a. a \<in> C \<Longrightarrow> set (mi_importedModules (h ! a)) \<subseteq> set ready'"
  shows "pending L h' ready'"
  unfolding pending_def
proof
  fix x assume x: "x \<in> unused L h' - released h'"
  then obtain r where r: "r \<in> set ready" "(r, x) \<in> (outside (released h) L)\<^sup>*"
    using p h' unfolding pending_def by blast
  from path_leaves [OF r(2), of C] x h'
  consider "r \<notin> C" "(r, x) \<in> (outside (released h') L)\<^sup>*"
    | a b where "a \<in> C" "a \<notin> released h" "(a, b) \<in> L" "(b, x) \<in> (outside (released h') L)\<^sup>*"
    by auto
  then show "\<exists>r \<in> set ready'. (r, x) \<in> (outside (released h') L)\<^sup>*"
  proof cases
    case 1
    then have "r \<noteq> last ready" using C by blast
    then have "r \<in> set (butlast ready)" using r(1) by (intro in_butlast)
    then show ?thesis using 1(2) ready'(1) by blast
  next
    case 2
    then have "b \<in> set ready'" using links_okD(4) [OF ok] ready'(2) by blast
    then show ?thesis using 2(4) by blast
  qed
qed

section \<open>What retiring a module releases\<close>

definition kept :: "lifetime \<Rightarrow> bool \<times> bool \<times> bool" where
  "kept i = (mi_Closed i, mi_memoryClosed i, mi_allocated i)"

lemma kept_nth: "map kept h' = map kept h \<Longrightarrow> length h' = length h \<and> (\<forall>a < length h. kept (h' ! a) = kept (h ! a))"
  by (metis length_map nth_map)

lemma flags_kept: "map flags h' = map flags h \<Longrightarrow> map kept h' = map kept h"
proof -
  have "map kept h = map (\<lambda>(c, m, _, a). (c, m, a)) (map flags h)" for h by (simp add: kept_def flags_def)
  then show "map flags h' = map flags h \<Longrightarrow> map kept h' = map kept h" by metis
qed

lemma unused_kept: "map kept h' = map kept h \<Longrightarrow> L \<subseteq> {..<length h} \<times> {..<length h} \<Longrightarrow> unused L h' = unused L h"
proof -
  assume f: "map kept h' = map kept h" and L: "L \<subseteq> {..<length h} \<times> {..<length h}"
  have "mi_memoryClosed (h' ! u) = mi_memoryClosed (h ! u)" if "(u, x) \<in> L\<^sup>*" "x < length h" for u x
  proof -
    from that L have "u < length h" by (induction rule: converse_rtrancl_induct) auto
    with kept_nth [OF f] show ?thesis by (simp add: kept_def)
  qed
  then show ?thesis using kept_nth [OF f] by (auto simp: unused_def)
qed

lemma holds_release_set:
  assumes ok: "links_ok L h" and C: "closed_under_importers h C"
  shows "holds (\<lambda>h1. holds (\<lambda>(h2, ready2, retired2). links_ok L h2 \<and> map kept h2 = map kept h \<and> released h2 = released h \<union> set C \<and>
      ready2 = ready @ concat (map (\<lambda>c. mi_importedModules (h ! c)) C) \<and> retired2 = retired @ filter (\<lambda>a. mi_allocated (h ! a)) C)
    (foldO releaseModule C (h1, ready, retired))) (markReleased C h)"
proof -
  have C': "\<forall>a \<in> set C. a < length h" "distinct C" using C by (auto simp: closed_under_importers_def)
  show ?thesis
  proof (rule holds_mono [OF holds_markReleased [OF C'(1)]])
    fix h1 assume h1: "markReleased C h = Ok h1"
    note m = markReleased_links_ok [OF ok C h1]
    have k: "map kept h1 = map kept h" using m(3,4) by (intro nth_equalityI) (simp_all add: kept_def)
    have i: "map (\<lambda>c. mi_importedModules (h1 ! c)) C = map (\<lambda>c. mi_importedModules (h ! c)) C" using m(4) C'(1) by simp
    have al: "filter (\<lambda>a. mi_allocated (h1 ! a)) C = filter (\<lambda>a. mi_allocated (h ! a)) C"
      using m(4) C'(1) by (intro filter_cong) simp_all
    show "holds (\<lambda>(h2, ready2, retired2). links_ok L h2 \<and> map kept h2 = map kept h \<and> released h2 = released h \<union> set C \<and>
        ready2 = ready @ concat (map (\<lambda>c. mi_importedModules (h ! c)) C) \<and> retired2 = retired @ filter (\<lambda>a. mi_allocated (h ! a)) C)
      (foldO releaseModule C (h1, ready, retired))"
    proof (rule holds_mono [OF holds_releaseModules [OF m(1) _ C'(2)]])
      show "set C \<subseteq> released h1" using m(2) by simp
    next
      fix s
      assume s: "case s of (h', ready', retired') \<Rightarrow> links_ok L h' \<and> map flags h' = map flags h1 \<and>
        ready' = ready @ concat (map (\<lambda>c. mi_importedModules (h1 ! c)) C) \<and> retired' = retired @ filter (\<lambda>a. mi_allocated (h1 ! a)) C"
      obtain h2 ready2 retired2 where "s = (h2, ready2, retired2)" by (cases s)
      then show "case s of (h2, ready2, retired2) \<Rightarrow> links_ok L h2 \<and> map kept h2 = map kept h \<and> released h2 = released h \<union> set C \<and>
        ready2 = ready @ concat (map (\<lambda>c. mi_importedModules (h ! c)) C) \<and> retired2 = retired @ filter (\<lambda>a. mi_allocated (h ! a)) C"
        using s flags_kept [of h2 h1] released_flags [of h2 h1] m(2) k i al by simp
    qed
  qed
qed

definition retired_all :: "(nat \<times> nat) set \<Rightarrow> heap \<Rightarrow> nat list \<Rightarrow> heap \<times> nat list \<Rightarrow> bool" where
  "retired_all L h retired = (\<lambda>(h', retired'). links_ok L h' \<and> counts_ok (released h') h' \<and> map kept h' = map kept h \<and> released h \<subseteq> released h' \<and>
     unused L h' \<subseteq> released h' \<and> distinct retired' \<and>
     set retired' = set retired \<union> {x \<in> released h' - released h. mi_allocated (h ! x)})"

lemma markReleased_counts: "markReleased ms h = Ok h' \<Longrightarrow> counts_ok D h' = counts_ok D h"
proof -
  assume "markReleased ms h = Ok h'"
  note n = markReleased_Ok [OF this]
  have "mi_importedModules (h' ! a) = mi_importedModules (h ! a)" "keys (h' ! a) = keys (h ! a)" "count_of (h' ! a) = count_of (h ! a)"
    if "a < length h" for a
    using n that by (simp_all add: keys_def count_of_def importersOf_def fun_eq_iff)
  then show ?thesis using n by (auto simp: counts_ok_def)
qed

lemma retired_all_trans:
  assumes "retired_all L h2 (retired @ filter (\<lambda>a. mi_allocated (h ! a)) C) s" "map kept h2 = map kept h"
    "released h2 = released h \<union> set C" "set C \<inter> released h = {}"
  shows "retired_all L h retired s"
proof -
  obtain h3 retired3 where s: "s = (h3, retired3)" by (cases s)
  have "mi_allocated (h2 ! x) = mi_allocated (h ! x)" if "x \<in> released h3" "map kept h3 = map kept h2" for x
    using that kept_nth [OF assms(2)] kept_nth [OF that(2)] by (auto simp: released_def kept_def)
  then show ?thesis using assms s unfolding retired_all_def by auto
qed

lemma holds_retireLoop:
  "links_ok L h \<Longrightarrow> counts_ok (released h) h \<Longrightarrow> set ready \<subseteq> {..<length h} \<Longrightarrow> pending L h ready \<Longrightarrow> distinct retired \<Longrightarrow> set retired \<subseteq> released h \<Longrightarrow>
     holds (retired_all L h retired) (retireLoop h ready retired)"
proof (induction h ready retired rule: retireLoop.induct)
  case (1 h ready retired)
  note ok = "1.prems"(1)
  show ?case
  proof (cases "ready = []")
    case True
    then have "unused L h \<subseteq> released h" using "1.prems"(4) by (auto simp: pending_def)
    moreover have "retireLoop h ready retired = Ok (h, retired)" using True by (subst retireLoop.simps) simp
    ultimately show ?thesis using "1.prems" by (auto simp: retired_all_def)
  next
    case False
    let ?m = "last ready"
    have m: "?m < length h" using last_in_set [OF False] "1.prems"(3) by auto
    have sub: "set (butlast ready) \<subseteq> {..<length h}" using "1.prems"(3) by (auto dest: in_set_butlastD)
    show ?thesis
    proof (cases "\<not> mi_memoryClosed (h ! ?m) \<or> mi_memoryReleased (h ! ?m)")
      case True
      then have "?m \<notin> unused L h - released h" using m by (auto simp: unused_def released_def)
      then have "pending L h (butlast ready)" using pending_skip "1.prems"(4) links_okD(1) [OF ok] by blast
      then have "holds (retired_all L h retired) (retireLoop h (butlast ready) retired)"
        using "1.IH"(1) [OF False refl refl _ True] m sub "1.prems" by (simp add: index_def)
      then show ?thesis
        using False True m by (simp only: retireLoop.simps [of h ready] Let_def if_False if_True holds_bindO holds_index simp_thms)
    next
      case go: False
      then have closed: "mi_memoryClosed (h ! ?m)" by simp
      have "holds (\<lambda>r. holds (retired_all L h retired)
          (case r of None \<Rightarrow> retireLoop h (butlast ready) retired
           | Some modules \<Rightarrow> bindO (markReleased modules h) (\<lambda>h. bindO (foldO releaseModule modules (h, butlast ready, retired))
               (\<lambda>(h, ready, retired). retireLoop h ready retired)))) (unreferencedClosedModules h ?m)"
      proof (rule holds_mono [OF holds_unreferencedClosedModules [OF ok m closed]])
        fix r
        assume r: "unreferencedClosedModules h ?m = Ok r"
          and r': "(?m \<in> unused L h \<longrightarrow> r \<noteq> None) \<and> (\<forall>ms. r = Some ms \<longrightarrow> ?m \<in> set ms \<and> closed_under_importers h ms)"
        show "holds (retired_all L h retired)
          (case r of None \<Rightarrow> retireLoop h (butlast ready) retired
           | Some modules \<Rightarrow> bindO (markReleased modules h) (\<lambda>h. bindO (foldO releaseModule modules (h, butlast ready, retired))
               (\<lambda>(h, ready, retired). retireLoop h ready retired)))"
        proof (cases r)
          case None
          then have "pending L h (butlast ready)" using r' pending_skip "1.prems"(4) links_okD(1) [OF ok] by blast
          then show ?thesis
            using "1.IH"(2) [OF False refl refl _ go r None] m sub "1.prems" None by (simp add: index_def)
        next
          case (Some C)
          then have C: "?m \<in> set C" "closed_under_importers h C" using r' by simp_all
          have step: "holds (retired_all L h retired) (retireLoop h2 ready2 retired2)"
            if h1: "markReleased C h = Ok h1" and h2: "foldO releaseModule C (h1, butlast ready, retired) = Ok (h2, ready2, retired2)"
              and *: "links_ok L h2" "map kept h2 = map kept h" "released h2 = released h \<union> set C"
                "ready2 = butlast ready @ concat (map (\<lambda>c. mi_importedModules (h ! c)) C)"
                "retired2 = retired @ filter (\<lambda>a. mi_allocated (h ! a)) C"
            for h1 h2 ready2 retired2
          proof -
            have C': "set C \<inter> released h = {}" "distinct C" "set C \<subseteq> {..<length h}"
              using unreferencedClosedModules_unreleased [OF r [unfolded Some] "1.prems"(2) C(2)] go C(2)
              by (auto simp: released_def closed_under_importers_def)
            have "counts_ok (released h) h1" using markReleased_counts [OF h1] "1.prems"(2) by simp
            then have 1: "counts_ok (released h2) h2" using releaseModules_counts [OF h2 _ C'(1,2)] *(3) by simp
            have "set (mi_importedModules (h ! c)) \<subseteq> {..<length h}" if "c \<in> set C" for c
              using links_okD(5,9) [OF ok] that C'(3) by blast
            then have 2: "set ready2 \<subseteq> {..<length h2}" using sub *(4) kept_nth [OF *(2)] by auto
            have 3: "pending L h2 ready2"
              by (rule pending_release [OF "1.prems"(4) ok C(1)])
                 (use unused_kept [OF *(2) links_okD(1) [OF ok]] *(3,4) in auto)
            have 4: "distinct retired2" "set retired2 \<subseteq> released h2" using *(3,5) C' "1.prems"(5,6) by auto
            have "holds (retired_all L h2 retired2) (retireLoop h2 ready2 retired2)"
              using "1.IH"(3) [OF False refl refl _ go r Some h1 h2 refl refl *(1) 1 2 3 4] m by (simp add: index_def)
            then show ?thesis
            proof (rule holds_mono)
              fix s assume "retired_all L h2 retired2 s"
              then show "retired_all L h retired s"
                using retired_all_trans [OF _ *(2,3) C'(1)] *(5) by simp
            qed
          qed
          then show ?thesis unfolding Some option.case holds_bindO
            by (intro holds_mono [OF holds_release_set [OF ok C(2), of "butlast ready" retired]])
               (rule holds_mono, assumption, clarify, rule step, (assumption | rule refl)+)
        qed
      qed
      then show ?thesis
        using False go m by (simp only: retireLoop.simps [of h ready] Let_def if_False holds_bindO holds_index simp_thms)
    qed
  qed
qed

section \<open>Linking and closing keep the invariants\<close>

lemma holds_releaseMemory:
  assumes ok: "links_ok L h" and cnt: "counts_ok (released h) h" and all: "unused L h \<subseteq> released h" and m: "m < length h"
  shows "holds (\<lambda>(h', retired). links_ok L h' \<and> counts_ok (released h') h' \<and> released h \<subseteq> released h' \<and> unused L h' \<subseteq> released h' \<and>
      map kept h' = map kept (h[m := (h ! m)\<lparr>mi_memoryClosed := True\<rparr>]) \<and>
      distinct retired \<and> set retired = {x \<in> released h' - released h. mi_allocated (h ! x)})
    (releaseMemory h m)"
proof (cases "mi_memoryClosed (h ! m)")
  case True
  then have "map kept (h[m := (h ! m)\<lparr>mi_memoryClosed := True\<rparr>]) = map kept h"
    using m by (intro map_update_same) (simp_all add: kept_def)
  then show ?thesis using True assms by (simp add: releaseMemory_def wp)
next
  case False
  let ?h = "h[m := (h ! m)\<lparr>mi_memoryClosed := True\<rparr>]"
  have r: "released ?h = released h" using m by (auto simp: released_def nth_list_update split: if_splits)
  have u: "unused L h \<subseteq> unused L ?h" using m by (auto simp: unused_def nth_list_update)
  have k: "mi_importedModules (?h ! a) = mi_importedModules (h ! a)" "mi_importers (?h ! a) = mi_importers (h ! a)"
    "importersOf (?h ! a) = importersOf (h ! a)" "mi_allocated (?h ! a) = mi_allocated (h ! a)" for a
    using m by (auto simp: nth_list_update importersOf_def)
  have l: "linked ?h = linked h" by (simp add: linked_def k)
  have ok': "links_ok L ?h"
  proof (rule links_okI)
    show "L \<subseteq> {..<length ?h} \<times> {..<length ?h}" "linked ?h \<subseteq> L" using links_okD(1,2) [OF ok] l by simp_all
    show "released ?h \<subseteq> unused L ?h" using links_okD(7) [OF ok] u unfolding r by (rule subset_trans)
    show "(a, b) \<in> linked ?h \<and> b \<in> set (mi_importedModules (?h ! a))" if "(a, b) \<in> L" "a \<notin> released ?h" for a b
      using links_okD(3,4) [OF ok that(1)] that(2) unfolding r l k by blast
    show "(a, b) \<in> L \<and> mi_importers (?h ! b) \<noteq> None" if "a < length ?h" "b \<in> set (mi_importedModules (?h ! a))" for a b
      using links_okD(5,6) [OF ok, of a b] that unfolding k length_list_update by blast
  qed
  have "keys (?h ! a) = keys (h ! a)" "count_of (?h ! a) = count_of (h ! a)" for a
    by (simp_all add: keys_def count_of_def k fun_eq_iff)
  then have cnt': "counts_ok (released ?h) ?h" using cnt r k(1) unfolding counts_ok_def by simp
  have pend: "pending L ?h [m]" unfolding pending_def
  proof
    fix x assume x: "x \<in> unused L ?h - released ?h"
    then have "x \<notin> unused L h" using all r by auto
    then obtain u where u: "(u, x) \<in> L\<^sup>*" "\<not> mi_memoryClosed (h ! u)" "mi_memoryClosed (?h ! u)"
      using x by (auto simp: unused_def)
    then have "u = m" by (metis nth_list_update_neq)
    have "(v, x) \<in> (outside (released ?h) L)\<^sup>*" if "(m, v) \<in> L\<^sup>*" "(v, x) \<in> L\<^sup>*" for v
      using that(2,1)
    proof (induction rule: converse_rtrancl_induct)
      case (step w v)
      have "y \<notin> released h" if "(m, y) \<in> L\<^sup>*" for y
        using that links_okD(7) [OF ok] False by (auto simp: unused_def)
      moreover have "(m, v) \<in> L\<^sup>*" using step by (meson rtrancl.rtrancl_into_rtrancl)
      ultimately have "(w, v) \<in> outside (released ?h) L" using step(1,4) r by (auto simp: outside_def)
      then show ?case using step.IH [OF \<open>(m, v) \<in> L\<^sup>*\<close>] by (meson converse_rtrancl_into_rtrancl)
    qed simp
    then show "\<exists>r \<in> set [m]. (r, x) \<in> (outside (released ?h) L)\<^sup>*" using u(1) \<open>u = m\<close> by simp
  qed
  have "holds (retired_all L ?h []) (retireLoop ?h [m] [])"
    by (rule holds_retireLoop [OF ok' cnt' _ pend]) (use m in auto)
  then have "holds (\<lambda>(h', retired). links_ok L h' \<and> counts_ok (released h') h' \<and> released h \<subseteq> released h' \<and> unused L h' \<subseteq> released h' \<and>
      map kept h' = map kept ?h \<and> distinct retired \<and> set retired = {x \<in> released h' - released h. mi_allocated (h ! x)}) (retireLoop ?h [m] [])"
    by (rule holds_mono) (simp add: retired_all_def r k split: prod.splits)
  then show ?thesis using False m
    by (simp only: releaseMemory_def holds_bindO holds_index holds_update_at if_False simp_thms)
qed

lemma retainImport_True:
  assumes "retainImport h m b = Ok (True, h')" "m < length h"
  shows "b < length h" "\<not> mi_Closed (h ! b)" "\<not> mi_memoryClosed (h ! b)" "map flags h' = map flags h"
    "\<And>d. d < length h \<Longrightarrow> keys (h' ! d) = (if d = b then insert m (keys (h ! d)) else keys (h ! d))"
    "\<And>d. d < length h \<Longrightarrow> mi_importedModules (h' ! d) = mi_importedModules (h ! d) @ (if d = m then [b] else [])"
    "\<And>d. d < length h \<Longrightarrow> mi_importers (h' ! d) = None \<longleftrightarrow> d \<noteq> b \<and> mi_importers (h ! d) = None"
    "\<And>d a. d < length h \<Longrightarrow> count_of (h' ! d) a = count_of (h ! d) a + (if d = b \<and> a = m then 1 else 0)"
proof -
  define i where "i = (h ! b)\<lparr>mi_importers := Some (AList.update m (counter (importersOf (h ! b)) m + 1) (importersOf (h ! b)))\<rparr>"
  define j where "j = (h[b := i] ! m)\<lparr>mi_importedModules := mi_importedModules (h[b := i] ! m) @ [b]\<rparr>"
  have b: "b < length h" "\<not> mi_Closed (h ! b)" "\<not> mi_memoryClosed (h ! b)" and h': "h' = h[b := i, m := j]"
    using assms by (auto simp: retainImport_def bindO_Ok_iff index_Ok_iff update_at_Ok_iff Let_def i_def j_def split: if_splits)
  show "b < length h" "\<not> mi_Closed (h ! b)" "\<not> mi_memoryClosed (h ! b)" by (fact b)+
  have 1: "map flags (h[b := i]) = map flags h" unfolding i_def using b(1) by (intro map_update_same) simp_all
  have "map flags (h[b := i, m := j]) = map flags (h[b := i])"
    unfolding j_def using assms(2) by (intro map_update_same) simp_all
  then show "map flags h' = map flags h" using 1 h' by simp
  have n: "h' ! d = (if d = m then j else if d = b then i else h ! d)" if "d < length h" for d
    using that h' by (simp add: nth_list_update)
  have J: "j = (if m = b then i else h ! m)\<lparr>mi_importedModules := mi_importedModules (h ! m) @ [b]\<rparr>"
    using b(1) assms(2) by (auto simp: j_def i_def nth_list_update)
  have I: "keys i = insert m (keys (h ! b))" "mi_importers i \<noteq> None" "count_of i a = count_of (h ! b) a + (if a = m then 1 else 0)"
    "mi_importedModules i = mi_importedModules (h ! b)" for a
    by (simp_all add: i_def keys_update keys_def [of "h ! b"] count_of_def [of "h ! b"])
  have U: "keys (x\<lparr>mi_importedModules := y\<rparr>) = keys x" "count_of (x\<lparr>mi_importedModules := y\<rparr>) = count_of x" for x y
    by (simp_all add: keys_def count_of_def importersOf_def fun_eq_iff)
  fix d assume d: "d < length h"
  show "keys (h' ! d) = (if d = b then insert m (keys (h ! d)) else keys (h ! d))" using n [OF d] J I U by simp
  show "mi_importedModules (h' ! d) = mi_importedModules (h ! d) @ (if d = m then [b] else [])" using n [OF d] J I by simp
  show "mi_importers (h' ! d) = None \<longleftrightarrow> d \<noteq> b \<and> mi_importers (h ! d) = None" using n [OF d] J I by auto
  show "count_of (h' ! d) a = count_of (h ! d) a + (if d = b \<and> a = m then 1 else 0)" for a using n [OF d] J I U by simp
qed

text \<open>
  A link may be made from an instance that is not closed, or from one that the imported instance itself uses: the second is
  how an instance that imports a table becomes a dependency of the table's owner.
\<close>

lemma retainImport_keeps:
  assumes ok: "links_ok L h" and cnt: "counts_ok (released h) h" and all: "unused L h \<subseteq> released h"
    and m: "m < length h" "\<not> mi_memoryClosed (h ! m) \<or> (b, m) \<in> L" and r: "retainImport h m b = Ok (True, h')"
  shows "links_ok (insert (m, b) L) h'" "counts_ok (released h') h'" "unused (insert (m, b) L) h' \<subseteq> released h'"
    "map flags h' = map flags h" "\<not> mi_Closed (h ! b)" "\<not> mi_memoryClosed (h ! b)"
proof -
  note R = retainImport_True [OF r m(1)]
  have f: "map flags h' = map flags h" by (rule R(4))
  have b: "b < length h" "\<not> mi_Closed (h ! b)" "\<not> mi_memoryClosed (h ! b)" by (rule R)+
  have len: "length h' = length h" using flags_nth [OF f] by simp
  have rel: "released h' = released h" using released_flags [OF f] .
  have b_live: "(b, x) \<notin> L\<^sup>*" if "x \<in> released h" for x
    using that links_okD(7) [OF ok] b(3) by (auto simp: unused_def)
  have m_live: "m \<notin> released h" using m(2) b_live links_okD(7) [OF ok] by (auto simp: unused_def)
  have un: "unused L h' = unused L h" using unused_flags [OF f links_okD(1) [OF ok]] .
  have l: "linked h' = insert (m, b) (linked h)"
    using R(5) len b(1) by (auto simp: linked_def keys_def [symmetric] split: if_splits)
  show "map flags h' = map flags h" "\<not> mi_Closed (h ! b)" "\<not> mi_memoryClosed (h ! b)" by (fact f b)+
  have mono: "unused (insert (m, b) L) h' \<subseteq> unused L h'"
    using rtrancl_mono [of L "insert (m, b) L"] by (auto simp: unused_def)
  then show "unused (insert (m, b) L) h' \<subseteq> released h'" using all un rel by blast
  show "links_ok (insert (m, b) L) h'"
  proof (rule links_okI)
    show "insert (m, b) L \<subseteq> {..<length h'} \<times> {..<length h'}" using links_okD(1) [OF ok] len m(1) b(1) by simp
    show "linked h' \<subseteq> insert (m, b) L" using links_okD(2) [OF ok] l by blast
    show "(a, d) \<in> linked h' \<and> d \<in> set (mi_importedModules (h' ! a))" if ad: "(a, d) \<in> insert (m, b) L" "a \<notin> released h'" for a d
    proof (cases "(a, d) = (m, b)")
      case True
      then show ?thesis using l R(6) m(1) by simp
    next
      case False
      then have "(a, d) \<in> L" using ad(1) by blast
      then show ?thesis using links_okD(3,4,8) [OF ok, of a d] ad(2) l rel R(6) by simp
    qed
    show "(a, d) \<in> insert (m, b) L \<and> mi_importers (h' ! d) \<noteq> None"
      if ad: "a < length h'" "d \<in> set (mi_importedModules (h' ! a))" for a d
    proof (cases "a = m \<and> d = b")
      case True
      then show ?thesis using R(7) b(1) by simp
    next
      case False
      then have "d \<in> set (mi_importedModules (h ! a))" using ad R(6) len by (auto split: if_splits)
      then show ?thesis using links_okD(5,6,9) [OF ok, of a d] ad(1) len R(7) by simp
    qed
    show "released h' \<subseteq> unused (insert (m, b) L) h'"
    proof
      fix x assume "x \<in> released h'"
      then have x: "x \<in> released h" "x \<in> unused L h'" using rel un links_okD(7) [OF ok] by auto
      then show "x \<in> unused (insert (m, b) L) h'" using b_live by (auto simp: unused_def rtrancl_insert)
    qed
  qed
  show "counts_ok (released h') h'" unfolding counts_ok_def
  proof (intro allI impI)
    fix a d assume ad: "a < length h'" "d < length h'"
    show "if a \<in> released h' then a \<notin> keys (h' ! d)
      else count_of (h' ! d) a = of_nat (count_list (mi_importedModules (h' ! a)) d) \<and>
        (a \<in> keys (h' ! d) \<longrightarrow> d \<in> set (mi_importedModules (h' ! a)))"
    proof (cases "a = m")
      case True
      then show ?thesis using ad R(5,6,8) cnt m_live len rel unfolding counts_ok_def by simp
    next
      case False
      then show ?thesis using ad R(5,6,8) cnt len rel unfolding counts_ok_def by simp
    qed
  qed
qed

section \<open>No operation returns an error\<close>

definition no_error :: "'a outcome \<Rightarrow> bool" where
  "no_error m \<longleftrightarrow> (\<forall>e. m \<noteq> Err e)"

lemma no_error_simps [simp]: "no_error (Ok a)" "no_error (Panic p)" "no_error (index xs n)"
  by (simp_all add: no_error_def index_def)

lemma no_error_bindO: "no_error m \<Longrightarrow> (\<And>a. m = Ok a \<Longrightarrow> no_error (f a)) \<Longrightarrow> no_error (bindO m f)"
  by (cases m) (simp_all add: no_error_def)

lemma no_error_foldO: "(\<And>x s. no_error (f x s)) \<Longrightarrow> no_error (foldO f xs s)"
  by (induction xs arbitrary: s) (simp_all add: no_error_bindO)

lemma holds_no_error: "holds P m \<Longrightarrow> no_error m \<Longrightarrow> \<exists>a. m = Ok a \<and> P a"
  by (cases m) (simp_all add: no_error_def)

lemma no_error_update_at [simp]: "no_error (update_at h a f)"
  by (simp add: update_at_def no_error_bindO)

lemma no_error_addImporters: "no_error (addImporters h imps ms)"
  by (induction imps arbitrary: ms) (simp_all add: no_error_bindO)

lemma no_error_collectImporters: "no_error (collectImporters h ms i)"
proof (induction h ms i rule: collectImporters.induct)
  case (1 h ms i)
  then show ?case
    by (subst collectImporters.simps) (auto intro!: no_error_bindO no_error_addImporters split: option.splits)
qed

lemma no_error_releaseModule: "no_error (releaseModule c s)"
proof -
  have "no_error (dropImporter h c b)" for h b
    unfolding dropImporter_def by (auto intro!: no_error_bindO simp: Let_def split: option.splits)
  then show ?thesis unfolding releaseModule_def by (auto intro!: no_error_bindO no_error_foldO split: prod.splits)
qed

lemma no_error_retireLoop: "no_error (retireLoop h ready retired)"
proof (induction h ready retired rule: retireLoop.induct)
  case (1 h ready retired)
  have "no_error (unreferencedClosedModules h m)" for m
    by (auto simp: unreferencedClosedModules_def intro!: no_error_bindO no_error_collectImporters)
  moreover have "no_error (markReleased ms h)" for ms by (simp add: markReleased_def no_error_foldO)
  ultimately show ?case using "1.IH"
    by (subst retireLoop.simps)
       (auto simp: Let_def intro!: no_error_bindO no_error_foldO no_error_releaseModule split: option.splits prod.splits)
qed

lemma no_error_releaseMemory: "no_error (releaseMemory h m)"
  by (auto simp: releaseMemory_def intro!: no_error_bindO no_error_retireLoop)

end
