(* ===== verification/ExecutionEpochs.thy ===== *)
theory ExecutionEpochs
  imports ModuleLifetime "HOL-Library.Multiset"
begin

text \<open>
  \<^verbatim>\<open>internal/wasm/execution.go\<close>, second part: guest calls and closing modules run concurrently, and the memory of a
  closed module is freed only when no call that could reach it is still running. A call pins the current epoch before it
  enters the guest. Retiring memory seals the current epoch, and the memory waits in a queue until that epoch and every
  earlier one has no call left.
\<close>

section \<open>The state\<close>

text \<open>
  A thread is at one of the points between two accesses to shared data. What \<^verbatim>\<open>EndExecution\<close> returns to is either the loop of
  \<^verbatim>\<open>BeginExecution\<close> or the caller.
\<close>

datatype after = Retry nat | Return

datatype point =
    Idle
  | Load nat
  | Install nat
  | Pin nat nat
  | Confirm nat nat
  | CheckClosed nat nat
  | Guest nat nat
  | Unpin after nat
  | CheckSealed after nat
  | Acquire after
  | Drain after "nat list"
  | Free after "nat list"
  | Shut nat
  | Retire nat

text \<open>
  An epoch is named by a number; \<open>g_fresh\<close> is the next unused one. \<open>g_queue\<close> is the list from \<^verbatim>\<open>head\<close> to \<^verbatim>\<open>tail\<close>, each sealed
  epoch with the instances whose allocation it retires. The last four fields are not in the program: the order in which
  \<^verbatim>\<open>Free\<close> is called, the links made by \<^verbatim>\<open>retainImport\<close>, the allocations made and retired so far, and what had been retired
  when a thread confirmed its epoch.
\<close>

record world =
  g_heap :: heap
  g_current :: "nat option"
  g_fresh :: nat
  g_active :: "nat \<Rightarrow> int"
  g_queue :: "(nat \<times> nat list) list"
  g_lock :: "nat option"
  g_threads :: "nat \<Rightarrow> point"
  g_freed :: "nat list"
  g_links :: "(nat \<times> nat) list"
  g_allocated :: "nat list"
  g_retired :: "nat list"
  g_old :: "nat \<Rightarrow> nat list"

definition start :: world where
  "start = \<lparr>g_heap = [], g_current = None, g_fresh = 0, g_active = (\<lambda>_. 0), g_queue = [], g_lock = None,
     g_threads = (\<lambda>_. Idle), g_freed = [], g_links = [], g_allocated = [], g_retired = [], g_old = (\<lambda>_. [])\<rparr>"

section \<open>The steps of a thread\<close>

abbreviation blocked :: "'a outcome" where
  "blocked \<equiv> Err (Errorf ''blocked'')"

definition goto :: "nat \<Rightarrow> point \<Rightarrow> world \<Rightarrow> world" where
  "goto t p w = w\<lparr>g_threads := (g_threads w)(t := p)\<rparr>"

definition resume :: "after \<Rightarrow> point" where
  "resume k = (case k of Retry m \<Rightarrow> Load m | Return \<Rightarrow> Idle)"

definition add_active :: "nat \<Rightarrow> int \<Rightarrow> world \<Rightarrow> world" where
  "add_active e d w = w\<lparr>g_active := (g_active w)(e := g_active w e + d)\<rparr>"

text \<open>\<^verbatim>\<open>BeginExecution\<close>: the load of the current epoch, its creation, the pin, the confirmation and the check of the module.\<close>

definition loadEpoch :: "nat \<Rightarrow> nat \<Rightarrow> world \<Rightarrow> world" where
  "loadEpoch t m w = goto t (case g_current w of None \<Rightarrow> Install m | Some e \<Rightarrow> Pin m e) w"

definition installEpoch :: "nat \<Rightarrow> nat \<Rightarrow> world \<Rightarrow> world" where
  "installEpoch t m w = goto t (Load m)
     (if g_current w = None then w\<lparr>g_current := Some (g_fresh w), g_fresh := g_fresh w + 1\<rparr> else w)"

definition confirmEpoch :: "nat \<Rightarrow> nat \<Rightarrow> nat \<Rightarrow> world \<Rightarrow> world" where
  "confirmEpoch t m e w =
     (if g_current w \<noteq> Some e then goto t (Unpin (Retry m) e) w
      else goto t (CheckClosed m e) (w\<lparr>g_old := (g_old w)(t := g_retired w)\<rparr>))"

definition checkClosed :: "nat \<Rightarrow> nat \<Rightarrow> nat \<Rightarrow> world \<Rightarrow> world outcome" where
  "checkClosed t m e w =
     bindO (index (g_heap w) m) (\<lambda>i. Ok (goto t (if mi_Closed i then Unpin Return e else Guest m e) w))"

text \<open>\<^verbatim>\<open>EndExecution\<close>: the decrement, the comparison with the current epoch, and the lock.\<close>

definition unpinEpoch :: "nat \<Rightarrow> after \<Rightarrow> nat \<Rightarrow> world \<Rightarrow> world" where
  "unpinEpoch t k e w =
     (let w = add_active e (-1) w in goto t (if g_active w e \<noteq> 0 then resume k else CheckSealed k e) w)"

definition checkSealed :: "nat \<Rightarrow> after \<Rightarrow> nat \<Rightarrow> world \<Rightarrow> world" where
  "checkSealed t k e w = goto t (if g_current w = Some e then resume k else Acquire k) w"

definition acquire :: "nat \<Rightarrow> after \<Rightarrow> world \<Rightarrow> world outcome" where
  "acquire t k w = (if g_lock w \<noteq> None then blocked else Ok (goto t (Drain k []) (w\<lparr>g_lock := Some t\<rparr>)))"

text \<open>One round of the loop of \<^verbatim>\<open>collectRetiredMemory\<close>; at its end \<^verbatim>\<open>expBuffer\<close> is cleared and the lock is given back.\<close>

definition clearBuffers :: "nat list \<Rightarrow> heap \<Rightarrow> heap" where
  "clearBuffers xs h = fold (\<lambda>x h. h[x := (h ! x)\<lparr>mi_allocated := False\<rparr>]) xs h"

definition collectRetiredMemory :: "nat \<Rightarrow> after \<Rightarrow> nat list \<Rightarrow> world \<Rightarrow> world" where
  "collectRetiredMemory t k retired w =
     (case g_queue w of
        (e, batch) # rest \<Rightarrow>
          if g_active w e = 0 then goto t (Drain k (retired @ batch)) (w\<lparr>g_queue := rest\<rparr>)
          else goto t (Free k retired) (w\<lparr>g_heap := clearBuffers retired (g_heap w), g_lock := None\<rparr>)
      | [] \<Rightarrow> goto t (Free k retired) (w\<lparr>g_heap := clearBuffers retired (g_heap w), g_lock := None\<rparr>))"

definition freeNext :: "nat \<Rightarrow> after \<Rightarrow> nat list \<Rightarrow> world \<Rightarrow> world" where
  "freeNext t k retired w =
     (case retired of [] \<Rightarrow> goto t (resume k) w | x # xs \<Rightarrow> goto t (Free k xs) (w\<lparr>g_freed := g_freed w @ [x]\<rparr>))"

text \<open>\<^verbatim>\<open>CloseWithExitCode\<close> up to the call of \<^verbatim>\<open>retireMemory\<close>: only the first caller closes the resources.\<close>

definition shut :: "nat \<Rightarrow> nat \<Rightarrow> world \<Rightarrow> world outcome" where
  "shut t m w =
     bindO (index (g_heap w) m) (\<lambda>i.
     Ok (if mi_Closed i then goto t Idle w
         else goto t (Retire m) (w\<lparr>g_heap := (g_heap w)[m := i\<lparr>mi_Closed := True\<rparr>]\<rparr>)))"

text \<open>
  \<^verbatim>\<open>retireMemory\<close>: everything up to the \<^verbatim>\<open>Swap\<close> only touches data that the lock guards and is one step with it. A nil
  current epoch is replaced by a new one that no call can have pinned.
\<close>

definition sealCurrent :: "nat list \<Rightarrow> world \<Rightarrow> world" where
  "sealCurrent retired w =
     (case g_current w of
        Some e \<Rightarrow> w\<lparr>g_current := Some (g_fresh w), g_fresh := g_fresh w + 1, g_queue := g_queue w @ [(e, retired)]\<rparr>
      | None \<Rightarrow> w\<lparr>g_current := Some (g_fresh w), g_fresh := g_fresh w + 2, g_queue := g_queue w @ [(g_fresh w + 1, retired)]\<rparr>)"

definition retireMemory :: "nat \<Rightarrow> nat \<Rightarrow> world \<Rightarrow> world outcome" where
  "retireMemory t m w =
     (if g_lock w \<noteq> None then blocked
      else
        bindO (releaseMemory (g_heap w) m) (\<lambda>(h, retired).
        let w = w\<lparr>g_heap := h, g_retired := g_retired w @ retired\<rparr> in
        Ok (if retired = [] then goto t Idle w
            else goto t (Drain Return []) (sealCurrent retired (w\<lparr>g_lock := Some t\<rparr>)))))"

definition advance :: "nat \<Rightarrow> world \<Rightarrow> world outcome" where
  "advance t w =
     (case g_threads w t of
        Idle \<Rightarrow> blocked
      | Load m \<Rightarrow> Ok (loadEpoch t m w)
      | Install m \<Rightarrow> Ok (installEpoch t m w)
      | Pin m e \<Rightarrow> Ok (goto t (Confirm m e) (add_active e 1 w))
      | Confirm m e \<Rightarrow> Ok (confirmEpoch t m e w)
      | CheckClosed m e \<Rightarrow> checkClosed t m e w
      | Guest m e \<Rightarrow> Ok (goto t (Unpin Return e) w)
      | Unpin k e \<Rightarrow> Ok (unpinEpoch t k e w)
      | CheckSealed k e \<Rightarrow> Ok (checkSealed t k e w)
      | Acquire k \<Rightarrow> acquire t k w
      | Drain k retired \<Rightarrow> Ok (collectRetiredMemory t k retired w)
      | Free k retired \<Rightarrow> Ok (freeNext t k retired w)
      | Shut m \<Rightarrow> shut t m w
      | Retire m \<Rightarrow> retireMemory t m w)"

section \<open>What can happen\<close>

text \<open>
  Beside the steps of the threads: an instance is created, its memory is allocated, it is linked to another one, an idle
  thread starts a call, a close, or the deferred closing of resources, and a module is closed without closing its resources.
\<close>

datatype action =
    New
  | Allocate nat
  | Link nat nat
  | StartCall nat nat
  | StartClose nat nat
  | StartDeferred nat nat
  | CloseOnly nat
  | Advance nat

definition start_thread :: "nat \<Rightarrow> point \<Rightarrow> world \<Rightarrow> world outcome" where
  "start_thread t p w = (if g_threads w t = Idle then Ok (goto t p w) else blocked)"

definition act :: "action \<Rightarrow> world \<Rightarrow> world outcome" where
  "act a w =
     (case a of
        New \<Rightarrow> Ok (w\<lparr>g_heap := g_heap w @ [newInstance]\<rparr>)
      | Allocate m \<Rightarrow>
          if m < length (g_heap w) \<and> \<not> mi_memoryClosed (g_heap w ! m) \<and> m \<notin> set (g_allocated w)
          then Ok (w\<lparr>g_heap := (g_heap w)[m := (g_heap w ! m)\<lparr>mi_allocated := True\<rparr>], g_allocated := m # g_allocated w\<rparr>)
          else blocked
      | Link m imported \<Rightarrow>
          if g_lock w = None \<and> m < length (g_heap w) \<and> imported < length (g_heap w) \<and>
            (\<not> mi_memoryClosed (g_heap w ! m) \<or> (imported, m) \<in> set (g_links w))
          then bindO (retainImport (g_heap w) m imported) (\<lambda>(ok, h).
            Ok (if ok then w\<lparr>g_heap := h, g_links := (m, imported) # g_links w\<rparr> else w))
          else blocked
      | StartCall t m \<Rightarrow> if m < length (g_heap w) then start_thread t (Load m) w else blocked
      | StartClose t m \<Rightarrow> if m < length (g_heap w) then start_thread t (Shut m) w else blocked
      | StartDeferred t m \<Rightarrow>
          if m < length (g_heap w) \<and> mi_Closed (g_heap w ! m) then start_thread t (Retire m) w else blocked
      | CloseOnly m \<Rightarrow>
          if m < length (g_heap w) then Ok (w\<lparr>g_heap := (g_heap w)[m := (g_heap w ! m)\<lparr>mi_Closed := True\<rparr>]\<rparr>) else blocked
      | Advance t \<Rightarrow> advance t w)"

inductive reachable :: "world \<Rightarrow> bool" where
  start: "reachable start"
| act: "reachable w \<Longrightarrow> act a w = Ok w' \<Longrightarrow> reachable w'"

section \<open>Sums over the threads\<close>

definition busy :: "(nat \<Rightarrow> point) \<Rightarrow> nat set" where
  "busy th = {t. th t \<noteq> Idle}"

definition total_of :: "(point \<Rightarrow> 'a :: comm_monoid_add) \<Rightarrow> (nat \<Rightarrow> point) \<Rightarrow> 'a" where
  "total_of f th = (\<Sum>t \<in> busy th. f (th t))"

lemma total_of_superset: "finite A \<Longrightarrow> busy th \<subseteq> A \<Longrightarrow> f Idle = 0 \<Longrightarrow> total_of f th = (\<Sum>t \<in> A. f (th t))"
  unfolding total_of_def by (rule sum.mono_neutral_left) (auto simp: busy_def)

lemma total_of_upd:
  assumes "finite (busy th)" "f Idle = 0"
  shows "total_of f (th(t := p)) + f (th t) = total_of f th + f p"
proof -
  let ?A = "insert t (busy th)"
  have "busy (th(t := p)) \<subseteq> ?A" by (auto simp: busy_def)
  then have "total_of f (th(t := p)) = (\<Sum>s \<in> ?A. f ((th(t := p)) s))" using assms by (intro total_of_superset) auto
  moreover have "total_of f th = (\<Sum>s \<in> ?A. f (th s))" using assms by (intro total_of_superset) auto
  moreover have "(\<Sum>s \<in> ?A - {t}. f ((th(t := p)) s)) = (\<Sum>s \<in> ?A - {t}. f (th s))" by (rule sum.cong) auto
  ultimately show ?thesis using assms(1)
    by (simp add: sum.remove [of ?A t] add.commute add.left_commute)
qed

lemma finite_busy_upd [simp]: "finite (busy th) \<Longrightarrow> finite (busy (th(t := p)))"
  by (rule finite_subset [of _ "insert t (busy th)"]) (auto simp: busy_def)

lemma total_of_same:
  fixes f :: "point \<Rightarrow> 'a :: cancel_comm_monoid_add"
  assumes "finite (busy th)" "f Idle = 0" "f p = f (th t)"
  shows "total_of f (th(t := p)) = total_of f th"
  using total_of_upd [of th f t p] assms by simp

section \<open>The shape of the state\<close>

fun pins :: "nat \<Rightarrow> point \<Rightarrow> int" where
  "pins e (Confirm _ e') = (if e' = e then 1 else 0)"
| "pins e (CheckClosed _ e') = (if e' = e then 1 else 0)"
| "pins e (Guest _ e') = (if e' = e then 1 else 0)"
| "pins e (Unpin _ e') = (if e' = e then 1 else 0)"
| "pins e _ = 0"

fun epoch_of :: "point \<Rightarrow> nat option" where
  "epoch_of (Pin _ e) = Some e"
| "epoch_of (Confirm _ e) = Some e"
| "epoch_of (CheckClosed _ e) = Some e"
| "epoch_of (Guest _ e) = Some e"
| "epoch_of (Unpin _ e) = Some e"
| "epoch_of (CheckSealed _ e) = Some e"
| "epoch_of _ = None"

fun collecting :: "point \<Rightarrow> bool" where
  "collecting (Drain _ _) = True"
| "collecting _ = False"

fun after_of :: "after \<Rightarrow> nat set" where
  "after_of (Retry m) = {m}"
| "after_of Return = {}"

fun modules_of :: "point \<Rightarrow> nat set" where
  "modules_of (Load m) = {m}"
| "modules_of (Install m) = {m}"
| "modules_of (Pin m _) = {m}"
| "modules_of (Confirm m _) = {m}"
| "modules_of (CheckClosed m _) = {m}"
| "modules_of (Guest m _) = {m}"
| "modules_of (Unpin k _) = after_of k"
| "modules_of (CheckSealed k _) = after_of k"
| "modules_of (Acquire k) = after_of k"
| "modules_of (Drain k _) = after_of k"
| "modules_of (Free k _) = after_of k"
| "modules_of (Shut m) = {m}"
| "modules_of (Retire m) = {m}"
| "modules_of Idle = {}"

lemma resume_simps [simp]: "pins e (resume k) = 0" "epoch_of (resume k) = None" "modules_of (resume k) = after_of k"
  "\<not> collecting (resume k)" "resume k \<noteq> Retire m" "Retire m \<noteq> resume k"
  "Guest m e \<noteq> resume k" "resume k \<noteq> Guest m e"
  by (cases k; simp add: resume_def)+

definition epoch_below :: "nat \<Rightarrow> point \<Rightarrow> bool" where
  "epoch_below n p \<longleftrightarrow> (\<forall>e. epoch_of p = Some e \<longrightarrow> e < n)"

lemma epoch_below_mono: "epoch_below n p \<Longrightarrow> n \<le> n' \<Longrightarrow> epoch_below n' p"
  by (auto simp: epoch_below_def)

definition counts_pins :: "world \<Rightarrow> bool" where
  "counts_pins w \<longleftrightarrow> finite (busy (g_threads w)) \<and> (\<forall>e. g_active w e = total_of (pins e) (g_threads w))"

definition epochs_ok :: "world \<Rightarrow> bool" where
  "epochs_ok w \<longleftrightarrow>
     (\<forall>e. g_current w = Some e \<longrightarrow> e < g_fresh w \<and> e \<notin> fst ` set (g_queue w)) \<and>
     distinct (map fst (g_queue w)) \<and> (\<forall>e \<in> fst ` set (g_queue w). e < g_fresh w) \<and>
     (\<forall>t. epoch_below (g_fresh w) (g_threads w t))"

definition lock_ok :: "world \<Rightarrow> bool" where
  "lock_ok w \<longleftrightarrow> (\<forall>t. g_lock w = Some t \<longleftrightarrow> collecting (g_threads w t))"

text \<open>Every step, case by case.\<close>

lemma act_cases [consumes 1, case_names Stay New Allocate Link Start CloseOnly Jump Install Pin Confirmed Entered
    Unpin Acquire Take Release Free Shut Retired_none Retired]:
  assumes "act a w = Ok w'"
  obtains (Stay) "w' = w"
  | (New) "w' = w\<lparr>g_heap := g_heap w @ [newInstance]\<rparr>"
  | (Allocate) m where "m < length (g_heap w)" "\<not> mi_memoryClosed (g_heap w ! m)" "m \<notin> set (g_allocated w)"
      "w' = w\<lparr>g_heap := (g_heap w)[m := (g_heap w ! m)\<lparr>mi_allocated := True\<rparr>], g_allocated := m # g_allocated w\<rparr>"
  | (Link) m b h where "g_lock w = None" "m < length (g_heap w)" "\<not> mi_memoryClosed (g_heap w ! m) \<or> (b, m) \<in> set (g_links w)"
      "retainImport (g_heap w) m b = Ok (True, h)" "w' = w\<lparr>g_heap := h, g_links := (m, b) # g_links w\<rparr>"
  | (Start) t m p where "g_threads w t = Idle" "m < length (g_heap w)" "p = Load m \<or> p = Shut m \<or> p = Retire m \<and> mi_Closed (g_heap w ! m)"
      "w' = goto t p w"
  | (CloseOnly) m where "m < length (g_heap w)" "w' = w\<lparr>g_heap := (g_heap w)[m := (g_heap w ! m)\<lparr>mi_Closed := True\<rparr>]\<rparr>"
  | (Jump) t q p where "g_threads w t = q"
      "(\<exists>m e. q = Load m \<and> g_current w = Some e \<and> p = Pin m e) \<or> (\<exists>m. q = Load m \<and> p = Install m) \<or>
       (\<exists>m. q = Install m \<and> p = Load m) \<or> (\<exists>m e. q = Confirm m e \<and> p = Unpin (Retry m) e) \<or>
       (\<exists>m e. q = CheckClosed m e \<and> p = Unpin Return e) \<or> (\<exists>m e. q = Guest m e \<and> p = Unpin Return e) \<or>
       (\<exists>k e. q = CheckSealed k e \<and> g_current w = Some e \<and> p = resume k) \<or>
       (\<exists>k e. q = CheckSealed k e \<and> g_current w \<noteq> Some e \<and> p = Acquire k) \<or>
       (\<exists>k. q = Free k [] \<and> p = resume k) \<or> (\<exists>m. q = Shut m \<and> p = Idle)"
      "w' = goto t p w"
  | (Install) t m where "g_threads w t = Install m" "g_current w = None"
      "w' = goto t (Load m) (w\<lparr>g_current := Some (g_fresh w), g_fresh := g_fresh w + 1\<rparr>)"
  | (Pin) t m e where "g_threads w t = Pin m e" "w' = goto t (Confirm m e) (add_active e 1 w)"
  | (Confirmed) t m e where "g_threads w t = Confirm m e" "g_current w = Some e"
      "w' = goto t (CheckClosed m e) (w\<lparr>g_old := (g_old w)(t := g_retired w)\<rparr>)"
  | (Entered) t m e where "g_threads w t = CheckClosed m e" "m < length (g_heap w)" "\<not> mi_Closed (g_heap w ! m)" "w' = goto t (Guest m e) w"
  | (Unpin) t k e where "g_threads w t = Unpin k e"
      "w' = goto t (if g_active w e \<noteq> 1 then resume k else CheckSealed k e) (add_active e (-1) w)"
  | (Acquire) t k where "g_threads w t = Acquire k" "g_lock w = None" "w' = goto t (Drain k []) (w\<lparr>g_lock := Some t\<rparr>)"
  | (Take) t k xs e batch rest where "g_threads w t = Drain k xs" "g_queue w = (e, batch) # rest" "g_active w e = 0"
      "w' = goto t (Drain k (xs @ batch)) (w\<lparr>g_queue := rest\<rparr>)"
  | (Release) t k xs where "g_threads w t = Drain k xs" "g_queue w = [] \<or> g_active w (fst (hd (g_queue w))) \<noteq> 0"
      "w' = goto t (Free k xs) (w\<lparr>g_heap := clearBuffers xs (g_heap w), g_lock := None\<rparr>)"
  | (Free) t k x xs where "g_threads w t = Free k (x # xs)" "w' = goto t (Free k xs) (w\<lparr>g_freed := g_freed w @ [x]\<rparr>)"
  | (Shut) t m where "g_threads w t = Shut m" "m < length (g_heap w)"
      "w' = goto t (Retire m) (w\<lparr>g_heap := (g_heap w)[m := (g_heap w ! m)\<lparr>mi_Closed := True\<rparr>]\<rparr>)"
  | (Retired_none) t m h where "g_threads w t = Retire m" "g_lock w = None" "releaseMemory (g_heap w) m = Ok (h, [])"
      "w' = goto t Idle (w\<lparr>g_heap := h\<rparr>)"
  | (Retired) t m h retired where "g_threads w t = Retire m" "g_lock w = None" "releaseMemory (g_heap w) m = Ok (h, retired)"
      "w' = goto t (Drain Return []) (sealCurrent retired (w\<lparr>g_heap := h, g_retired := g_retired w @ retired, g_lock := Some t\<rparr>))"
proof (cases a)
  case (Advance t)
  then have *: "advance t w = Ok w'" using assms by (simp add: act_def)
  show ?thesis
  proof (cases "g_threads w t")
    case (Load m)
    then show ?thesis using * Jump [of t "Load m"] by (auto simp: advance_def loadEpoch_def split: option.splits)
  next
    case (Install m)
    then show ?thesis using * Jump [of t "Install m"] that(8)
      by (auto simp: advance_def installEpoch_def split: if_splits)
  next
    case (Pin m e)
    then show ?thesis using * that(9) by (auto simp: advance_def)
  next
    case (Confirm m e)
    then show ?thesis using * Jump [of t "Confirm m e"] Confirmed by (auto simp: advance_def confirmEpoch_def split: if_splits)
  next
    case (CheckClosed m e)
    then show ?thesis using * Jump [of t "CheckClosed m e"] Entered
      by (auto simp: advance_def checkClosed_def bindO_Ok_iff index_Ok_iff split: if_splits)
  next
    case (Guest m e)
    then show ?thesis using * Jump [of t "Guest m e"] by (auto simp: advance_def)
  next
    case (Unpin k e)
    then show ?thesis using * that(12) by (auto simp: advance_def unpinEpoch_def Let_def add_active_def)
  next
    case (CheckSealed k e)
    then show ?thesis using * Jump [of t "CheckSealed k e"] by (auto simp: advance_def checkSealed_def split: if_splits)
  next
    case (Acquire k)
    then show ?thesis using * that(13) by (auto simp: advance_def acquire_def split: if_splits)
  next
    case (Drain k xs)
    then show ?thesis using * Take Release by (auto simp: advance_def collectRetiredMemory_def split: if_splits list.splits)
  next
    case (Free k xs)
    then show ?thesis using * Jump [of t "Free k []"] that(16) by (auto simp: advance_def freeNext_def split: list.splits)
  next
    case (Shut m)
    then show ?thesis using * Jump [of t "Shut m"] that(17)
      by (auto simp: advance_def shut_def bindO_Ok_iff index_Ok_iff split: if_splits)
  next
    case (Retire m)
    then obtain h r where "g_lock w = None" "releaseMemory (g_heap w) m = Ok (h, r)"
      "w' = (if r = [] then goto t Idle (w\<lparr>g_heap := h\<rparr>)
        else goto t (Drain Return []) (sealCurrent r (w\<lparr>g_heap := h, g_retired := g_retired w @ r, g_lock := Some t\<rparr>)))"
      using * by (auto simp: advance_def retireMemory_def bindO_Ok_iff Let_def split: if_splits)
    then show ?thesis using Retired_none [OF Retire] Retired [OF Retire] by (cases "r = []") auto
  qed (use * in \<open>simp add: advance_def\<close>)
next
  case New
  then show ?thesis using assms that(2) by (auto simp: act_def)
next
  case (Allocate m)
  then show ?thesis using assms that(3) by (auto simp: act_def split: if_splits)
next
  case (Link m b)
  then obtain ok h where "g_lock w = None" "m < length (g_heap w)" "\<not> mi_memoryClosed (g_heap w ! m) \<or> (b, m) \<in> set (g_links w)"
    "retainImport (g_heap w) m b = Ok (ok, h)" "w' = (if ok then w\<lparr>g_heap := h, g_links := (m, b) # g_links w\<rparr> else w)"
    using assms by (auto simp: act_def bindO_Ok_iff split: if_splits)
  then show ?thesis using that(1,4) by (cases ok) auto
next
  case (StartCall t m)
  then show ?thesis using assms Start [of t m "Load m"] by (auto simp: act_def start_thread_def split: if_splits)
next
  case (StartClose t m)
  then show ?thesis using assms Start [of t m "Shut m"] by (auto simp: act_def start_thread_def split: if_splits)
next
  case (StartDeferred t m)
  then show ?thesis using assms Start [of t m "Retire m"] by (auto simp: act_def start_thread_def split: if_splits)
next
  case (CloseOnly m)
  then show ?thesis using assms that(6) by (auto simp: act_def split: if_splits)
qed

lemma thread_at: "\<forall>t. P (th t) \<Longrightarrow> th t = p \<Longrightarrow> P p"
  by auto

lemma threads_upd: "\<forall>t. P (th t) \<Longrightarrow> P p \<Longrightarrow> \<forall>s. P ((th(t := p)) s)"
  by simp

lemma epochs_ok_act: "act a w = Ok w' \<Longrightarrow> epochs_ok w \<Longrightarrow> epochs_ok w'"
proof -
  assume a: "act a w = Ok w'" and ok: "epochs_ok w"
  have cur: "\<forall>e. g_current w = Some e \<longrightarrow> e < g_fresh w \<and> e \<notin> fst ` set (g_queue w)"
    and q: "distinct (map fst (g_queue w))" "\<forall>e \<in> fst ` set (g_queue w). e < g_fresh w"
    and th: "\<forall>t. epoch_below (g_fresh w) (g_threads w t)"
    using ok by (simp_all add: epochs_ok_def)
  note at = thread_at [of "epoch_below (g_fresh w)", OF th]
  have two: "epoch_of (g_threads w t) = Some e \<Longrightarrow> e < Suc (Suc (g_fresh w))" for t e
    using th by (metis epoch_below_def less_SucI)
  from a show ?thesis
    by (cases rule: act_cases)
       (insert cur q th, auto simp: epochs_ok_def goto_def add_active_def sealCurrent_def epoch_below_def dest: at intro: less_SucI two split: option.splits)
qed

lemma lock_ok_act: "act a w = Ok w' \<Longrightarrow> lock_ok w \<Longrightarrow> lock_ok w'"
proof -
  assume a: "act a w = Ok w'" and ok: "lock_ok w"
  have held: "collecting (g_threads w t) \<Longrightarrow> g_lock w = Some t" for t using ok by (simp add: lock_ok_def)
  have free: "g_lock w = None \<Longrightarrow> \<not> collecting (g_threads w t)" for t using ok by (simp add: lock_ok_def)
  have only: "g_threads w t = Drain k xs \<Longrightarrow> collecting (g_threads w s) \<Longrightarrow> s = t" for s t k xs
    using held [of s] held [of t] by simp
  have lock: "g_lock w = Some t \<longleftrightarrow> collecting (g_threads w t)" for t using ok by (simp add: lock_ok_def)
  from a show ?thesis
    by (cases rule: act_cases)
       (auto simp: lock_ok_def goto_def add_active_def sealCurrent_def lock free dest: only split: option.splits)
qed

lemma counts_pins_act: "act a w = Ok w' \<Longrightarrow> counts_pins w \<Longrightarrow> counts_pins w'"
proof -
  assume a: "act a w = Ok w'" and ok: "counts_pins w"
  have fin: "finite (busy (g_threads w))" and act: "g_active w e = total_of (pins e) (g_threads w)" for e
    using ok by (simp_all add: counts_pins_def)
  have upd: "total_of (pins e) ((g_threads w)(t := p)) = g_active w e - pins e (g_threads w t) + pins e p" for e t p
    using total_of_upd [OF fin, of "pins e" t p] act by simp
  from a show ?thesis
    by (cases rule: act_cases)
       (auto simp: counts_pins_def goto_def add_active_def sealCurrent_def upd fin act [symmetric] split: option.splits)
qed

section \<open>The heap\<close>

text \<open>Setting \<^verbatim>\<open>Closed\<close> or the allocation of an instance leaves its links alone; so does a new instance.\<close>

definition core :: "lifetime \<Rightarrow> nat list \<times> (nat \<times> u32) list option \<times> bool \<times> bool" where
  "core i = (mi_importedModules i, mi_importers i, mi_memoryClosed i, mi_memoryReleased i)"

lemma core_simps [simp]: "core (i\<lparr>mi_Closed := b\<rparr>) = core i" "core (i\<lparr>mi_allocated := b\<rparr>) = core i"
  by (simp_all add: core_def)

lemma core_nth: "map core h' = map core h \<Longrightarrow> length h' = length h \<and> (\<forall>a < length h. core (h' ! a) = core (h ! a))"
  by (metis length_map nth_map)

lemma core_keeps:
  assumes c: "map core h' = map core h" and ok: "links_ok L h"
  shows "links_ok L h'" "counts_ok D h \<Longrightarrow> counts_ok D h'" "released h' = released h" "unused L h' = unused L h"
proof -
  have len: "length h' = length h" using core_nth [OF c] by simp
  have n: "mi_importedModules (h' ! a) = mi_importedModules (h ! a)" "mi_importers (h' ! a) = mi_importers (h ! a)"
    "mi_memoryClosed (h' ! a) = mi_memoryClosed (h ! a)" "mi_memoryReleased (h' ! a) = mi_memoryReleased (h ! a)"
    "importersOf (h' ! a) = importersOf (h ! a)" "keys (h' ! a) = keys (h ! a)" "count_of (h' ! a) = count_of (h ! a)"
    if "a < length h" for a
    using that core_nth [OF c] by (simp_all add: core_def importersOf_def keys_def count_of_def fun_eq_iff)
  show rel: "released h' = released h" using len n(4) by (auto simp: released_def)
  have user: "u < length h" if "(u, x) \<in> L\<^sup>*" "x < length h" for u x
    using that by (induction rule: converse_rtrancl_induct) (simp_all add: links_okD(8) [OF ok])
  show un: "unused L h' = unused L h" using len n(3) user by (auto simp: unused_def)
  have l: "linked h' = linked h" using len n(5) by (auto simp: linked_def)
  show "links_ok L h'"
  proof (rule links_okI)
    show "L \<subseteq> {..<length h'} \<times> {..<length h'}" "linked h' \<subseteq> L" using links_okD(1,2) [OF ok] len l by simp_all
    show "released h' \<subseteq> unused L h'" using links_okD(7) [OF ok] unfolding rel un .
    show "(a, b) \<in> linked h' \<and> b \<in> set (mi_importedModules (h' ! a))" if "(a, b) \<in> L" "a \<notin> released h'" for a b
      using that links_okD(3,4,8) [OF ok that(1)] unfolding rel l by (simp add: n)
    show "(a, b) \<in> L \<and> mi_importers (h' ! b) \<noteq> None" if "a < length h'" "b \<in> set (mi_importedModules (h' ! a))" for a b
      using that links_okD(5,6) [OF ok, of a b] links_okD(9) [OF ok, of a b] len by (simp add: n)
  qed
  show "counts_ok D h \<Longrightarrow> counts_ok D h'" unfolding counts_ok_def using len n by simp
qed

lemma core_update: "a < length h \<Longrightarrow> core i = core (h ! a) \<Longrightarrow> map core (h[a := i]) = map core h"
  using map_update_same [of a h core "\<lambda>_. i"] by simp

lemma core_clearBuffers: "map core (clearBuffers xs h) = map core h"
proof (induction xs arbitrary: h)
  case (Cons x xs)
  have "map core (h[x := (h ! x)\<lparr>mi_allocated := False\<rparr>]) = map core h"
    by (cases "x < length h") (simp_all add: core_update list_update_beyond)
  then show ?case using Cons [of "h[x := (h ! x)\<lparr>mi_allocated := False\<rparr>]"] by (simp add: clearBuffers_def)
qed (simp add: clearBuffers_def)

lemma clearBuffers_nth: "a < length h \<Longrightarrow>
    clearBuffers xs h ! a = (if a \<in> set xs then (h ! a)\<lparr>mi_allocated := False\<rparr> else h ! a)"
proof (induction xs arbitrary: h)
  case (Cons x xs)
  have "h[x := (h ! x)\<lparr>mi_allocated := False\<rparr>] ! a = (if a = x then (h ! a)\<lparr>mi_allocated := False\<rparr> else h ! a)"
    using Cons.prems by simp
  then show ?case using Cons.IH [of "h[x := (h ! x)\<lparr>mi_allocated := False\<rparr>]"] Cons.prems
    by (cases "a = x") (simp_all add: clearBuffers_def)
qed (simp add: clearBuffers_def)

lemma length_clearBuffers [simp]: "length (clearBuffers xs h) = length h"
  using core_clearBuffers [of xs h] by (metis length_map)

lemma new_keeps:
  assumes ok: "links_ok L h" and cnt: "counts_ok (released h) h" and all: "unused L h \<subseteq> released h"
  shows "links_ok L (h @ [newInstance])" "counts_ok (released (h @ [newInstance])) (h @ [newInstance])"
    "released (h @ [newInstance]) = released h" "unused L (h @ [newInstance]) = unused L h"
proof -
  let ?h = "h @ [newInstance]"
  have new: "\<not> mi_memoryReleased newInstance" "\<not> mi_memoryClosed newInstance" "importersOf newInstance = []"
    "mi_importedModules newInstance = []"
    by (simp_all add: newInstance_def importersOf_def)
  have n: "?h ! a = (if a < length h then h ! a else newInstance)" if "a < length ?h" for a
    using that by (auto simp: nth_append less_Suc_eq)
  show rel: "released ?h = released h" using new by (auto simp: released_def nth_append less_Suc_eq split: if_splits)
  have user: "u < length h" if "(u, x) \<in> L\<^sup>*" "x < length h" for u x
    using that by (induction rule: converse_rtrancl_induct) (simp_all add: links_okD(8) [OF ok])
  show un: "unused L ?h = unused L h"
  proof -
    have "length h \<notin> unused L ?h" using new(2) by (auto simp: unused_def)
    then show ?thesis using user by (auto simp: unused_def nth_append less_Suc_eq split: if_splits)
  qed
  have l: "linked ?h = linked h" using new(3) by (auto simp: linked_def nth_append less_Suc_eq)
  show "links_ok L ?h"
  proof (rule links_okI)
    show "L \<subseteq> {..<length ?h} \<times> {..<length ?h}" using links_okD(1) [OF ok] by auto
    show "linked ?h \<subseteq> L" using links_okD(2) [OF ok] unfolding l .
    show "released ?h \<subseteq> unused L ?h" using links_okD(7) [OF ok] unfolding rel un .
    show "(a, b) \<in> linked ?h \<and> b \<in> set (mi_importedModules (?h ! a))" if "(a, b) \<in> L" "a \<notin> released ?h" for a b
      using that links_okD(3,4,8) [OF ok that(1)] unfolding rel l by (simp add: nth_append)
    show "(a, b) \<in> L \<and> mi_importers (?h ! b) \<noteq> None" if "a < length ?h" "b \<in> set (mi_importedModules (?h ! a))" for a b
    proof -
      have "a < length h" "b \<in> set (mi_importedModules (h ! a))" using that new(4) by (auto simp: nth_append less_Suc_eq split: if_splits)
      then show ?thesis using links_okD(5,6) [OF ok, of a b] links_okD(9) [OF ok, of a b] by (simp add: nth_append)
    qed
  qed
  show "counts_ok (released ?h) ?h" unfolding counts_ok_def rel
  proof (intro allI impI)
    fix a b assume ab: "a < length ?h" "b < length ?h"
    have new': "keys newInstance = {}" "count_of newInstance x = 0" for x
      using new(3) by (simp_all add: keys_def count_of_def counter_def)
    have out: "a \<notin> keys (h ! b)" "count_of (h ! b) a = 0" if "a = length h" "b < length h"
    proof -
      have "(a, b) \<notin> linked h" using links_okD(2,8) [OF ok] that by blast
      then show "a \<notin> keys (h ! b)" using that by (auto simp: linked_def keys_def)
      then have "map_of (importersOf (h ! b)) a = None" by (simp add: map_of_eq_None_iff keys_def)
      then show "count_of (h ! b) a = 0" by (simp add: count_of_def counter_def)
    qed
    have in_range: "b \<in> set (mi_importedModules (h ! a)) \<Longrightarrow> a < length h \<Longrightarrow> b < length h"
      using links_okD(5,9) [OF ok] by blast
    show "if a \<in> released h then a \<notin> keys (?h ! b)
      else count_of (?h ! b) a = of_nat (count_list (mi_importedModules (?h ! a)) b) \<and>
        (a \<in> keys (?h ! b) \<longrightarrow> b \<in> set (mi_importedModules (?h ! a)))"
    proof (cases "a < length h")
      case True
      show ?thesis
      proof (cases "b < length h")
        case False
        then have "b = length h" "b \<notin> set (mi_importedModules (h ! a))" using ab in_range True by auto
        then show ?thesis using True new' count_notin [of b "mi_importedModules (h ! a)"] by (simp add: nth_append)
      next
        case b: True
        then have "?h ! a = h ! a" "?h ! b = h ! b" using True by (simp_all add: nth_append)
        then show ?thesis using cnt True b unfolding counts_ok_def by simp
      qed
    next
      case False
      then have a: "a = length h" "?h ! a = newInstance" "a \<notin> released h" using ab n [OF ab(1)] by (auto simp: released_def)
      show ?thesis
      proof (cases "b < length h")
        case True
        then show ?thesis using a out new(4) by (simp add: nth_append)
      next
        case False
        then have "?h ! b = newInstance" using n [OF ab(2)] by simp
        then show ?thesis using a new' new(4) by simp
      qed
    qed
  qed
qed

definition heap_ok :: "world \<Rightarrow> bool" where
  "heap_ok w \<longleftrightarrow> links_ok (set (g_links w)) (g_heap w) \<and> counts_ok (released (g_heap w)) (g_heap w) \<and>
     unused (set (g_links w)) (g_heap w) \<subseteq> released (g_heap w)"

lemma Closed_core: "m < length h \<Longrightarrow> map core (h[m := (h ! m)\<lparr>mi_Closed := b\<rparr>]) = map core h"
  "m < length h \<Longrightarrow> map core (h[m := (h ! m)\<lparr>mi_allocated := b\<rparr>]) = map core h"
  by (simp_all add: core_update)

lemma heap_ok_core: "heap_ok w \<Longrightarrow> map core (g_heap w') = map core (g_heap w) \<Longrightarrow> g_links w' = g_links w \<Longrightarrow> heap_ok w'"
  using core_keeps [of "g_heap w'" "g_heap w" "set (g_links w)"] by (simp add: heap_ok_def)

text \<open>Threads only speak about instances that exist, and an instance whose memory is given back has been closed before.\<close>

definition closed_first :: "world \<Rightarrow> bool" where
  "closed_first w \<longleftrightarrow> (\<forall>t. modules_of (g_threads w t) \<subseteq> {..<length (g_heap w)}) \<and>
     (\<forall>t m. g_threads w t = Retire m \<longrightarrow> mi_Closed (g_heap w ! m)) \<and>
     (\<forall>a < length (g_heap w). mi_memoryClosed (g_heap w ! a) \<longrightarrow> mi_Closed (g_heap w ! a))"

lemma closed_firstD:
  assumes "closed_first w"
  shows "g_threads w t = p \<Longrightarrow> modules_of p \<subseteq> {..<length (g_heap w)}" "g_threads w t = Retire m \<Longrightarrow> mi_Closed (g_heap w ! m)"
    "a < length (g_heap w) \<Longrightarrow> mi_memoryClosed (g_heap w ! a) \<Longrightarrow> mi_Closed (g_heap w ! a)"
  using assms unfolding closed_first_def by blast+

lemma releaseMemory_world:
  assumes "heap_ok w" "m < length (g_heap w)" "releaseMemory (g_heap w) m = Ok (h, retired)"
  shows "links_ok (set (g_links w)) h" "counts_ok (released h) h" "released (g_heap w) \<subseteq> released h"
    "unused (set (g_links w)) h \<subseteq> released h"
    "map kept h = map kept ((g_heap w)[m := (g_heap w ! m)\<lparr>mi_memoryClosed := True\<rparr>])" "distinct retired"
    "set retired = {x \<in> released h - released (g_heap w). mi_allocated (g_heap w ! x)}"
  using holds_OkD [OF holds_releaseMemory assms(3), of "set (g_links w)"] assms(1,2) by (simp_all add: heap_ok_def)

lemma heap_ok_act: "act a w = Ok w' \<Longrightarrow> heap_ok w \<Longrightarrow> closed_first w \<Longrightarrow> heap_ok w'"
proof -
  assume a: "act a w = Ok w'" and ok: "heap_ok w" and cf: "closed_first w"
  have ok': "links_ok (set (g_links w)) (g_heap w)" "counts_ok (released (g_heap w)) (g_heap w)"
    "unused (set (g_links w)) (g_heap w) \<subseteq> released (g_heap w)"
    using ok by (simp_all add: heap_ok_def)
  have m: "m < length (g_heap w)" if "g_threads w t = Retire m" for t m
    using closed_firstD(1) [OF cf that] by simp
  from a show ?thesis
  proof (cases rule: act_cases)
    case New
    then show ?thesis using new_keeps [OF ok'] ok'(3) by (simp add: heap_ok_def)
  next
    case (Link m b h)
    then show ?thesis using retainImport_keeps(1-3) [OF ok' Link(2) _ Link(4)] Link(3) by (simp add: heap_ok_def)
  next
    case (Retired_none t m h)
    then show ?thesis using releaseMemory_world [OF ok m [OF Retired_none(1)] Retired_none(3)] by (simp add: heap_ok_def goto_def)
  next
    case (Retired t m h retired)
    then show ?thesis using releaseMemory_world [OF ok m [OF Retired(1)] Retired(3)]
      by (simp add: heap_ok_def goto_def sealCurrent_def split: option.splits)
  qed (use ok in \<open>auto intro!: heap_ok_core [OF ok] simp: goto_def add_active_def Closed_core core_clearBuffers\<close>)
qed

text \<open>One step of a thread may change the heap only in these ways.\<close>

lemma closed_firstI:
  assumes cf: "closed_first w" and w': "g_threads w' = (g_threads w)(t := p)" and p: "modules_of p \<subseteq> {..<length (g_heap w)}"
    and len: "length (g_heap w') = length (g_heap w)" and r: "\<And>m. p = Retire m \<Longrightarrow> mi_Closed (g_heap w' ! m)"
    and c: "\<And>a. a < length (g_heap w) \<Longrightarrow> mi_Closed (g_heap w ! a) \<Longrightarrow> mi_Closed (g_heap w' ! a)"
    and mc: "\<And>a. a < length (g_heap w) \<Longrightarrow> mi_memoryClosed (g_heap w' ! a) \<Longrightarrow> mi_memoryClosed (g_heap w ! a) \<or> mi_Closed (g_heap w' ! a)"
  shows "closed_first w'"
  unfolding closed_first_def
proof (intro conjI allI impI)
  show "modules_of (g_threads w' s) \<subseteq> {..<length (g_heap w')}" for s
    using p w' len closed_firstD(1) [OF cf refl, of s] by simp
  show "mi_Closed (g_heap w' ! m)" if "g_threads w' s = Retire m" for s m
  proof (cases "s = t")
    case False
    then have s: "g_threads w s = Retire m" using that w' by simp
    show ?thesis using c [of m] closed_firstD(1,2) [OF cf s] by simp
  qed (use that w' r in simp)
  show "mi_Closed (g_heap w' ! a)" if "a < length (g_heap w')" "mi_memoryClosed (g_heap w' ! a)" for a
    using mc [of a] that len closed_firstD(3) [OF cf, of a] c [of a] by auto
qed

lemma closed_first_act: "act a w = Ok w' \<Longrightarrow> heap_ok w \<Longrightarrow> closed_first w \<Longrightarrow> closed_first w'"
proof -
  assume a: "act a w = Ok w'" and ok: "heap_ok w" and cf: "closed_first w"
  note at = closed_firstD(1) [OF cf]
  have upd: "mi_Closed ((g_heap w)[m := (g_heap w ! m)\<lparr>mi_Closed := True\<rparr>] ! x) = (x = m \<or> mi_Closed (g_heap w ! x))"
    "mi_memoryClosed ((g_heap w)[m := (g_heap w ! m)\<lparr>mi_Closed := True\<rparr>] ! x) = mi_memoryClosed (g_heap w ! x)"
    if "m < length (g_heap w)" for m x
    using that by (auto simp: nth_list_update)
  have k: "mi_Closed (h ! x) = mi_Closed (g_heap w ! x)" "mi_memoryClosed (h ! x) \<Longrightarrow> mi_memoryClosed (g_heap w ! x) \<or> x = m"
    "length h = length (g_heap w)"
    if "g_threads w t = Retire m" "releaseMemory (g_heap w) m = Ok (h, r)" "x < length (g_heap w)" for t m h r x
  proof -
    have m: "m < length (g_heap w)" using at [OF that(1)] by simp
    note K = kept_nth [OF releaseMemory_world(5) [OF ok m that(2)]]
    show "length h = length (g_heap w)" using K by simp
    have "kept (h ! x) = kept ((g_heap w)[m := (g_heap w ! m)\<lparr>mi_memoryClosed := True\<rparr>] ! x)" using K that(3) by simp
    then show "mi_Closed (h ! x) = mi_Closed (g_heap w ! x)" "mi_memoryClosed (h ! x) \<Longrightarrow> mi_memoryClosed (g_heap w ! x) \<or> x = m"
      using that(3) by (cases "x = m"; simp add: kept_def)+
  qed
  from a show ?thesis
  proof (cases rule: act_cases)
    case New
    have len: "x < length (g_heap w)" if "x \<in> modules_of (g_threads w t)" for x t using at [OF refl, of t] that by auto
    then have "m < length (g_heap w)" if "g_threads w t = Retire m" for t m using that by (metis insertI1 modules_of.simps(13))
    then show ?thesis using New closed_firstD(2,3) [OF cf] len unfolding closed_first_def
      by (auto simp: nth_append newInstance_def less_Suc_eq)
  next
    case (Link m b h)
    have "map flags h = map flags (g_heap w)" by (rule retainImport_True(4) [OF Link(4,2)])
    note f = flags_nth [OF this]
    have "x < length (g_heap w)" if "g_threads w 0 = Retire x" for x using at [OF that] by simp
    then show ?thesis
      by (intro closed_firstI [OF cf, of _ 0 "g_threads w 0"]) (use Link f at closed_firstD(2) [OF cf] in \<open>auto simp: flags_def\<close>)
  next
    case (Retired_none t m h)
    note K = k [OF Retired_none(1,3)]
    show ?thesis
      by (rule closed_firstI [OF cf, of _ t Idle]) (use Retired_none K closed_firstD(2) [OF cf Retired_none(1)] at [OF Retired_none(1)] in \<open>auto simp: goto_def\<close>)
  next
    case (Retired t m h r)
    note K = k [OF Retired(1,3)]
    show ?thesis
      by (rule closed_firstI [OF cf, of _ t "Drain Return []"])
         (use Retired K closed_firstD(2) [OF cf Retired(1)] at [OF Retired(1)] in \<open>auto simp: goto_def sealCurrent_def split: option.splits\<close>)
  next
    case (Allocate m)
    show ?thesis
      by (rule closed_firstI [OF cf, of _ 0 "g_threads w 0"])
         (use Allocate at closed_firstD(2) [OF cf, of 0] in \<open>auto simp: nth_list_update split: if_splits\<close>)
  next
    case (CloseOnly m)
    show ?thesis
      by (rule closed_firstI [OF cf, of _ 0 "g_threads w 0"])
         (use CloseOnly at closed_firstD(2) [OF cf, of 0] in \<open>auto simp: upd\<close>)
  next
    case (Shut t m)
    show ?thesis by (rule closed_firstI [OF cf, of _ t "Retire m"]) (use Shut in \<open>auto simp: goto_def upd\<close>)
  next
    case (Start t m p)
    show ?thesis by (rule closed_firstI [OF cf, of _ t p]) (use Start in \<open>auto simp: goto_def\<close>)
  next
    case (Jump t q p)
    show ?thesis by (rule closed_firstI [OF cf, of _ t p]) (use Jump at [OF Jump(1)] in \<open>auto simp: goto_def\<close>)
  next
    case (Install t m)
    show ?thesis by (rule closed_firstI [OF cf, of _ t "Load m"]) (use Install at [OF Install(1)] in \<open>auto simp: goto_def\<close>)
  next
    case (Pin t m e)
    show ?thesis by (rule closed_firstI [OF cf, of _ t "Confirm m e"]) (use Pin at [OF Pin(1)] in \<open>auto simp: goto_def add_active_def\<close>)
  next
    case (Confirmed t m e)
    show ?thesis by (rule closed_firstI [OF cf, of _ t "CheckClosed m e"]) (use Confirmed at [OF Confirmed(1)] in \<open>auto simp: goto_def\<close>)
  next
    case (Entered t m e)
    show ?thesis by (rule closed_firstI [OF cf, of _ t "Guest m e"]) (use Entered at [OF Entered(1)] in \<open>auto simp: goto_def\<close>)
  next
    case (Unpin t k e)
    show ?thesis
      by (rule closed_firstI [OF cf, of _ t "if g_active w e \<noteq> 1 then resume k else CheckSealed k e"])
         (use Unpin at [OF Unpin(1)] in \<open>auto simp: goto_def add_active_def split: if_splits\<close>)
  next
    case (Acquire t k)
    show ?thesis by (rule closed_firstI [OF cf, of _ t "Drain k []"]) (use Acquire at [OF Acquire(1)] in \<open>auto simp: goto_def\<close>)
  next
    case (Take t k xs e batch rest)
    show ?thesis by (rule closed_firstI [OF cf, of _ t "Drain k (xs @ batch)"]) (use Take at [OF Take(1)] in \<open>auto simp: goto_def\<close>)
  next
    case (Release t k xs)
    show ?thesis
      by (rule closed_firstI [OF cf, of _ t "Free k xs"])
         (use Release at [OF Release(1)] in \<open>auto simp: goto_def clearBuffers_nth split: if_splits\<close>)
  next
    case (Free t k x xs)
    show ?thesis by (rule closed_firstI [OF cf, of _ t "Free k xs"]) (use Free at [OF Free(1)] in \<open>auto simp: goto_def\<close>)
  qed (use cf in simp)
qed

section \<open>Every allocation is retired once and freed once\<close>

fun holding :: "point \<Rightarrow> nat multiset" where
  "holding (Drain _ xs) = mset xs"
| "holding (Free _ xs) = mset xs"
| "holding _ = {#}"

lemma holding_resume [simp]: "holding (resume k) = {#}"
  by (cases k) (simp_all add: resume_def)

definition queued :: "world \<Rightarrow> nat list" where
  "queued w = concat (map snd (g_queue w))"

definition accounted :: "world \<Rightarrow> bool" where
  "accounted w \<longleftrightarrow> distinct (g_retired w) \<and>
     mset (g_retired w) = mset (g_freed w) + mset (queued w) + total_of holding (g_threads w)"

definition allocations_ok :: "world \<Rightarrow> bool" where
  "allocations_ok w \<longleftrightarrow> set (g_allocated w) \<subseteq> {..<length (g_heap w)} \<and>
     set (g_retired w) = released (g_heap w) \<inter> set (g_allocated w) \<and>
     (\<forall>x < length (g_heap w). x \<notin> released (g_heap w) \<longrightarrow> (mi_allocated (g_heap w ! x) \<longleftrightarrow> x \<in> set (g_allocated w)))"

lemma holding_le: "finite (busy th) \<Longrightarrow> holding (th t) \<subseteq># total_of holding th"
proof -
  assume fin: "finite (busy th)"
  have "total_of holding (th(t := Idle)) + holding (th t) = total_of holding th" using total_of_upd [OF fin, of holding t Idle] by simp
  then show ?thesis by (metis mset_subset_eq_add_right)
qed

lemma accounted_act: "act a w = Ok w' \<Longrightarrow> accounted w \<Longrightarrow> counts_pins w \<Longrightarrow> allocations_ok w \<Longrightarrow> heap_ok w \<Longrightarrow> closed_first w \<Longrightarrow> accounted w'"
proof -
  assume a: "act a w = Ok w'" and ok: "accounted w" "counts_pins w" "allocations_ok w" "heap_ok w" "closed_first w"
  have fin: "finite (busy (g_threads w))" using ok(2) by (simp add: counts_pins_def)
  have eq: "mset (g_retired w) = mset (g_freed w) + mset (queued w) + total_of holding (g_threads w)"
    and dist: "distinct (g_retired w)"
    using ok(1) by (simp_all add: accounted_def)
  have upd: "total_of holding ((g_threads w)(t := p)) + holding (g_threads w t) = total_of holding (g_threads w) + holding p" for t p
    by (rule total_of_upd [OF fin]) simp
  have same: "accounted w'" if "g_threads w' = (g_threads w)(t := p)" "holding p = holding (g_threads w t)" "g_retired w' = g_retired w"
    "g_freed w' = g_freed w" "g_queue w' = g_queue w" for t p
    using that ok(1) upd [of t p] by (simp add: accounted_def queued_def)
  from a show ?thesis
  proof (cases rule: act_cases)
    case (Take t k xs e batch rest)
    have "total_of holding ((g_threads w)(t := Drain k (xs @ batch))) = total_of holding (g_threads w) + mset batch"
      using upd [of t "Drain k (xs @ batch)"] Take(1) by (simp add: add.left_commute)
    then show ?thesis using Take eq dist by (simp add: accounted_def queued_def goto_def)
  next
    case (Free t k x xs)
    have "total_of holding (g_threads w) = add_mset x (total_of holding ((g_threads w)(t := Free k xs)))"
      using upd [of t "Free k xs"] Free(1) by simp
    then show ?thesis using Free eq dist by (simp add: accounted_def queued_def goto_def)
  next
    case (Retired t m h r)
    have m: "m < length (g_heap w)" using closed_firstD(1) [OF ok(5) Retired(1)] by simp
    note R = releaseMemory_world [OF ok(4) m Retired(3)]
    have "distinct (g_retired w @ r)" using dist R(6,7) ok(3) by (auto simp: allocations_ok_def)
    moreover have "total_of holding ((g_threads w)(t := Drain Return [])) = total_of holding (g_threads w)"
      using upd [of t "Drain Return []"] Retired(1) by simp
    ultimately show ?thesis using Retired eq by (simp add: accounted_def queued_def goto_def sealCurrent_def split: option.splits)
  next
    case (Start t m p)
    then show ?thesis by (intro same [of t p]) (auto simp: goto_def)
  next
    case (Jump t q p)
    then show ?thesis by (intro same [of t p]) (auto simp: goto_def)
  next
    case (Unpin t k e)
    then show ?thesis by (intro same [of t "if g_active w e \<noteq> 1 then resume k else CheckSealed k e"]) (auto simp: goto_def add_active_def)
  qed (use ok(1) same in \<open>auto simp: accounted_def queued_def goto_def add_active_def total_of_same fin\<close>)
qed

lemma retired_le: "accounted w \<Longrightarrow> counts_pins w \<Longrightarrow> g_threads w t = p \<Longrightarrow> set_mset (holding p) \<subseteq> set (g_retired w)"
proof -
  assume ok: "accounted w" "counts_pins w" and t: "g_threads w t = p"
  have "holding p \<subseteq># total_of holding (g_threads w)" using holding_le [of "g_threads w" t] ok(2) t by (simp add: counts_pins_def)
  also have "\<dots> \<subseteq># mset (g_retired w)" using ok(1) by (simp add: accounted_def)
  finally show ?thesis by (metis set_mset_mono set_mset_mset)
qed

lemma allocations_ok_act:
  "act a w = Ok w' \<Longrightarrow> allocations_ok w \<Longrightarrow> accounted w \<Longrightarrow> counts_pins w \<Longrightarrow> heap_ok w \<Longrightarrow> closed_first w \<Longrightarrow> allocations_ok w'"
proof -
  assume a: "act a w = Ok w'" and ok: "allocations_ok w" "accounted w" "counts_pins w" "heap_ok w" "closed_first w"
  have heap: "links_ok (set (g_links w)) (g_heap w)" "counts_ok (released (g_heap w)) (g_heap w)"
    "unused (set (g_links w)) (g_heap w) \<subseteq> released (g_heap w)"
    using ok(4) by (simp_all add: heap_ok_def)
  have al: "set (g_allocated w) \<subseteq> {..<length (g_heap w)}" "set (g_retired w) = released (g_heap w) \<inter> set (g_allocated w)"
    "x < length (g_heap w) \<Longrightarrow> x \<notin> released (g_heap w) \<Longrightarrow> mi_allocated (g_heap w ! x) \<longleftrightarrow> x \<in> set (g_allocated w)" for x
    using ok(1) by (simp_all add: allocations_ok_def)
  have same: "allocations_ok w'" if "map flags (g_heap w') = map flags (g_heap w)" "g_allocated w' = g_allocated w" "g_retired w' = g_retired w"
    using that al flags_nth [OF that(1)] released_flags [OF that(1)] by (simp add: allocations_ok_def flags_def)
  have Closed: "released ((g_heap w)[m := (g_heap w ! m)\<lparr>mi_Closed := True\<rparr>]) = released (g_heap w)"
    "mi_allocated ((g_heap w)[m := (g_heap w ! m)\<lparr>mi_Closed := True\<rparr>] ! x) = mi_allocated (g_heap w ! x)" if "m < length (g_heap w)" for m x
    using core_keeps(3) [OF Closed_core(1) [OF that] heap(1)] that by (auto simp: nth_list_update)
  have retire: "allocations_ok w'"
    if t: "g_threads w t = Retire m" and R: "releaseMemory (g_heap w) m = Ok (g_heap w', r)"
      and w': "g_allocated w' = g_allocated w" "g_retired w' = g_retired w @ r" for t m r
  proof -
    have m: "m < length (g_heap w)" using closed_firstD(1) [OF ok(5) t] by simp
    note W = releaseMemory_world [OF ok(4) m R]
    note K = kept_nth [OF W(5)]
    have alloc: "mi_allocated (g_heap w' ! x) = mi_allocated (g_heap w ! x)" if "x < length (g_heap w)" for x
      using K that by (cases "x = m") (simp_all add: kept_def)
    have len: "length (g_heap w') = length (g_heap w)" using K by simp
    have "x < length (g_heap w)" if "x \<in> released (g_heap w')" for x using that len by (simp add: released_def)
    then have "set (g_retired w @ r) = released (g_heap w') \<inter> set (g_allocated w)"
      using W(3,7) al(2,3) by auto
    moreover have "mi_allocated (g_heap w' ! x) \<longleftrightarrow> x \<in> set (g_allocated w)"
      if "x < length (g_heap w)" "x \<notin> released (g_heap w')" for x
      using al(3) [of x] alloc [of x] W(3) that by blast
    ultimately show ?thesis using al(1) w' len unfolding allocations_ok_def by simp
  qed
  from a show ?thesis
  proof (cases rule: act_cases)
    case New
    have "x < length (g_heap w)" if "x \<in> set (g_allocated w)" for x using al(1) that by auto
    then show ?thesis using New new_keeps(3) [OF heap] al
      by (auto simp: allocations_ok_def nth_append less_Suc_eq newInstance_def)
  next
    case (Allocate m)
    have "m \<notin> released (g_heap w)" using links_okD(7) [OF heap(1)] Allocate(2) by (auto simp: unused_def)
    moreover have "released (g_heap w') = released (g_heap w)"
      using core_keeps(3) [OF Closed_core(2) [OF Allocate(1)] heap(1)] Allocate(4) by simp
    ultimately show ?thesis using Allocate al by (auto simp: allocations_ok_def nth_list_update)
  next
    case (Link m b h)
    then show ?thesis using retainImport_True(4) [OF Link(4,2)] by (intro same) auto
  next
    case (CloseOnly m)
    then show ?thesis using al Closed [OF CloseOnly(1)] by (simp add: allocations_ok_def)
  next
    case (Shut t m)
    then show ?thesis using al Closed [OF Shut(2)] by (simp add: allocations_ok_def goto_def)
  next
    case (Release t k xs)
    have "set xs \<subseteq> released (g_heap w)" using retired_le [OF ok(2,3) Release(1)] al(2) by simp
    moreover have "released (clearBuffers xs (g_heap w)) = released (g_heap w)" by (rule core_keeps(3) [OF core_clearBuffers heap(1)])
    ultimately show ?thesis using Release al by (auto simp: allocations_ok_def goto_def clearBuffers_nth)
  next
    case (Retired_none t m h)
    then show ?thesis by (intro retire [of t m "[]"]) (simp_all add: goto_def)
  next
    case (Retired t m h r)
    then show ?thesis by (intro retire [of t m r]) (simp_all add: goto_def sealCurrent_def split: option.splits)
  qed (use ok(1) in \<open>auto simp: allocations_ok_def goto_def add_active_def\<close>)
qed

section \<open>What a running call keeps from being freed\<close>

text \<open>
  A confirmed call: its epoch is current, or it waits in the queue; whatever has been retired and does not wait in the queue
  from that epoch on had been retired when the call confirmed the epoch.
\<close>

definition from_epoch :: "nat \<Rightarrow> (nat \<times> nat list) list \<Rightarrow> nat list" where
  "from_epoch e q = concat (map snd (dropWhile (\<lambda>(e', _). e' \<noteq> e) q))"

fun confirmed :: "point \<Rightarrow> nat option" where
  "confirmed (CheckClosed _ e) = Some e"
| "confirmed (Guest _ e) = Some e"
| "confirmed _ = None"

definition pinned_ok :: "world \<Rightarrow> bool" where
  "pinned_ok w \<longleftrightarrow> (\<forall>t e. confirmed (g_threads w t) = Some e \<longrightarrow>
     (g_current w = Some e \<or> e \<in> fst ` set (g_queue w)) \<and> set (g_old w t) \<subseteq> set (g_retired w) \<and>
     set (g_retired w) - set (from_epoch e (g_queue w)) \<subseteq> set (g_old w t))"

definition guests_ok :: "world \<Rightarrow> bool" where
  "guests_ok w \<longleftrightarrow> (\<forall>t m e. g_threads w t = Guest m e \<longrightarrow> (\<forall>x \<in> set (g_old w t). (m, x) \<notin> (set (g_links w))\<^sup>*))"

lemma confirmed_resume [simp]: "confirmed (resume k) = None"
  by (cases k) (simp_all add: resume_def)

lemma from_epoch_notin: "e \<notin> fst ` set q \<Longrightarrow> from_epoch e q = []"
proof -
  assume "e \<notin> fst ` set q"
  then have "dropWhile (\<lambda>(e', _). e' \<noteq> e) q = []" by (force simp: dropWhile_eq_Nil_conv)
  then show ?thesis by (simp only: from_epoch_def list.map concat.simps)
qed

lemma from_epoch_append: "from_epoch e (q @ [(e', b)]) =
    (if e \<in> fst ` set q then from_epoch e q @ b else if e' = e then b else [])"
proof (induction q)
  case (Cons p q)
  have "from_epoch e ((a, c) # q) = (if a = e then c @ concat (map snd q) else from_epoch e q)" for a c q
    by (simp add: from_epoch_def)
  then show ?case using Cons by (cases p) simp
qed (simp add: from_epoch_def)

lemma pins_pos: "counts_pins w \<Longrightarrow> pins e (g_threads w t) = 1 \<Longrightarrow> g_active w e \<noteq> 0"
proof -
  assume ok: "counts_pins w" and t: "pins e (g_threads w t) = 1"
  have nonneg: "0 \<le> pins e p" for p by (cases p) auto
  have fin: "finite (busy (g_threads w))" using ok by (simp add: counts_pins_def)
  have "total_of (pins e) ((g_threads w)(t := Idle)) + pins e (g_threads w t) = total_of (pins e) (g_threads w)"
    using total_of_upd [OF fin, of "pins e" t Idle] by simp
  moreover have "0 \<le> total_of (pins e) ((g_threads w)(t := Idle))" unfolding total_of_def by (rule sum_nonneg) (simp add: nonneg)
  ultimately show ?thesis using t ok by (simp add: counts_pins_def)
qed

lemma pinned_ok_act:
  "act a w = Ok w' \<Longrightarrow> pinned_ok w \<Longrightarrow> counts_pins w \<Longrightarrow> epochs_ok w \<Longrightarrow> pinned_ok w'"
proof -
  assume a: "act a w = Ok w'" and ok: "pinned_ok w" "counts_pins w" "epochs_ok w"
  have pin: "g_current w = Some e \<or> e \<in> fst ` set (g_queue w)" "set (g_old w t) \<subseteq> set (g_retired w)"
    "set (g_retired w) - set (from_epoch e (g_queue w)) \<subseteq> set (g_old w t)" if "confirmed (g_threads w t) = Some e" for t e
    using ok(1) that by (simp_all add: pinned_ok_def)
  have same: "pinned_ok w'" if "g_threads w' = (g_threads w)(t := p)" "confirmed p = None \<or> confirmed p = confirmed (g_threads w t)"
    "g_retired w' = g_retired w" "g_old w' = g_old w" "g_queue w' = g_queue w" "g_current w' = g_current w \<or> g_current w = None" for t p
    unfolding pinned_ok_def
  proof (intro allI impI)
    fix s e assume s: "confirmed (g_threads w' s) = Some e"
    have "confirmed (g_threads w s) = Some e" using s that(1,2) by (cases "s = t") auto
    from pin [OF this] show "(g_current w' = Some e \<or> e \<in> fst ` set (g_queue w')) \<and> set (g_old w' s) \<subseteq> set (g_retired w') \<and>
      set (g_retired w') - set (from_epoch e (g_queue w')) \<subseteq> set (g_old w' s)"
      unfolding that(3-5) using that(6) by auto
  qed
  from a show ?thesis
  proof (cases rule: act_cases)
    case (Confirmed t m e)
    have "from_epoch e (g_queue w) = []" using ok(3) Confirmed(2) by (intro from_epoch_notin) (simp add: epochs_ok_def)
    then show ?thesis using Confirmed pin unfolding pinned_ok_def goto_def by auto
  next
    case (Take t k xs e batch rest)
    have "e' \<noteq> e" if "confirmed (g_threads w s) = Some e'" for s e'
    proof -
      have "pins e' (g_threads w s) = 1" using that by (cases "g_threads w s") auto
      then show ?thesis using pins_pos [OF ok(2)] Take(3) by auto
    qed
    moreover have "from_epoch e' (g_queue w) = from_epoch e' rest" if "e' \<noteq> e" for e' using that Take(2) by (simp add: from_epoch_def)
    ultimately show ?thesis using Take ok(1) unfolding pinned_ok_def goto_def by simp
  next
    case (Retired t m h r)
    show ?thesis unfolding pinned_ok_def
    proof (intro allI impI)
      fix s e assume "confirmed (g_threads w' s) = Some e"
      then have s: "confirmed (g_threads w s) = Some e" "s \<noteq> t"
        using Retired by (auto simp: goto_def sealCurrent_def split: option.splits if_splits)
      show "(g_current w' = Some e \<or> e \<in> fst ` set (g_queue w')) \<and> set (g_old w' s) \<subseteq> set (g_retired w') \<and>
        set (g_retired w') - set (from_epoch e (g_queue w')) \<subseteq> set (g_old w' s)"
        using pin [OF s(1)] Retired from_epoch_notin [of e "g_queue w"]
        by (cases "g_current w") (auto simp: goto_def sealCurrent_def from_epoch_append split: if_splits)
    qed
  next
    case (Start t m p)
    then show ?thesis by (intro same [of t p]) (auto simp: goto_def)
  next
    case (Jump t q p)
    then show ?thesis by (intro same [of t p]) (auto simp: goto_def)
  next
    case (Unpin t k e)
    then show ?thesis by (intro same [of t "if g_active w e \<noteq> 1 then resume k else CheckSealed k e"])
      (auto simp: goto_def add_active_def)
  next
    case (Entered t m e)
    then show ?thesis by (intro same [of t "Guest m e"]) (auto simp: goto_def)
  next
    case (Install t m)
    then show ?thesis by (intro same [of t "Load m"]) (auto simp: goto_def)
  next
    case (Pin t m e)
    then show ?thesis by (intro same [of t "Confirm m e"]) (auto simp: goto_def add_active_def)
  next
    case (Acquire t k)
    then show ?thesis by (intro same [of t "Drain k []"]) (auto simp: goto_def)
  next
    case (Release t k xs)
    then show ?thesis by (intro same [of t "Free k xs"]) (auto simp: goto_def)
  next
    case (Free t k x xs)
    then show ?thesis by (intro same [of t "Free k xs"]) (auto simp: goto_def)
  next
    case (Shut t m)
    then show ?thesis by (intro same [of t "Retire m"]) (auto simp: goto_def)
  next
    case (Retired_none t m h)
    then show ?thesis by (intro same [of t Idle]) (auto simp: goto_def)
  qed (use ok(1) in \<open>auto simp: pinned_ok_def\<close>)
qed

lemma guests_ok_act:
  "act a w = Ok w' \<Longrightarrow> guests_ok w \<Longrightarrow> pinned_ok w \<Longrightarrow> allocations_ok w \<Longrightarrow> heap_ok w \<Longrightarrow> closed_first w \<Longrightarrow> guests_ok w'"
proof -
  assume a: "act a w = Ok w'"
    and ok: "guests_ok w" "pinned_ok w" "allocations_ok w" "heap_ok w" "closed_first w"
  have links: "links_ok (set (g_links w)) (g_heap w)" using ok(4) by (simp add: heap_ok_def)
  have old: "x \<in> released (g_heap w)" if "confirmed (g_threads w t) = Some e" "x \<in> set (g_old w t)" for t e x
    using that ok(2,3) unfolding pinned_ok_def allocations_ok_def by blast
  have user: "mi_memoryClosed (g_heap w ! u)" if "x \<in> released (g_heap w)" "(u, x) \<in> (set (g_links w))\<^sup>*" for u x
    using that links_okD(7) [OF links] by (auto simp: unused_def)
  have g: "(m, x) \<notin> (set (g_links w))\<^sup>*" if "g_threads w t = Guest m e" "x \<in> set (g_old w t)" for t m e x
    using ok(1) that unfolding guests_ok_def by blast
  have same: "guests_ok w'" if "g_threads w' = (g_threads w)(t := p)" "\<And>m e. p \<noteq> Guest m e"
    "\<And>s. s \<noteq> t \<Longrightarrow> g_old w' s = g_old w s" "g_links w' = g_links w" for t p
    unfolding guests_ok_def
  proof (intro allI impI ballI)
    fix s m e x assume s: "g_threads w' s = Guest m e" "x \<in> set (g_old w' s)"
    then have "s \<noteq> t" using that(1,2) by auto
    then show "(m, x) \<notin> (set (g_links w'))\<^sup>*" using s that g [of s m e x] by simp
  qed
  from a show ?thesis
  proof (cases rule: act_cases)
    case (Link m b h)
    have b: "\<not> mi_memoryClosed (g_heap w ! b)" using retainImport_True(3) [OF Link(4,2)] .
    show ?thesis unfolding guests_ok_def
    proof (intro allI impI ballI)
      fix s m' e x assume s: "g_threads w' s = Guest m' e" "x \<in> set (g_old w' s)"
      then have s': "g_threads w s = Guest m' e" "x \<in> set (g_old w s)" using Link(5) by auto
      then have "(b, x) \<notin> (set (g_links w))\<^sup>*" using old [of s e x] user [of x b] b by auto
      then show "(m', x) \<notin> (set (g_links w'))\<^sup>*" using g [OF s'] Link(5) by (simp add: rtrancl_insert)
    qed
  next
    case (Entered t m e)
    show ?thesis unfolding guests_ok_def
    proof (intro allI impI ballI)
      fix s m' e' x assume s: "g_threads w' s = Guest m' e'" "x \<in> set (g_old w' s)"
      show "(m', x) \<notin> (set (g_links w'))\<^sup>*"
      proof (cases "s = t")
        case True
        then have "m' = m" "x \<in> set (g_old w t)" using s Entered by (auto simp: goto_def)
        then have "x \<in> released (g_heap w)" using old [of t e x] Entered by simp
        then show ?thesis using user [of x m] closed_firstD(3) [OF ok(5), of m] Entered \<open>m' = m\<close> by (auto simp: goto_def)
      next
        case False
        then show ?thesis using s Entered g by (auto simp: goto_def)
      qed
    qed
  next
    case (Start t m p)
    then show ?thesis by (intro same [of t p]) (auto simp: goto_def)
  next
    case (Jump t q p)
    then show ?thesis by (intro same [of t p]) (auto simp: goto_def)
  next
    case (Confirmed t m e)
    then show ?thesis by (intro same [of t "CheckClosed m e"]) (auto simp: goto_def)
  next
    case (Unpin t k e)
    then show ?thesis by (intro same [of t "if g_active w e \<noteq> 1 then resume k else CheckSealed k e"])
      (auto simp: goto_def add_active_def)
  next
    case (Take t k xs e batch rest)
    then show ?thesis by (intro same [of t "Drain k (xs @ batch)"]) (auto simp: goto_def)
  next
    case (Install t m)
    then show ?thesis by (intro same [of t "Load m"]) (auto simp: goto_def)
  next
    case (Pin t m e)
    then show ?thesis by (intro same [of t "Confirm m e"]) (auto simp: goto_def add_active_def)
  next
    case (Acquire t k)
    then show ?thesis by (intro same [of t "Drain k []"]) (auto simp: goto_def)
  next
    case (Release t k xs)
    then show ?thesis by (intro same [of t "Free k xs"]) (auto simp: goto_def)
  next
    case (Free t k x xs)
    then show ?thesis by (intro same [of t "Free k xs"]) (auto simp: goto_def)
  next
    case (Shut t m)
    then show ?thesis by (intro same [of t "Retire m"]) (auto simp: goto_def)
  next
    case (Retired_none t m h)
    then show ?thesis by (intro same [of t Idle]) (auto simp: goto_def)
  next
    case (Retired t m h r)
    then show ?thesis by (intro same [of t "Drain Return []"]) (auto simp: goto_def sealCurrent_def split: option.splits)
  qed (use ok(1) in \<open>auto simp: guests_ok_def\<close>)
qed

section \<open>No retired memory is forgotten\<close>

text \<open>When the first epoch of the queue has no call left, some thread is on its way to collect it.\<close>

fun collects :: "nat \<Rightarrow> point \<Rightarrow> bool" where
  "collects e (CheckSealed _ e') = (e' = e)"
| "collects e (Acquire _) = True"
| "collects e (Drain _ _) = True"
| "collects e _ = False"

lemma collects_resume [simp]: "\<not> collects e (resume k)"
  by (cases k) (simp_all add: resume_def)

definition collected_ok :: "world \<Rightarrow> bool" where
  "collected_ok w \<longleftrightarrow> (\<forall>e b q. g_queue w = (e, b) # q \<longrightarrow> g_active w e = 0 \<longrightarrow> (\<exists>t. collects e (g_threads w t)))"

lemma collected_ok_act:
  "act a w = Ok w' \<Longrightarrow> collected_ok w \<Longrightarrow> counts_pins w \<Longrightarrow> epochs_ok w \<Longrightarrow> collected_ok w'"
proof -
  assume a: "act a w = Ok w'" and ok: "collected_ok w" "counts_pins w" "epochs_ok w"
  have same: "collected_ok w'"
    if T: "g_threads w' = (g_threads w)(t := p)" "g_queue w' = g_queue w" "g_active w' = g_active w"
      "\<And>e. e \<in> fst ` set (g_queue w) \<Longrightarrow> collects e (g_threads w t) \<Longrightarrow> collects e p" for t p
    unfolding collected_ok_def
  proof (intro allI impI)
    fix e b q assume q: "g_queue w' = (e, b) # q" "g_active w' e = 0"
    then obtain s where s: "collects e (g_threads w s)" using ok(1) T(2,3) by (auto simp: collected_ok_def)
    have "g_queue w = (e, b) # q" using q(1) T(2) by simp
    then have "e \<in> fst ` set (g_queue w)" by simp
    then have "collects e (g_threads w' s)" using T(1,4) s by (cases "s = t") auto
    then show "\<exists>t. collects e (g_threads w' t)" ..
  qed
  have drain: "collected_ok w'" if "g_threads w' t = Drain k xs" for t k xs
    using that unfolding collected_ok_def by (metis collects.simps(3))
  from a show ?thesis
  proof (cases rule: act_cases)
    case (Start t m p)
    then show ?thesis by (intro same [of t p]) (auto simp: goto_def)
  next
    case (Jump t q p)
    have "g_current w = Some e \<Longrightarrow> (e, b) \<notin> set (g_queue w)" for e b using ok(3) by (force simp: epochs_ok_def)
    then show ?thesis using Jump by (intro same [of t p]) (auto simp: goto_def)
  next
    case (Install t m)
    then show ?thesis by (intro same [of t "Load m"]) (auto simp: goto_def)
  next
    case (Pin t m e)
    have cp: "counts_pins w'" by (rule counts_pins_act [OF a ok(2)])
    have e: "g_active w' e \<noteq> 0" using pins_pos [OF cp, of e t] Pin by (simp add: goto_def)
    show ?thesis unfolding collected_ok_def
    proof (intro allI impI)
      fix e' b q assume q: "g_queue w' = (e', b) # q" "g_active w' e' = 0"
      then have "e' \<noteq> e" using e by auto
      then have "g_queue w = (e', b) # q" "g_active w e' = 0" using q Pin by (auto simp: goto_def add_active_def)
      then obtain s where s: "collects e' (g_threads w s)" using ok(1) by (auto simp: collected_ok_def)
      then have "s \<noteq> t" using Pin(1) by auto
      then have "collects e' (g_threads w' s)" using s Pin by (simp add: goto_def add_active_def)
      then show "\<exists>t. collects e' (g_threads w' t)" ..
    qed
  next
    case (Confirmed t m e)
    then show ?thesis by (intro same [of t "CheckClosed m e"]) (auto simp: goto_def)
  next
    case (Entered t m e)
    then show ?thesis by (intro same [of t "Guest m e"]) (auto simp: goto_def)
  next
    case (Unpin t k e)
    show ?thesis unfolding collected_ok_def
    proof (intro allI impI)
      fix e' b q assume q: "g_queue w' = (e', b) # q" "g_active w' e' = 0"
      show "\<exists>t. collects e' (g_threads w' t)"
      proof (cases "e' = e")
        case True
        then have "g_threads w' t = CheckSealed k e" using q(2) Unpin by (auto simp: goto_def add_active_def)
        then have "collects e' (g_threads w' t)" using True by simp
        then show ?thesis ..
      next
        case False
        then have "g_queue w = (e', b) # q" "g_active w e' = 0" using q Unpin by (auto simp: goto_def add_active_def)
        then obtain s where s: "collects e' (g_threads w s)" using ok(1) by (auto simp: collected_ok_def)
        then have "s \<noteq> t" using Unpin(1) by auto
        then have "collects e' (g_threads w' s)" using s Unpin(2) by (simp add: goto_def add_active_def)
        then show ?thesis ..
      qed
    qed
  next
    case (Acquire t k)
    then show ?thesis by (intro drain [of t k "[]"]) (simp add: goto_def)
  next
    case (Take t k xs e batch rest)
    then show ?thesis by (intro drain [of t k "xs @ batch"]) (simp add: goto_def)
  next
    case (Release t k xs)
    then show ?thesis by (auto simp: collected_ok_def goto_def)
  next
    case (Free t k x xs)
    then show ?thesis by (intro same [of t "Free k xs"]) (auto simp: goto_def)
  next
    case (Shut t m)
    then show ?thesis by (intro same [of t "Retire m"]) (auto simp: goto_def)
  next
    case (Retired_none t m h)
    then show ?thesis by (intro same [of t Idle]) (auto simp: goto_def)
  next
    case (Retired t m h r)
    then show ?thesis by (intro drain [of t Return "[]"]) (simp add: goto_def sealCurrent_def split: option.splits)
  qed (use ok(1) in \<open>auto simp: collected_ok_def\<close>)
qed

section \<open>What holds of every reachable state\<close>

definition world_ok :: "world \<Rightarrow> bool" where
  "world_ok w \<longleftrightarrow> counts_pins w \<and> epochs_ok w \<and> lock_ok w \<and> heap_ok w \<and> closed_first w \<and> accounted w \<and>
     allocations_ok w \<and> pinned_ok w \<and> guests_ok w \<and> collected_ok w"

lemma total_of_Idle: "total_of f (\<lambda>_. Idle) = 0"
  by (simp add: total_of_def busy_def)

lemma world_ok_start: "world_ok start"
  by (simp add: total_of_Idle world_ok_def counts_pins_def epochs_ok_def lock_ok_def heap_ok_def closed_first_def accounted_def
        allocations_ok_def pinned_ok_def guests_ok_def collected_ok_def start_def busy_def epoch_below_def queued_def
        links_ok_def counts_ok_def linked_def released_def unused_def)

lemma world_ok_act: "world_ok w \<Longrightarrow> act a w = Ok w' \<Longrightarrow> world_ok w'"
  unfolding world_ok_def
  by (intro conjI; elim conjE)
     (blast intro: counts_pins_act epochs_ok_act lock_ok_act heap_ok_act closed_first_act accounted_act allocations_ok_act
        pinned_ok_act guests_ok_act collected_ok_act)+

lemma reachable_ok: "reachable w \<Longrightarrow> world_ok w"
  by (induction rule: reachable.induct) (auto intro: world_ok_start world_ok_act)

lemma retainImport_no_panic: "m < length h \<Longrightarrow> b < length h \<Longrightarrow> \<not> panics (retainImport h m b)"
  by (rule holds_not_panics [of "\<lambda>_. True"]) (auto simp: retainImport_def wp Let_def)

lemma releaseMemory_total: "world_ok w \<Longrightarrow> g_threads w t = Retire m \<Longrightarrow> \<exists>h r. releaseMemory (g_heap w) m = Ok (h, r)"
proof -
  assume ok: "world_ok w" and t: "g_threads w t = Retire m"
  have "m < length (g_heap w)" using ok closed_firstD(1) [of w t, OF _ t] by (simp add: world_ok_def)
  then show ?thesis using ok holds_no_error [OF holds_releaseMemory no_error_releaseMemory, of "set (g_links w)" "g_heap w" m]
    by (auto simp: world_ok_def heap_ok_def)
qed

text \<open>A thread that is not idle can go on, or it waits for the lock and the thread that has the lock can go on.\<close>

lemma advance_or_blocked:
  assumes ok: "world_ok w"
  shows "(\<exists>w'. advance t w = Ok w') \<or> advance t w = blocked \<and> (g_threads w t = Idle \<or> g_lock w \<noteq> None)"
proof -
  have cf: "closed_first w" using ok by (simp add: world_ok_def)
  show ?thesis
  proof (cases "g_threads w t")
    case (CheckClosed m e)
    then show ?thesis using closed_firstD(1) [OF cf CheckClosed] by (simp add: advance_def checkClosed_def index_def)
  next
    case (Shut m)
    then show ?thesis using closed_firstD(1) [OF cf Shut] by (simp add: advance_def shut_def index_def)
  next
    case (Acquire k)
    then show ?thesis by (simp add: advance_def acquire_def)
  next
    case (Retire m)
    then obtain h r where "releaseMemory (g_heap w) m = Ok (h, r)" using releaseMemory_total [OF ok] by blast
    then show ?thesis using Retire by (simp add: advance_def retireMemory_def Let_def)
  qed (simp_all add: advance_def)
qed

lemma act_no_panic: "world_ok w \<Longrightarrow> \<not> panics (act a w)"
proof (cases a)
  case (Link m b)
  then show ?thesis using retainImport_no_panic [of m "g_heap w" b]
    by (cases "retainImport (g_heap w) m b") (auto simp: act_def split: prod.splits)
next
  case (Advance t)
  assume "world_ok w"
  from advance_or_blocked [OF this, of t] Advance show ?thesis by (auto simp: act_def)
qed (simp_all add: act_def start_thread_def)

primrec run :: "action list \<Rightarrow> world \<Rightarrow> world outcome" where
  "run [] w = Ok w"
| "run (a # as) w = bindO (act a w) (run as)"

lemma reachable_run: "run as start = Ok w \<Longrightarrow> reachable w"
proof -
  have "reachable v \<Longrightarrow> run as v = Ok w \<Longrightarrow> reachable w" for v
    by (induction as arbitrary: v) (auto simp: bindO_Ok_iff intro: reachable.act)
  then show "run as start = Ok w \<Longrightarrow> reachable w" using reachable.start by blast
qed

text \<open>The threads that a schedule does not mention stay idle.\<close>

fun thread_of :: "action \<Rightarrow> nat option" where
  "thread_of (StartCall t _) = Some t"
| "thread_of (StartClose t _) = Some t"
| "thread_of (StartDeferred t _) = Some t"
| "thread_of (Advance t) = Some t"
| "thread_of _ = None"

lemma act_other: "act a w = Ok w' \<Longrightarrow> thread_of a \<noteq> Some s \<Longrightarrow> g_threads w' s = g_threads w s"
proof (cases a)
  case (Advance t)
  assume "act a w = Ok w'" "thread_of a \<noteq> Some s"
  with Advance have "advance t w = Ok w'" "s \<noteq> t" by (simp_all add: act_def)
  then show ?thesis
    by (cases "g_threads w t")
       (auto simp: advance_def loadEpoch_def installEpoch_def confirmEpoch_def checkClosed_def unpinEpoch_def checkSealed_def
         acquire_def collectRetiredMemory_def freeNext_def shut_def sealCurrent_def retireMemory_def goto_def add_active_def
         Let_def bindO_Ok_iff split: if_splits option.splits list.splits prod.splits)
qed (auto simp: act_def start_thread_def goto_def bindO_Ok_iff split: if_splits)

lemma run_other: "run as w = Ok w' \<Longrightarrow> \<forall>a \<in> set as. thread_of a \<noteq> Some s \<Longrightarrow> g_threads w' s = g_threads w s"
  by (induction as arbitrary: w) (auto simp: bindO_Ok_iff act_other)

section \<open>Properties\<close>

lemma less_one_gap: "a + b + c = (if p then 1 else 0) \<Longrightarrow> (p \<Longrightarrow> 0 < b) \<Longrightarrow> a = 0 \<and> c = (0 :: nat)"
  by (cases p) auto

text \<open>
  C4 (no use after free). While a guest call runs, the allocation of no instance that its entry module uses, directly or
  through other instances, has been freed, whatever modules are closed meanwhile: neither has \<^verbatim>\<open>Free\<close> been called on it nor
  does any thread hold it to call \<^verbatim>\<open>Free\<close>.
\<close>

theorem guest_memory_not_freed:
  assumes "reachable w" "g_threads w t = Guest m e" "(m, x) \<in> (set (g_links w))\<^sup>*"
  shows "x \<notin> set (g_freed w) \<and> x \<notin># holding (g_threads w s)"
proof -
  have ok: "world_ok w" using reachable_ok [OF assms(1)] .
  have pin: "set (g_retired w) - set (from_epoch e (g_queue w)) \<subseteq> set (g_old w t)"
    using ok assms(2) by (auto simp: world_ok_def pinned_ok_def)
  have notold: "x \<notin> set (g_old w t)" using ok assms(2,3) by (auto simp: world_ok_def guests_ok_def)
  have sub: "set (from_epoch e (g_queue w)) \<subseteq> set (queued w)"
    by (auto simp: from_epoch_def queued_def dest!: set_dropWhileD)
  have eq: "mset (g_retired w) = mset (g_freed w) + mset (queued w) + total_of holding (g_threads w)" and dist: "distinct (g_retired w)"
    using ok by (simp_all add: world_ok_def accounted_def)
  have once: "count (mset (g_freed w)) x + count (mset (queued w)) x + count (total_of holding (g_threads w)) x = count (mset (g_retired w)) x"
    unfolding eq by simp
  have "count (mset (g_retired w)) x = (if x \<in> set (g_retired w) then 1 else 0)"
    using dist unfolding distinct_count_atmost_1 by blast
  note once = once [unfolded this]
  have "x \<in> set (g_retired w) \<Longrightarrow> 0 < count (mset (queued w)) x" using pin notold sub by auto
  then have "count (mset (g_freed w)) x = 0 \<and> count (total_of holding (g_threads w)) x = 0"
    using once less_one_gap [of "count (mset (g_freed w)) x" _ _ "x \<in> set (g_retired w)"] by blast
  then have none: "count (mset (g_freed w)) x = 0" "count (total_of holding (g_threads w)) x = 0" by blast+
  have "count (holding (g_threads w s)) x \<le> count (total_of holding (g_threads w)) x"
    using holding_le ok by (auto simp: world_ok_def counts_pins_def intro: mset_subset_eq_count)
  then show ?thesis using none by (auto simp: count_eq_zero_iff)
qed

definition close_while_running :: "action list" where
  "close_while_running =
     [New, New, Link 0 1, Allocate 1, StartCall 0 0, Advance 0, Advance 0, Advance 0, Advance 0, Advance 0, Advance 0,
      StartClose 1 1, Advance 1, Advance 1, StartClose 2 0, Advance 2, Advance 2, Advance 2, Advance 2]"

theorem guest_memory_not_freed_witness:
  "\<exists>w. reachable w \<and> g_threads w 0 = Guest 0 0 \<and> (0, 1) \<in> (set (g_links w))\<^sup>* \<and> g_retired w = [1] \<and> 1 \<notin> set (g_freed w)"
proof -
  have "case run close_while_running start of Ok w \<Rightarrow> g_threads w 0 = Guest 0 0 \<and> (0, 1) \<in> set (g_links w) \<and> g_retired w = [1] | _ \<Rightarrow> False"
    by code_simp
  then obtain w where w: "run close_while_running start = Ok w" "g_threads w 0 = Guest 0 0" "(0, 1) \<in> set (g_links w)" "g_retired w = [1]"
    by (cases "run close_while_running start") auto
  then have "reachable w" "(0, 1) \<in> (set (g_links w))\<^sup>*" using reachable_run by blast+
  then show ?thesis using w guest_memory_not_freed [of w 0 0 0 1] by auto
qed

text \<open>
  C6 (retiring is exact). An instance has given back its memory and its imports exactly when it is closed and every instance
  that uses it, directly or through others, is closed: nothing is released early, and cycles of instances that share a table
  are released together with the last close.
\<close>

theorem released_exactly_unused: "reachable w \<Longrightarrow> released (g_heap w) = unused (set (g_links w)) (g_heap w)"
  using reachable_ok [of w] by (auto simp: world_ok_def heap_ok_def dest: links_okD(7))

definition close_cycle :: "action list" where
  "close_cycle = [New, New, Link 0 1, Link 1 0, Allocate 1, StartClose 1 1, Advance 1, Advance 1, StartClose 2 0, Advance 2, Advance 2]"

theorem released_exactly_unused_witness:
  "\<exists>w. reachable w \<and> (0, 1) \<in> set (g_links w) \<and> (1, 0) \<in> set (g_links w) \<and>
     unused (set (g_links w)) (g_heap w) = {0, 1}"
proof -
  have "case run close_cycle start of Ok w \<Rightarrow> (0, 1) \<in> set (g_links w) \<and> (1, 0) \<in> set (g_links w) \<and>
      map mi_memoryReleased (g_heap w) = [True, True] | _ \<Rightarrow> False"
    by code_simp
  then obtain w where w: "run close_cycle start = Ok w" "(0, 1) \<in> set (g_links w)" "(1, 0) \<in> set (g_links w)"
    "map mi_memoryReleased (g_heap w) = [True, True]"
    by (cases "run close_cycle start") auto
  then have "length (g_heap w) = 2" "mi_memoryReleased (g_heap w ! 0)" "mi_memoryReleased (g_heap w ! 1)"
    by (auto simp: Cons_eq_map_conv map_eq_Cons_conv)
  then have "released (g_heap w) = {0, 1}" by (auto simp: released_def less_2_cases_iff)
  then show ?thesis using w reachable_run [OF w(1)] released_exactly_unused [of w] by auto
qed

text \<open>
  C7 (nothing is leaked). When no thread is running, every allocation of an instance that nothing live uses has been freed,
  each exactly once, and no other allocation has been freed.
\<close>

theorem quiescent_freed:
  assumes "reachable w" "\<forall>t. g_threads w t = Idle"
  shows "set (g_freed w) = set (g_allocated w) \<inter> unused (set (g_links w)) (g_heap w) \<and> distinct (g_freed w) \<and> g_queue w = []"
proof -
  have ok: "world_ok w" using reachable_ok [OF assms(1)] .
  have th: "g_threads w = (\<lambda>_. Idle)" using assms(2) by auto
  have "g_active w e = 0" for e using ok th by (simp add: world_ok_def counts_pins_def total_of_Idle)
  then have q: "g_queue w = []" using ok th by (cases "g_queue w") (auto simp: world_ok_def collected_ok_def)
  have eq: "mset (g_retired w) = mset (g_freed w)" "distinct (g_retired w)"
    using ok q th by (simp_all add: world_ok_def accounted_def queued_def total_of_Idle)
  have "set (g_retired w) = released (g_heap w) \<inter> set (g_allocated w)" using ok by (simp add: world_ok_def allocations_ok_def)
  moreover have "released (g_heap w) = unused (set (g_links w)) (g_heap w)"
    using ok by (auto simp: world_ok_def heap_ok_def dest: links_okD(7))
  moreover have "set (g_freed w) = set (g_retired w)" "distinct (g_freed w)"
    using eq by (metis mset_eq_setD, metis mset_eq_imp_distinct_iff)
  ultimately show ?thesis using q by auto
qed

definition close_and_return :: "action list" where
  "close_and_return = close_while_running @ [Advance 0, Advance 0, Advance 0, Advance 0, Advance 0, Advance 0, Advance 0, Advance 0]"

theorem quiescent_freed_witness:
  "\<exists>w. reachable w \<and> (\<forall>t. g_threads w t = Idle) \<and> set (g_freed w) = {1} \<and>
     set (g_allocated w) \<inter> unused (set (g_links w)) (g_heap w) = {1}"
proof -
  have "case run close_and_return start of Ok w \<Rightarrow> map (g_threads w) [0, 1, 2] = [Idle, Idle, Idle] \<and> g_freed w = [1] | _ \<Rightarrow> False"
    by code_simp
  then obtain w where w: "run close_and_return start = Ok w" "map (g_threads w) [0, 1, 2] = [Idle, Idle, Idle]" "g_freed w = [1]"
    by (cases "run close_and_return start") auto
  have "g_threads w t = Idle" for t
  proof (cases "t \<in> {0, 1, 2}")
    case False
    then have "g_threads w t = g_threads start t"
      using run_other [OF w(1), of t] by (simp add: close_and_return_def close_while_running_def)
    then show ?thesis by (simp add: start_def)
  qed (use w(2) in auto)
  then show ?thesis using w(3) reachable_run [OF w(1)] quiescent_freed [of w] by auto
qed

text \<open>
  C8 (no step panics and no thread is stuck). No action panics; a thread that is not idle can take its next step, or the
  thread that has the lock can.
\<close>

theorem execution_progress:
  assumes "reachable w"
  shows "\<not> panics (act a w) \<and> (g_threads w t \<noteq> Idle \<longrightarrow> (\<exists>s w'. (s = t \<or> g_lock w = Some s) \<and> act (Advance s) w = Ok w'))"
proof -
  have ok: "world_ok w" using reachable_ok [OF assms] .
  have "\<exists>s w'. (s = t \<or> g_lock w = Some s) \<and> act (Advance s) w = Ok w'" if t: "g_threads w t \<noteq> Idle"
  proof (cases "\<exists>w'. advance t w = Ok w'")
    case False
    then obtain s where s: "g_lock w = Some s" using advance_or_blocked [OF ok, of t] t by auto
    then have "collecting (g_threads w s)" using ok by (metis world_ok_def lock_ok_def)
    then have "\<exists>w'. advance s w = Ok w'" by (cases "g_threads w s") (simp_all add: advance_def)
    then show ?thesis using s by (auto simp: act_def)
  qed (auto simp: act_def)
  then show ?thesis using act_no_panic [OF ok] by blast
qed

theorem execution_progress_witness:
  "\<exists>w. reachable w \<and> g_threads w 0 = Guest 0 0 \<and> \<not> panics (act (Link 1 0) w) \<and>
     (\<exists>s w'. (s = 0 \<or> g_lock w = Some s) \<and> act (Advance s) w = Ok w')"
proof -
  have "case run close_while_running start of Ok w \<Rightarrow> g_threads w 0 = Guest 0 0 | _ \<Rightarrow> False" by code_simp
  then obtain w where w: "run close_while_running start = Ok w" "g_threads w 0 = Guest 0 0"
    by (cases "run close_while_running start") auto
  then show ?thesis using reachable_run [OF w(1)] execution_progress [of w "Link 1 0" 0] by auto
qed

end
