(* ===== verification/StoreModules.thy ===== *)
theory StoreModules
  imports Prelude "HOL-Library.AList"
begin

text \<open>
  The store's list of modules and the closing of modules (\<^verbatim>\<open>internal/wasm/store_module_list.go\<close>, \<^verbatim>\<open>Store.CloseWithExitCode\<close>
  of \<^verbatim>\<open>internal/wasm/store.go\<close>, and the closing half of \<^verbatim>\<open>internal/wasm/module_instance.go\<close>). The store keeps a doubly linked
  list of its modules, newest first, and a map from names to modules.
\<close>

section \<open>The state\<close>

text \<open>
  A module instance is an address into \<open>s_modules\<close>. The fields \<open>CloseNotifier\<close>, \<open>Sys\<close> and \<open>CodeCloser\<close> say whether the
  source's pointer is not nil. What closing does to the outside is a list of effects.
\<close>

datatype effect = CloseNotify nat u32 | CloseFS nat | RetireMemory nat | CloseCode nat

record instance_state =
  ModuleName :: string
  m_prev :: "nat option"
  m_next :: "nat option"
  m_Closed :: u64
  CloseNotifier :: bool
  Sys :: bool
  CodeCloser :: bool

record store =
  s_modules :: "instance_state list"
  s_moduleList :: "nat option"
  s_nameToModule :: "(string \<times> nat) list option"
  s_nameToModuleCap :: nat
  s_effects :: "effect list"

abbreviation (input) nameToModuleShrinkThreshold :: nat where "nameToModuleShrinkThreshold \<equiv> 100"
abbreviation (input) exitCodeFlagMask :: u64 where "exitCodeFlagMask \<equiv> 0xff"
abbreviation (input) exitCodeFlagResourceClosed :: u64 where "exitCodeFlagResourceClosed \<equiv> 1"
abbreviation (input) exitCodeFlagResourceNotClosed :: u64 where "exitCodeFlagResourceNotClosed \<equiv> 2"

definition NewStore :: store where
  "NewStore = \<lparr>s_modules = [], s_moduleList = None, s_nameToModule = Some [],
     s_nameToModuleCap = nameToModuleShrinkThreshold, s_effects = []\<rparr>"

definition names :: "store \<Rightarrow> (string \<times> nat) list" where
  "names s = (case s_nameToModule s of None \<Rightarrow> [] | Some xs \<Rightarrow> xs)"

definition update_module :: "nat \<Rightarrow> (instance_state \<Rightarrow> instance_state) \<Rightarrow> store \<Rightarrow> store outcome" where
  "update_module m f s = bindO (index (s_modules s) m) (\<lambda>i. Ok (s\<lparr>s_modules := (s_modules s)[m := f i]\<rparr>))"

definition update_opt :: "nat option \<Rightarrow> (instance_state \<Rightarrow> instance_state) \<Rightarrow> store \<Rightarrow> store outcome" where
  "update_opt p f s = (case p of None \<Rightarrow> Ok s | Some m \<Rightarrow> update_module m f s)"

section \<open>The list of modules\<close>

text \<open>The address of a new instance; it is in no list and has no name in the map.\<close>

definition newModule :: "string \<Rightarrow> bool \<Rightarrow> bool \<Rightarrow> bool \<Rightarrow> store \<Rightarrow> nat \<times> store" where
  "newModule name notifier sys closer s =
     (length (s_modules s),
      s\<lparr>s_modules := s_modules s @ [\<lparr>ModuleName = name, m_prev = None, m_next = None, m_Closed = 0,
          CloseNotifier = notifier, Sys = sys, CodeCloser = closer\<rparr>]\<rparr>)"

text \<open>The second half of \<^verbatim>\<open>deleteModule\<close>: the name, if it is this module's, and the size of the map.\<close>

definition forgetName :: "nat \<Rightarrow> string \<Rightarrow> store \<Rightarrow> store" where
  "forgetName m name s =
     (if name \<noteq> [] then
        let s = (if map_of (names s) name = Some m then s\<lparr>s_nameToModule := Some (AList.delete name (names s))\<rparr> else s);
            newCap = (if length (names s) < nameToModuleShrinkThreshold then nameToModuleShrinkThreshold else length (names s))
        in if newCap * 2 \<le> s_nameToModuleCap s
           then s\<lparr>s_nameToModule := Some (names s), s_nameToModuleCap := newCap\<rparr> else s
      else s)"

definition deleteModule :: "nat \<Rightarrow> store \<Rightarrow> store outcome" where
  "deleteModule m s =
     bindO (index (s_modules s) m) (\<lambda>i.
     bindO (update_opt (m_prev i) (\<lambda>j. j\<lparr>m_next := m_next i\<rparr>) s) (\<lambda>s.
     bindO (update_opt (m_next i) (\<lambda>j. j\<lparr>m_prev := m_prev i\<rparr>) s) (\<lambda>s.
     let s = (if s_moduleList s = Some m then s\<lparr>s_moduleList := m_next i\<rparr> else s) in
     bindO (update_module m (\<lambda>j. j\<lparr>m_prev := None, m_next := None\<rparr>) s) (\<lambda>s.
     Ok (forgetName m (ModuleName i) s)))))"

definition module :: "string \<Rightarrow> store \<Rightarrow> nat outcome" where
  "module moduleName s =
     (case map_of (names s) moduleName of None \<Rightarrow> Err (Errorf ''module[%s] not instantiated'') | Some m \<Rightarrow> Ok m)"

definition Store_Module :: "string \<Rightarrow> store \<Rightarrow> nat option" where
  "Store_Module moduleName s = (case module moduleName s of Ok m \<Rightarrow> Some m | _ \<Rightarrow> None)"

definition registerModule :: "nat \<Rightarrow> store \<Rightarrow> store outcome" where
  "registerModule m s =
     bindO (index (s_modules s) m) (\<lambda>i.
     case s_nameToModule s of
       None \<Rightarrow> Err (Errorf ''already closed'')
     | Some xs \<Rightarrow>
         bindO
           (if ModuleName i \<noteq> [] then
              if map_of xs (ModuleName i) \<noteq> None then Err (Errorf ''module[%s] has already been instantiated'')
              else
                let xs = AList.update (ModuleName i) m xs in
                Ok (s\<lparr>s_nameToModule := Some xs,
                  s_nameToModuleCap := (if length xs > s_nameToModuleCap s then length xs else s_nameToModuleCap s)\<rparr>)
            else Ok s) (\<lambda>s.
         bindO (update_module m (\<lambda>j. j\<lparr>m_next := s_moduleList s\<rparr>) s) (\<lambda>s'.
         bindO (update_opt (s_moduleList s) (\<lambda>j. j\<lparr>m_prev := Some m\<rparr>) s') (\<lambda>s.
         Ok (s\<lparr>s_moduleList := Some m\<rparr>)))))"

section \<open>Closing a module\<close>

definition setExitCode :: "nat \<Rightarrow> u32 \<Rightarrow> u64 \<Rightarrow> store \<Rightarrow> (bool \<times> store) outcome" where
  "setExitCode m exitCode flag s =
     bindO (index (s_modules s) m) (\<lambda>i.
     if m_Closed i = 0
     then bindO (update_module m (\<lambda>j. j\<lparr>m_Closed := flag OR push_bit 32 (ucast exitCode)\<rparr>) s) (\<lambda>s. Ok (True, s))
     else Ok (False, s))"

definition effect :: "effect \<Rightarrow> store \<Rightarrow> store" where
  "effect e s = s\<lparr>s_effects := s_effects s @ [e]\<rparr>"

text \<open>
  \<open>fsErr\<close> and \<open>codeErr\<close> are the errors that closing the file system and the code of a module return. The error of the first
  that fails is the result.
\<close>

definition ensureResourcesClosed :: "(nat \<Rightarrow> go_error option) \<Rightarrow> (nat \<Rightarrow> go_error option) \<Rightarrow> nat \<Rightarrow> store \<Rightarrow> (go_error option \<times> store) outcome" where
  "ensureResourcesClosed fsErr codeErr m s =
     bindO (index (s_modules s) m) (\<lambda>i.
     bindO (if CloseNotifier i then
              update_module m (\<lambda>j. j\<lparr>CloseNotifier := False\<rparr>) (effect (CloseNotify m (ucast (drop_bit 32 (m_Closed i)))) s)
            else Ok s) (\<lambda>s.
     bindO (if Sys i then
              bindO (update_module m (\<lambda>j. j\<lparr>Sys := False\<rparr>) (effect (CloseFS m) s)) (\<lambda>s. Ok (fsErr m, s))
            else Ok (None, s)) (\<lambda>(err, s).
     let s = effect (RetireMemory m) s in
     if CodeCloser i then
       bindO (update_module m (\<lambda>j. j\<lparr>CodeCloser := False\<rparr>) (effect (CloseCode m) s)) (\<lambda>s.
       Ok (if err = None then codeErr m else err, s))
     else Ok (err, s))))"

definition CloseWithExitCode :: "(nat \<Rightarrow> go_error option) \<Rightarrow> (nat \<Rightarrow> go_error option) \<Rightarrow> nat \<Rightarrow> u32 \<Rightarrow> store \<Rightarrow> (go_error option \<times> store) outcome" where
  "CloseWithExitCode fsErr codeErr m exitCode s =
     bindO (setExitCode m exitCode exitCodeFlagResourceClosed s) (\<lambda>(ok, s).
     if \<not> ok then Ok (None, s)
     else bindO (deleteModule m s) (ensureResourcesClosed fsErr codeErr m))"

definition closeWithExitCodeWithoutClosingResource :: "nat \<Rightarrow> u32 \<Rightarrow> store \<Rightarrow> store outcome" where
  "closeWithExitCodeWithoutClosingResource m exitCode s =
     bindO (setExitCode m exitCode exitCodeFlagResourceNotClosed s) (\<lambda>(ok, s).
     if \<not> ok then Ok s else deleteModule m s)"

definition closeWithExitCode :: "(nat \<Rightarrow> go_error option) \<Rightarrow> (nat \<Rightarrow> go_error option) \<Rightarrow> nat \<Rightarrow> u32 \<Rightarrow> store \<Rightarrow> (go_error option \<times> store) outcome" where
  "closeWithExitCode fsErr codeErr m exitCode s =
     bindO (setExitCode m exitCode exitCodeFlagResourceClosed s) (\<lambda>(ok, s).
     if \<not> ok then Ok (None, s) else ensureResourcesClosed fsErr codeErr m s)"

text \<open>\<^verbatim>\<open>FailIfClosed\<close>: the exit code of a closed module, whose resources are closed now if that was put off.\<close>

definition FailIfClosed :: "(nat \<Rightarrow> go_error option) \<Rightarrow> (nat \<Rightarrow> go_error option) \<Rightarrow> nat \<Rightarrow> store \<Rightarrow> (u32 option \<times> store) outcome" where
  "FailIfClosed fsErr codeErr m s =
     bindO (index (s_modules s) m) (\<lambda>i.
     let closed = m_Closed i in
     if closed \<noteq> 0 then
       bindO (if closed AND exitCodeFlagMask = exitCodeFlagResourceNotClosed
              then bindO (ensureResourcesClosed fsErr codeErr m s) (\<lambda>(_, s). Ok s) else Ok s) (\<lambda>s.
       Ok (Some (ucast (drop_bit 32 closed)), s))
     else Ok (None, s))"

text \<open>The context's error, as \<^verbatim>\<open>errors.Is\<close> sees it, decides the exit code; any other error leaves the module open.\<close>

datatype ctx_error = Canceled | DeadlineExceeded | OtherError

definition ctxExitCode :: "ctx_error \<Rightarrow> u32 option" where
  "ctxExitCode e = (case e of Canceled \<Rightarrow> Some 0xffffffff | DeadlineExceeded \<Rightarrow> Some 0xefffffff | OtherError \<Rightarrow> None)"

definition CloseWithCtxErr :: "(nat \<Rightarrow> go_error option) \<Rightarrow> (nat \<Rightarrow> go_error option) \<Rightarrow> nat \<Rightarrow> ctx_error \<Rightarrow> store \<Rightarrow> store outcome" where
  "CloseWithCtxErr fsErr codeErr m e s =
     (case ctxExitCode e of None \<Rightarrow> Ok s | Some c \<Rightarrow> bindO (CloseWithExitCode fsErr codeErr m c s) (\<lambda>(_, s). Ok s))"

text \<open>
  The goroutine of \<^verbatim>\<open>closeModuleOnCanceledOrTimeout\<close> once the context is done: it does nothing when the caller has cancelled
  it meanwhile.
\<close>

definition closeModuleOnCanceledOrTimeout :: "bool \<Rightarrow> nat \<Rightarrow> ctx_error \<Rightarrow> store \<Rightarrow> store outcome" where
  "closeModuleOnCanceledOrTimeout cancelled m e s =
     (if cancelled then Ok s
      else case ctxExitCode e of None \<Rightarrow> Ok s | Some c \<Rightarrow> closeWithExitCodeWithoutClosingResource m c s)"

section \<open>Entering a module\<close>

text \<open>
  \<^verbatim>\<open>Store.Instantiate\<close>. Between the check of the name and the registration, \<^verbatim>\<open>instantiate\<close> may run guest code and other
  operations may happen, hence the two halves. What \<^verbatim>\<open>instantiate\<close> does to the new instance is no matter here:
  \<open>instErr\<close> is the error it returns, in which case it closes the instance, which then has no notifier and no code to close.
\<close>

definition beginInstantiate :: "string \<Rightarrow> bool \<Rightarrow> store \<Rightarrow> (go_error + nat) \<times> store" where
  "beginInstantiate name sys s =
     (if name \<noteq> [] \<and> map_of (names s) name \<noteq> None
      then (Inl (Errorf ''module[%s] has already been instantiated''), s)
      else let (m, s) = newModule name False sys False s in (Inr m, s))"

definition finishInstantiate :: "(nat \<Rightarrow> go_error option) \<Rightarrow> (nat \<Rightarrow> go_error option) \<Rightarrow> go_error option \<Rightarrow>
    nat \<Rightarrow> bool \<Rightarrow> bool \<Rightarrow> store \<Rightarrow> ((go_error + nat) \<times> store) outcome" where
  "finishInstantiate fsErr codeErr instErr m closeNotifier codeCloser s =
     (case instErr of
        Some e \<Rightarrow> bindO (CloseWithExitCode fsErr codeErr m 0 s) (\<lambda>(_, s). Ok (Inl e, s))
      | None \<Rightarrow>
          bindO (update_module m (\<lambda>i. i\<lparr>CloseNotifier := closeNotifier, CodeCloser := codeCloser\<rparr>) s) (\<lambda>s.
          case registerModule m s of
            Ok s \<Rightarrow> Ok (Inr m, s)
          | Err e \<Rightarrow> bindO (CloseWithExitCode fsErr codeErr m 0 s) (\<lambda>(_, s). Ok (Inl e, s))
          | Panic p \<Rightarrow> Panic p))"

definition Instantiate :: "(nat \<Rightarrow> go_error option) \<Rightarrow> (nat \<Rightarrow> go_error option) \<Rightarrow> go_error option \<Rightarrow>
    string \<Rightarrow> bool \<Rightarrow> bool \<Rightarrow> bool \<Rightarrow> store \<Rightarrow> ((go_error + nat) \<times> store) outcome" where
  "Instantiate fsErr codeErr instErr name sys closeNotifier codeCloser s =
     (case beginInstantiate name sys s of
        (Inl e, s) \<Rightarrow> Ok (Inl e, s)
      | (Inr m, s) \<Rightarrow> finishInstantiate fsErr codeErr instErr m closeNotifier codeCloser s)"

section \<open>Closing the store\<close>

text \<open>The walk along \<^verbatim>\<open>next\<close>. It visits no module twice, so that one more than the number of modules is fuel enough.\<close>

primrec chain :: "nat \<Rightarrow> instance_state list \<Rightarrow> nat option \<Rightarrow> nat list outcome" where
  "chain 0 ms p = Panic ''out of fuel''"
| "chain (Suc n) ms p =
     (case p of
        None \<Rightarrow> Ok []
      | Some m \<Rightarrow> bindO (index ms m) (\<lambda>i. bindO (chain n ms (m_next i)) (\<lambda>rest. Ok (m # rest))))"

definition Store_CloseWithExitCode :: "(nat \<Rightarrow> go_error option) \<Rightarrow> (nat \<Rightarrow> go_error option) \<Rightarrow> u32 \<Rightarrow> store \<Rightarrow> (go_error list \<times> store) outcome" where
  "Store_CloseWithExitCode fsErr codeErr exitCode s =
     bindO (chain (length (s_modules s) + 1) (s_modules s) (s_moduleList s)) (\<lambda>modules.
     foldO (\<lambda>m (errs, s). bindO (closeWithExitCode fsErr codeErr m exitCode s) (\<lambda>(err, s).
         Ok (case err of None \<Rightarrow> errs | Some e \<Rightarrow> errs @ [e], s)))
       modules ([], s\<lparr>s_moduleList := None, s_nameToModule := None, s_nameToModuleCap := 0\<rparr>))"

section \<open>Linked lists\<close>

text \<open>
  \<open>segment h p c xs q d\<close>: starting at \<open>c\<close>, whose predecessor is \<open>p\<close>, the list goes through \<open>xs\<close>; the last of them is \<open>q\<close> and
  its successor is \<open>d\<close>.
\<close>

fun segment :: "instance_state list \<Rightarrow> nat option \<Rightarrow> nat option \<Rightarrow> nat list \<Rightarrow> nat option \<Rightarrow> nat option \<Rightarrow> bool" where
  "segment h p c [] q d \<longleftrightarrow> p = q \<and> c = d"
| "segment h p c (x # xs) q d \<longleftrightarrow> c = Some x \<and> x < length h \<and> m_prev (h ! x) = p \<and> segment h (Some x) (m_next (h ! x)) xs q d"

lemma segment_append: "segment h p c (xs @ ys) q d \<longleftrightarrow> (\<exists>q' d'. segment h p c xs q' d' \<and> segment h q' d' ys q d)"
  by (induction xs arbitrary: p c) auto

lemma segment_other: "x \<notin> set xs \<Longrightarrow> segment (h[x := i]) p c xs q d = segment h p c xs q d"
  by (induction xs arbitrary: p c) auto

lemma segment_same:
  "\<forall>x \<in> set xs. m_prev (h' ! x) = m_prev (h ! x) \<and> m_next (h' ! x) = m_next (h ! x) \<Longrightarrow> length h' = length h \<Longrightarrow>
     segment h' p c xs q d = segment h p c xs q d"
  by (induction xs arbitrary: p c) auto

lemma segment_range: "segment h p c xs q d \<Longrightarrow> set xs \<subseteq> {..<length h}"
  by (induction xs arbitrary: p c) auto

lemma segment_last: "segment h p c xs q d \<Longrightarrow> q = (if xs = [] then p else Some (last xs))"
  by (induction xs arbitrary: p c) auto

lemma segment_first: "segment h p c xs q d \<Longrightarrow> c = (if xs = [] then d else Some (hd xs))"
  by (cases xs) auto

lemma segment_set_next:
  assumes "segment h p c (xs @ [x]) q d" "x \<notin> set xs"
  shows "segment (h[x := (h ! x)\<lparr>m_next := d'\<rparr>]) p c (xs @ [x]) q d'"
  using assms by (auto simp: segment_append segment_other)

lemma segment_set_prev:
  assumes "segment h p c (x # xs) q d" "x \<notin> set xs"
  shows "segment (h[x := (h ! x)\<lparr>m_prev := p'\<rparr>]) p' c (x # xs) q d"
  using assms by (auto simp: segment_other)

lemma chain_segment: "segment h p c xs q None \<Longrightarrow> length xs < n \<Longrightarrow> chain n h c = Ok xs"
proof (induction xs arbitrary: p c n)
  case Nil
  then show ?case by (cases n) auto
next
  case (Cons x xs)
  then obtain k where "n = Suc k" by (cases n) auto
  then show ?case using Cons.IH [of "Some x" "m_next (h ! x)" k] Cons.prems by (auto simp: index_def)
qed

definition upd_opt :: "nat option \<Rightarrow> (instance_state \<Rightarrow> instance_state) \<Rightarrow> instance_state list \<Rightarrow> instance_state list" where
  "upd_opt p f h = (case p of None \<Rightarrow> h | Some x \<Rightarrow> h[x := f (h ! x)])"

lemma upd_opt_simps [simp]: "upd_opt None f h = h" "upd_opt (Some x) f h = h[x := f (h ! x)]" "length (upd_opt p f h) = length h"
  by (simp_all add: upd_opt_def split: option.splits)

lemma upd_opt_nth: "a < length h \<Longrightarrow> upd_opt p f h ! a = (if p = Some a then f (h ! a) else h ! a)"
  by (cases p) (simp_all add: nth_list_update)

definition unlink :: "nat \<Rightarrow> instance_state list \<Rightarrow> instance_state list" where
  "unlink m h =
     (let h1 = upd_opt (m_prev (h ! m)) (\<lambda>j. j\<lparr>m_next := m_next (h ! m)\<rparr>) h;
          h2 = upd_opt (m_next (h ! m)) (\<lambda>j. j\<lparr>m_prev := m_prev (h ! m)\<rparr>) h1
      in h2[m := (h2 ! m)\<lparr>m_prev := None, m_next := None\<rparr>])"

lemma unlink_segment:
  assumes s: "segment h None c (ys @ m # zs) q None" and d: "distinct (ys @ m # zs)"
  shows "\<exists>q'. segment (unlink m h) None (if c = Some m then m_next (h ! m) else c) (ys @ zs) q' None"
proof -
  obtain p where ys: "segment h None c ys p (Some m)" and m: "m < length h" "m_prev (h ! m) = p"
    and zs: "segment h (Some m) (m_next (h ! m)) zs q None"
    using s by (auto simp: segment_append)
  define h1 where "h1 = upd_opt p (\<lambda>j. j\<lparr>m_next := m_next (h ! m)\<rparr>) h"
  define h2 where "h2 = upd_opt (m_next (h ! m)) (\<lambda>j. j\<lparr>m_prev := p\<rparr>) h1"
  have un: "unlink m h = h2[m := (h2 ! m)\<lparr>m_prev := None, m_next := None\<rparr>]"
    using m by (simp add: unlink_def h1_def h2_def Let_def)
  let ?c = "if c = Some m then m_next (h ! m) else c"
  have ys1: "segment h1 None ?c ys p (m_next (h ! m)) \<and> segment h1 (Some m) (m_next (h ! m)) zs q None"
  proof (cases ys rule: rev_cases)
    case Nil
    then show ?thesis using ys zs by (auto simp: h1_def)
  next
    case (snoc ys' a)
    then have p: "p = Some a" using segment_last [OF ys] by simp
    have "c \<noteq> Some m" using segment_first [OF ys] snoc d by (auto simp: hd_append split: if_splits)
    moreover have "segment h1 None c (ys' @ [a]) p (m_next (h ! m))"
      using segment_set_next [OF ys [unfolded snoc]] d snoc p by (simp add: h1_def)
    moreover have "segment h1 (Some m) (m_next (h ! m)) zs q None"
      using zs d snoc p by (simp add: h1_def segment_other)
    ultimately show ?thesis using snoc by simp
  qed
  have "\<exists>q'. segment h2 None ?c ys p (m_next (h ! m)) \<and> segment h2 p (m_next (h ! m)) zs q' None"
  proof (cases zs)
    case Nil
    then show ?thesis using ys1 zs by (auto simp: h2_def)
  next
    case (Cons z zs')
    then have n: "m_next (h ! m) = Some z" using zs by simp
    have "segment h2 p (Some z) (z # zs') q None"
      using segment_set_prev [of h1 "Some m" "Some z" z zs' q None p] ys1 d Cons n by (simp add: h2_def)
    moreover have "segment h2 None ?c ys p (Some z)" using ys1 d Cons n by (simp add: h2_def segment_other)
    ultimately show ?thesis using Cons n by auto
  qed
  then obtain q' where "segment h2 None ?c (ys @ zs) q' None" by (auto simp: segment_append)
  then have "segment (unlink m h) None ?c (ys @ zs) q' None" using d unfolding un by (subst segment_other) auto
  then show ?thesis ..
qed

text \<open>What the list operations leave alone.\<close>

definition body :: "instance_state \<Rightarrow> instance_state" where
  "body i = i\<lparr>m_prev := None, m_next := None\<rparr>"

lemma body_simps [simp]: "body (i\<lparr>m_prev := p\<rparr>) = body i" "body (i\<lparr>m_next := p\<rparr>) = body i"
  by (simp_all add: body_def)

lemma body_update: "body i = body (h ! a) \<Longrightarrow> map body (h[a := i]) = map body h"
proof (cases "a < length h")
  case True
  assume "body i = body (h ! a)"
  then show ?thesis using True by (simp add: map_update) (metis length_map list_update_id nth_map)
qed (simp add: list_update_beyond)

lemma body_upd_opt: "(\<And>i. body (f i) = body i) \<Longrightarrow> map body (upd_opt p f h) = map body h"
  by (cases p) (simp_all add: body_update)

lemma body_unlink: "map body (unlink m h) = map body h"
proof -
  have "body (i\<lparr>m_prev := None, m_next := None\<rparr>) = body i" for i by simp
  then show ?thesis unfolding unlink_def Let_def by (simp add: body_update body_upd_opt)
qed

lemma body_nth: "map body h' = map body h \<Longrightarrow> length h' = length h \<and> (\<forall>a < length h. body (h' ! a) = body (h ! a))"
  by (metis length_map nth_map)

lemma unlink_other:
  assumes "a < length h" "m < length h" "a \<noteq> m"
  shows "m_prev (unlink m h ! a) \<in> {m_prev (h ! a), m_prev (h ! m)}" "m_next (unlink m h ! a) \<in> {m_next (h ! a), m_next (h ! m)}"
  using assms by (simp_all add: unlink_def Let_def upd_opt_nth)

lemma unlink_self: "m < length h \<Longrightarrow> m_prev (unlink m h ! m) = None \<and> m_next (unlink m h ! m) = None"
  by (simp add: unlink_def Let_def)

lemma unlink_none: "m < length h \<Longrightarrow> m_prev (h ! m) = None \<Longrightarrow> m_next (h ! m) = None \<Longrightarrow> unlink m h = h"
proof -
  assume m: "m < length h" "m_prev (h ! m) = None" "m_next (h ! m) = None"
  then have e: "(h ! m)\<lparr>m_prev := None, m_next := None\<rparr> = h ! m" by (cases "h ! m") simp
  show ?thesis unfolding unlink_def Let_def m(2,3) upd_opt_simps e by (rule list_update_id)
qed

section \<open>The registry\<close>

definition links_in_range :: "instance_state list \<Rightarrow> bool" where
  "links_in_range h \<longleftrightarrow> (\<forall>a < length h. \<forall>p. m_prev (h ! a) = Some p \<or> m_next (h ! a) = Some p \<longrightarrow> p < length h)"

definition named :: "instance_state list \<Rightarrow> nat list \<Rightarrow> string \<Rightarrow> nat option" where
  "named h xs n = (if n = [] then None else find (\<lambda>m. ModuleName (h ! m) = n) xs)"

definition registry_ok :: "nat list \<Rightarrow> store \<Rightarrow> bool" where
  "registry_ok xs s \<longleftrightarrow> distinct xs \<and> (\<exists>q. segment (s_modules s) None (s_moduleList s) xs q None) \<and> links_in_range (s_modules s) \<and>
     (case s_nameToModule s of
        None \<Rightarrow> xs = [] \<and> s_nameToModuleCap s = 0
      | Some ns \<Rightarrow> (\<forall>m < length (s_modules s). m \<notin> set xs \<longrightarrow> m_prev (s_modules s ! m) = None \<and> m_next (s_modules s ! m) = None) \<and>
          distinct (map fst ns) \<and> inj_on (\<lambda>m. ModuleName (s_modules s ! m)) {m \<in> set xs. ModuleName (s_modules s ! m) \<noteq> []} \<and>
          (\<forall>n. map_of ns n = named (s_modules s) xs n))"

lemma registry_okD:
  assumes "registry_ok xs s"
  shows "distinct xs" "\<exists>q. segment (s_modules s) None (s_moduleList s) xs q None" "links_in_range (s_modules s)"
    "s_nameToModule s = None \<Longrightarrow> xs = []" "s_nameToModule s = None \<Longrightarrow> s_nameToModuleCap s = 0"
    "s_nameToModule s = Some ns \<Longrightarrow> a < length (s_modules s) \<Longrightarrow> a \<notin> set xs \<Longrightarrow> m_prev (s_modules s ! a) = None \<and> m_next (s_modules s ! a) = None"
    "s_nameToModule s = Some ns \<Longrightarrow> distinct (map fst ns)"
    "s_nameToModule s = Some ns \<Longrightarrow> inj_on (\<lambda>m. ModuleName (s_modules s ! m)) {m \<in> set xs. ModuleName (s_modules s ! m) \<noteq> []}"
    "s_nameToModule s = Some ns \<Longrightarrow> map_of ns n = named (s_modules s) xs n"
proof -
  note ok = assms [unfolded registry_ok_def]
  show "distinct xs" using ok by (elim conjE) assumption
  show "\<exists>q. segment (s_modules s) None (s_moduleList s) xs q None" using ok by (elim conjE) assumption
  show "links_in_range (s_modules s)" using ok by (elim conjE) assumption
  have c: "case s_nameToModule s of
        None \<Rightarrow> xs = [] \<and> s_nameToModuleCap s = 0
      | Some ns \<Rightarrow> (\<forall>m < length (s_modules s). m \<notin> set xs \<longrightarrow> m_prev (s_modules s ! m) = None \<and> m_next (s_modules s ! m) = None) \<and>
          distinct (map fst ns) \<and> inj_on (\<lambda>m. ModuleName (s_modules s ! m)) {m \<in> set xs. ModuleName (s_modules s ! m) \<noteq> []} \<and>
          (\<forall>n. map_of ns n = named (s_modules s) xs n)"
    using ok by (elim conjE) assumption
  show "s_nameToModule s = None \<Longrightarrow> xs = []" "s_nameToModule s = None \<Longrightarrow> s_nameToModuleCap s = 0" using c by simp_all
  assume some: "s_nameToModule s = Some ns"
  note c' = c [unfolded some option.case]
  show "a < length (s_modules s) \<Longrightarrow> a \<notin> set xs \<Longrightarrow> m_prev (s_modules s ! a) = None \<and> m_next (s_modules s ! a) = None" using c' by blast
  show "distinct (map fst ns)" "inj_on (\<lambda>m. ModuleName (s_modules s ! m)) {m \<in> set xs. ModuleName (s_modules s ! m) \<noteq> []}" using c' by blast+
  show "map_of ns n = named (s_modules s) xs n" using c' by blast
qed

lemma registry_okI:
  assumes "distinct xs" "segment (s_modules s) None (s_moduleList s) xs q None" "links_in_range (s_modules s)"
    "s_nameToModule s = Some ns"
    "\<And>a. a < length (s_modules s) \<Longrightarrow> a \<notin> set xs \<Longrightarrow> m_prev (s_modules s ! a) = None \<and> m_next (s_modules s ! a) = None"
    "distinct (map fst ns)" "inj_on (\<lambda>m. ModuleName (s_modules s ! m)) {m \<in> set xs. ModuleName (s_modules s ! m) \<noteq> []}"
    "\<And>n. map_of ns n = named (s_modules s) xs n"
  shows "registry_ok xs s"
  unfolding registry_ok_def assms(4) option.case using assms(1,2,3,5-8) by blast

lemma registry_ok_closed:
  "s_nameToModule s = None \<Longrightarrow> registry_ok [] s \<longleftrightarrow> s_moduleList s = None \<and> links_in_range (s_modules s) \<and> s_nameToModuleCap s = 0"
  unfolding registry_ok_def by auto

lemma update_module_eq: "m < length (s_modules s) \<Longrightarrow> update_module m f s = Ok (s\<lparr>s_modules := (s_modules s)[m := f (s_modules s ! m)]\<rparr>)"
  by (simp add: update_module_def index_def)

lemma update_opt_eq:
  "(\<And>x. p = Some x \<Longrightarrow> x < length (s_modules s)) \<Longrightarrow> update_opt p f s = Ok (s\<lparr>s_modules := upd_opt p f (s_modules s)\<rparr>)"
  by (cases p) (simp_all add: update_opt_def update_module_eq)

definition unname :: "nat \<Rightarrow> string \<Rightarrow> store \<Rightarrow> (string \<times> nat) list option" where
  "unname m n s = (if n \<noteq> [] \<and> map_of (names s) n = Some m then Some (AList.delete n (names s)) else s_nameToModule s)"

lemma forgetName_eq:
  assumes cap: "s_nameToModule s = None \<Longrightarrow> s_nameToModuleCap s = 0"
  shows "\<exists>c. forgetName m n s = s\<lparr>s_nameToModule := unname m n s, s_nameToModuleCap := c\<rparr> \<and> (s_nameToModule s = None \<longrightarrow> c = 0)"
proof (cases "n = []")
  case True
  then show ?thesis using cap by (intro exI [of _ "s_nameToModuleCap s"]) (simp add: forgetName_def unname_def)
next
  case False
  define s' where "s' = s\<lparr>s_nameToModule := unname m n s\<rparr>"
  define newCap where "newCap = (if length (names s') < nameToModuleShrinkThreshold then nameToModuleShrinkThreshold else length (names s'))"
  have s': "(if map_of (names s) n = Some m then s\<lparr>s_nameToModule := Some (AList.delete n (names s))\<rparr> else s) = s'"
    using False by (simp add: s'_def unname_def)
  have f: "forgetName m n s = (if newCap * 2 \<le> s_nameToModuleCap s' then s'\<lparr>s_nameToModule := Some (names s'), s_nameToModuleCap := newCap\<rparr> else s')"
    unfolding forgetName_def s' Let_def newCap_def using False by (simp only: if_True simp_thms)
  have cap': "s_nameToModuleCap s' = s_nameToModuleCap s" by (simp add: s'_def)
  show ?thesis
  proof (cases "newCap * 2 \<le> s_nameToModuleCap s")
    case True
    then have some: "s_nameToModule s \<noteq> None" using cap by (auto simp: newCap_def split: if_splits)
    then have "unname m n s \<noteq> None" by (simp add: unname_def)
    then have "Some (names s') = unname m n s" by (auto simp: names_def s'_def)
    then show ?thesis using True f cap' some by (intro exI [of _ newCap]) (auto simp: s'_def)
  next
    case False
    then show ?thesis using f cap' cap by (intro exI [of _ "s_nameToModuleCap s"]) (simp add: s'_def)
  qed
qed

lemma deleteModule_eq:
  assumes m: "m < length (s_modules s)" and r: "links_in_range (s_modules s)" and cap: "s_nameToModule s = None \<Longrightarrow> s_nameToModuleCap s = 0"
  shows "\<exists>c. deleteModule m s = Ok (s\<lparr>s_modules := unlink m (s_modules s),
    s_moduleList := (if s_moduleList s = Some m then m_next (s_modules s ! m) else s_moduleList s),
    s_nameToModule := unname m (ModuleName (s_modules s ! m)) s, s_nameToModuleCap := c\<rparr>) \<and> (s_nameToModule s = None \<longrightarrow> c = 0)"
proof -
  let ?h = "s_modules s"
  have p: "m_prev (?h ! m) = Some x \<Longrightarrow> x < length ?h" "m_next (?h ! m) = Some x \<Longrightarrow> x < length ?h" for x
    using r m unfolding links_in_range_def by blast+
  define h1 where "h1 = upd_opt (m_prev (?h ! m)) (\<lambda>j. j\<lparr>m_next := m_next (?h ! m)\<rparr>) ?h"
  define h2 where "h2 = upd_opt (m_next (?h ! m)) (\<lambda>j. j\<lparr>m_prev := m_prev (?h ! m)\<rparr>) h1"
  have len: "length h1 = length ?h" "length h2 = length ?h" by (simp_all add: h1_def h2_def)
  define l where "l = (if s_moduleList s = Some m then m_next (?h ! m) else s_moduleList s)"
  let ?u = "h2[m := (h2 ! m)\<lparr>m_prev := None, m_next := None\<rparr>]"
  let ?s = "s\<lparr>s_modules := ?u, s_moduleList := l\<rparr>"
  have u: "unlink m ?h = ?u" by (simp only: unlink_def h1_def h2_def Let_def)
  have 1: "update_opt (m_prev (?h ! m)) (\<lambda>j. j\<lparr>m_next := m_next (?h ! m)\<rparr>) s = Ok (s\<lparr>s_modules := h1\<rparr>)"
    unfolding h1_def by (rule update_opt_eq) (rule p(1))
  have 2: "update_opt (m_next (?h ! m)) (\<lambda>j. j\<lparr>m_prev := m_prev (?h ! m)\<rparr>) (s\<lparr>s_modules := h1\<rparr>) = Ok (s\<lparr>s_modules := h2\<rparr>)"
    using update_opt_eq [of "m_next (?h ! m)" "s\<lparr>s_modules := h1\<rparr>"] p(2) len(1) by (simp add: h2_def)
  have 3: "(if s_moduleList (s\<lparr>s_modules := h2\<rparr>) = Some m then (s\<lparr>s_modules := h2\<rparr>)\<lparr>s_moduleList := m_next (?h ! m)\<rparr> else s\<lparr>s_modules := h2\<rparr>) =
      s\<lparr>s_modules := h2, s_moduleList := l\<rparr>"
    by (simp add: l_def)
  have 4: "update_module m (\<lambda>j. j\<lparr>m_prev := None, m_next := None\<rparr>) (s\<lparr>s_modules := h2, s_moduleList := l\<rparr>) = Ok ?s"
    using m len(2) by (simp add: update_module_eq)
  have del: "deleteModule m s = Ok (forgetName m (ModuleName (?h ! m)) ?s)"
    using m by (simp only: deleteModule_def index_def if_True bindO.simps 1 2 3 4 Let_def)
  have n: "unname m x ?s = unname m x s" for x by (simp add: unname_def names_def)
  have "s_nameToModule ?s = None \<Longrightarrow> s_nameToModuleCap ?s = 0" using cap by simp
  from forgetName_eq [OF this, of m "ModuleName (?h ! m)"] obtain c where
    "forgetName m (ModuleName (?h ! m)) ?s = ?s\<lparr>s_nameToModule := unname m (ModuleName (?h ! m)) s, s_nameToModuleCap := c\<rparr>"
    "s_nameToModule s = None \<longrightarrow> c = 0"
    unfolding n by auto
  then show ?thesis unfolding del u l_def by auto
qed

lemma segment_neighbours:
  "segment h p c xs q d \<Longrightarrow> m \<in> set xs \<Longrightarrow>
     (m_prev (h ! m) = Some a \<longrightarrow> p = Some a \<or> a \<in> set xs) \<and> (m_next (h ! m) = Some a \<longrightarrow> d = Some a \<or> a \<in> set xs)"
proof (induction xs arbitrary: p c)
  case (Cons x xs)
  show ?case
  proof (cases "m = x")
    case True
    then show ?thesis using Cons.prems segment_first [of h "Some x" "m_next (h ! x)" xs q d] by (auto split: if_splits)
  next
    case False
    then show ?thesis using Cons.IH [of "Some x" "m_next (h ! x)"] Cons.prems by auto
  qed
qed simp

lemma unlink_nth: "a < length h \<Longrightarrow> a \<noteq> m \<Longrightarrow> m_prev (h ! m) \<noteq> Some a \<Longrightarrow> m_next (h ! m) \<noteq> Some a \<Longrightarrow> unlink m h ! a = h ! a"
  by (simp add: unlink_def Let_def upd_opt_nth)

lemma links_in_range_unlink: "links_in_range h \<Longrightarrow> m < length h \<Longrightarrow> links_in_range (unlink m h)"
proof -
  assume r: "links_in_range h" and m: "m < length h"
  have len: "length (unlink m h) = length h" using body_nth [OF body_unlink] by simp
  have "p < length h" if a: "a < length h" and p: "m_prev (unlink m h ! a) = Some p \<or> m_next (unlink m h ! a) = Some p" for a p
  proof (cases "a = m")
    case False
    have "Some p \<in> {m_prev (h ! a), m_prev (h ! m), m_next (h ! a), m_next (h ! m)}"
      using p unlink_other [OF a m False] by auto
    then show ?thesis using r a m unfolding links_in_range_def by (metis empty_iff insertE)
  qed (use p unlink_self [OF m] in simp)
  then show ?thesis using len by (simp add: links_in_range_def)
qed

lemma find_remove1: "\<not> P m \<Longrightarrow> find P (remove1 m xs) = find P xs"
  by (induction xs) auto

lemma name_body: "map body h' = map body h \<Longrightarrow> a < length h \<Longrightarrow> ModuleName (h' ! a) = ModuleName (h ! a)"
  using body_nth [of h' h] by (auto simp: body_def dest: spec [of _ a]) (metis instance_state.select_convs(1) instance_state.surjective instance_state.update_convs(2,3))

lemma named_body: "map body h' = map body h \<Longrightarrow> set xs \<subseteq> {..<length h} \<Longrightarrow> named h' xs n = named h xs n"
  unfolding named_def using name_body [of h' h] by (auto intro!: find_cong)

text \<open>
  The list operations refine the operations on a list of modules, newest first: registering puts a module at the front if its
  name is free, deleting removes it, and the map finds the module of a name.
\<close>

lemma inj_names_cong:
  assumes "\<And>a. a \<in> set xs \<Longrightarrow> f a = g a"
  shows "inj_on f {a \<in> set xs. f a \<noteq> []} = inj_on g {a \<in> set xs. g a \<noteq> []}"
proof -
  have "{a \<in> set xs. f a \<noteq> []} = {a \<in> set xs. g a \<noteq> []}" using assms by auto
  then show ?thesis using assms by (auto intro: inj_on_cong [THEN iffD1])
qed

lemma deleteModule_registry:
  assumes ok: "registry_ok xs s" and m: "m < length (s_modules s)"
  shows "\<exists>s'. deleteModule m s = Ok s' \<and> registry_ok (remove1 m xs) s' \<and> map body (s_modules s') = map body (s_modules s) \<and>
    s_effects s' = s_effects s \<and> (s_nameToModule s' = None \<longleftrightarrow> s_nameToModule s = None)"
proof -
  let ?h = "s_modules s"
  note D = registry_okD [OF ok]
  obtain q where seg: "segment ?h None (s_moduleList s) xs q None" using D(2) by blast
  note dist = D(1) and r = D(3) and cap = D(5)
  obtain c where del: "deleteModule m s = Ok (s\<lparr>s_modules := unlink m ?h,
      s_moduleList := (if s_moduleList s = Some m then m_next (?h ! m) else s_moduleList s),
      s_nameToModule := unname m (ModuleName (?h ! m)) s, s_nameToModuleCap := c\<rparr>)" and c: "s_nameToModule s = None \<longrightarrow> c = 0"
    using deleteModule_eq [OF m r] cap that by metis
  let ?s = "s\<lparr>s_modules := unlink m ?h, s_moduleList := (if s_moduleList s = Some m then m_next (?h ! m) else s_moduleList s),
      s_nameToModule := unname m (ModuleName (?h ! m)) s, s_nameToModuleCap := c\<rparr>"
  have len: "length (unlink m ?h) = length ?h" using body_nth [OF body_unlink] by simp
  have nm: "ModuleName (unlink m ?h ! a) = ModuleName (?h ! a)" if "a < length ?h" for a using name_body [OF body_unlink that] .
  have rng: "set xs \<subseteq> {..<length ?h}" using segment_range [OF seg] .
  have "registry_ok (remove1 m xs) ?s"
  proof (cases "s_nameToModule s")
    case None
    then have "xs = []" "s_moduleList s = None" "unname m n s = None" for n using D(4) seg by (auto simp: unname_def names_def)
    then show ?thesis using None c links_in_range_unlink [OF r m] registry_ok_closed [of ?s] by simp
  next
    case (Some ns)
    note iso = D(6) [OF Some] and dns = D(7) [OF Some] and inj = D(8) [OF Some] and map = D(9) [OF Some]
    show ?thesis
    proof (cases "m \<in> set xs")
      case False
      have u: "unlink m ?h = ?h" using unlink_none [OF m] iso [OF m False] by simp
      have "s_moduleList s \<noteq> Some m" using segment_first [OF seg] False by (auto split: if_splits)
      moreover have "named ?h xs n \<noteq> Some m" for n using False by (auto simp: named_def find_Some_iff)
      then have "unname m (ModuleName (?h ! m)) s = Some ns" using Some map by (simp add: unname_def names_def)
      ultimately show ?thesis unfolding remove1_idem [OF False]
        by (intro registry_okI [of _ _ q ns]) (use dist seg r u iso dns inj map in simp_all)
    next
      case True
      then obtain ys zs where xs: "xs = ys @ m # zs" using split_list by fast
      have rem: "remove1 m xs = ys @ zs" using xs dist by (simp add: remove1_append)
      have set_rem: "set (remove1 m xs) = set xs - {m}" using dist by simp
      obtain q' where seg': "segment (unlink m ?h) None (if s_moduleList s = Some m then m_next (?h ! m) else s_moduleList s) (remove1 m xs) q' None"
        using unlink_segment [OF seg [unfolded xs] dist [unfolded xs]] rem by auto
      have iso': "m_prev (unlink m ?h ! a) = None \<and> m_next (unlink m ?h ! a) = None" if a: "a < length ?h" "a \<notin> set (remove1 m xs)" for a
      proof (cases "a = m")
        case False
        then have "a \<notin> set xs" using a set_rem by simp
        then show ?thesis using unlink_nth [OF a(1) False] segment_neighbours [OF seg True, of a] iso [OF a(1)] by auto
      qed (use unlink_self [OF m] in simp)
      have sub: "set (remove1 m xs) \<subseteq> set xs" using set_rem by blast
      have nm': "ModuleName (unlink m ?h ! a) = ModuleName (?h ! a)" if "a \<in> set (remove1 m xs)" for a
        using nm [of a] that sub rng by blast
      have inj': "inj_on (\<lambda>a. ModuleName (unlink m ?h ! a)) {a \<in> set (remove1 m xs). ModuleName (unlink m ?h ! a) \<noteq> []}"
      proof (rule inj_names_cong [THEN iffD2])
        show "inj_on (\<lambda>a. ModuleName (?h ! a)) {a \<in> set (remove1 m xs). ModuleName (?h ! a) \<noteq> []}"
          by (rule inj_on_subset [OF inj]) (use sub in blast)
      qed (rule nm')
      have other: "named (unlink m ?h) (remove1 m xs) n = named ?h xs n" if "n \<noteq> ModuleName (?h ! m)" for n
        using that named_body [OF body_unlink, of "remove1 m xs" ?h m n] sub rng
        by (simp add: named_def find_remove1 subset_trans)
      have gone: "named (unlink m ?h) (remove1 m xs) (ModuleName (?h ! m)) = None" (is "named _ _ ?n = _")
      proof (cases "?n = []")
        case False
        have "ModuleName (?h ! a) \<noteq> ?n" if "a \<in> set xs" "a \<noteq> m" for a
          using inj_onD [OF inj, of a m] that True False by auto
        then have "find (\<lambda>a. ModuleName (?h ! a) = ?n) (remove1 m xs) = None" using set_rem by (auto simp: find_None_iff)
        then show ?thesis using named_body [OF body_unlink, of "remove1 m xs" ?h m ?n] sub rng by (simp add: named_def subset_trans)
      qed (simp add: named_def)
      have found: "map_of ns ?n = Some m" if "?n \<noteq> []"
      proof -
        have "find (\<lambda>a. ModuleName (?h ! a) = ?n) xs \<noteq> None" using True by (auto simp: find_None_iff)
        then obtain a where a: "find (\<lambda>a. ModuleName (?h ! a) = ?n) xs = Some a" by auto
        then have "a \<in> set xs" "ModuleName (?h ! a) = ?n" by (auto simp: find_Some_iff)
        then have "a = m" using inj_onD [OF inj, of a m] that True by auto
        then show ?thesis using map a that by (simp add: named_def)
      qed
      obtain ns' where ns': "unname m ?n s = Some ns'" "distinct (map fst ns')" "\<And>n. map_of ns' n = (if n = ?n then None else map_of ns n)"
      proof (cases "?n = []")
        case True
        then show ?thesis using that [of ns] Some dns map by (simp add: unname_def named_def)
      next
        case False
        then show ?thesis using that [of "AList.delete ?n ns"] Some dns found
          by (simp add: unname_def names_def delete_conv' distinct_delete)
      qed
      have "map_of ns' n = named (unlink m ?h) (remove1 m xs) n" for n using ns'(3) other gone map by simp
      then show ?thesis
        by (intro registry_okI [of _ _ q' ns'])
           (use seg' iso' inj' links_in_range_unlink [OF r m] dist len ns'(1,2) in simp_all)
    qed
  qed
  moreover have "unname m n s = None \<longleftrightarrow> s_nameToModule s = None" for n by (cases "s_nameToModule s") (auto simp: unname_def names_def)
  ultimately show ?thesis using body_unlink by (intro exI [of _ ?s] conjI del) simp_all
qed

lemma registerModule_links:
  assumes seg: "segment h None c xs q None" and m: "m < length h" "m \<notin> set xs" and prev: "m_prev (h ! m) = None" and dist: "distinct xs"
  defines "h' \<equiv> upd_opt c (\<lambda>j. j\<lparr>m_prev := Some m\<rparr>) (h[m := (h ! m)\<lparr>m_next := c\<rparr>])"
  shows "\<exists>q'. segment h' None (Some m) (m # xs) q' None"
proof -
  let ?h = "h[m := (h ! m)\<lparr>m_next := c\<rparr>]"
  have seg1: "segment ?h None c xs q None" using seg m(2) by (simp add: segment_other)
  have c: "c \<noteq> Some m" using segment_first [OF seg] m(2) by (auto split: if_splits)
  have self: "h' ! m = (h ! m)\<lparr>m_next := c\<rparr>" "length h' = length h" using m(1) c by (simp_all add: h'_def upd_opt_nth)
  show ?thesis
  proof (cases xs)
    case Nil
    then show ?thesis using seg m self prev by simp
  next
    case (Cons x xs')
    then have "c = Some x" using seg by simp
    then have "segment h' (Some m) c xs q None"
      using segment_set_prev [of ?h None c x xs' q None "Some m"] seg1 dist Cons by (simp add: h'_def)
    then show ?thesis using m self prev by auto
  qed
qed

lemma registerModule_registry:
  assumes ok: "registry_ok xs s" and m: "m < length (s_modules s)" "m \<notin> set xs" and live: "s_nameToModule s = Some ns"
    and free: "named (s_modules s) xs (ModuleName (s_modules s ! m)) = None"
  shows "\<exists>s'. registerModule m s = Ok s' \<and> registry_ok (m # xs) s' \<and> map body (s_modules s') = map body (s_modules s) \<and>
    s_effects s' = s_effects s \<and> s_nameToModule s' \<noteq> None"
proof -
  let ?h = "s_modules s" and ?n = "ModuleName (s_modules s ! m)"
  note D = registry_okD [OF ok]
  obtain q where seg: "segment ?h None (s_moduleList s) xs q None" using D(2) by blast
  note dist = D(1) and r = D(3) and iso = D(6) [OF live] and dns = D(7) [OF live] and inj = D(8) [OF live] and map = D(9) [OF live]
  define ns' where "ns' = (if ?n = [] then ns else AList.update ?n m ns)"
  define c where "c = (if ?n \<noteq> [] \<and> length ns' > s_nameToModuleCap s then length ns' else s_nameToModuleCap s)"
  define h' where "h' = upd_opt (s_moduleList s) (\<lambda>j. j\<lparr>m_prev := Some m\<rparr>) (?h[m := (?h ! m)\<lparr>m_next := s_moduleList s\<rparr>])"
  let ?s = "s\<lparr>s_nameToModule := Some ns', s_nameToModuleCap := c, s_modules := h', s_moduleList := Some m\<rparr>"
  have rng: "set xs \<subseteq> {..<length ?h}" using segment_range [OF seg] .
  have first: "x \<in> set xs" if "s_moduleList s = Some x" for x using segment_first [OF seg] that by (auto split: if_splits)
  have bd: "map body h' = map body ?h" by (simp add: h'_def body_upd_opt body_update)
  have len: "length h' = length ?h" by (simp add: h'_def)
  have nm: "ModuleName (h' ! a) = ModuleName (?h ! a)" if "a < length ?h" for a using name_body [OF bd that] .
  have reg: "registerModule m s = Ok ?s"
  proof -
    have 1: "(if ?n \<noteq> [] then
              if map_of ns ?n \<noteq> None then Err (Errorf ''module[%s] has already been instantiated'')
              else
                let xs = AList.update ?n m ns in
                Ok (s\<lparr>s_nameToModule := Some xs,
                  s_nameToModuleCap := (if length xs > s_nameToModuleCap s then length xs else s_nameToModuleCap s)\<rparr>)
            else Ok s) = Ok (s\<lparr>s_nameToModule := Some ns', s_nameToModuleCap := c\<rparr>)" (is "?l = Ok ?s1")
      using free map live by (auto simp: ns'_def c_def Let_def)
    have 2: "update_module m (\<lambda>j. j\<lparr>m_next := s_moduleList ?s1\<rparr>) ?s1 = Ok (?s1\<lparr>s_modules := ?h[m := (?h ! m)\<lparr>m_next := s_moduleList s\<rparr>]\<rparr>)" (is "_ = Ok ?s2")
      using m by (simp add: update_module_eq)
    have 3: "update_opt (s_moduleList ?s1) (\<lambda>j. j\<lparr>m_prev := Some m\<rparr>) ?s2 = Ok (?s2\<lparr>s_modules := h'\<rparr>)"
      using update_opt_eq [of "s_moduleList ?s1" ?s2] first rng by (auto simp: h'_def)
    have i: "index ?h m = Ok (?h ! m)" using m by (simp add: index_def)
    show ?thesis unfolding registerModule_def i live bindO.simps option.case 1 2 3 by simp
  qed
  have prev: "m_prev (?h ! m) = None" "m_next (?h ! m) = None" using iso [OF m] by simp_all
  obtain q' where seg': "segment h' None (Some m) (m # xs) q' None"
    using registerModule_links [OF seg m prev(1) dist] unfolding h'_def by blast
  have other: "h' ! a = ?h ! a" if "a < length ?h" "a \<noteq> m" "a \<notin> set xs" for a
    using that first by (auto simp: h'_def upd_opt_nth nth_list_update)
  have iso': "m_prev (h' ! a) = None \<and> m_next (h' ! a) = None" if "a < length ?h" "a \<notin> set (m # xs)" for a
    using other [of a] iso [of a] that by simp
  have r': "links_in_range h'" unfolding links_in_range_def len
  proof (intro allI impI)
    fix a p
    assume a: "a < length ?h" and p: "m_prev (h' ! a) = Some p \<or> m_next (h' ! a) = Some p"
    have "m_prev (h' ! a) \<in> {Some m, m_prev (?h ! a)}" "m_next (h' ! a) \<in> {s_moduleList s, m_next (?h ! a)}"
      using a m(1) by (auto simp: h'_def upd_opt_nth nth_list_update)
    then have "p = m \<or> s_moduleList s = Some p \<or> m_prev (?h ! a) = Some p \<or> m_next (?h ! a) = Some p" using p by auto
    then show "p < length ?h" using m(1) first rng r a unfolding links_in_range_def by blast
  qed
  have taken: "ModuleName (?h ! a) \<noteq> ?n" if "a \<in> set xs" "?n \<noteq> []" for a
    using free that by (auto simp: named_def find_None_iff)
  have nm': "ModuleName (h' ! a) = ModuleName (?h ! a)" if "a \<in> set (m # xs)" for a using nm [of a] that rng m by auto
  have inj': "inj_on (\<lambda>a. ModuleName (h' ! a)) {a \<in> set (m # xs). ModuleName (h' ! a) \<noteq> []}"
  proof (rule inj_names_cong [THEN iffD2])
    show "inj_on (\<lambda>a. ModuleName (?h ! a)) {a \<in> set (m # xs). ModuleName (?h ! a) \<noteq> []}"
    proof (cases "?n = []")
      case True
      then have "{a \<in> set (m # xs). ModuleName (?h ! a) \<noteq> []} = {a \<in> set xs. ModuleName (?h ! a) \<noteq> []}" by auto
      then show ?thesis using inj by simp
    next
      case False
      then have "{a \<in> set (m # xs). ModuleName (?h ! a) \<noteq> []} = insert m {a \<in> set xs. ModuleName (?h ! a) \<noteq> []}" by auto
      then show ?thesis using inj taken [OF _ False] m(2) by (auto simp: image_iff dest: sym)
    qed
  qed (rule nm')
  have find: "named h' (m # xs) n = (if n = ?n \<and> n \<noteq> [] then Some m else named ?h xs n)" for n
    using nm' [of m] named_body [OF bd rng, of n] by (cases "n = []") (simp_all add: named_def)
  have "map_of ns' n = named h' (m # xs) n" for n
    unfolding find using map [of n] by (simp add: ns'_def update_conv)
  moreover have "distinct (map fst ns')" using dns by (simp add: ns'_def distinct_update)
  ultimately have "registry_ok (m # xs) ?s"
    by (intro registry_okI [of _ _ q' ns']) (use dist m seg' r' iso' inj' len in simp_all)
  then show ?thesis using bd by (intro exI [of _ ?s] conjI reg) simp_all
qed

lemma registry_ok_update:
  assumes m: "m < length (s_modules s)" and same: "ModuleName i = ModuleName (s_modules s ! m)" "m_prev i = m_prev (s_modules s ! m)" "m_next i = m_next (s_modules s ! m)"
  shows "registry_ok xs (s\<lparr>s_modules := (s_modules s)[m := i], s_effects := es\<rparr>) = registry_ok xs s"
proof -
  let ?h = "s_modules s" and ?h' = "(s_modules s)[m := i]"
  have nth: "ModuleName (?h' ! a) = ModuleName (?h ! a)" "m_prev (?h' ! a) = m_prev (?h ! a)" "m_next (?h' ! a) = m_next (?h ! a)" for a
    using m same by (simp_all add: nth_list_update)
  have "segment ?h' p c xs q d = segment ?h p c xs q d" for p c q d by (rule segment_same) (simp_all add: nth)
  then show ?thesis by (cases "s_nameToModule s") (simp_all add: registry_ok_def links_in_range_def named_def nth)
qed

lemma registry_ok_new:
  assumes ok: "registry_ok xs s" and i: "m_prev i = None" "m_next i = None"
  shows "registry_ok xs (s\<lparr>s_modules := s_modules s @ [i]\<rparr>)"
proof -
  let ?h = "s_modules s" and ?h' = "s_modules s @ [i]"
  note D = registry_okD [OF ok]
  obtain q where seg: "segment ?h None (s_moduleList s) xs q None" using D(2) by blast
  have rng: "a < length ?h" if "a \<in> set xs" for a using segment_range [OF seg] that by auto
  have nth: "?h' ! a = ?h ! a" if "a \<in> set xs" for a using rng [OF that] by (simp add: nth_append)
  have seg': "segment ?h' None (s_moduleList s) xs q None"
  proof -
    have "segment ?h' p c ys q d" if "segment ?h p c ys q d" for p c ys d
      using that by (induction ys arbitrary: p c) (auto simp: nth_append)
    then show ?thesis using seg .
  qed
  have r: "links_in_range ?h'" unfolding links_in_range_def
  proof (intro allI impI)
    fix a p
    assume a: "a < length ?h'" and p: "m_prev (?h' ! a) = Some p \<or> m_next (?h' ! a) = Some p"
    show "p < length ?h'"
    proof (cases "a < length ?h")
      case True
      then have e: "?h' ! a = ?h ! a" by (simp add: nth_append)
      have "p < length ?h" using D(3) [unfolded links_in_range_def] True p [unfolded e] by blast
      then show ?thesis by simp
    next
      case False
      then have "a = length ?h" using a by simp
      then show ?thesis using p i by simp
    qed
  qed
  have nm: "named ?h' xs n = named ?h xs n" for n using nth by (auto simp: named_def intro!: find_cong)
  show ?thesis
  proof (cases "s_nameToModule s")
    case None
    then show ?thesis using D(4,5) seg' r registry_ok_closed [of "s\<lparr>s_modules := ?h'\<rparr>"] by simp
  next
    case (Some ns)
    have "inj_on (\<lambda>a. ModuleName (?h' ! a)) {a \<in> set xs. ModuleName (?h' ! a) \<noteq> []}"
      by (rule inj_names_cong [THEN iffD2, OF _ D(8) [OF Some]]) (simp add: nth)
    moreover have "m_prev (?h' ! a) = None \<and> m_next (?h' ! a) = None" if a: "a < length ?h'" "a \<notin> set xs" for a
    proof (cases "a < length ?h")
      case True
      then show ?thesis using D(6) [OF Some True a(2)] by (simp add: nth_append)
    next
      case False
      then have "a = length ?h" using a by simp
      then show ?thesis using i by simp
    qed
    ultimately show ?thesis
      by (intro registry_okI [of _ _ q ns]) (use D(1) D(7,9) [OF Some] Some seg' r nm in simp_all)
  qed
qed

section \<open>Closing, exactly\<close>

text \<open>The effects of closing the resources of an instance.\<close>

definition closing :: "nat \<Rightarrow> instance_state \<Rightarrow> effect list" where
  "closing m i = (if CloseNotifier i then [CloseNotify m (ucast (drop_bit 32 (m_Closed i)))] else []) @
     (if Sys i then [CloseFS m] else []) @ [RetireMemory m] @ (if CodeCloser i then [CloseCode m] else [])"

definition cleared :: "instance_state \<Rightarrow> instance_state" where
  "cleared i = i\<lparr>CloseNotifier := False, Sys := False, CodeCloser := False\<rparr>"

definition exited :: "u64 \<Rightarrow> u32 \<Rightarrow> instance_state \<Rightarrow> instance_state" where
  "exited flag c i = i\<lparr>m_Closed := flag OR push_bit 32 (ucast c)\<rparr>"

lemma setExitCode_eq:
  "m < length (s_modules s) \<Longrightarrow> setExitCode m c flag s =
     Ok (if m_Closed (s_modules s ! m) = 0 then (True, s\<lparr>s_modules := (s_modules s)[m := exited flag c (s_modules s ! m)]\<rparr>) else (False, s))"
  by (simp add: setExitCode_def index_def update_module_eq exited_def)

lemma flag_bits: "\<not> bit (2 :: u64) (32 + n)" "\<not> bit (1 :: u64) (32 + n)"
  by (simp_all add: bit_1_iff bit_numeral_rec(1) bit_Suc numeral_eq_Suc)

lemma exit_code_bits:
  assumes "flag = (1 :: u64) \<or> flag = 2"
  shows "ucast (drop_bit 32 (flag OR push_bit 32 (ucast (c :: u32)))) = c" "(flag OR push_bit 32 (ucast c)) AND 0xff = flag"
    "flag OR push_bit 32 (ucast c) \<noteq> 0"
proof -
  show "ucast (drop_bit 32 (flag OR push_bit 32 (ucast (c :: u32)))) = c"
    using assms flag_bits by (intro bit_eqI) (auto simp: bit_simps add.commute)
  have m: "bit (0xff :: u64) n \<longleftrightarrow> n < 8" for n using bit_mask_iff [of 8 n, where 'a = "64 word"] by (auto simp: mask_eq_exp_minus_1)
  have f: "bit flag n \<Longrightarrow> n < 8" for n using assms by (auto simp: bit_1_iff bit_2_iff)
  show low: "(flag OR push_bit 32 (ucast c)) AND 0xff = flag"
  proof (rule bit_eqI)
    fix n
    show "bit ((flag OR push_bit 32 (ucast c)) AND 0xff) n = bit flag n"
      unfolding bit_and_iff m bit_or_iff bit_push_bit_iff using f [of n] by auto
  qed
  show "flag OR push_bit 32 (ucast c) \<noteq> 0" using low assms by auto
qed

lemma ensureResourcesClosed_eq:
  assumes m: "m < length (s_modules s)"
  shows "\<exists>e. ensureResourcesClosed fsErr codeErr m s = Ok (e, s\<lparr>s_modules := (s_modules s)[m := cleared (s_modules s ! m)],
    s_effects := s_effects s @ closing m (s_modules s ! m)\<rparr>)"
proof -
  obtain n p x c nt sy cc where i: "s_modules s ! m = \<lparr>ModuleName = n, m_prev = p, m_next = x, m_Closed = c, CloseNotifier = nt, Sys = sy, CodeCloser = cc\<rparr>"
    (is "_ = ?i") by (cases "s_modules s ! m")
  have id: "(s_modules s)[m := ?i] = s_modules s" using list_update_id [of "s_modules s" m] by (simp only: i)
  show ?thesis using id
    by (cases nt; cases sy; cases cc)
       (simp_all add: ensureResourcesClosed_def index_def i update_module_eq m effect_def closing_def cleared_def Let_def)
qed

section \<open>The specification\<close>

text \<open>
  What a store promises, without its list, its map and the packed exit codes: the live modules, newest first, those that
  are being instantiated, what each module still has to close and whether its closing is put off, and the closing actions so
  far. Retiring memory is idempotent and left out here.
\<close>

record entry =
  e_name :: string
  e_exit :: "u32 option"
  e_deferred :: bool
  e_notifier :: bool
  e_sys :: bool
  e_code :: bool

record registry =
  r_entries :: "entry list"
  r_live :: "nat list"
  r_pending :: "nat list"
  r_open :: bool
  r_log :: "effect list"

definition empty_registry :: registry where
  "empty_registry = \<lparr>r_entries = [], r_live = [], r_pending = [], r_open = True, r_log = []\<rparr>"

definition lookup :: "string \<Rightarrow> registry \<Rightarrow> nat option" where
  "lookup n r = (if n = [] then None else find (\<lambda>m. e_name (r_entries r ! m) = n) (r_live r))"

definition to_close :: "nat \<Rightarrow> entry \<Rightarrow> effect list" where
  "to_close m e = (if e_notifier e then [CloseNotify m (the (e_exit e))] else []) @
     (if e_sys e then [CloseFS m] else []) @ (if e_code e then [CloseCode m] else [])"

definition set_entry :: "nat \<Rightarrow> (entry \<Rightarrow> entry) \<Rightarrow> registry \<Rightarrow> registry" where
  "set_entry m f r = r\<lparr>r_entries := (r_entries r)[m := f (r_entries r ! m)]\<rparr>"

definition cleanup :: "nat \<Rightarrow> registry \<Rightarrow> registry" where
  "cleanup m r = (set_entry m (\<lambda>e. e\<lparr>e_notifier := False, e_sys := False, e_code := False\<rparr>) r)
     \<lparr>r_log := r_log r @ to_close m (r_entries r ! m)\<rparr>"

definition leave :: "nat \<Rightarrow> u32 \<Rightarrow> bool \<Rightarrow> registry \<Rightarrow> registry" where
  "leave m c deferred r = (set_entry m (\<lambda>e. e\<lparr>e_exit := Some c, e_deferred := deferred\<rparr>) r)\<lparr>r_live := remove1 m (r_live r)\<rparr>"

definition close_entry :: "nat \<Rightarrow> u32 \<Rightarrow> registry \<Rightarrow> registry" where
  "close_entry m c r = (if e_exit (r_entries r ! m) = None then cleanup m (leave m c False r) else r)"

definition begin_entry :: "string \<Rightarrow> bool \<Rightarrow> registry \<Rightarrow> (go_error + nat) \<times> registry" where
  "begin_entry name sys r =
     (if lookup name r \<noteq> None then (Inl (Errorf ''module[%s] has already been instantiated''), r)
      else
        (Inr (length (r_entries r)),
         r\<lparr>r_entries := r_entries r @ [\<lparr>e_name = name, e_exit = None, e_deferred = False, e_notifier = False, e_sys = sys, e_code = False\<rparr>],
           r_pending := length (r_entries r) # r_pending r\<rparr>))"

definition finish_entry :: "go_error option \<Rightarrow> nat \<Rightarrow> bool \<Rightarrow> bool \<Rightarrow> registry \<Rightarrow> (go_error + nat) \<times> registry" where
  "finish_entry err m notifier closer r =
     (let r = r\<lparr>r_pending := remove1 m (r_pending r)\<rparr> in
      case err of
        Some x \<Rightarrow> (Inl x, close_entry m 0 r)
      | None \<Rightarrow>
          let r = set_entry m (\<lambda>e. e\<lparr>e_notifier := notifier, e_code := closer\<rparr>) r in
          if \<not> r_open r then (Inl (Errorf ''already closed''), close_entry m 0 r)
          else if lookup (e_name (r_entries r ! m)) r \<noteq> None
          then (Inl (Errorf ''module[%s] has already been instantiated''), close_entry m 0 r)
          else (Inr m, r\<lparr>r_live := m # r_live r\<rparr>))"

text \<open>The operations on a store, and what they answer.\<close>

datatype operation =
    Enter "go_error option" string bool bool bool
  | Begin string bool
  | Finish "go_error option" nat bool bool
  | Find string
  | Close nat u32
  | CloseCtx nat ctx_error
  | Defer bool nat ctx_error
  | Check nat
  | CloseStore u32

datatype answer = Entered "go_error + nat" | Found "nat option" | Exit "u32 option" | Done

fun specified :: "operation \<Rightarrow> registry \<Rightarrow> answer \<times> registry" where
  "specified (Enter err name sys notifier closer) r =
     (case begin_entry name sys r of
        (Inl e, r) \<Rightarrow> (Entered (Inl e), r)
      | (Inr m, r) \<Rightarrow> map_prod Entered id (finish_entry err m notifier closer r))"
| "specified (Begin name sys) r = map_prod Entered id (begin_entry name sys r)"
| "specified (Finish err m notifier closer) r = map_prod Entered id (finish_entry err m notifier closer r)"
| "specified (Find n) r = (Found (lookup n r), r)"
| "specified (Close m c) r = (Done, close_entry m c r)"
| "specified (CloseCtx m x) r = (Done, case ctxExitCode x of None \<Rightarrow> r | Some c \<Rightarrow> close_entry m c r)"
| "specified (Defer cancelled m x) r =
     (Done, if cancelled then r
        else case ctxExitCode x of None \<Rightarrow> r | Some c \<Rightarrow> if e_exit (r_entries r ! m) = None then leave m c True r else r)"
| "specified (Check m) r =
     (Exit (e_exit (r_entries r ! m)), if e_exit (r_entries r ! m) \<noteq> None \<and> e_deferred (r_entries r ! m) then cleanup m r else r)"
| "specified (CloseStore c) r = (Done, fold (\<lambda>m. close_entry m c) (r_live r) (r\<lparr>r_live := [], r_open := False\<rparr>))"

text \<open>The same operations on the store.\<close>

fun perform :: "(nat \<Rightarrow> go_error option) \<Rightarrow> (nat \<Rightarrow> go_error option) \<Rightarrow> operation \<Rightarrow> store \<Rightarrow> (answer \<times> store) outcome" where
  "perform fsErr codeErr (Enter err name sys notifier closer) s =
     bindO (Instantiate fsErr codeErr err name sys notifier closer s) (\<lambda>(a, s). Ok (Entered a, s))"
| "perform fsErr codeErr (Begin name sys) s = Ok (map_prod Entered id (beginInstantiate name sys s))"
| "perform fsErr codeErr (Finish err m notifier closer) s =
     bindO (finishInstantiate fsErr codeErr err m notifier closer s) (\<lambda>(a, s). Ok (Entered a, s))"
| "perform fsErr codeErr (Find n) s = Ok (Found (Store_Module n s), s)"
| "perform fsErr codeErr (Close m c) s = bindO (CloseWithExitCode fsErr codeErr m c s) (\<lambda>(_, s). Ok (Done, s))"
| "perform fsErr codeErr (CloseCtx m x) s = bindO (CloseWithCtxErr fsErr codeErr m x s) (\<lambda>s. Ok (Done, s))"
| "perform fsErr codeErr (Defer cancelled m x) s = bindO (closeModuleOnCanceledOrTimeout cancelled m x s) (\<lambda>s. Ok (Done, s))"
| "perform fsErr codeErr (Check m) s = bindO (FailIfClosed fsErr codeErr m s) (\<lambda>(c, s). Ok (Exit c, s))"
| "perform fsErr codeErr (CloseStore c) s = bindO (Store_CloseWithExitCode fsErr codeErr c s) (\<lambda>(_, s). Ok (Done, s))"

fun run_specified :: "operation list \<Rightarrow> registry \<Rightarrow> answer list \<times> registry" where
  "run_specified [] r = ([], r)"
| "run_specified (x # xs) r = (let (a, r) = specified x r; (as, r) = run_specified xs r in (a # as, r))"

fun run_store :: "(nat \<Rightarrow> go_error option) \<Rightarrow> (nat \<Rightarrow> go_error option) \<Rightarrow> operation list \<Rightarrow> store \<Rightarrow> (answer list \<times> store) outcome" where
  "run_store fsErr codeErr [] s = Ok ([], s)"
| "run_store fsErr codeErr (x # xs) s =
     bindO (perform fsErr codeErr x s) (\<lambda>(a, s). bindO (run_store fsErr codeErr xs s) (\<lambda>(as, s). Ok (a # as, s)))"

text \<open>
  A module is operated on after it was made, and its instantiation ends once. An operation disturbs an instantiation when it
  closes the module before it is registered.
\<close>

fun target :: "operation \<Rightarrow> nat option" where
  "target (Close m _) = Some m"
| "target (CloseCtx m _) = Some m"
| "target (Defer _ m _) = Some m"
| "target (Check m) = Some m"
| "target _ = None"

definition applicable :: "operation \<Rightarrow> registry \<Rightarrow> bool" where
  "applicable x r \<longleftrightarrow> (case x of
     Finish _ m _ _ \<Rightarrow> m \<in> set (r_pending r)
   | _ \<Rightarrow> case target x of None \<Rightarrow> True | Some m \<Rightarrow> m < length (r_entries r))"

definition undisturbing :: "operation \<Rightarrow> registry \<Rightarrow> bool" where
  "undisturbing x r \<longleftrightarrow> (case target x of None \<Rightarrow> True | Some m \<Rightarrow> m \<notin> set (r_pending r))"

fun valid :: "operation list \<Rightarrow> registry \<Rightarrow> bool" where
  "valid [] r \<longleftrightarrow> True"
| "valid (x # xs) r \<longleftrightarrow> applicable x r \<and> valid xs (snd (specified x r))"

fun undisturbed :: "operation list \<Rightarrow> registry \<Rightarrow> bool" where
  "undisturbed [] r \<longleftrightarrow> True"
| "undisturbed (x # xs) r \<longleftrightarrow> undisturbing x r \<and> undisturbed xs (snd (specified x r))"

section \<open>The refinement\<close>

definition exit_of :: "instance_state \<Rightarrow> u32 option" where
  "exit_of i = (if m_Closed i = 0 then None else Some (ucast (drop_bit 32 (m_Closed i))))"

definition entry_of :: "instance_state \<Rightarrow> entry" where
  "entry_of i = \<lparr>e_name = ModuleName i, e_exit = exit_of i, e_deferred = (m_Closed i AND exitCodeFlagMask = exitCodeFlagResourceNotClosed),
     e_notifier = CloseNotifier i, e_sys = Sys i, e_code = CodeCloser i\<rparr>"

fun visible :: "effect \<Rightarrow> bool" where
  "visible (RetireMemory _) = False"
| "visible _ = True"

definition refines :: "registry \<Rightarrow> store \<Rightarrow> bool" where
  "refines r s \<longleftrightarrow> registry_ok (r_live r) s \<and> map entry_of (s_modules s) = r_entries r \<and>
     filter visible (s_effects s) = r_log r \<and> r_open r = (s_nameToModule s \<noteq> None)"

lemma refinesD:
  assumes "refines r s"
  shows "registry_ok (r_live r) s" "map entry_of (s_modules s) = r_entries r"
    "filter visible (s_effects s) = r_log r" "r_open r = (s_nameToModule s \<noteq> None)" "length (r_entries r) = length (s_modules s)"
    "a < length (s_modules s) \<Longrightarrow> r_entries r ! a = entry_of (s_modules s ! a)"
proof -
  note ok = assms [unfolded refines_def]
  show "registry_ok (r_live r) s" "filter visible (s_effects s) = r_log r" "r_open r = (s_nameToModule s \<noteq> None)" using ok by blast+
  show e: "map entry_of (s_modules s) = r_entries r" using ok by blast
  show "length (r_entries r) = length (s_modules s)" "a < length (s_modules s) \<Longrightarrow> r_entries r ! a = entry_of (s_modules s ! a)"
    unfolding e [symmetric] by simp_all
qed

lemma refinesI:
  assumes "registry_ok (r_live r) s" "map entry_of (s_modules s) = r_entries r"
    "filter visible (s_effects s) = r_log r" "r_open r = (s_nameToModule s \<noteq> None)"
  shows "refines r s"
  unfolding refines_def using assms by blast

lemma entry_of_body: "map body h' = map body h \<Longrightarrow> map entry_of h' = map entry_of h"
proof -
  assume "map body h' = map body h"
  then have "map entry_of (map body h') = map entry_of (map body h)" by simp
  moreover have "entry_of (body i) = entry_of i" for i by (simp add: entry_of_def exit_of_def body_def)
  ultimately show ?thesis by (simp add: comp_def)
qed

lemma refines_delete:
  assumes ok: "refines r s" and m: "m < length (s_modules s)"
  shows "\<exists>s'. deleteModule m s = Ok s' \<and> refines (r\<lparr>r_live := remove1 m (r_live r)\<rparr>) s' \<and> length (s_modules s') = length (s_modules s)"
proof -
  note D = refinesD [OF ok]
  obtain s' where s': "deleteModule m s = Ok s'" "registry_ok (remove1 m (r_live r)) s'" "map body (s_modules s') = map body (s_modules s)"
    "s_effects s' = s_effects s" "s_nameToModule s' = None \<longleftrightarrow> s_nameToModule s = None"
    using deleteModule_registry [OF D(1) m] by (elim exE conjE)
  then have "refines (r\<lparr>r_live := remove1 m (r_live r)\<rparr>) s'"
    by (intro refinesI) (simp_all add: D(2,3,4) entry_of_body [OF s'(3)])
  then show ?thesis using s'(1) body_nth [OF s'(3)] by blast
qed

lemma refines_update:
  assumes ok: "refines r s" and m: "m < length (s_modules s)"
    and same: "ModuleName i = ModuleName (s_modules s ! m)" "m_prev i = m_prev (s_modules s ! m)" "m_next i = m_next (s_modules s ! m)"
    and e: "entry_of i = f (r_entries r ! m)" and x: "filter visible x = y"
  shows "refines ((set_entry m f r)\<lparr>r_log := r_log r @ y\<rparr>) (s\<lparr>s_modules := (s_modules s)[m := i], s_effects := s_effects s @ x\<rparr>)"
proof (rule refinesI)
  show "registry_ok (r_live ((set_entry m f r)\<lparr>r_log := r_log r @ y\<rparr>)) (s\<lparr>s_modules := (s_modules s)[m := i], s_effects := s_effects s @ x\<rparr>)"
    using registry_ok_update [OF m same] refinesD(1) [OF ok] by (simp add: set_entry_def)
qed (use refinesD [OF ok] m e x in \<open>simp_all add: set_entry_def map_update\<close>)

lemma refines_exit:
  assumes ok: "refines r s" and m: "m < length (s_modules s)" and flag: "flag = 1 \<or> flag = 2"
  shows "refines (set_entry m (\<lambda>e. e\<lparr>e_exit := Some c, e_deferred := (flag = 2)\<rparr>) r)
    (s\<lparr>s_modules := (s_modules s)[m := exited flag c (s_modules s ! m)]\<rparr>)"
proof -
  have "entry_of (exited flag c (s_modules s ! m)) = (r_entries r ! m)\<lparr>e_exit := Some c, e_deferred := (flag = 2)\<rparr>"
    using exit_code_bits [OF flag, of c] refinesD(6) [OF ok m] by (simp add: entry_of_def exited_def exit_of_def)
  then show ?thesis
    using refines_update [OF ok m, of "exited flag c (s_modules s ! m)" "\<lambda>e. e\<lparr>e_exit := Some c, e_deferred := (flag = 2)\<rparr>" "[]" "[]"]
    by (simp add: exited_def set_entry_def)
qed

lemma refines_cleanup:
  assumes ok: "refines r s" and m: "m < length (s_modules s)" and closed: "e_exit (r_entries r ! m) \<noteq> None"
  shows "\<exists>e s'. ensureResourcesClosed fsErr codeErr m s = Ok (e, s') \<and> refines (cleanup m r) s'"
proof -
  let ?i = "s_modules s ! m"
  have entry: "r_entries r ! m = entry_of ?i" using refinesD(6) [OF ok m] .
  have "filter visible (closing m ?i) = to_close m (entry_of ?i)"
    using closed unfolding entry by (simp add: closing_def to_close_def entry_of_def exit_of_def split: if_splits)
  moreover have "entry_of (cleared ?i) = (r_entries r ! m)\<lparr>e_notifier := False, e_sys := False, e_code := False\<rparr>"
    unfolding entry by (simp add: entry_of_def cleared_def exit_of_def)
  ultimately have "refines (cleanup m r) (s\<lparr>s_modules := (s_modules s)[m := cleared ?i], s_effects := s_effects s @ closing m ?i\<rparr>)"
    unfolding cleanup_def entry [symmetric]
    using refines_update [OF ok m, of "cleared ?i" "\<lambda>e. e\<lparr>e_notifier := False, e_sys := False, e_code := False\<rparr>" "closing m ?i"]
    by (simp add: cleared_def entry)
  then show ?thesis using ensureResourcesClosed_eq [OF m, of fsErr codeErr] by blast
qed

lemma exit_entry:
  assumes "refines r s" "m < length (s_modules s)"
  shows "e_exit (r_entries r ! m) = None \<longleftrightarrow> m_Closed (s_modules s ! m) = 0"
  using refinesD(6) [OF assms] by (simp add: entry_of_def exit_of_def)

lemma leave_exit: "m < length (r_entries r) \<Longrightarrow> e_exit (r_entries (leave m c d r) ! m) = Some c"
  by (simp add: leave_def set_entry_def)

lemma CloseWithExitCode_refines:
  assumes ok: "refines r s" and m: "m < length (s_modules s)"
  shows "\<exists>e s'. CloseWithExitCode fsErr codeErr m c s = Ok (e, s') \<and> refines (close_entry m c r) s'"
proof (cases "m_Closed (s_modules s ! m) = 0")
  case True
  let ?s = "s\<lparr>s_modules := (s_modules s)[m := exited 1 c (s_modules s ! m)]\<rparr>"
  have m1: "m < length (s_modules ?s)" using m by simp
  obtain s1 where s1: "deleteModule m ?s = Ok s1" "refines (leave m c False r) s1" "length (s_modules s1) = length (s_modules ?s)"
    using refines_delete [OF refines_exit [OF ok m, of 1 c] m1] by (auto simp: leave_def set_entry_def)
  have "e_exit (r_entries (leave m c False r) ! m) \<noteq> None" using leave_exit [of m r c False] refinesD(5) [OF ok] m by simp
  from refines_cleanup [OF s1(2) _ this, of fsErr codeErr] s1(3) m
  obtain e s2 where s2: "ensureResourcesClosed fsErr codeErr m s1 = Ok (e, s2)" "refines (cleanup m (leave m c False r)) s2" by auto
  have "CloseWithExitCode fsErr codeErr m c s = Ok (e, s2)"
    using True m s1(1) s2(1) by (simp add: CloseWithExitCode_def setExitCode_eq)
  then show ?thesis using s2(2) True exit_entry [OF ok m] by (simp add: close_entry_def)
next
  case False
  then have "(e_exit (r_entries r ! m) = None) = False" using exit_entry [OF ok m] by simp
  then show ?thesis using False ok m
    by (simp only: CloseWithExitCode_def setExitCode_eq close_entry_def if_True if_False simp_thms bindO.simps prod.case outcome.inject prod.inject) blast
qed

lemma closeWithExitCode_refines:
  assumes ok: "refines r s" and m: "m < length (s_modules s)" and live: "r_live r = []"
  shows "\<exists>e s'. closeWithExitCode fsErr codeErr m c s = Ok (e, s') \<and> refines (close_entry m c r) s'"
proof (cases "m_Closed (s_modules s ! m) = 0")
  case True
  let ?s = "s\<lparr>s_modules := (s_modules s)[m := exited 1 c (s_modules s ! m)]\<rparr>"
  have m1: "m < length (s_modules ?s)" using m by simp
  have "leave m c False r = set_entry m (\<lambda>e. e\<lparr>e_exit := Some c, e_deferred := False\<rparr>) r"
    using live by (cases r) (simp add: leave_def set_entry_def)
  then have ref: "refines (leave m c False r) ?s" using refines_exit [OF ok m, of 1 c] by simp
  have "e_exit (r_entries (leave m c False r) ! m) \<noteq> None" using leave_exit [of m r c False] refinesD(5) [OF ok] m by simp
  from refines_cleanup [OF ref m1 this, of fsErr codeErr]
  obtain e s2 where s2: "ensureResourcesClosed fsErr codeErr m ?s = Ok (e, s2)" "refines (cleanup m (leave m c False r)) s2" by auto
  have "closeWithExitCode fsErr codeErr m c s = Ok (e, s2)"
    using True m s2(1) by (simp add: closeWithExitCode_def setExitCode_eq)
  then show ?thesis using s2(2) True exit_entry [OF ok m] by (simp add: close_entry_def)
next
  case False
  then have "(e_exit (r_entries r ! m) = None) = False" using exit_entry [OF ok m] by simp
  then show ?thesis using False ok m
    by (simp only: closeWithExitCode_def setExitCode_eq close_entry_def if_True if_False simp_thms bindO.simps prod.case outcome.inject prod.inject) blast
qed

lemma closeWithoutResource_refines:
  assumes ok: "refines r s" and m: "m < length (s_modules s)"
  shows "\<exists>s'. closeWithExitCodeWithoutClosingResource m c s = Ok s' \<and>
    refines (if e_exit (r_entries r ! m) = None then leave m c True r else r) s'"
proof (cases "m_Closed (s_modules s ! m) = 0")
  case True
  let ?s = "s\<lparr>s_modules := (s_modules s)[m := exited 2 c (s_modules s ! m)]\<rparr>"
  have m1: "m < length (s_modules ?s)" using m by simp
  obtain s1 where "deleteModule m ?s = Ok s1" "refines (leave m c True r) s1"
    using refines_delete [OF refines_exit [OF ok m, of 2 c] m1] by (auto simp: leave_def set_entry_def)
  then show ?thesis using True m exit_entry [OF ok m] by (simp add: closeWithExitCodeWithoutClosingResource_def setExitCode_eq)
next
  case False
  then have "(e_exit (r_entries r ! m) = None) = False" using exit_entry [OF ok m] by simp
  then show ?thesis using False ok m
    by (simp only: closeWithExitCodeWithoutClosingResource_def setExitCode_eq if_True if_False simp_thms bindO.simps prod.case outcome.inject prod.inject)
qed

lemma FailIfClosed_refines:
  assumes ok: "refines r s" and m: "m < length (s_modules s)"
  shows "\<exists>s'. FailIfClosed fsErr codeErr m s = Ok (e_exit (r_entries r ! m), s') \<and>
    refines (if e_exit (r_entries r ! m) \<noteq> None \<and> e_deferred (r_entries r ! m) then cleanup m r else r) s'"
proof -
  let ?i = "s_modules s ! m"
  have entry: "r_entries r ! m = entry_of ?i" using refinesD(6) [OF ok m] .
  have ix: "index (s_modules s) m = Ok ?i" using m by (simp add: index_def)
  show ?thesis
  proof (cases "m_Closed ?i \<noteq> 0 \<and> m_Closed ?i AND 0xff = 2")
    case True
    then have "e_exit (r_entries r ! m) \<noteq> None" by (simp add: entry entry_of_def exit_of_def)
    from refines_cleanup [OF ok m this, of fsErr codeErr] show ?thesis using True
      by (auto simp: FailIfClosed_def ix entry entry_of_def exit_of_def)
  next
    case False
    then show ?thesis using ok by (auto simp: FailIfClosed_def ix entry entry_of_def exit_of_def)
  qed
qed

lemma cleanup_simps [simp]: "length (r_entries (cleanup m r)) = length (r_entries r)" "r_live (cleanup m r) = r_live r"
  "r_pending (cleanup m r) = r_pending r" "r_open (cleanup m r) = r_open r"
  by (simp_all add: cleanup_def set_entry_def)

lemma leave_simps [simp]: "length (r_entries (leave m c d r)) = length (r_entries r)" "r_live (leave m c d r) = remove1 m (r_live r)"
  "r_pending (leave m c d r) = r_pending r" "r_open (leave m c d r) = r_open r" "r_log (leave m c d r) = r_log r"
  by (simp_all add: leave_def set_entry_def)

lemma close_entry_simps [simp]: "length (r_entries (close_entry m c r)) = length (r_entries r)"
  "r_live (close_entry m c r) = (if e_exit (r_entries r ! m) = None then remove1 m (r_live r) else r_live r)"
  "r_pending (close_entry m c r) = r_pending r" "r_open (close_entry m c r) = r_open r"
  by (simp_all add: close_entry_def)

lemma refines_lookup:
  assumes ok: "refines r s"
  shows "map_of (names s) n = lookup n r" "named (s_modules s) (r_live r) n = lookup n r"
proof -
  note D = refinesD [OF ok]
  obtain q where "segment (s_modules s) None (s_moduleList s) (r_live r) q None" using registry_okD(2) [OF D(1)] by blast
  then have "a \<in> set (r_live r) \<Longrightarrow> a < length (s_modules s)" for a using segment_range by fastforce
  then have "a \<in> set (r_live r) \<Longrightarrow> e_name (r_entries r ! a) = ModuleName (s_modules s ! a)" for a
    using D(6) [of a] by (simp add: entry_of_def)
  then show named: "named (s_modules s) (r_live r) n = lookup n r" by (auto simp: named_def lookup_def intro!: find_cong)
  show "map_of (names s) n = lookup n r"
  proof (cases "s_nameToModule s")
    case None
    then show ?thesis using registry_okD(4) [OF D(1)] by (simp add: names_def lookup_def)
  next
    case (Some ns)
    then show ?thesis using registry_okD(9) [OF D(1) Some, of n] named by (simp add: names_def)
  qed
qed

lemma refines_pending: "refines (r\<lparr>r_pending := p\<rparr>) s \<longleftrightarrow> refines r s"
  by (simp add: refines_def)

lemma beginInstantiate_refines:
  assumes ok: "refines r s"
  shows "\<exists>s'. beginInstantiate name sys s = (fst (begin_entry name sys r), s') \<and> refines (snd (begin_entry name sys r)) s'"
proof (cases "lookup name r = None")
  case False
  then have "name \<noteq> []" by (auto simp: lookup_def)
  then show ?thesis using ok False refines_lookup(1) [OF ok] by (simp add: beginInstantiate_def begin_entry_def)
next
  case True
  let ?i = "\<lparr>ModuleName = name, m_prev = None, m_next = None, m_Closed = 0, CloseNotifier = False, Sys = sys, CodeCloser = False\<rparr>"
  let ?s = "s\<lparr>s_modules := s_modules s @ [?i]\<rparr>"
  have "registry_ok (r_live r) ?s" using registry_ok_new [OF refinesD(1) [OF ok], of ?i] by simp
  then have "refines (snd (begin_entry name sys r)) ?s"
    using refinesD [OF ok] True by (intro refinesI) (simp_all add: begin_entry_def entry_of_def exit_of_def)
  then show ?thesis using True refines_lookup(1) [OF ok] refinesD(5) [OF ok]
    by (simp add: beginInstantiate_def begin_entry_def newModule_def)
qed

lemma refines_register:
  assumes ok: "refines r s" and m: "m < length (s_modules s)" "m \<notin> set (r_live r)"
  shows "if \<not> r_open r then registerModule m s = Err (Errorf ''already closed'')
    else if lookup (e_name (r_entries r ! m)) r \<noteq> None then registerModule m s = Err (Errorf ''module[%s] has already been instantiated'')
    else \<exists>s'. registerModule m s = Ok s' \<and> refines (r\<lparr>r_live := m # r_live r\<rparr>) s'"
proof (cases "s_nameToModule s")
  case None
  then show ?thesis using refinesD(4) [OF ok] m(1) by (simp add: registerModule_def index_def)
next
  case (Some ns)
  note D = refinesD [OF ok]
  let ?n = "ModuleName (s_modules s ! m)"
  have n: "e_name (r_entries r ! m) = ?n" using D(6) [OF m(1)] by (simp add: entry_of_def)
  have look: "map_of ns ?n = lookup ?n r" using refines_lookup(1) [OF ok] Some by (simp add: names_def)
  have live: "r_open r" using D(4) Some by simp
  show ?thesis
  proof (cases "lookup ?n r")
    case None
    then have "named (s_modules s) (r_live r) ?n = None" using refines_lookup(2) [OF ok] by simp
    from registerModule_registry [OF D(1) m Some this] obtain s' where
      s': "registerModule m s = Ok s'" "registry_ok (m # r_live r) s'" "map body (s_modules s') = map body (s_modules s)"
        "s_effects s' = s_effects s" "s_nameToModule s' \<noteq> None"
      by (elim exE conjE)
    have "refines (r\<lparr>r_live := m # r_live r\<rparr>) s'"
      by (rule refinesI) (use s' D(2,3) live entry_of_body [OF s'(3)] in simp_all)
    then show ?thesis using s'(1) live n None by simp
  next
    case (Some x)
    then have "?n \<noteq> []" by (auto simp: lookup_def)
    then show ?thesis using Some live n look m(1) \<open>s_nameToModule s = Some ns\<close> by (simp add: registerModule_def index_def)
  qed
qed

lemma finishInstantiate_refines:
  assumes ok: "refines r s" and m: "m < length (s_modules s)" "m \<notin> set (r_live r)"
  shows "\<exists>s'. finishInstantiate fsErr codeErr err m notifier closer s = Ok (fst (finish_entry err m notifier closer r), s') \<and>
    refines (snd (finish_entry err m notifier closer r)) s'"
proof -
  let ?r = "r\<lparr>r_pending := remove1 m (r_pending r)\<rparr>"
  have ok': "refines ?r s" using ok refines_pending by simp
  show ?thesis
  proof (cases err)
    case (Some x)
    then show ?thesis using CloseWithExitCode_refines [OF ok' m(1), of fsErr codeErr 0]
      by (auto simp: finishInstantiate_def finish_entry_def)
  next
    case None
    let ?f = "\<lambda>i. i\<lparr>CloseNotifier := notifier, CodeCloser := closer\<rparr>" and ?g = "\<lambda>e. e\<lparr>e_notifier := notifier, e_code := closer\<rparr>"
    let ?s = "s\<lparr>s_modules := (s_modules s)[m := ?f (s_modules s ! m)]\<rparr>" and ?r1 = "set_entry m ?g ?r"
    have "entry_of (?f (s_modules s ! m)) = ?g (r_entries ?r ! m)"
      using refinesD(6) [OF ok m(1)] by (simp add: entry_of_def exit_of_def)
    then have ok1: "refines ?r1 ?s"
      using refines_update [OF ok' m(1), of "?f (s_modules s ! m)" ?g "[]" "[]"] by (simp add: set_entry_def)
    have m1: "m < length (s_modules ?s)" "m \<notin> set (r_live ?r1)" using m by (simp_all add: set_entry_def)
    obtain e s2 where close: "CloseWithExitCode fsErr codeErr m 0 ?s = Ok (e, s2)" "refines (close_entry m 0 ?r1) s2"
      using CloseWithExitCode_refines [OF ok1 m1(1), of fsErr codeErr 0] by blast
    have fin: "finishInstantiate fsErr codeErr err m notifier closer s =
        (case registerModule m ?s of Ok s \<Rightarrow> Ok (Inr m, s) | Err e \<Rightarrow> Ok (Inl e, s2) | Panic p \<Rightarrow> Panic p)"
      using None m(1) close(1) by (simp add: finishInstantiate_def update_module_eq split: outcome.splits)
    have spec: "finish_entry err m notifier closer r =
        (if \<not> r_open ?r1 then (Inl (Errorf ''already closed''), close_entry m 0 ?r1)
         else if lookup (e_name (r_entries ?r1 ! m)) ?r1 \<noteq> None
         then (Inl (Errorf ''module[%s] has already been instantiated''), close_entry m 0 ?r1)
         else (Inr m, ?r1\<lparr>r_live := m # r_live ?r1\<rparr>))"
      using None by (simp add: finish_entry_def Let_def)
    show ?thesis unfolding fin spec using refines_register [OF ok1 m1] close(2) by (auto split: if_splits)
  qed
qed

lemma close_all_refines:
  assumes "refines r s" "r_live r = []" "set ms \<subseteq> {..<length (s_modules s)}"
  shows "\<exists>errs' s'. foldO (\<lambda>m (errs, s). bindO (closeWithExitCode fsErr codeErr m c s) (\<lambda>(err, s).
      Ok (case err of None \<Rightarrow> errs | Some e \<Rightarrow> errs @ [e], s))) ms (errs, s) = Ok (errs', s') \<and> refines (fold (\<lambda>m. close_entry m c) ms r) s'"
  using assms
proof (induction ms arbitrary: r s errs)
  case (Cons m ms)
  have m: "m < length (s_modules s)" using Cons.prems(3) by simp
  obtain e s1 where s1: "closeWithExitCode fsErr codeErr m c s = Ok (e, s1)" "refines (close_entry m c r) s1"
    using closeWithExitCode_refines [OF Cons.prems(1) m Cons.prems(2), of fsErr codeErr c] by blast
  have "length (s_modules s1) = length (s_modules s)" using refinesD(5) [OF s1(2)] refinesD(5) [OF Cons.prems(1)] by simp
  then show ?case
    using Cons.IH [OF s1(2), of "case e of None \<Rightarrow> errs | Some e \<Rightarrow> errs @ [e]"] Cons.prems(2,3) s1(1) by simp
qed simp

lemma Store_CloseWithExitCode_refines:
  assumes ok: "refines r s"
  shows "\<exists>errs s'. Store_CloseWithExitCode fsErr codeErr c s = Ok (errs, s') \<and> refines (snd (specified (CloseStore c) r)) s'"
proof -
  note D = refinesD [OF ok]
  obtain q where seg: "segment (s_modules s) None (s_moduleList s) (r_live r) q None" using registry_okD(2) [OF D(1)] by blast
  have rng: "set (r_live r) \<subseteq> {..<length (s_modules s)}" using segment_range [OF seg] .
  have "card (set (r_live r)) \<le> length (s_modules s)" using card_mono [OF _ rng] by simp
  then have "length (r_live r) \<le> length (s_modules s)" using distinct_card [OF registry_okD(1) [OF D(1)]] by simp
  then have walk: "chain (length (s_modules s) + 1) (s_modules s) (s_moduleList s) = Ok (r_live r)" by (intro chain_segment [OF seg]) simp
  let ?s = "s\<lparr>s_moduleList := None, s_nameToModule := None, s_nameToModuleCap := 0\<rparr>"
  have "registry_ok [] ?s" using registry_okD(3) [OF D(1)] registry_ok_closed [of ?s] by simp
  then have "refines (r\<lparr>r_live := [], r_open := False\<rparr>) ?s" by (intro refinesI) (simp_all add: D(2,3))
  from close_all_refines [OF this, of "r_live r" fsErr codeErr c "[]"] rng
  show ?thesis unfolding Store_CloseWithExitCode_def walk by simp
qed

section \<open>What the specification keeps\<close>

text \<open>Two actions of the same kind close the same resource.\<close>

fun kind :: "effect \<Rightarrow> effect" where
  "kind (CloseNotify m _) = CloseNotify m 0"
| "kind x = x"

text \<open>What is in the log is closed and is not closed again.\<close>

fun logged :: "registry \<Rightarrow> effect \<Rightarrow> bool" where
  "logged r (CloseNotify m c) \<longleftrightarrow> m < length (r_entries r) \<and> m \<notin> set (r_pending r) \<and> e_exit (r_entries r ! m) = Some c \<and> \<not> e_notifier (r_entries r ! m)"
| "logged r (CloseFS m) \<longleftrightarrow> m < length (r_entries r) \<and> e_exit (r_entries r ! m) \<noteq> None \<and> \<not> e_sys (r_entries r ! m)"
| "logged r (CloseCode m) \<longleftrightarrow> m < length (r_entries r) \<and> m \<notin> set (r_pending r) \<and> e_exit (r_entries r ! m) \<noteq> None \<and> \<not> e_code (r_entries r ! m)"
| "logged r (RetireMemory m) \<longleftrightarrow> False"

definition log_ok :: "registry \<Rightarrow> bool" where
  "log_ok r \<longleftrightarrow> distinct (map kind (r_log r)) \<and> (\<forall>x \<in> set (r_log r). logged r x)"

definition shape_ok :: "registry \<Rightarrow> bool" where
  "shape_ok r \<longleftrightarrow> distinct (r_live r) \<and> distinct (r_pending r) \<and> set (r_live r) \<subseteq> {..<length (r_entries r)} \<and>
     set (r_pending r) \<subseteq> {..<length (r_entries r)} - set (r_live r) \<and>
     (\<forall>m \<in> set (r_pending r). \<not> e_notifier (r_entries r ! m) \<and> \<not> e_code (r_entries r ! m))"

definition registry_inv :: "registry \<Rightarrow> bool" where
  "registry_inv r \<longleftrightarrow> shape_ok r \<and> log_ok r"

lemma nth_update: "xs[i := x] ! j = (if i = j \<and> j < length xs then x else xs ! j)"
  by (cases "i = j"; cases "j < length xs") (simp_all add: list_update_beyond)

lemma logged_mono:
  assumes "logged r x" "length (r_entries r) \<le> length (r_entries r')" "set (r_pending r') \<inter> {..<length (r_entries r)} \<subseteq> set (r_pending r)"
    and "\<And>m. m < length (r_entries r) \<Longrightarrow> e_exit (r_entries r ! m) \<noteq> None \<Longrightarrow> e_exit (r_entries r' ! m) = e_exit (r_entries r ! m) \<and>
      (e_sys (r_entries r' ! m) \<longrightarrow> e_sys (r_entries r ! m)) \<and>
      (m \<notin> set (r_pending r) \<longrightarrow> (e_notifier (r_entries r' ! m) \<longrightarrow> e_notifier (r_entries r ! m)) \<and> (e_code (r_entries r' ! m) \<longrightarrow> e_code (r_entries r ! m)))"
  shows "logged r' x"
proof (cases x)
  case (CloseNotify m c)
  then have "m < length (r_entries r)" "m \<notin> set (r_pending r)" "e_exit (r_entries r ! m) = Some c" "\<not> e_notifier (r_entries r ! m)" using assms(1) by simp_all
  then show ?thesis using CloseNotify assms(2,3) assms(4) [of m] by auto
next
  case (CloseFS m)
  then have "m < length (r_entries r)" "e_exit (r_entries r ! m) \<noteq> None" "\<not> e_sys (r_entries r ! m)" using assms(1) by simp_all
  then show ?thesis using CloseFS assms(2) assms(4) [of m] by simp
next
  case (CloseCode m)
  then have "m < length (r_entries r)" "m \<notin> set (r_pending r)" "e_exit (r_entries r ! m) \<noteq> None" "\<not> e_code (r_entries r ! m)" using assms(1) by simp_all
  then show ?thesis using CloseCode assms(2,3) assms(4) [of m] by auto
qed (use assms(1) in simp)

lemma log_ok_mono: "log_ok r \<Longrightarrow> r_log r' = r_log r \<Longrightarrow> (\<And>x. logged r x \<Longrightarrow> logged r' x) \<Longrightarrow> log_ok r'"
  by (simp add: log_ok_def)

lemma inv_leave:
  assumes inv: "registry_inv r" and m: "e_exit (r_entries r ! m) = None"
  shows "registry_inv (leave m c d r)"
proof -
  have "logged (leave m c d r) x" if "logged r x" for x
    by (rule logged_mono [OF that]) (use m in \<open>auto simp: leave_def set_entry_def nth_update\<close>)
  then have "log_ok (leave m c d r)" using inv log_ok_mono [of r "leave m c d r"] by (simp add: registry_inv_def)
  moreover have "shape_ok (leave m c d r)"
    using inv set_remove1_subset [of m "r_live r"] unfolding registry_inv_def shape_ok_def by (auto simp: leave_def set_entry_def nth_update)
  ultimately show ?thesis by (simp add: registry_inv_def)
qed

lemma inv_cleanup:
  assumes inv: "registry_inv r" and m: "m < length (r_entries r)" "e_exit (r_entries r ! m) \<noteq> None"
  shows "registry_inv (cleanup m r)"
proof -
  let ?e = "r_entries r ! m"
  have log: "r_log (cleanup m r) = r_log r @ to_close m ?e" by (simp add: cleanup_def)
  have d: "distinct (map kind (to_close m ?e))" by (simp add: to_close_def)
  have pend: "\<not> e_notifier ?e \<and> \<not> e_code ?e" if "m \<in> set (r_pending r)" using inv that by (auto simp: registry_inv_def shape_ok_def)
  have new: "logged (cleanup m r) x" if "x \<in> set (to_close m ?e)" for x
    using that m pend by (auto simp: to_close_def cleanup_def set_entry_def split: if_splits)
  have old: "logged (cleanup m r) x" if "logged r x" for x
    by (rule logged_mono [OF that]) (auto simp: cleanup_def set_entry_def nth_update)
  have "kind x \<noteq> kind y" if "x \<in> set (r_log r)" "y \<in> set (to_close m ?e)" for x y
  proof -
    have "logged r x" using inv that by (simp add: registry_inv_def log_ok_def)
    then show ?thesis using that(2) by (cases x) (auto simp: to_close_def split: if_splits)
  qed
  then have "kind ` set (r_log r) \<inter> kind ` set (to_close m ?e) = {}" by blast
  then have "log_ok (cleanup m r)" using inv d new old unfolding registry_inv_def log_ok_def log by auto
  moreover have "shape_ok (cleanup m r)"
    using inv unfolding registry_inv_def shape_ok_def by (auto simp: cleanup_def set_entry_def nth_update)
  ultimately show ?thesis by (simp add: registry_inv_def)
qed

lemma inv_close: "registry_inv r \<Longrightarrow> m < length (r_entries r) \<Longrightarrow> registry_inv (close_entry m c r)"
  unfolding close_entry_def by (auto intro!: inv_cleanup inv_leave simp: leave_exit)

lemma inv_close_all: "registry_inv r \<Longrightarrow> set ms \<subseteq> {..<length (r_entries r)} \<Longrightarrow> registry_inv (fold (\<lambda>m. close_entry m c) ms r)"
  by (induction ms arbitrary: r) (simp_all add: inv_close)

lemma inv_begin: "registry_inv r \<Longrightarrow> registry_inv (snd (begin_entry name sys r))"
proof -
  assume inv: "registry_inv r"
  let ?r = "snd (begin_entry name sys r)"
  show "registry_inv ?r"
  proof (cases "lookup name r")
    case None
    have "logged ?r x" if "logged r x" for x
      by (rule logged_mono [OF that]) (use None in \<open>auto simp: begin_entry_def nth_append\<close>)
    then have "log_ok ?r" using inv None log_ok_mono [of r ?r] by (simp add: registry_inv_def begin_entry_def)
    moreover have "shape_ok ?r"
      using inv None unfolding registry_inv_def shape_ok_def by (auto simp: begin_entry_def nth_append)
    ultimately show ?thesis by (simp add: registry_inv_def)
  qed (use inv in \<open>simp add: begin_entry_def\<close>)
qed

lemma inv_finish:
  assumes inv: "registry_inv r" and m: "m \<in> set (r_pending r)"
  shows "registry_inv (snd (finish_entry err m notifier closer r))"
proof -
  let ?r = "r\<lparr>r_pending := remove1 m (r_pending r)\<rparr>"
  have shape: "shape_ok r" "log_ok r" using inv by (simp_all add: registry_inv_def)
  have rng: "m < length (r_entries r)" "m \<notin> set (r_live r)" "distinct (r_pending r)" using shape(1) m unfolding shape_ok_def by auto
  have hooked: "registry_inv (set_entry m (\<lambda>e. e\<lparr>e_notifier := a, e_code := b\<rparr>) ?r)" (is "registry_inv ?r1") for a b
  proof -
    have "logged ?r1 x" if "logged r x" for x
      by (rule logged_mono [OF that]) (use m rng(3) in \<open>auto simp: set_entry_def nth_update\<close>)
    then have "log_ok ?r1" using shape(2) log_ok_mono [of r ?r1] by (simp add: set_entry_def)
    moreover have "shape_ok ?r1" using shape(1) rng unfolding shape_ok_def by (auto simp: set_entry_def nth_update)
    ultimately show ?thesis by (simp add: registry_inv_def)
  qed
  have "set_entry m (\<lambda>e. e\<lparr>e_notifier := False, e_code := False\<rparr>) ?r = ?r"
  proof -
    have "(r_entries r ! m)\<lparr>e_notifier := False, e_code := False\<rparr> = r_entries r ! m"
      using shape(1) m unfolding shape_ok_def by (cases "r_entries r ! m") force
    then show ?thesis by (simp add: set_entry_def)
  qed
  then have pend: "registry_inv ?r" using hooked [of False False] by simp
  show ?thesis
  proof (cases err)
    case (Some x)
    then show ?thesis using inv_close [OF pend] rng(1) by (simp add: finish_entry_def)
  next
    case None
    let ?r1 = "set_entry m (\<lambda>e. e\<lparr>e_notifier := notifier, e_code := closer\<rparr>) ?r"
    have len: "m < length (r_entries ?r1)" using rng(1) by (simp add: set_entry_def)
    have live: "registry_inv (?r1\<lparr>r_live := m # r_live r\<rparr>)"
    proof -
      have "logged (?r1\<lparr>r_live := m # r_live r\<rparr>) x" if "logged ?r1 x" for x using that by (cases x) simp_all
      then have "log_ok (?r1\<lparr>r_live := m # r_live r\<rparr>)" using hooked [of closer notifier] log_ok_mono [of ?r1 "?r1\<lparr>r_live := m # r_live r\<rparr>"]
        by (simp add: registry_inv_def)
      moreover have "shape_ok (?r1\<lparr>r_live := m # r_live r\<rparr>)"
        using hooked [of closer notifier] rng unfolding registry_inv_def shape_ok_def by (auto simp: set_entry_def)
      ultimately show ?thesis by (simp add: registry_inv_def)
    qed
    show ?thesis using None inv_close [OF hooked len] live by (simp add: finish_entry_def Let_def set_entry_def)
  qed
qed

lemma begin_pending: "begin_entry name sys r = (Inr m, r') \<Longrightarrow> m \<in> set (r_pending r')"
  by (auto simp: begin_entry_def split: if_splits)

lemma applicable_target: "applicable x r \<Longrightarrow> target x = Some m \<Longrightarrow> m < length (r_entries r)"
  by (cases x) (simp_all add: applicable_def)

lemma specified_inv:
  assumes inv: "registry_inv r" and t: "applicable x r"
  shows "registry_inv (snd (specified x r))"
proof (cases x)
  case (Enter err name sys notifier closer)
  obtain a r1 where b: "begin_entry name sys r = (a, r1)" by fastforce
  then have inv1: "registry_inv r1" using inv_begin [OF inv, of name sys] by simp
  show ?thesis
  proof (cases a)
    case (Inr m)
    then show ?thesis using Enter b inv_finish [OF inv1 begin_pending [of name sys r m r1]] by (simp add: snd_map_prod)
  qed (use Enter b inv1 in simp)
next
  case (CloseStore c)
  let ?r = "r\<lparr>r_live := [], r_open := False\<rparr>"
  have "logged ?r x" if "logged r x" for x using that by (cases x) simp_all
  then have "log_ok ?r" using inv log_ok_mono [of r ?r] by (simp add: registry_inv_def)
  moreover have "shape_ok ?r" using inv by (auto simp: registry_inv_def shape_ok_def)
  ultimately show ?thesis using CloseStore inv inv_close_all [of ?r "r_live r" c] by (simp add: registry_inv_def shape_ok_def)
next
  case (Finish err m notifier closer)
  then show ?thesis using inv_finish [OF inv, of m] t by (simp add: applicable_def)
next
  case (Defer cancelled m e)
  then show ?thesis using inv inv_leave [OF inv] by (cases "ctxExitCode e") simp_all
next
  case (Check m)
  then show ?thesis using inv inv_cleanup [OF inv, of m] applicable_target [OF t, of m] by simp
next
  case (CloseCtx m e)
  then show ?thesis using inv inv_close [OF inv, of m] applicable_target [OF t, of m] by (cases "ctxExitCode e") simp_all
qed (use inv inv_begin inv_close applicable_target [OF t] in simp_all)

section \<open>The simulation\<close>

lemma perform_refines:
  assumes ok: "refines r s" and inv: "registry_inv r" and t: "applicable x r"
  shows "\<exists>s'. perform fsErr codeErr x s = Ok (fst (specified x r), s') \<and> refines (snd (specified x r)) s'"
proof -
  have tgt: "m < length (s_modules s)" if "target x = Some m" for m using applicable_target [OF t that] refinesD(5) [OF ok] by simp
  have pend: "m < length (r_entries r) \<and> m \<notin> set (r_live r)" if "registry_inv r" "m \<in> set (r_pending r)" for m r
    using that by (auto simp: registry_inv_def shape_ok_def)
  show ?thesis
  proof (cases x)
    case (Enter err name sys notifier closer)
    obtain a r1 where b: "begin_entry name sys r = (a, r1)" by fastforce
    obtain s1 where s1: "beginInstantiate name sys s = (a, s1)" "refines r1 s1" using beginInstantiate_refines [OF ok, of name sys] b by auto
    show ?thesis
    proof (cases a)
      case (Inl e)
      then show ?thesis using Enter b s1 by (simp add: Instantiate_def)
    next
      case (Inr m)
      have "registry_inv r1" using inv_begin [OF inv, of name sys] b by simp
      then have "m < length (s_modules s1)" "m \<notin> set (r_live r1)"
        using pend [of r1 m] begin_pending [of name sys r m r1] b Inr refinesD(5) [OF s1(2)] by simp_all
      from finishInstantiate_refines [OF s1(2) this, of fsErr codeErr err notifier closer]
      show ?thesis using Enter b s1(1) Inr by (auto simp: Instantiate_def)
    qed
  next
    case (Begin name sys)
    then show ?thesis using beginInstantiate_refines [OF ok, of name sys] by auto
  next
    case (Finish err m notifier closer)
    then have "m < length (s_modules s)" "m \<notin> set (r_live r)"
      using pend [OF inv, of m] t refinesD(5) [OF ok] by (simp_all add: applicable_def)
    from finishInstantiate_refines [OF ok this, of fsErr codeErr err notifier closer] show ?thesis using Finish by auto
  next
    case (Find n)
    have "Store_Module n s = lookup n r" unfolding Store_Module_def module_def refines_lookup(1) [OF ok] by (simp split: option.splits)
    then show ?thesis using Find ok by simp
  next
    case (Close m c)
    then show ?thesis using CloseWithExitCode_refines [OF ok tgt, of m fsErr codeErr c] by auto
  next
    case (CloseCtx m e)
    then show ?thesis using ok CloseWithExitCode_refines [OF ok tgt, of m fsErr codeErr "the (ctxExitCode e)"]
      by (cases "ctxExitCode e") (auto simp: CloseWithCtxErr_def)
  next
    case (Defer cancelled m e)
    then show ?thesis using ok closeWithoutResource_refines [OF ok tgt, of m "the (ctxExitCode e)"]
      by (cases cancelled; cases "ctxExitCode e") (auto simp: closeModuleOnCanceledOrTimeout_def)
  next
    case (Check m)
    then show ?thesis using FailIfClosed_refines [OF ok tgt, of m fsErr codeErr] by auto
  next
    case (CloseStore c)
    then show ?thesis using Store_CloseWithExitCode_refines [OF ok, of fsErr codeErr c] by auto
  qed
qed

lemma run_refines:
  "refines r s \<Longrightarrow> registry_inv r \<Longrightarrow> valid xs r \<Longrightarrow>
     \<exists>s'. run_store fsErr codeErr xs s = Ok (fst (run_specified xs r), s') \<and> refines (snd (run_specified xs r)) s' \<and> registry_inv (snd (run_specified xs r))"
proof (induction xs arbitrary: r s)
  case (Cons x xs)
  have t: "applicable x r" "valid xs (snd (specified x r))" using Cons.prems(3) by simp_all
  obtain s1 where s1: "perform fsErr codeErr x s = Ok (fst (specified x r), s1)" "refines (snd (specified x r)) s1"
    using perform_refines [OF Cons.prems(1,2) t(1), of fsErr codeErr] by blast
  from Cons.IH [OF s1(2) specified_inv [OF Cons.prems(2) t(1)] t(2)] show ?case using s1(1) by (auto simp: split_beta Let_def)
qed simp

lemma empty_registry_inv: "registry_inv empty_registry"
  by (simp add: registry_inv_def shape_ok_def log_ok_def empty_registry_def)

lemma refines_NewStore: "refines empty_registry NewStore"
  unfolding refines_def registry_ok_def by (simp add: empty_registry_def NewStore_def links_in_range_def named_def)

lemma run_new:
  assumes "valid xs empty_registry"
  shows "\<exists>s. run_store fsErr codeErr xs NewStore = Ok (fst (run_specified xs empty_registry), s) \<and>
    refines (snd (run_specified xs empty_registry)) s \<and> registry_inv (snd (run_specified xs empty_registry))"
  by (rule run_refines [OF refines_NewStore empty_registry_inv assms])

section \<open>Instantiations that are not disturbed\<close>

text \<open>The live modules are the open ones, and a module whose closing is not put off has nothing left to close.\<close>

definition opened :: "registry \<Rightarrow> nat set" where
  "opened r = {m. m < length (r_entries r) \<and> e_exit (r_entries r ! m) = None}"

definition clean :: "registry \<Rightarrow> bool" where
  "clean r \<longleftrightarrow> (\<forall>e \<in> set (r_entries r). e_exit e \<noteq> None \<and> \<not> e_deferred e \<longrightarrow> \<not> e_notifier e \<and> \<not> e_sys e \<and> \<not> e_code e)"

definition quiet :: "registry \<Rightarrow> bool" where
  "quiet r \<longleftrightarrow> set (r_live r) = opened r - set (r_pending r) \<and> set (r_pending r) \<subseteq> opened r \<and> clean r"

lemma opened_leave: "m < length (r_entries r) \<Longrightarrow> opened (leave m c d r) = opened r - {m}"
  by (auto simp: opened_def leave_def set_entry_def nth_update)

lemma opened_cleanup: "opened (cleanup m r) = opened r"
  by (auto simp: opened_def cleanup_def set_entry_def nth_update)

lemma clean_set: "clean r \<Longrightarrow> (e_exit (f (r_entries r ! m)) \<noteq> None \<and> \<not> e_deferred (f (r_entries r ! m)) \<longrightarrow>
     \<not> e_notifier (f (r_entries r ! m)) \<and> \<not> e_sys (f (r_entries r ! m)) \<and> \<not> e_code (f (r_entries r ! m))) \<Longrightarrow> clean (set_entry m f r)"
  unfolding clean_def set_entry_def using set_update_subset_insert [of "r_entries r" m "f (r_entries r ! m)"] by auto

lemma clean_cong: "r_entries r' = r_entries r \<Longrightarrow> clean r' = clean r" "r_entries r' = r_entries r \<Longrightarrow> opened r' = opened r"
  by (simp_all add: clean_def opened_def)

lemma clean_cleanup: "clean r \<Longrightarrow> clean (cleanup m r)"
proof -
  assume "clean r"
  then have "clean (set_entry m (\<lambda>e. e\<lparr>e_notifier := False, e_sys := False, e_code := False\<rparr>) r)" by (rule clean_set) simp
  then show ?thesis by (rule clean_cong(1) [THEN iffD2, rotated]) (simp add: cleanup_def)
qed

lemma clean_close:
  assumes "clean r" "m < length (r_entries r)"
  shows "clean (close_entry m c r)"
proof (cases "e_exit (r_entries r ! m) = None")
  case True
  let ?f = "\<lambda>e. e\<lparr>e_exit := Some c, e_deferred := False, e_notifier := False, e_sys := False, e_code := False\<rparr>"
  have "clean (set_entry m ?f r)" by (rule clean_set [OF assms(1)]) simp
  moreover have "r_entries (close_entry m c r) = r_entries (set_entry m ?f r)"
    using True assms(2) by (simp add: close_entry_def cleanup_def leave_def set_entry_def)
  ultimately show ?thesis using clean_cong(1) by blast
qed (auto simp: close_entry_def assms)

lemma opened_close: "m < length (r_entries r) \<Longrightarrow> opened (close_entry m c r) = opened r - {m}"
proof -
  assume "m < length (r_entries r)"
  moreover have "e_exit (r_entries r ! m) \<noteq> None \<Longrightarrow> m \<notin> opened r" by (simp add: opened_def)
  ultimately show ?thesis unfolding close_entry_def by (auto simp: opened_cleanup opened_leave)
qed

lemma quiet_close:
  assumes q: "quiet r" and inv: "registry_inv r" and m: "m < length (r_entries r)" "m \<notin> set (r_pending r)"
  shows "quiet (close_entry m c r)"
proof -
  have "e_exit (r_entries r ! m) \<noteq> None \<Longrightarrow> m \<notin> opened r" by (simp add: opened_def)
  moreover have "distinct (r_live r)" using inv by (simp add: registry_inv_def shape_ok_def)
  ultimately show ?thesis using q m opened_close [OF m(1), of c] clean_close [OF _ m(1), of c] unfolding quiet_def by auto
qed

lemma quiet_close_all:
  assumes "r_live r = []" "set (r_pending r) \<subseteq> opened r" "clean r" "opened r - set (r_pending r) \<subseteq> set ms"
    "set ms \<subseteq> {..<length (r_entries r)} - set (r_pending r)"
  shows "quiet (fold (\<lambda>m. close_entry m c) ms r)"
  using assms
proof (induction ms arbitrary: r)
  case Nil
  then show ?case by (auto simp: quiet_def)
next
  case (Cons m ms)
  have m: "m < length (r_entries r)" "m \<notin> set (r_pending r)" using Cons.prems(5) by auto
  have "quiet (fold (\<lambda>m. close_entry m c) ms (close_entry m c r))"
  proof (rule Cons.IH)
    show "set (r_pending (close_entry m c r)) \<subseteq> opened (close_entry m c r)" using Cons.prems(2) m opened_close [OF m(1), of c] by auto
    show "opened (close_entry m c r) - set (r_pending (close_entry m c r)) \<subseteq> set ms" using Cons.prems(4) opened_close [OF m(1), of c] by auto
  qed (use Cons.prems clean_close m in auto)
  then show ?case by simp
qed

lemma quiet_begin: "quiet r \<Longrightarrow> quiet (snd (begin_entry name sys r))"
proof (cases "lookup name r")
  case None
  assume q: "quiet r"
  let ?n = "length (r_entries r)"
  have "opened (snd (begin_entry name sys r)) = insert ?n (opened r)" using None by (auto simp: opened_def begin_entry_def nth_append)
  moreover have "?n \<notin> opened r" by (simp add: opened_def)
  moreover have "clean (snd (begin_entry name sys r))" using q None by (simp add: quiet_def clean_def begin_entry_def)
  ultimately show ?thesis using q None unfolding quiet_def by (auto simp: begin_entry_def)
qed (simp add: begin_entry_def)

lemma quiet_finish:
  assumes q: "quiet r" and inv: "registry_inv r" and m: "m \<in> set (r_pending r)"
  shows "quiet (snd (finish_entry err m notifier closer r))"
proof -
  have rng: "m < length (r_entries r)" "e_exit (r_entries r ! m) = None" using q m by (auto simp: quiet_def opened_def)
  have dist: "distinct (r_pending r)" "m \<notin> set (r_live r)" using inv m by (auto simp: registry_inv_def shape_ok_def)
  define r1 where "r1 = (\<lambda>f. set_entry m f (r\<lparr>r_pending := remove1 m (r_pending r)\<rparr>))"
  have r1: "opened (r1 f) = opened r" "clean (r1 f)" "length (r_entries (r1 f)) = length (r_entries r)" "r_live (r1 f) = r_live r"
    "set (r_pending (r1 f)) = set (r_pending r) - {m}"
    if "\<And>e. e_exit (f e) = e_exit e" for f
  proof -
    have "clean (r\<lparr>r_pending := remove1 m (r_pending r)\<rparr>)" using q by (simp add: quiet_def clean_def)
    then show "clean (r1 f)" unfolding r1_def by (rule clean_set) (simp add: that rng(2))
    show "opened (r1 f) = opened r" using that by (auto simp: r1_def opened_def set_entry_def nth_update)
  qed (use dist in \<open>simp_all add: r1_def set_entry_def\<close>)
  have close: "quiet (close_entry m 0 (r1 f))" if f: "\<And>e. e_exit (f e) = e_exit e" for f
  proof -
    have "m < length (r_entries (r1 f))" using rng(1) r1(3) [OF f] by simp
    then have "opened (close_entry m 0 (r1 f)) = opened r - {m}" "clean (close_entry m 0 (r1 f))"
      using opened_close clean_close r1(1,2) [OF f] by blast+
    then show ?thesis using q r1(4,5) [OF f] dist(2) by (auto simp: quiet_def)
  qed
  have live: "quiet ((r1 f)\<lparr>r_live := m # r_live r\<rparr>)" if f: "\<And>e. e_exit (f e) = e_exit e" for f
  proof -
    have "opened ((r1 f)\<lparr>r_live := m # r_live r\<rparr>) = opened r" "clean ((r1 f)\<lparr>r_live := m # r_live r\<rparr>)"
      using r1(1,2) [OF f] clean_cong [of "(r1 f)\<lparr>r_live := m # r_live r\<rparr>" "r1 f"] by simp_all
    moreover have "m \<in> opened r" using rng by (simp add: opened_def)
    ultimately show ?thesis using q r1(5) [OF f] m by (auto simp: quiet_def)
  qed
  have id: "r1 (\<lambda>e. e) = r\<lparr>r_pending := remove1 m (r_pending r)\<rparr>" by (simp add: r1_def set_entry_def)
  show ?thesis
  proof (cases err)
    case (Some x)
    then show ?thesis using close [of "\<lambda>e. e"] id by (simp add: finish_entry_def)
  next
    case None
    let ?f = "\<lambda>e. e\<lparr>e_notifier := notifier, e_code := closer\<rparr>"
    have "quiet (close_entry m 0 (r1 ?f))" "quiet ((r1 ?f)\<lparr>r_live := m # r_live r\<rparr>)" "r_live (r1 ?f) = r_live r"
      using close [of ?f] live [of ?f] r1(4) [of ?f] by simp_all
    then show ?thesis using None unfolding r1_def by (simp add: finish_entry_def Let_def)
  qed
qed

lemma specified_quiet:
  assumes q: "quiet r" and inv: "registry_inv r" and t: "applicable x r" "undisturbing x r"
  shows "quiet (snd (specified x r))"
proof -
  have tgt: "m < length (r_entries r)" "m \<notin> set (r_pending r)" if "target x = Some m" for m
    using applicable_target [OF t(1) that] t(2) that by (simp_all add: undisturbing_def)
  have close: "quiet (close_entry m c r)" if "target x = Some m" for m c using quiet_close [OF q inv tgt] that by blast
  show ?thesis
  proof (cases x)
    case (Enter err name sys notifier closer)
    obtain a r1 where b: "begin_entry name sys r = (a, r1)" by fastforce
    then have "registry_inv r1" "quiet r1" using inv_begin [OF inv, of name sys] quiet_begin [OF q, of name sys] by simp_all
    then show ?thesis using Enter b quiet_finish [of r1] begin_pending [of name sys r _ r1] by (cases a) (simp_all add: snd_map_prod)
  next
    case (CloseStore c)
    let ?r = "r\<lparr>r_live := [], r_open := False\<rparr>"
    have "opened ?r = opened r" "clean ?r = clean r" using clean_cong [of ?r r] by simp_all
    then show ?thesis using CloseStore q quiet_close_all [of ?r "r_live r" c] by (auto simp: quiet_def opened_def)
  next
    case (Finish err m notifier closer)
    then show ?thesis using quiet_finish [OF q inv, of m] t by (simp add: applicable_def)
  next
    case (Defer cancelled m e)
    have "quiet (leave m c True r)" if "e_exit (r_entries r ! m) = None" for c
    proof -
      have "clean (leave m c True r)"
        using clean_set [of r "\<lambda>e. e\<lparr>e_exit := Some c, e_deferred := True\<rparr>" m] q clean_cong(1) [of "leave m c True r"]
        by (simp add: quiet_def leave_def)
      moreover have "distinct (r_live r)" using inv by (simp add: registry_inv_def shape_ok_def)
      ultimately show ?thesis using q tgt [of m] Defer opened_leave [of m r c True] by (auto simp: quiet_def)
    qed
    then show ?thesis using Defer q by (cases "ctxExitCode e") simp_all
  next
    case (Check m)
    then show ?thesis using q opened_cleanup [of m r] clean_cleanup [of r m] by (simp add: quiet_def)
  next
    case (CloseCtx m e)
    then show ?thesis using close q by (cases "ctxExitCode e") simp_all
  qed (use q close quiet_begin in simp_all)
qed

lemma run_specified_quiet:
  "quiet r \<Longrightarrow> registry_inv r \<Longrightarrow> valid xs r \<Longrightarrow> undisturbed xs r \<Longrightarrow> quiet (snd (run_specified xs r))"
proof (induction xs arbitrary: r)
  case (Cons x xs)
  then show ?case using Cons.IH [of "snd (specified x r)"] specified_inv [of r x] specified_quiet [of r x] by (simp add: split_beta Let_def)
qed simp

lemma empty_registry_quiet: "quiet empty_registry"
  by (simp add: quiet_def opened_def clean_def empty_registry_def)

section \<open>Modules registered after they were closed\<close>

text \<open>A module that was registered after it had been closed: it keeps its name and its hooks are never called.\<close>

definition stuck :: "nat \<Rightarrow> u32 \<Rightarrow> string \<Rightarrow> registry \<Rightarrow> bool" where
  "stuck m c n r \<longleftrightarrow> lookup n r = Some m \<and> m < length (r_entries r) \<and> e_exit (r_entries r ! m) = Some c \<and>
     \<not> e_deferred (r_entries r ! m) \<and> CloseCode m \<notin> set (r_log r) \<and> (\<forall>d. CloseNotify m d \<notin> set (r_log r))"

lemma find_remove1_other: "find P xs = Some m \<Longrightarrow> a \<noteq> m \<Longrightarrow> find P (remove1 a xs) = Some m"
  by (induction xs) (auto split: if_splits)

lemma stuck_live: "stuck m c n r \<Longrightarrow> m \<in> set (r_live r) \<and> e_name (r_entries r ! m) = n"
  by (auto simp: stuck_def lookup_def find_Some_iff split: if_splits)

lemma stuck_set: "stuck m c n r \<Longrightarrow> a \<noteq> m \<Longrightarrow> (\<And>e. e_name (f e) = e_name e) \<Longrightarrow> stuck m c n (set_entry a f r)"
proof -
  assume s: "stuck m c n r" "a \<noteq> m" "\<And>e. e_name (f e) = e_name e"
  have "e_name ((r_entries r)[a := f (r_entries r ! a)] ! k) = e_name (r_entries r ! k)" for k
    using s(3) by (simp add: nth_update)
  then have "lookup n (set_entry a f r) = lookup n r" by (simp add: lookup_def set_entry_def)
  then show ?thesis using s by (simp add: stuck_def set_entry_def)
qed

lemma stuck_cleanup: "stuck m c n r \<Longrightarrow> a \<noteq> m \<Longrightarrow> stuck m c n (cleanup a r)"
  using stuck_set [of m c n r a "\<lambda>e. e\<lparr>e_notifier := False, e_sys := False, e_code := False\<rparr>"]
  by (auto simp: cleanup_def stuck_def lookup_def to_close_def set_entry_def)

lemma stuck_leave: "stuck m c n r \<Longrightarrow> a \<noteq> m \<Longrightarrow> stuck m c n (leave a d b r)"
  using stuck_set [of m c n r a "\<lambda>e. e\<lparr>e_exit := Some d, e_deferred := b\<rparr>"]
  by (auto simp: leave_def stuck_def lookup_def set_entry_def find_remove1_other split: if_splits)

lemma stuck_close: "stuck m c n r \<Longrightarrow> stuck m c n (close_entry a d r)"
  by (cases "a = m") (auto simp: close_entry_def stuck_cleanup stuck_leave stuck_def [of m c n r])

lemma stuck_pending: "stuck m c n (r\<lparr>r_pending := p\<rparr>) = stuck m c n r"
  by (simp add: stuck_def lookup_def)

lemma stuck_begin:
  assumes "stuck m c n r" "registry_inv r"
  shows "stuck m c n (snd (begin_entry name sys r))"
proof -
  have "a \<in> set (r_live r) \<Longrightarrow> a < length (r_entries r)" for a using assms(2) by (auto simp: registry_inv_def shape_ok_def)
  then have "find (\<lambda>a. e_name ((r_entries r @ [e]) ! a) = n) (r_live r) = find (\<lambda>a. e_name (r_entries r ! a) = n) (r_live r)" for e
    by (intro find_cong) (simp_all add: nth_append)
  then show ?thesis using assms(1) by (auto simp: begin_entry_def stuck_def lookup_def nth_append split: if_splits)
qed

lemma stuck_finish:
  assumes s: "stuck m c n r" and a: "a \<noteq> m"
  shows "stuck m c n (snd (finish_entry err a notifier closer r))"
proof (cases err)
  case (Some x)
  then show ?thesis using s by (simp add: finish_entry_def stuck_close stuck_pending)
next
  case None
  let ?r = "set_entry a (\<lambda>e. e\<lparr>e_notifier := notifier, e_code := closer\<rparr>) (r\<lparr>r_pending := remove1 a (r_pending r)\<rparr>)"
  have s1: "stuck m c n ?r" using s a by (intro stuck_set) (simp_all add: stuck_pending)
  have "stuck m c n (?r\<lparr>r_live := a # r_live ?r\<rparr>)" if "lookup (e_name (r_entries ?r ! a)) ?r = None"
  proof -
    have "e_name (r_entries ?r ! a) \<noteq> n" using that s1 by (auto simp: stuck_def)
    then show ?thesis using s1 by (auto simp: stuck_def lookup_def split: if_splits)
  qed
  then show ?thesis using None stuck_close [OF s1] by (simp add: finish_entry_def Let_def)
qed

lemma stuck_specified:
  assumes s: "stuck m c n r" and inv: "registry_inv r" and t: "applicable x r" and x: "\<And>d. x \<noteq> CloseStore d"
  shows "stuck m c n (snd (specified x r))"
proof (cases x)
  case (Enter err name sys notifier closer)
  obtain a r1 where b: "begin_entry name sys r = (a, r1)" by fastforce
  then have s1: "stuck m c n r1" using stuck_begin [OF s inv, of name sys] by simp
  show ?thesis
  proof (cases a)
    case (Inr k)
    then have "k \<noteq> m" using b s by (auto simp: begin_entry_def stuck_def split: if_splits)
    then show ?thesis using Enter b Inr stuck_finish [OF s1] by (simp add: snd_map_prod)
  qed (use Enter b s1 in simp)
next
  case (Finish err a notifier closer)
  have "a \<noteq> m" using Finish t inv stuck_live [OF s] by (auto simp: applicable_def registry_inv_def shape_ok_def)
  then show ?thesis using Finish stuck_finish [OF s] by (simp add: snd_map_prod)
next
  case (Defer cancelled a e)
  have "stuck m c n (leave a d True r)" if "e_exit (r_entries r ! a) = None" for d
    using that s by (intro stuck_leave) (auto simp: stuck_def)
  then show ?thesis using Defer s by (auto split: option.splits)
next
  case (Check a)
  have "stuck m c n (cleanup a r)" if "e_deferred (r_entries r ! a)" using that s by (intro stuck_cleanup) (auto simp: stuck_def)
  then show ?thesis using Check s by auto
next
  case (CloseCtx a e)
  then show ?thesis using s stuck_close [OF s] by (auto split: option.splits)
qed (use s x stuck_begin [OF s inv] stuck_close [OF s] in \<open>simp_all add: snd_map_prod\<close>)

lemma stuck_run:
  "stuck m c n r \<Longrightarrow> registry_inv r \<Longrightarrow> valid xs r \<Longrightarrow> (\<forall>d. CloseStore d \<notin> set xs) \<Longrightarrow> stuck m c n (snd (run_specified xs r))"
proof (induction xs arbitrary: r)
  case (Cons x xs)
  have t: "applicable x r" "valid xs (snd (specified x r))" using Cons.prems(3) by simp_all
  have "stuck m c n (snd (specified x r))" using stuck_specified [OF Cons.prems(1,2) t(1)] Cons.prems(4) by auto
  from Cons.IH [OF this specified_inv [OF Cons.prems(2) t(1)] t(2)] show ?case using Cons.prems(4) by (simp add: split_beta Let_def)
qed simp

lemma run_specified_append:
  "fst (run_specified (xs @ ys) r) = fst (run_specified xs r) @ fst (run_specified ys (snd (run_specified xs r)))"
  "snd (run_specified (xs @ ys) r) = snd (run_specified ys (snd (run_specified xs r)))"
  "length (fst (run_specified xs r)) = length xs"
  by (induction xs arbitrary: r) (simp_all add: split_beta Let_def)

lemma valid_append: "valid (xs @ ys) r \<longleftrightarrow> valid xs r \<and> valid ys (snd (run_specified xs r))"
  by (induction xs arbitrary: r) (simp_all add: split_beta Let_def)

lemma finish_stuck:
  assumes inv: "registry_inv r" and m: "m \<in> set (r_pending r)" and r: "r_open r" "n \<noteq> []" "lookup n r = None"
    and e: "e_name (r_entries r ! m) = n" "e_exit (r_entries r ! m) = Some c" "\<not> e_deferred (r_entries r ! m)"
  shows "fst (finish_entry None m notifier closer r) = Inr m \<and> stuck m c n (snd (finish_entry None m notifier closer r))"
proof -
  let ?f = "\<lambda>e. e\<lparr>e_notifier := notifier, e_code := closer\<rparr>"
  have len: "m < length (r_entries r)" using inv m by (auto simp: registry_inv_def shape_ok_def)
  have name: "e_name ((r_entries r)[m := ?f (r_entries r ! m)] ! k) = e_name (r_entries r ! k)" for k by (simp add: nth_update)
  have log: "\<forall>x \<in> set (r_log r). logged r x" using inv by (simp add: registry_inv_def log_ok_def)
  have "CloseCode m \<notin> set (r_log r)" "CloseNotify m d \<notin> set (r_log r)" for d
    using bspec [OF log, of "CloseCode m"] bspec [OF log, of "CloseNotify m d"] m by auto
  moreover have "lookup n (set_entry m ?f (r\<lparr>r_pending := remove1 m (r_pending r)\<rparr>)) = None"
    using r(2,3) by (simp add: lookup_def set_entry_def name)
  ultimately show ?thesis
    using r len e by (simp add: finish_entry_def Let_def set_entry_def stuck_def lookup_def name)
qed

section \<open>Properties\<close>

text \<open>
  C5 (the store implements its specification). For every sequence of operations, in which instantiations may overlap with
  each other and with every other operation, and whatever closing the file systems and the code of modules returns, no
  operation panics, the answers are those of the specification, and the resources are closed in its order: the linked list,
  the map of names and its shrinking and the packed exit code do not show. In particular, closing the store closes the
  modules newest first, and a closed store takes no new ones.
\<close>

theorem store_implements_registry:
  assumes "valid xs empty_registry"
  shows "\<exists>s. run_store fsErr codeErr xs NewStore = Ok (fst (run_specified xs empty_registry), s) \<and>
    filter visible (s_effects s) = r_log (snd (run_specified xs empty_registry))"
  using run_new [OF assms, of fsErr codeErr] refinesD(3) by blast

definition overlapping :: "operation list" where
  "overlapping = [Begin ''a'' True, Enter None ''a'' False True True, Enter None ''b'' True True False, Finish None 0 True False,
     Find ''a'', Defer False 2 Canceled, Find ''b'', Check 2, Enter None ''b'' False True False, CloseStore 3, Check 1, Enter None ''c'' True False False]"

theorem store_implements_registry_witness:
  "valid overlapping empty_registry \<and>
   (\<exists>s. run_store (\<lambda>_. Some EOF) (\<lambda>_. None) overlapping NewStore =
      Ok ([Entered (Inr 0), Entered (Inr 1), Entered (Inr 2), Entered (Inl (Errorf ''module[%s] has already been instantiated'')),
        Found (Some 1), Done, Found None, Exit (Some 0xffffffff), Entered (Inr 3), Done, Exit (Some 3), Entered (Inl (Errorf ''already closed''))], s) \<and>
      filter visible (s_effects s) = [CloseNotify 0 0, CloseFS 0, CloseNotify 2 0xffffffff, CloseFS 2, CloseNotify 3 3,
        CloseNotify 1 3, CloseCode 1, CloseFS 4])"
proof -
  have v: "valid overlapping empty_registry" by code_simp
  have "fst (run_specified overlapping empty_registry) = [Entered (Inr 0), Entered (Inr 1), Entered (Inr 2),
        Entered (Inl (Errorf ''module[%s] has already been instantiated'')),
        Found (Some 1), Done, Found None, Exit (Some 0xffffffff), Entered (Inr 3), Done, Exit (Some 3), Entered (Inl (Errorf ''already closed''))] \<and>
     r_log (snd (run_specified overlapping empty_registry)) = [CloseNotify 0 0, CloseFS 0, CloseNotify 2 0xffffffff, CloseFS 2, CloseNotify 3 3,
        CloseNotify 1 3, CloseCode 1, CloseFS 4]"
    by code_simp
  then show ?thesis using v store_implements_registry [OF v, of "\<lambda>_. Some EOF" "\<lambda>_. None"] by simp
qed

text \<open>
  C15 (names find exactly the open modules). If no module is closed before its instantiation has ended, then after any
  operations a name finds a module if and only if the name is not empty, the module has that name, has been registered and
  is not closed. Hence two registered open modules never have the same name, and closing a module, also one whose
  registration failed because its name was taken, makes no other name disappear.
\<close>

theorem Store_Module_finds_open:
  assumes "valid xs empty_registry" "undisturbed xs empty_registry" "run_store fsErr codeErr xs NewStore = Ok (as, s)"
  shows "Store_Module n s = Some m \<longleftrightarrow> n \<noteq> [] \<and> m < length (s_modules s) \<and> ModuleName (s_modules s ! m) = n \<and>
    m_Closed (s_modules s ! m) = 0 \<and> m \<notin> set (r_pending (snd (run_specified xs empty_registry)))"
proof -
  let ?r = "snd (run_specified xs empty_registry)"
  have ok: "refines ?r s" using run_new [OF assms(1), of fsErr codeErr] assms(3) by auto
  have "quiet ?r" using run_specified_quiet [OF empty_registry_quiet empty_registry_inv assms(1,2)] .
  then have open_iff: "a \<in> set (r_live ?r) \<longleftrightarrow> a < length (s_modules s) \<and> m_Closed (s_modules s ! a) = 0 \<and> a \<notin> set (r_pending ?r)" for a
    using refinesD(5) [OF ok] exit_entry [OF ok, of a] by (auto simp: quiet_def opened_def)
  have "Store_Module n s = lookup n ?r" unfolding Store_Module_def module_def refines_lookup(1) [OF ok] by (simp split: option.splits)
  then have look: "Store_Module n s = named (s_modules s) (r_live ?r) n" using refines_lookup(2) [OF ok] by simp
  have same: "a = b" if T: "a \<in> set (r_live ?r)" "b \<in> set (r_live ?r)" "ModuleName (s_modules s ! a) = ModuleName (s_modules s ! b)"
    "ModuleName (s_modules s ! a) \<noteq> []" for a b
  proof -
    obtain ns where ns: "s_nameToModule s = Some ns" using registry_okD(4) [OF refinesD(1) [OF ok]] T(1) by (cases "s_nameToModule s") auto
    show ?thesis using inj_onD [OF registry_okD(8) [OF refinesD(1) [OF ok] ns], of a b] T by simp
  qed
  have "named (s_modules s) (r_live ?r) n = Some m \<longleftrightarrow> n \<noteq> [] \<and> ModuleName (s_modules s ! m) = n \<and> m \<in> set (r_live ?r)"
  proof
    assume "named (s_modules s) (r_live ?r) n = Some m"
    then show "n \<noteq> [] \<and> ModuleName (s_modules s ! m) = n \<and> m \<in> set (r_live ?r)" by (auto simp: named_def find_Some_iff split: if_splits)
  next
    assume R: "n \<noteq> [] \<and> ModuleName (s_modules s ! m) = n \<and> m \<in> set (r_live ?r)"
    then have "find (\<lambda>a. ModuleName (s_modules s ! a) = n) (r_live ?r) \<noteq> None" by (auto simp: find_None_iff)
    then obtain a where a: "find (\<lambda>a. ModuleName (s_modules s ! a) = n) (r_live ?r) = Some a" by auto
    then have "a \<in> set (r_live ?r)" "ModuleName (s_modules s ! a) = n" by (auto simp: find_Some_iff)
    then have "a = m" using same [of a m] R by simp
    then show "named (s_modules s) (r_live ?r) n = Some m" using a R by (simp add: named_def)
  qed
  then show ?thesis unfolding look using open_iff [of m] by blast
qed

theorem Store_Module_finds_open_witness:
  "\<exists>as s. run_store (\<lambda>_. None) (\<lambda>_. None) (take 4 overlapping) NewStore = Ok (as, s) \<and> undisturbed (take 4 overlapping) empty_registry \<and>
     Store_Module ''a'' s = Some 1 \<and> ModuleName (s_modules s ! 1) = ''a'' \<and> m_Closed (s_modules s ! 1) = 0 \<and> Store_Module ''a'' s \<noteq> Some 0"
proof -
  have "case run_store (\<lambda>_. None) (\<lambda>_. None) (take 4 overlapping) NewStore of Ok (as, s) \<Rightarrow> Store_Module ''a'' s = Some 1 | _ \<Rightarrow> False" by code_simp
  then obtain as s where s: "run_store (\<lambda>_. None) (\<lambda>_. None) (take 4 overlapping) NewStore = Ok (as, s)" "Store_Module ''a'' s = Some 1"
    by (auto split: outcome.splits)
  have v: "valid (take 4 overlapping) empty_registry" "undisturbed (take 4 overlapping) empty_registry" by code_simp+
  show ?thesis using s v(2) Store_Module_finds_open [OF v s(1), of "''a''" 1] by auto
qed

text \<open>
  C14 (resources are closed once). After any operations, one after the other, the notifier, the file system and the code of each module have been
  closed at most once, and a notifier was called with the exit code that the module has, which is that of its first close.
  If no module was closed before its instantiation had ended, a closed module has nothing left to close unless its closing was
  put off to the next call.
\<close>

theorem resources_closed_once:
  assumes "valid xs empty_registry" "run_store fsErr codeErr xs NewStore = Ok (as, s)"
  shows "distinct (map kind (filter visible (s_effects s))) \<and>
    (\<forall>m c. CloseNotify m c \<in> set (s_effects s) \<longrightarrow> m < length (s_modules s) \<and> exit_of (s_modules s ! m) = Some c) \<and>
    (undisturbed xs empty_registry \<longrightarrow> (\<forall>i \<in> set (s_modules s).
       m_Closed i \<noteq> 0 \<and> m_Closed i AND exitCodeFlagMask \<noteq> exitCodeFlagResourceNotClosed \<longrightarrow> \<not> CloseNotifier i \<and> \<not> Sys i \<and> \<not> CodeCloser i))"
proof -
  let ?r = "snd (run_specified xs empty_registry)"
  have ok: "refines ?r s" and inv: "log_ok ?r" using run_new [OF assms(1), of fsErr codeErr] assms(2) by (auto simp: registry_inv_def)
  note log = refinesD(3) [OF ok]
  have "m < length (s_modules s) \<and> exit_of (s_modules s ! m) = Some c" if "CloseNotify m c \<in> set (s_effects s)" for m c
  proof -
    have "CloseNotify m c \<in> set (r_log ?r)" using that unfolding log [symmetric] by simp
    then have "logged ?r (CloseNotify m c)" using inv unfolding log_ok_def by blast
    then show ?thesis using refinesD(5) [OF ok] refinesD(6) [OF ok, of m] by (simp add: entry_of_def)
  qed
  moreover have "\<not> CloseNotifier i \<and> \<not> Sys i \<and> \<not> CodeCloser i"
    if i: "undisturbed xs empty_registry" "i \<in> set (s_modules s)" "m_Closed i \<noteq> 0 \<and> m_Closed i AND 0xff \<noteq> 2" for i
  proof -
    have "clean ?r" using run_specified_quiet [OF empty_registry_quiet empty_registry_inv assms(1) i(1)] by (simp add: quiet_def)
    moreover have "entry_of i \<in> set (r_entries ?r)" unfolding refinesD(2) [OF ok, symmetric] using i(2) by simp
    ultimately show ?thesis using i(3) by (auto simp: clean_def entry_of_def exit_of_def)
  qed
  ultimately show ?thesis using inv log unfolding log_ok_def by auto
qed

theorem resources_closed_once_witness:
  "\<exists>as s. run_store (\<lambda>_. None) (\<lambda>_. None) overlapping NewStore = Ok (as, s) \<and> length (s_modules s) = 5 \<and>
     distinct (map kind (filter visible (s_effects s))) \<and> CloseNotify 1 3 \<in> set (s_effects s) \<and> exit_of (s_modules s ! 1) = Some 3"
proof -
  have "case run_store (\<lambda>_. None) (\<lambda>_. None) overlapping NewStore of
      Ok (as, s) \<Rightarrow> length (s_modules s) = 5 \<and> CloseNotify 1 3 \<in> set (s_effects s) | _ \<Rightarrow> False" by code_simp
  then obtain as s where s: "run_store (\<lambda>_. None) (\<lambda>_. None) overlapping NewStore = Ok (as, s)" "length (s_modules s) = 5" "CloseNotify 1 3 \<in> set (s_effects s)"
    by (auto split: outcome.splits)
  have v: "valid overlapping empty_registry" by code_simp
  show ?thesis using s resources_closed_once [OF v s(1)] by auto
qed

text \<open>
  C35 (a module closed before its registration keeps its name). A module may be closed after its instantiation has checked for it
  and before it is registered, by a goroutine that a host function gave the module to. If its closing was not put off, and its name
  is not empty and is free in an open store when its instantiation ends, it is registered although it is closed. Whatever operations
  follow, short of closing the whole store, its name finds the closed module, it keeps its exit code, and its notifier and its code
  are never closed.
\<close>

theorem Instantiate_registers_closed:
  assumes v: "valid (xs @ Finish None m notifier closer # ys) empty_registry" and ys: "\<forall>d. CloseStore d \<notin> set ys"
    and s: "run_store fsErr codeErr xs NewStore = Ok (as, s)" "s_nameToModule s \<noteq> None"
    and n: "ModuleName (s_modules s ! m) = n" "n \<noteq> []" "Store_Module n s = None"
    and c: "exit_of (s_modules s ! m) = Some c" "m_Closed (s_modules s ! m) AND exitCodeFlagMask \<noteq> exitCodeFlagResourceNotClosed"
  shows "\<exists>as' s'. run_store fsErr codeErr (xs @ Finish None m notifier closer # ys) NewStore = Ok (as', s') \<and>
    as' ! length xs = Entered (Inr m) \<and> Store_Module n s' = Some m \<and> exit_of (s_modules s' ! m) = Some c \<and>
    CloseCode m \<notin> set (s_effects s') \<and> (\<forall>d. CloseNotify m d \<notin> set (s_effects s'))"
proof -
  let ?r = "snd (run_specified xs empty_registry)" and ?ops = "xs @ Finish None m notifier closer # ys"
  let ?r1 = "snd (finish_entry None m notifier closer ?r)" and ?r2 = "snd (run_specified ?ops empty_registry)"
  have v1: "valid xs empty_registry" "m \<in> set (r_pending ?r)" "valid ys ?r1"
    using v by (simp_all add: valid_append applicable_def snd_map_prod)
  have ok: "refines ?r s" and inv: "registry_inv ?r" using run_new [OF v1(1), of fsErr codeErr] s(1) by auto
  have "m < length (s_modules s)" using inv v1(2) refinesD(5) [OF ok] by (auto simp: registry_inv_def shape_ok_def)
  then have e: "r_entries ?r ! m = entry_of (s_modules s ! m)" by (rule refinesD(6) [OF ok])
  have look: "Store_Module k t = lookup k q" if "refines q t" for k q t
    unfolding Store_Module_def module_def refines_lookup(1) [OF that] by (simp split: option.splits)
  have f: "fst (finish_entry None m notifier closer ?r) = Inr m" "stuck m c n ?r1"
    using finish_stuck [OF inv v1(2), of n c notifier closer] n c s(2) look [OF ok, of n] refinesD(4) [OF ok]
    by (simp_all add: e entry_of_def)
  have "applicable (Finish None m notifier closer) ?r" using v1(2) by (simp add: applicable_def)
  from specified_inv [OF inv this] have "registry_inv ?r1" by (simp add: snd_map_prod)
  from stuck_run [OF f(2) this v1(3) ys] have st: "stuck m c n ?r2"
    by (simp add: run_specified_append split_beta Let_def snd_map_prod)
  obtain s' where s': "run_store fsErr codeErr ?ops NewStore = Ok (fst (run_specified ?ops empty_registry), s')" "refines ?r2 s'"
    using run_new [OF v, of fsErr codeErr] by blast
  have "fst (run_specified ?ops empty_registry) ! length xs = Entered (Inr m)"
    using f(1) by (simp add: run_specified_append nth_append split_beta Let_def fst_map_prod)
  moreover have "Store_Module n s' = Some m" using st look [OF s'(2)] by (simp add: stuck_def)
  moreover have "exit_of (s_modules s' ! m) = Some c"
    using st refinesD(5) [OF s'(2)] refinesD(6) [OF s'(2), of m] by (simp add: stuck_def entry_of_def)
  moreover have "CloseCode m \<notin> set (s_effects s') \<and> (\<forall>d. CloseNotify m d \<notin> set (s_effects s'))"
    using st unfolding stuck_def refinesD(3) [OF s'(2), symmetric] by simp
  ultimately show ?thesis using s'(1) by blast
qed

definition closed_early :: "operation list" where
  "closed_early = [Begin ''a'' True, Close 0 7, Finish None 0 True True, Close 0 7, Find ''a'', Enter None ''a'' False False False]"

theorem Instantiate_registers_closed_witness:
  "\<exists>as s. run_store (\<lambda>_. None) (\<lambda>_. None) closed_early NewStore = Ok (as, s) \<and> as ! 2 = Entered (Inr 0) \<and>
     Store_Module ''a'' s = Some 0 \<and> exit_of (s_modules s ! 0) = Some 7 \<and> CloseNotify 0 7 \<notin> set (s_effects s)"
proof -
  let ?xs = "[Begin ''a'' True, Close 0 7]" and ?ys = "[Close 0 7, Find ''a'', Enter None ''a'' False False False]"
  have e: "closed_early = ?xs @ Finish None 0 True True # ?ys" by (simp add: closed_early_def)
  have v: "valid (?xs @ Finish None 0 True True # ?ys) empty_registry" by code_simp
  have "case run_store (\<lambda>_. None) (\<lambda>_. None) ?xs NewStore of
      Ok (as, s) \<Rightarrow> s_nameToModule s \<noteq> None \<and> ModuleName (s_modules s ! 0) = ''a'' \<and> Store_Module ''a'' s = None \<and>
        exit_of (s_modules s ! 0) = Some 7 \<and> m_Closed (s_modules s ! 0) AND exitCodeFlagMask \<noteq> exitCodeFlagResourceNotClosed
    | _ \<Rightarrow> False" by code_simp
  then obtain as s where s: "run_store (\<lambda>_. None) (\<lambda>_. None) ?xs NewStore = Ok (as, s)" "s_nameToModule s \<noteq> None"
    "ModuleName (s_modules s ! 0) = ''a''" "Store_Module ''a'' s = None" "exit_of (s_modules s ! 0) = Some 7"
    "m_Closed (s_modules s ! 0) AND exitCodeFlagMask \<noteq> exitCodeFlagResourceNotClosed"
    by (auto split: outcome.splits)
  have "\<exists>as' s'. run_store (\<lambda>_. None) (\<lambda>_. None) (?xs @ Finish None 0 True True # ?ys) NewStore = Ok (as', s') \<and>
    as' ! length ?xs = Entered (Inr 0) \<and> Store_Module ''a'' s' = Some 0 \<and> exit_of (s_modules s' ! 0) = Some 7 \<and>
    CloseCode 0 \<notin> set (s_effects s') \<and> (\<forall>d. CloseNotify 0 d \<notin> set (s_effects s'))"
    by (rule Instantiate_registers_closed [OF v _ s(1,2,3) _ s(4,5,6)]) simp_all
  moreover have "length ?xs = 2" by simp
  ultimately show ?thesis unfolding e by metis
qed

end
