(* ===== verification/TypeIDs.thy ===== *)
theory TypeIDs
  imports BinaryDecoder
begin

text \<open>
  The store's identifiers of function types (\<^verbatim>\<open>internal/wasm/store.go\<close>). Indirect calls compare these numbers, so two types must have the same number exactly when they
  are structurally equivalent.
\<close>

section \<open>The keys\<close>

definition structuralValueTypeName :: "ValueType \<Rightarrow> u32 list \<Rightarrow> string" where
  "structuralValueTypeName vt typeIDs =
     (if IsConcreteRef vt \<and> unat (TypeIndex vt) < length typeIDs then
        if IsNullable vt then ''(ref null tid='' @ decimal (unat (typeIDs ! unat (TypeIndex vt))) @ '')''
        else ''(ref tid='' @ decimal (unat (typeIDs ! unat (TypeIndex vt))) @ '')''
      else ValueTypeName vt)"

definition structuralTypeKey :: "FunctionType \<Rightarrow> u32 list \<Rightarrow> string" where
  "structuralTypeKey ft typeIDs =
     (if \<not> list_ex IsConcreteRef (ft_Params ft) \<and> \<not> list_ex IsConcreteRef (ft_Results ft) then key ft
      else
        concat (map (\<lambda>b. structuralValueTypeName b typeIDs) (ft_Params ft)) @ (if length (ft_Params ft) = 0 then ''v_'' else ''_'') @
        concat (map (\<lambda>b. structuralValueTypeName b typeIDs) (ft_Results ft)) @ (if length (ft_Results ft) = 0 then ''v'' else []) @
        recSuffix ft)"

section \<open>The identifiers\<close>

text \<open>\<^verbatim>\<open>typeIDs\<close> is nil (\<open>None\<close>) in a closed store.\<close>

record type_store =
  st_typeIDs :: "(string \<times> u32) list option"
  st_functionMaxTypes :: u32

definition newTypeStore :: type_store where
  "newTypeStore = \<lparr>st_typeIDs = Some [], st_functionMaxTypes = 2 ^ 27\<rparr>"

definition getFunctionTypeIDByKey :: "string \<Rightarrow> type_store \<Rightarrow> (u32 \<times> type_store) outcome" where
  "getFunctionTypeIDByKey k s =
     (case st_typeIDs s of
        None \<Rightarrow> Err (Errorf ''store closed'')
      | Some ids \<Rightarrow>
          case map_of ids k of
            Some i \<Rightarrow> Ok (i, s)
          | None \<Rightarrow>
              if (of_nat (length ids) :: u32) \<ge> st_functionMaxTypes s then Err (Errorf ''too many function types in a store'')
              else Ok (of_nat (length ids), s\<lparr>st_typeIDs := Some (ids @ [(k, of_nat (length ids))])\<rparr>))"

text \<open>
  \<^verbatim>\<open>key\<close> also keeps its result in the type. A later call returns the same string, since the rec group of a type is set by the
  decoder only, so that the types are not returned.
\<close>

definition GetFunctionTypeID :: "FunctionType \<Rightarrow> type_store \<Rightarrow> (u32 \<times> type_store) outcome" where
  "GetFunctionTypeID t s = getFunctionTypeIDByKey (key t) s"

definition assignTypeID :: "FunctionType list \<Rightarrow> nat \<Rightarrow> u32 list \<times> type_store \<Rightarrow> (u32 list \<times> type_store) outcome" where
  "assignTypeID ts i = (\<lambda>(ret, s).
     bindO (getFunctionTypeIDByKey (structuralTypeKey (ts ! i) ret) s) (\<lambda>(n, s). Ok (ret[i := n], s)))"

definition GetFunctionTypeIDs :: "FunctionType list \<Rightarrow> type_store \<Rightarrow> (u32 list \<times> type_store) outcome" where
  "GetFunctionTypeIDs ts s = foldO (assignTypeID ts) [0..<length ts] (replicate (length ts) 0, s)"

section \<open>Numbers in keys\<close>

lemma digit_inj: "a < 10 \<Longrightarrow> b < 10 \<Longrightarrow> digit a = digit b \<longleftrightarrow> a = b"
  unfolding digit_def by (auto dest!: arg_cong [of _ _ of_char] simp: of_char_of)

lemma decimal_nonempty: "decimal n \<noteq> []"
  by (subst decimal.simps) simp

lemma decimal_inj: "decimal a = decimal b \<longleftrightarrow> a = b"
proof (induction a arbitrary: b rule: decimal.induct)
  case (1 a)
  show ?case
  proof (cases "a < 10"; cases "b < 10")
    assume "a < 10" "b < 10"
    then show ?thesis by (simp add: decimal.simps [of a] decimal.simps [of b] digit_inj)
  next
    assume "a < 10" "\<not> b < 10"
    then show ?thesis using decimal_nonempty decimal_nonempty [symmetric] by (auto simp: decimal.simps [of a] decimal.simps [of b])
  next
    assume "\<not> a < 10" "b < 10"
    then show ?thesis using decimal_nonempty decimal_nonempty [symmetric] by (auto simp: decimal.simps [of a] decimal.simps [of b])
  next
    assume ab: "\<not> a < 10" "\<not> b < 10"
    have "decimal a = decimal b \<longleftrightarrow> decimal (a div 10) = decimal (b div 10) \<and> digit (a mod 10) = digit (b mod 10)"
      using ab by (simp add: decimal.simps [of a] decimal.simps [of b])
    also have "\<dots> \<longleftrightarrow> a div 10 = b div 10 \<and> a mod 10 = b mod 10" using 1 [OF ab(1)] by (simp add: digit_inj)
    also have "\<dots> \<longleftrightarrow> a = b" by (metis div_mult_mod_eq)
    finally show ?thesis .
  qed
qed

definition is_digit :: "char \<Rightarrow> bool" where
  "is_digit c \<longleftrightarrow> 48 \<le> (of_char c :: nat) \<and> (of_char c :: nat) < 58"

lemma decimal_chars: "c \<in> set (decimal n) \<Longrightarrow> is_digit c"
proof (induction n rule: decimal.induct)
  case (1 n)
  have "is_digit (digit k)" if "k < 10" for k using that by (simp add: is_digit_def digit_def)
  then show ?case using "1.IH" "1.prems" by (subst (asm) (2) decimal.simps) (auto split: if_splits)
qed

lemma decimal_then:
  assumes "decimal a @ c # x = decimal b @ c # y" "\<not> is_digit c"
  shows "a = b \<and> x = y"
proof -
  have "takeWhile (\<lambda>d. d \<noteq> c) (decimal n @ c # z) = decimal n" for n z
    using decimal_chars [of _ n] assms(2) by (subst takeWhile_append2) auto
  then have "decimal a = decimal b" using assms(1) by metis
  then show ?thesis using assms(1) decimal_inj by simp
qed

section \<open>Keys determine what they are made of\<close>

text \<open>The value types that are not concrete references, and what a name says of any value type.\<close>

definition plainTypes :: "ValueType list" where
  "plainTypes = [ValueTypeI32, ValueTypeI64, ValueTypeF32, ValueTypeF64, ValueTypeV128,
     ValueTypeFuncref, ValueTypeExternref, ValueTypeExnref,
     AsNonNullable ValueTypeFuncref, AsNonNullable ValueTypeExternref, AsNonNullable ValueTypeExnref]"

datatype token = Plain ValueType | Ref bool u32

fun token_name :: "token \<Rightarrow> string" where
  "token_name (Plain v) = ValueTypeName v"
| "token_name (Ref n t) = (if n then ''(ref null tid='' else ''(ref tid='') @ decimal (unat t) @ '')''"

definition token_of :: "u32 list \<Rightarrow> ValueType \<Rightarrow> token" where
  "token_of ids v = (if IsConcreteRef v then Ref (IsNullable v) (ids ! unat (TypeIndex v)) else Plain v)"

fun token_ok :: "token \<Rightarrow> bool" where
  "token_ok (Plain v) = (v \<in> set plainTypes)"
| "token_ok (Ref _ _) = True"

definition plainNames :: "string list" where
  "plainNames =
     [''i32'', ''i64'', ''f32'', ''f64'', ''v128'', ''funcref'', ''externref'', ''exnref'', ''(ref func)'', ''(ref extern)'', ''(ref exn)'']"

lemma plain_names:
  "v \<in> set plainTypes \<Longrightarrow> (v, ValueTypeName v) \<in> set (zip plainTypes plainNames)"
proof -
  have "map ValueTypeName plainTypes =
     plainNames"
    by code_simp
  moreover have "(v, ValueTypeName v) \<in> set (zip plainTypes (map ValueTypeName plainTypes))" if "v \<in> set plainTypes"
    using that by (auto simp: set_zip in_set_conv_nth)
  ultimately show "v \<in> set plainTypes \<Longrightarrow> ?thesis" by simp
qed

lemma token_prefix:
  assumes "token_ok a" "token_ok b" "token_name a @ x = token_name b @ y"
  shows "a = b \<and> x = y"
proof (cases a; cases b)
  fix v v' assume ab: "a = Plain v" "b = Plain v'"
  then have "(v, ValueTypeName v) \<in> set (zip plainTypes plainNames)"
    "(v', ValueTypeName v') \<in> set (zip plainTypes plainNames)"
    using assms(1,2) plain_names by auto
  then show ?thesis using assms(3) ab by (auto simp: plainTypes_def plainNames_def)
next
  fix v n t assume ab: "a = Plain v" "b = Ref n t"
  then have "(v, ValueTypeName v) \<in> set (zip plainTypes plainNames)"
    using assms(1) plain_names by auto
  then show ?thesis using assms(3) ab by (auto simp: plainTypes_def plainNames_def split: if_splits)
next
  fix v n t assume ab: "a = Ref n t" "b = Plain v"
  then have "(v, ValueTypeName v) \<in> set (zip plainTypes plainNames)"
    using assms(2) plain_names by auto
  then show ?thesis using assms(3) ab by (auto simp: plainTypes_def plainNames_def split: if_splits)
next
  fix n t n' t' assume ab: "a = Ref n t" "b = Ref n' t'"
  have "\<not> is_digit (CHR '')'')" by (simp add: is_digit_def)
  then show ?thesis using assms(3) ab decimal_then [of "unat t" "CHR '')''" x "unat t'" y]
    by (auto simp: word_unat_eq_iff split: if_splits)
qed

lemma token_first: "token_ok t \<Longrightarrow> \<exists>c z. token_name t = c # z \<and> c \<in> set ''ifve(''"
proof (cases t)
  case (Plain v)
  assume "token_ok t"
  then have "(v, ValueTypeName v) \<in> set (zip plainTypes plainNames)" using Plain plain_names by simp
  then show ?thesis using Plain by (auto simp: plainTypes_def plainNames_def)
qed simp

lemma token_v: "token_ok t \<Longrightarrow> token_name t = CHR ''v'' # z \<Longrightarrow> z = ''128''"
proof (cases t)
  case (Plain v)
  assume "token_ok t" "token_name t = CHR ''v'' # z"
  then have "(v, CHR ''v'' # z) \<in> set (zip plainTypes plainNames)" using Plain plain_names [of v] by simp
  then show ?thesis by (auto simp: plainTypes_def plainNames_def)
qed (simp split: if_splits)

text \<open>Strings that do not start with a name.\<close>

definition stops :: "string \<Rightarrow> bool" where
  "stops r \<longleftrightarrow> (\<forall>t z. token_ok t \<longrightarrow> r \<noteq> token_name t @ z)"

lemma stops_Nil: "stops []"
  unfolding stops_def using token_first by fastforce

lemma stops_char: "c \<notin> set ''ifve('' \<Longrightarrow> stops (c # r)"
  unfolding stops_def using token_first by fastforce

lemma stops_v: "r = [] \<or> hd r \<noteq> CHR ''1'' \<Longrightarrow> stops (CHR ''v'' # r)"
  unfolding stops_def
proof (intro allI impI notI)
  fix t z assume r: "r = [] \<or> hd r \<noteq> CHR ''1''" and t: "token_ok t" and eq: "CHR ''v'' # r = token_name t @ z"
  obtain c y where y: "token_name t = c # y" using token_first [OF t] by blast
  then have "token_name t = CHR ''v'' # y" using eq by simp
  then have "y = ''128''" by (rule token_v [OF t])
  then show False using eq y r by auto
qed

lemma tokens_then:
  "list_all token_ok xs \<Longrightarrow> list_all token_ok ys \<Longrightarrow> stops r \<Longrightarrow> stops r' \<Longrightarrow>
     concat (map token_name xs) @ r = concat (map token_name ys) @ r' \<Longrightarrow> xs = ys \<and> r = r'"
proof (induction xs arbitrary: ys)
  case Nil
  then show ?case by (cases ys) (auto simp: stops_def)
next
  case (Cons x xs)
  show ?case
  proof (cases ys)
    case Nil
    then show ?thesis using Cons.prems by (auto simp: stops_def)
  next
    case ys: (Cons y ys')
    then have "token_name x @ (concat (map token_name xs) @ r) = token_name y @ (concat (map token_name ys') @ r')"
      using Cons.prems(5) by simp
    then have "x = y \<and> concat (map token_name xs) @ r = concat (map token_name ys') @ r'"
      using token_prefix Cons.prems(1,2) ys by auto
    then show ?thesis using Cons.IH [of ys'] Cons.prems ys by simp
  qed
qed

definition assemble :: "token list \<Rightarrow> token list \<Rightarrow> string \<Rightarrow> string" where
  "assemble ps rs suffix = concat (map token_name ps) @ (if ps = [] then ''v_'' else ''_'') @
     concat (map token_name rs) @ (if rs = [] then ''v'' else []) @ suffix"

lemma assemble_inj:
  assumes "list_all token_ok ps" "list_all token_ok ps'" "list_all token_ok rs" "list_all token_ok rs'"
    and "assemble ps rs s = assemble ps' rs' s'" and s: "s = [] \<or> hd s = CHR ''|''" "s' = [] \<or> hd s' = CHR ''|''"
  shows "ps = ps' \<and> rs = rs' \<and> s = s'"
proof -
  have st: "stops ((if ps = [] then ''v_'' else ''_'') @ x)" for ps :: "token list" and x
    by (cases ps) (simp_all add: stops_v stops_char)
  have "ps = ps' \<and> (if ps = [] then ''v_'' else ''_'') @ concat (map token_name rs) @ (if rs = [] then ''v'' else []) @ s =
      (if ps' = [] then ''v_'' else ''_'') @ concat (map token_name rs') @ (if rs' = [] then ''v'' else []) @ s'"
    using assms(5) unfolding assemble_def by (rule tokens_then [OF assms(1,2) st st])
  then have 1: "ps = ps'" "concat (map token_name rs) @ (if rs = [] then ''v'' else []) @ s =
      concat (map token_name rs') @ (if rs' = [] then ''v'' else []) @ s'"
    by auto
  have st: "stops ((if rs = [] then ''v'' else []) @ s)" if "s = [] \<or> hd s = CHR ''|''" for rs :: "token list" and s
    using that by (cases s; cases rs) (simp_all add: stops_v stops_char stops_Nil)
  have "rs = rs' \<and> (if rs = [] then ''v'' else []) @ s = (if rs' = [] then ''v'' else []) @ s'"
    by (rule tokens_then [OF assms(3,4) st [OF s(1)] st [OF s(2)] 1(2)])
  then show ?thesis using 1(1) by auto
qed

text \<open>A type whose references are all in range, with its key.\<close>

definition type_refs_ok :: "nat \<Rightarrow> FunctionType \<Rightarrow> bool" where
  "type_refs_ok n f \<longleftrightarrow> (\<forall>v \<in> set (ft_Params f) \<union> set (ft_Results f). IsConcreteRef v \<and> unat (TypeIndex v) < n \<or> v \<in> set plainTypes)"

lemma plain_not_concrete: "v \<in> set plainTypes \<Longrightarrow> \<not> IsConcreteRef v"
  by (auto simp: plainTypes_def IsConcreteRef_def AsNonNullable_def)

lemma structural_name:
  assumes "IsConcreteRef v \<and> unat (TypeIndex v) < length ids \<or> v \<in> set plainTypes"
  shows "structuralValueTypeName v ids = token_name (token_of ids v)" "token_ok (token_of ids v)"
  using assms plain_not_concrete by (auto simp: structuralValueTypeName_def token_of_def)

text \<open>A key that was not cached yet, or that was cached by the decoder.\<close>

definition keyed :: "FunctionType \<Rightarrow> bool" where
  "keyed f \<longleftrightarrow> ft_string f = [] \<or> key_cached f"

lemma key_plain: "keyed f \<Longrightarrow> ft_RecGroupSize f \<le> 1 \<Longrightarrow> key f = plainKey f"
  by (auto simp: keyed_def key_cached_def plainKey_def key_def recSuffix_def)

lemma structuralTypeKey_assemble:
  assumes "type_refs_ok (length ids) f" and single: "ft_RecGroupSize f \<le> 1" "keyed f"
  shows "structuralTypeKey f ids = assemble (map (token_of ids) (ft_Params f)) (map (token_of ids) (ft_Results f)) []"
    and "list_all token_ok (map (token_of ids) (ft_Params f))" "list_all token_ok (map (token_of ids) (ft_Results f))"
proof -
  let ?T = "\<lambda>xs. concat (map token_name (map (token_of ids) xs))"
  have n: "concat (map (\<lambda>v. structuralValueTypeName v ids) xs) = ?T xs"
    if "set xs \<subseteq> set (ft_Params f) \<union> set (ft_Results f)" for xs
    unfolding map_map by (intro arg_cong [of _ _ concat] map_cong refl)
      (use assms that structural_name(1) in \<open>auto simp: type_refs_ok_def\<close>)
  have p: "concat (map ValueTypeName xs) = ?T xs" if "\<not> list_ex IsConcreteRef xs" for xs
    unfolding map_map by (intro arg_cong [of _ _ concat] map_cong refl) (use that in \<open>auto simp: list_ex_iff token_of_def\<close>)
  show "list_all token_ok (map (token_of ids) (ft_Params f))" "list_all token_ok (map (token_of ids) (ft_Results f))"
    using assms structural_name(2) unfolding type_refs_ok_def list_all_iff by fastforce+
  have n': "concat (map (\<lambda>v. structuralValueTypeName v ids) (ft_Params f)) = ?T (ft_Params f)"
    "concat (map (\<lambda>v. structuralValueTypeName v ids) (ft_Results f)) = ?T (ft_Results f)"
    by (rule n; blast)+
  show "structuralTypeKey f ids = assemble (map (token_of ids) (ft_Params f)) (map (token_of ids) (ft_Results f)) []"
  proof (cases "\<not> list_ex IsConcreteRef (ft_Params f) \<and> \<not> list_ex IsConcreteRef (ft_Results f)")
    case True
    then have "structuralTypeKey f ids = plainKey f" using key_plain [OF single(2,1)] by (simp add: structuralTypeKey_def)
    then show ?thesis using True p [of "ft_Params f"] p [of "ft_Results f"]
      by (simp add: plainKey_def key_def recSuffix_def assemble_def)
  next
    case False
    moreover have "recSuffix f = []" using single(1) by (simp add: recSuffix_def)
    ultimately show ?thesis using n'
      by (simp only: structuralTypeKey_def assemble_def if_False map_is_Nil_conv length_0_conv)
  qed
qed

section \<open>Identifiers are unique\<close>

definition type_store_ok :: "type_store \<Rightarrow> bool" where
  "type_store_ok s \<longleftrightarrow> (\<exists>ids. st_typeIDs s = Some ids \<and> distinct (map fst ids) \<and> length ids \<le> unat (st_functionMaxTypes s) \<and>
     map snd ids = map of_nat [0..<length ids])"

definition id_of :: "type_store \<Rightarrow> string \<Rightarrow> u32 option" where
  "id_of s k = (case st_typeIDs s of None \<Rightarrow> None | Some ids \<Rightarrow> map_of ids k)"

lemma below_u32: "n \<le> unat (x :: u32) \<Longrightarrow> n < 2 ^ 32"
  by (erule order_le_less_trans) (use unsigned_less [of x, where 'a = nat] in simp)

lemma id_of_inj:
  assumes "type_store_ok s" "id_of s k = Some i" "id_of s k' = Some i"
  shows "k = k'"
proof -
  obtain ids where ids: "st_typeIDs s = Some ids" "length ids \<le> unat (st_functionMaxTypes s)" "map snd ids = map of_nat [0..<length ids]"
    using assms(1) by (auto simp: type_store_ok_def)
  obtain a b where a: "a < length ids" "ids ! a = (k, i)" and b: "b < length ids" "ids ! b = (k', i)"
    using assms(2,3) ids(1) by (auto simp: id_of_def in_set_conv_nth dest!: map_of_SomeD)
  have i: "i = of_nat a" "i = of_nat b"
    using arg_cong [OF ids(3), of "\<lambda>xs. xs ! a"] arg_cong [OF ids(3), of "\<lambda>xs. xs ! b"] a b by simp_all
  have lt: "a < 2 ^ 32" "b < 2 ^ 32" using a(1) b(1) below_u32 [OF ids(2)] by linarith+
  have "unat i = a" unfolding i(1) using lt(1) by (simp add: unsigned_of_nat take_bit_nat_eq_self)
  moreover have "unat i = b" unfolding i(2) using lt(2) by (simp add: unsigned_of_nat take_bit_nat_eq_self)
  ultimately have "a = b" by simp
  then show ?thesis using a b by simp
qed


lemma id_of_get:
  assumes ok: "type_store_ok s" and g: "getFunctionTypeIDByKey k s = Ok (i, s')"
  shows "type_store_ok s'" "id_of s' k = Some i" "\<And>k' j. id_of s k' = Some j \<Longrightarrow> id_of s' k' = Some j"
proof -
  obtain ids where ids: "st_typeIDs s = Some ids" "distinct (map fst ids)" "length ids \<le> unat (st_functionMaxTypes s)"
    "map snd ids = map of_nat [0..<length ids]"
    using ok by (auto simp: type_store_ok_def)
  have *: "type_store_ok s' \<and> id_of s' k = Some i \<and> (\<forall>k' j. id_of s k' = Some j \<longrightarrow> id_of s' k' = Some j)"
  proof (cases "map_of ids k")
    case (Some j)
    then show ?thesis using g ids ok by (simp add: getFunctionTypeIDByKey_def id_of_def)
  next
    case None
    then have lt: "(of_nat (length ids) :: u32) < st_functionMaxTypes s" and i: "i = of_nat (length ids)"
      and s': "s' = s\<lparr>st_typeIDs := Some (ids @ [(k, of_nat (length ids))])\<rparr>"
      using g ids(1) by (auto simp: getFunctionTypeIDByKey_def split: if_splits)
    have "length ids < 2 ^ 32" using below_u32 [OF ids(3)] .
    then have "length ids < unat (st_functionMaxTypes s)"
      using lt by (simp add: word_less_nat_alt unsigned_of_nat take_bit_nat_eq_self)
    moreover have "k \<notin> fst ` set ids" using None by (simp add: map_of_eq_None_iff)
    ultimately have "type_store_ok s'" using ids s' unfolding type_store_ok_def by simp
    moreover have "id_of s' k' = Some j" if "id_of s k' = Some j" for k' j
      using that ids(1) s' by (simp add: id_of_def map_add_Some_iff)
    moreover have "id_of s' k = Some i" using None s' i by (simp add: id_of_def map_add_def)
    ultimately show ?thesis by blast
  qed
  then show "type_store_ok s'" "id_of s' k = Some i" "\<And>k' j. id_of s k' = Some j \<Longrightarrow> id_of s' k' = Some j" by blast+
qed

text \<open>The identifier of each type is that of its key, made with the identifiers of the earlier types and zeros.\<close>

definition ids_before :: "nat \<Rightarrow> u32 list \<Rightarrow> u32 list" where
  "ids_before i ret = take i ret @ replicate (length ret - i) 0"

definition assigned :: "FunctionType list \<Rightarrow> nat \<Rightarrow> u32 list \<Rightarrow> type_store \<Rightarrow> bool" where
  "assigned ts n ret s \<longleftrightarrow> length ret = length ts \<and> ret = ids_before n ret \<and> type_store_ok s \<and>
     (\<forall>i < n. id_of s (structuralTypeKey (ts ! i) (ids_before i ret)) = Some (ret ! i))"

lemma foldO_snoc: "foldO f (xs @ [x]) s = bindO (foldO f xs s) (f x)"
proof (induction xs arbitrary: s)
  case (Cons a xs)
  then show ?case by (cases "f a s") simp_all
next
  case Nil
  then show ?case by (cases "f x s") simp_all
qed

lemma assigned_step:
  assumes a: "assigned ts n ret s" and n: "n < length ts" and st: "assignTypeID ts n (ret, s) = Ok (ret', s')"
  shows "assigned ts (Suc n) ret' s'"
proof -
  obtain i where g: "getFunctionTypeIDByKey (structuralTypeKey (ts ! n) ret) s = Ok (i, s')" and ret': "ret' = ret[n := i]"
    using st by (auto simp: assignTypeID_def bindO_Ok_iff)
  have len: "length ret = length ts" and zeros: "ret = ids_before n ret" and ok: "type_store_ok s"
    using a by (simp_all add: assigned_def)
  note G = id_of_get [OF ok g]
  have same: "ids_before j ret' = ids_before j ret" if "j \<le> n" for j using that ret' by (simp add: ids_before_def)
  have "ret' = ids_before (Suc n) ret'"
  proof (rule nth_equalityI)
    fix j assume j: "j < length ret'"
    have "ret ! j = 0" if "n \<le> j" using arg_cong [OF zeros, of "\<lambda>xs. xs ! j"] that j ret' len by (simp add: ids_before_def nth_append)
    then show "ret' ! j = ids_before (Suc n) ret' ! j" using j ret' len n
      by (cases "j < Suc n") (simp_all add: ids_before_def nth_append)
  qed (use ret' len n in \<open>simp add: ids_before_def\<close>)
  moreover have "id_of s' (structuralTypeKey (ts ! j) (ids_before j ret')) = Some (ret' ! j)" if j: "j < Suc n" for j
  proof (cases "j = n")
    case True
    then show ?thesis using G(2) same [of n] zeros ret' n len by simp
  next
    case False
    then have "id_of s (structuralTypeKey (ts ! j) (ids_before j ret)) = Some (ret ! j)" using a j by (simp add: assigned_def)
    then show ?thesis using G(3) same [of j] ret' False j by simp
  qed
  ultimately show ?thesis using G(1) len ret' by (simp add: assigned_def)
qed

lemma GetFunctionTypeIDs_assigned:
  assumes ok: "type_store_ok s" and g: "GetFunctionTypeIDs ts s = Ok (ret, s')"
  shows "assigned ts (length ts) ret s'"
proof -
  have "n \<le> length ts \<Longrightarrow> foldO (assignTypeID ts) [0..<n] (replicate (length ts) 0, s) = Ok (ret, s') \<Longrightarrow> assigned ts n ret s'" for n
  proof (induction n arbitrary: ret s')
    case 0
    then show ?case using ok by (auto simp: assigned_def ids_before_def)
  next
    case (Suc n)
    then obtain ret1 s1 where "foldO (assignTypeID ts) [0..<n] (replicate (length ts) 0, s) = Ok (ret1, s1)"
      "assignTypeID ts n (ret1, s1) = Ok (ret, s')"
      by (auto simp: foldO_snoc bindO_Ok_iff)
    then show ?case using Suc.IH [of ret1 s1] Suc.prems(1) assigned_step [of ts n ret1 s1] by simp
  qed
  then show ?thesis using g by (simp add: GetFunctionTypeIDs_def)
qed

lemma GetFunctionTypeIDs_keeps:
  assumes ok: "type_store_ok s" and g: "GetFunctionTypeIDs ts s = Ok (ret, s')" and k: "id_of s k = Some i"
  shows "id_of s' k = Some i"
proof -
  have "foldO (assignTypeID ts) is (r, s) = Ok (ret, s') \<Longrightarrow> type_store_ok s \<Longrightarrow> id_of s k = Some i \<Longrightarrow> id_of s' k = Some i" for r s "is"
  proof (induction "is" arbitrary: r s)
    case (Cons j js)
    then obtain r1 s1 where 1: "assignTypeID ts j (r, s) = Ok (r1, s1)" and 2: "foldO (assignTypeID ts) js (r1, s1) = Ok (ret, s')"
      by (auto simp: bindO_Ok_iff)
    obtain n where g: "getFunctionTypeIDByKey (structuralTypeKey (ts ! j) r) s = Ok (n, s1)"
      using 1 by (auto simp: assignTypeID_def bindO_Ok_iff)
    show ?case using Cons.IH [OF 2] id_of_get(1,3) [OF Cons.prems(2) g] Cons.prems(3) by blast
  qed simp
  then show ?thesis using g ok k by (auto simp: GetFunctionTypeIDs_def)
qed

section \<open>Types that refer only to earlier types\<close>

text \<open>
  Type sections without rec groups: the decoder lets a type outside a rec group refer to earlier types only, and leaves
  its group size zero.
\<close>

definition backward :: "Module \<Rightarrow> bool" where
  "backward m \<longleftrightarrow> (\<forall>i < length (TypeSection m). type_refs_ok i (TypeSection m ! i) \<and> ft_RecGroupSize (TypeSection m ! i) \<le> 1)"

lemma type_refs_ok_mono: "type_refs_ok n f \<Longrightarrow> n \<le> n' \<Longrightarrow> type_refs_ok n' f"
  unfolding type_refs_ok_def using order_less_le_trans by blast

lemma structuralTypeKey_before:
  assumes "type_refs_ok i f" "i \<le> length ret" and single: "ft_RecGroupSize f \<le> 1" "keyed f"
  shows "structuralTypeKey f (ids_before i ret) = structuralTypeKey f ret"
proof -
  have len: "length (ids_before i ret) = length ret" using assms(2) by (simp add: ids_before_def)
  have tok: "token_of (ids_before i ret) v = token_of ret v" if "v \<in> set (ft_Params f) \<union> set (ft_Results f)" for v
    using assms that plain_not_concrete unfolding type_refs_ok_def token_of_def ids_before_def by (auto simp: nth_append)
  have "map (token_of (ids_before i ret)) (ft_Params f) = map (token_of ret) (ft_Params f)"
    "map (token_of (ids_before i ret)) (ft_Results f) = map (token_of ret) (ft_Results f)"
    using tok by (auto intro: map_cong)
  moreover have "type_refs_ok (length ret) f" using type_refs_ok_mono [OF assms(1,2)] .
  ultimately show ?thesis
    using structuralTypeKey_assemble(1) [of "ids_before i ret" f] structuralTypeKey_assemble(1) [of ret f] len single by metis
qed

lemma token_rel: "token_of ids v = token_of ids' v' \<longleftrightarrow> vt_rel (\<lambda>a b. ids ! unat a = ids' ! unat b) v v'"
  by (auto simp: token_of_def vt_rel_def)

lemma tokens_rel:
  "map (token_of ids) xs = map (token_of ids') ys \<longleftrightarrow> list_all2 (vt_rel (\<lambda>a b. ids ! unat a = ids' ! unat b)) xs ys"
proof (induction xs arbitrary: ys)
  case (Cons x xs)
  then show ?case by (cases ys) (simp_all add: token_rel)
qed auto

text \<open>Two types have the same key exactly when their signatures are related by equality of identifiers.\<close>

lemma same_key:
  assumes "type_refs_ok (length ids) f" "type_refs_ok (length ids') g" "ft_RecGroupSize f \<le> 1" "ft_RecGroupSize g \<le> 1" "keyed f" "keyed g"
  shows "structuralTypeKey f ids = structuralTypeKey g ids' \<longleftrightarrow> sig_rel (\<lambda>a b. ids ! unat a = ids' ! unat b) f g"
proof -
  note A = structuralTypeKey_assemble [OF assms(1,3,5)] and B = structuralTypeKey_assemble [OF assms(2,4,6)]
  have "structuralTypeKey f ids = structuralTypeKey g ids' \<longleftrightarrow>
      map (token_of ids) (ft_Params f) = map (token_of ids') (ft_Params g) \<and>
      map (token_of ids) (ft_Results f) = map (token_of ids') (ft_Results g)"
    unfolding A(1) B(1) using assemble_inj [OF A(2) B(2) A(3) B(3)] by auto
  also have "\<dots> \<longleftrightarrow> sig_rel (\<lambda>a b. ids ! unat a = ids' ! unat b) f g"
    unfolding tokens_rel sig_rel_def ..
  finally show ?thesis .
qed

lemma backward_unfolds:
  assumes "backward m" "backward m'" "inRange m x" "inRange m' y"
  shows "unfolds False m m' R x y \<longleftrightarrow> sig_rel R (typeAt m x) (typeAt m' y)"
proof -
  have "ft_RecGroupSize (typeAt m x) \<le> 1" "ft_RecGroupSize (typeAt m' y) \<le> 1"
    using assms by (auto simp: backward_def inRange_def typeAt_def)
  then have "ft_RecGroupSize (typeAt m x) \<in> {0, 1}" "ft_RecGroupSize (typeAt m' y) \<in> {0, 1}" by auto
  then have "group m x = (x, 1)" "group m' y = (y, 1)" by (auto simp: group_def)
  then show ?thesis using assms(3,4) by (simp add: unfolds_def same_place_def group_rel_def)
qed

lemma sig_rel_weaken:
  assumes "sig_rel R f g" "type_refs_ok n f" "type_refs_ok n' g" "\<And>a b. R a b \<Longrightarrow> unat a < n \<Longrightarrow> unat b < n' \<Longrightarrow> S a b"
  shows "sig_rel S f g"
proof -
  have "list_all2 (vt_rel S) xs ys" if l: "list_all2 (vt_rel R) xs ys" and sub: "set xs \<subseteq> set (ft_Params f) \<union> set (ft_Results f)"
    "set ys \<subseteq> set (ft_Params g) \<union> set (ft_Results g)" for xs ys
    using l
  proof (rule list.rel_mono_strong)
    fix x y assume xy: "x \<in> set xs" "y \<in> set ys" "vt_rel R x y"
    have "IsConcreteRef x \<Longrightarrow> unat (TypeIndex x) < n" "IsConcreteRef y \<Longrightarrow> unat (TypeIndex y) < n'"
      using assms(2,3) xy(1,2) sub plain_not_concrete unfolding type_refs_ok_def by blast+
    then show "vt_rel S x y" using xy(3) assms(4) by (simp add: vt_rel_def split: if_splits)
  qed
  then show ?thesis using assms(1) by (simp add: sig_rel_def)
qed

lemma same_id_iff_equiv:
  assumes b: "backward m" "backward m'" and ky: "\<forall>f \<in> set (TypeSection m) \<union> set (TypeSection m'). keyed f" and len: "length ids = length (TypeSection m)" "length ids' = length (TypeSection m')"
    and ok: "type_store_ok s"
    and k: "\<And>i. i < length ids \<Longrightarrow> id_of s (structuralTypeKey (TypeSection m ! i) ids) = Some (ids ! i)"
    and k': "\<And>i. i < length ids' \<Longrightarrow> id_of s (structuralTypeKey (TypeSection m' ! i) ids') = Some (ids' ! i)"
    and r: "inRange m x" "inRange m' y"
  shows "ids ! unat x = ids' ! unat y \<longleftrightarrow> type_equiv False m m' x y"
proof -
  let ?R = "\<lambda>a b. ids ! unat a = ids' ! unat b"
  have B: "type_refs_ok (unat a) (typeAt m a)" "ft_RecGroupSize (typeAt m a) \<le> 1" if "inRange m a" for a
    using b(1) that by (simp_all add: backward_def inRange_def typeAt_def)
  have B': "type_refs_ok (unat a) (typeAt m' a)" "ft_RecGroupSize (typeAt m' a) \<le> 1" if "inRange m' a" for a
    using b(2) that by (simp_all add: backward_def inRange_def typeAt_def)
  have keyed_at: "inRange m a \<Longrightarrow> keyed (typeAt m a)" "inRange m' a \<Longrightarrow> keyed (typeAt m' a)" for a
    using ky by (auto simp: inRange_def typeAt_def)
  have key: "?R a c \<longleftrightarrow> sig_rel ?R (typeAt m a) (typeAt m' c)" if ac: "inRange m a" "inRange m' c" for a c
  proof -
    have l: "unat a < length ids" "unat c < length ids'" using ac len by (simp_all add: inRange_def)
    have "?R a c \<longleftrightarrow> structuralTypeKey (typeAt m a) ids = structuralTypeKey (typeAt m' c) ids'"
      using k [OF l(1)] k' [OF l(2)] id_of_inj [OF ok] by (auto simp: typeAt_def)
    then show ?thesis
      using same_key [of ids "typeAt m a" ids' "typeAt m' c"] B [OF ac(1)] B' [OF ac(2)] keyed_at(1) [OF ac(1)] keyed_at(2) [OF ac(2)]
        type_refs_ok_mono [of "unat a" _ "length ids"] type_refs_ok_mono [of "unat c" _ "length ids'"] l by simp
  qed
  show ?thesis
  proof
    assume "?R x y"
    let ?S = "\<lambda>a c. inRange m a \<and> inRange m' c \<and> ?R a c"
    show "type_equiv False m m' x y"
    proof (rule type_equiv_coinduct [of ?S])
      show "?S x y" using \<open>?R x y\<close> r by simp
      fix a c assume ac: "?S a c"
      have "sig_rel ?S (typeAt m a) (typeAt m' c)"
        by (rule sig_rel_weaken [of ?R, OF _ B(1) B'(1)]) (use ac key in \<open>auto simp: inRange_def\<close>)
      then show "unfolds False m m' ?S a c" using backward_unfolds [OF b] ac by blast
    qed
  next
    show "type_equiv False m m' x y \<Longrightarrow> ?R x y" using r
    proof (induction "unat x" arbitrary: x y rule: less_induct)
      case less
      have "sig_rel (type_equiv False m m') (typeAt m x) (typeAt m' y)"
        using type_equiv_unfold [OF less.prems(1)] backward_unfolds [OF b less.prems(2,3)] by blast
      then have "sig_rel ?R (typeAt m x) (typeAt m' y)"
        by (rule sig_rel_weaken [OF _ B(1) [OF less.prems(2)] B'(1) [OF less.prems(3)]])
           (use less in \<open>auto simp: inRange_def\<close>)
      then show ?case using key [OF less.prems(2,3)] by blast
    qed
  qed
qed

section \<open>Properties\<close>

lemma decoded_type_section:
  assumes "length binary < 2 ^ 32"
    "DecodeModule binary enabledFeatures memoryLimitPages memoryCapacityFromMax dwarfEnabled storeCustomSections = Ok m"
  shows "wf_types m" "\<forall>f \<in> set (TypeSection m). key_cached f"
proof -
  have "module_inv memoryLimitPages m" using holds_or_OkD [OF DecodeModule_inv [OF assms(1)] assms(2)] by blast
  then have "type_inv (TypeSection m)" "length (TypeSection m) < 2 ^ 32" unfolding module_inv_def by blast+
  then show "wf_types m" "\<forall>f \<in> set (TypeSection m). key_cached f" using type_inv_wf_types by (auto simp: type_inv_def)
qed

text \<open>
  C13 (identifiers decide equivalence). Let two decoded modules have no rec group of more than one type and only types that
  refer to earlier types. When one store gives both their identifiers, a type of the first and a type of the second have the
  same identifier exactly when they are structurally equivalent, which is what the comparison of imports computes: for such
  modules the type check of an indirect call across modules is exact.
\<close>

theorem GetFunctionTypeIDs_decide:
  assumes s: "type_store_ok s"
    and d: "length b < 2 ^ 32" "DecodeModule b f l c w k = Ok m" "length b' < 2 ^ 32" "DecodeModule b' f' l' c' w' k' = Ok m'"
    and bw: "backward m" "backward m'"
    and g: "GetFunctionTypeIDs (TypeSection m) s = Ok (ids, s1)" "GetFunctionTypeIDs (TypeSection m') s1 = Ok (ids', s2)"
    and r: "inRange m x" "inRange m' y"
  shows "structurallyEquivalentTypesAcrossModules False (Some m) (Some m') x y = Ok (ids ! unat x = ids' ! unat y)"
proof -
  note D = decoded_type_section [OF d(1,2)] and D' = decoded_type_section [OF d(3,4)]
  have ky: "\<forall>f \<in> set (TypeSection m) \<union> set (TypeSection m'). keyed f" using D(2) D'(2) by (auto simp: keyed_def)
  note A = GetFunctionTypeIDs_assigned [OF s g(1)]
  have s1: "type_store_ok s1" using A by (simp add: assigned_def)
  note A' = GetFunctionTypeIDs_assigned [OF s1 g(2)]
  have before: "structuralTypeKey (TypeSection m ! i) (ids_before i ids) = structuralTypeKey (TypeSection m ! i) ids"
    if "i < length (TypeSection m)" for i
    using that bw(1) A ky by (intro structuralTypeKey_before) (simp_all add: backward_def assigned_def)
  have before': "structuralTypeKey (TypeSection m' ! i) (ids_before i ids') = structuralTypeKey (TypeSection m' ! i) ids'"
    if "i < length (TypeSection m')" for i
    using that bw(2) A' ky by (intro structuralTypeKey_before) (simp_all add: backward_def assigned_def)
  have "ids ! unat x = ids' ! unat y \<longleftrightarrow> type_equiv False m m' x y"
    by (rule same_id_iff_equiv [OF bw ky _ _ _ _ _ r, of ids ids' s2])
       (use A A' before before' GetFunctionTypeIDs_keeps [OF s1 g(2)] in \<open>auto simp: assigned_def\<close>)
  then show ?thesis
    using functionTypesEquivalent_decides [OF D(1) D'(1), of x y False] r
    by (auto simp: structurallyEquivalentTypesAcrossModules_def inRange_def not_le)
qed

lemma outcome_case_Ok: "(case x of Ok a \<Rightarrow> P a | Err e \<Rightarrow> False | Panic p \<Rightarrow> False) \<longleftrightarrow> (\<exists>a. x = Ok a \<and> P a)"
  by (cases x) simp_all

lemma newTypeStore_ok: "type_store_ok newTypeStore"
  by (simp add: type_store_ok_def newTypeStore_def)

definition backwardModule :: "byte list" where
  "backwardModule = [0x00, 0x61, 0x73, 0x6d, 1, 0, 0, 0,
     1, 13, 3, 0x60, 0, 0, 0x60, 1, 0x63, 0, 0, 0x60, 1, 0x7f, 0]"

theorem GetFunctionTypeIDs_decide_witness:
  "\<exists>m ids s1 ids' s2. DecodeModule backwardModule 4095 65536 False False False = Ok m \<and>
     GetFunctionTypeIDs (TypeSection m) newTypeStore = Ok (ids, s1) \<and> GetFunctionTypeIDs (TypeSection m) s1 = Ok (ids', s2) \<and>
     structurallyEquivalentTypesAcrossModules False (Some m) (Some m) 1 1 = Ok (ids ! 1 = ids' ! 1) \<and>
     structurallyEquivalentTypesAcrossModules False (Some m) (Some m) 1 2 = Ok (ids ! 1 = ids' ! 2) \<and> ids ! 1 = ids' ! 1 \<and> ids ! 1 \<noteq> ids' ! 2"
proof -
  have "case DecodeModule backwardModule 4095 65536 False False False of Ok m \<Rightarrow>
      (case GetFunctionTypeIDs (TypeSection m) newTypeStore of Ok (ids, s1) \<Rightarrow>
        (case GetFunctionTypeIDs (TypeSection m) s1 of Ok (ids', s2) \<Rightarrow> ids ! 1 = ids' ! 1 \<and> ids ! 1 \<noteq> ids' ! 2 | _ \<Rightarrow> False) | _ \<Rightarrow> False) \<and>
      length (TypeSection m) = 3 \<and>
      backward m | _ \<Rightarrow> False"
    by code_simp
  then obtain m ids s1 ids' s2 where m: "DecodeModule backwardModule 4095 65536 False False False = Ok m"
    and g: "GetFunctionTypeIDs (TypeSection m) newTypeStore = Ok (ids, s1)" "GetFunctionTypeIDs (TypeSection m) s1 = Ok (ids', s2)"
    and ids: "ids ! 1 = ids' ! 1" "ids ! 1 \<noteq> ids' ! 2" and len: "length (TypeSection m) = 3"
    and bw: "backward m"
    unfolding outcome_case_Ok split_paired_Ex prod.case by blast
  have short: "length backwardModule < 2 ^ 32" by (simp add: backwardModule_def)
  have "inRange m 1" "inRange m 2" using len by (simp_all add: inRange_def)
  then show ?thesis
    using m g ids GetFunctionTypeIDs_decide [OF newTypeStore_ok short m short m bw bw g, of 1 1]
      GetFunctionTypeIDs_decide [OF newTypeStore_ok short m short m bw bw g, of 1 2] by auto
qed

text \<open>
  C34 (identifiers ignore rec groups). The decoder caches the key of a type before it sets the type's rec group. Hence two types
  of decoded modules that have the same parameters and results, none of them a reference to a concrete type, get the same
  identifier whatever their rec groups are; they are not equivalent when the sizes of their rec groups or their positions in
  them differ.
\<close>

theorem GetFunctionTypeIDs_ignores_groups:
  assumes s: "type_store_ok s"
    and d: "length b < 2 ^ 32" "DecodeModule b f l c w k = Ok m" "length b' < 2 ^ 32" "DecodeModule b' f' l' c' w' k' = Ok m'"
    and g: "GetFunctionTypeIDs (TypeSection m) s = Ok (ids, s1)" "GetFunctionTypeIDs (TypeSection m') s1 = Ok (ids', s2)"
    and r: "inRange m x" "inRange m' y"
    and same: "ft_Params (typeAt m x) = ft_Params (typeAt m' y)" "ft_Results (typeAt m x) = ft_Results (typeAt m' y)"
    and plain: "\<not> list_ex IsConcreteRef (ft_Params (typeAt m x) @ ft_Results (typeAt m x))"
    and place: "\<not> same_place m m' x y"
  shows "ids ! unat x = ids' ! unat y \<and> structurallyEquivalentTypesAcrossModules False (Some m) (Some m') x y = Ok False"
proof
  note D = decoded_type_section [OF d(1,2)] and D' = decoded_type_section [OF d(3,4)]
  note A = GetFunctionTypeIDs_assigned [OF s g(1)]
  have s1: "type_store_ok s1" using A by (simp add: assigned_def)
  note A' = GetFunctionTypeIDs_assigned [OF s1 g(2)]
  have ck: "key_cached (typeAt m x)" "key_cached (typeAt m' y)" using D(2) D'(2) r by (auto simp: inRange_def typeAt_def)
  have "plainKey (typeAt m x) = plainKey (typeAt m' y)" using same by (simp add: plainKey_def key_def recSuffix_def)
  moreover have "plainKey t \<noteq> []" for t by (simp add: plainKey_def key_def)
  ultimately have keys: "structuralTypeKey (typeAt m x) i = structuralTypeKey (typeAt m' y) j" for i j
    using plain same ck by (simp add: structuralTypeKey_def key_def key_cached_def)
  have "id_of s1 (structuralTypeKey (typeAt m x) (ids_before (unat x) ids)) = Some (ids ! unat x)"
    using A r(1) by (simp add: assigned_def inRange_def typeAt_def)
  then have "id_of s2 (structuralTypeKey (typeAt m x) (ids_before (unat x) ids)) = Some (ids ! unat x)"
    using GetFunctionTypeIDs_keeps [OF s1 g(2)] by blast
  moreover have "id_of s2 (structuralTypeKey (typeAt m' y) (ids_before (unat y) ids')) = Some (ids' ! unat y)"
    using A' r(2) by (simp add: assigned_def inRange_def typeAt_def)
  ultimately show "ids ! unat x = ids' ! unat y" using keys [of "ids_before (unat x) ids" "ids_before (unat y) ids'"] by simp
  have "\<not> type_equiv False m m' x y" using type_equiv_unfold [of False m m' x y] place by (auto simp: unfolds_def)
  then show "structurallyEquivalentTypesAcrossModules False (Some m) (Some m') x y = Ok False"
    using functionTypesEquivalent_decides [OF D(1) D'(1), of x y False] r
    by (auto simp: structurallyEquivalentTypesAcrossModules_def inRange_def not_le)
qed

definition groupedModule :: "byte list" where
  "groupedModule = [0x00, 0x61, 0x73, 0x6d, 1, 0, 0, 0,
     1, 15, 2, 0x4e, 2, 0x60, 1, 0x7f, 0, 0x60, 0, 1, 0x7e, 0x60, 1, 0x7f, 0]"

theorem GetFunctionTypeIDs_ignores_groups_witness:
  "\<exists>m ids s1 ids' s2. DecodeModule groupedModule 4095 65536 False False False = Ok m \<and>
     GetFunctionTypeIDs (TypeSection m) newTypeStore = Ok (ids, s1) \<and> GetFunctionTypeIDs (TypeSection m) s1 = Ok (ids', s2) \<and>
     ids ! 0 = ids' ! 2 \<and> structurallyEquivalentTypesAcrossModules False (Some m) (Some m) 0 2 = Ok False"
proof -
  have "case DecodeModule groupedModule 4095 65536 False False False of Ok m \<Rightarrow>
      (case GetFunctionTypeIDs (TypeSection m) newTypeStore of Ok (ids, s1) \<Rightarrow>
        (case GetFunctionTypeIDs (TypeSection m) s1 of Ok (ids', s2) \<Rightarrow> True | _ \<Rightarrow> False) | _ \<Rightarrow> False) \<and>
      length (TypeSection m) = 3 \<and> ft_Params (typeAt m 0) = ft_Params (typeAt m 2) \<and> ft_Results (typeAt m 0) = ft_Results (typeAt m 2) \<and>
      \<not> list_ex IsConcreteRef (ft_Params (typeAt m 0) @ ft_Results (typeAt m 0)) \<and> \<not> same_place m m 0 2 | _ \<Rightarrow> False"
    by code_simp
  then obtain m ids s1 ids' s2 where m: "DecodeModule groupedModule 4095 65536 False False False = Ok m"
    and g: "GetFunctionTypeIDs (TypeSection m) newTypeStore = Ok (ids, s1)" "GetFunctionTypeIDs (TypeSection m) s1 = Ok (ids', s2)"
    and len: "length (TypeSection m) = 3" and t: "ft_Params (typeAt m 0) = ft_Params (typeAt m 2)" "ft_Results (typeAt m 0) = ft_Results (typeAt m 2)"
      "\<not> list_ex IsConcreteRef (ft_Params (typeAt m 0) @ ft_Results (typeAt m 0))" "\<not> same_place m m 0 2"
    unfolding outcome_case_Ok split_paired_Ex prod.case by blast
  have short: "length groupedModule < 2 ^ 32" by (simp add: groupedModule_def)
  have "inRange m 0" "inRange m 2" using len by (simp_all add: inRange_def)
  from GetFunctionTypeIDs_ignores_groups [OF newTypeStore_ok short m short m g this t] show ?thesis using m g by auto
qed

end
