(* ===== verification/Spec2Isabelle.thy ===== *)
theory Spec2Isabelle
  imports DescriptorTable MemoryInstance MemoryWait TypeEquivalence TableInstance ValidatorTyping ModuleValidation
    ExecutionEpochs StoreModules TypeIDs
begin

text \<open>
  A verification development of the WebAssembly runtime in \<^verbatim>\<open>src/\<close>: the path of a module from its bytes to the
  point where it may be run (decoding, validation, type identifiers), the store that instances are entered into and closed
  from, the reclamation of their memory while guest code runs, and the run-time structures a module instance works on (linear
  memory, tables, the waiters of atomic operations, the table of file descriptors).

  \<^bold>\<open>How the parts interact.\<close> \<^verbatim>\<open>binary.DecodeModule\<close> reads a module from a byte slice with the LEB128 decoders and
  returns a \<^verbatim>\<open>wasm.Module\<close>. \<^verbatim>\<open>Module.Validate\<close> checks its index spaces and constant expressions and runs
  \<^verbatim>\<open>validateFunction\<close> over every body, both of which compare reference types with \<^verbatim>\<open>isRefSubtypeOf\<close>. \<^verbatim>\<open>Store.GetFunctionTypeIDs\<close>
  numbers the types for indirect calls, and \<^verbatim>\<open>Store.Instantiate\<close> enters the instance under its name. At run time, the instance
  evaluates constant expressions and owns memories and tables. Every call of guest code is between \<^verbatim>\<open>BeginExecution\<close> and
  \<^verbatim>\<open>EndExecution\<close>; closing an instance, alone or with the store, ends in \<^verbatim>\<open>retireMemory\<close>, which frees its memory when nothing
  can reach it any more.

  \<^bold>\<open>Conventions (theory Prelude).\<close> A Go call returns an \<open>outcome\<close>: \<open>Ok\<close> with its results, \<open>Err\<close> with an error (a
  sentinel, or the format of a message, without its arguments), or \<open>Panic\<close> for a run-time panic such as an index out of
  range. Slices are lists, indexing and reslicing are \<open>index\<close>, \<open>slice_from\<close>, \<open>slice_to\<close>, which panic out of range.
  Fixed-width integers are words and wrap; \<^verbatim>\<open>int\<close> lengths and positions are naturals. Pointers that may be nil are
  options; a nil map is \<open>None\<close> where the code distinguishes it. Mutated structures are records that are returned updated.
  \<open>holds P m\<close> says that \<open>m\<close> does not panic and that a returned value satisfies \<open>P\<close>; the collections \<open>wp\<close> and \<open>wpI\<close>
  hold its rules, with which the safety proofs walk through a call.

  \<^bold>\<open>Theories.\<close>

  \<^item> Reader: \<^verbatim>\<open>bytes.Reader\<close> and \<^verbatim>\<open>io\<close> as far as the decoder uses them. \<open>consumes\<close> and \<open>skips\<close> say that a decoder
    moves forward.
  \<^item> Leb128 (\<^verbatim>\<open>internal/leb128\<close>): all encoders and decoders. The decoders return exactly the value of the shortest or padded
    encodings they accept, encoding and decoding are inverse, and the signed 32-bit decoder's extra inputs are characterised.
  \<^item> DescriptorTable (\<^verbatim>\<open>internal/descriptor\<close>): the table of file descriptors as a finite map; lookup, insertion at
    a key, deletion and reset are those of the map, and insertion takes the least free key.
  \<^item> ModuleTypes (\<^verbatim>\<open>internal/wasm/module.go\<close>, \<^verbatim>\<open>counts.go\<close>, \<^verbatim>\<open>api/features.go\<close>): the module, its sections, value types, features,
    declarations, section counts and the keys of function types, with the copy a type keeps of its key. Opcodes: the instruction set's constants (\<^verbatim>\<open>instruction.go\<close>).
  \<^item> MemoryInstance and MemoryWait (\<^verbatim>\<open>memory.go\<close>): construction, growth (with a host allocator and without one) and
    accesses of a linear memory; the waiters of \<^verbatim>\<open>memory.atomic.wait\<close> and \<^verbatim>\<open>notify\<close> as a step relation over the critical
    sections, with its invariant. The value that a wait compares is an argument of its step, which says nothing about the
    accesses of other callers to that memory.
  \<^item> TypeEquivalence (\<^verbatim>\<open>module.go\<close>): iso-recursive equivalence and subtyping of types; the algorithm with its visited set decides
    the greatest relation closed under unfolding. Its fuel is the number of pairs of types plus one, which suffices
    because every recursive comparison visits a new pair.
  \<^item> TableInstance (\<^verbatim>\<open>table.go\<close>): growth of a table and the bounds check of segments.
  \<^item> ConstExpr (\<^verbatim>\<open>const_expr.go\<close>): the evaluator of constant expressions over its two resolvers; it computes the value of every
    well-typed integer expression and does not panic on expressions that end with \<^verbatim>\<open>end\<close>.
  \<^item> BinaryTypes, BinarySections, BinaryDecoder (\<^verbatim>\<open>internal/wasm/binary\<close>): the decoders of types, limits, constant expressions,
    imports and exports; of every section; and of the module. A decoded module satisfies \<open>module_inv\<close>, its sections are
    ordered, and the only panic is characterised.
  \<^item> ValidationStacks, InstructionTypes, FuncValidation (\<^verbatim>\<open>func_validation.go\<close>): the operand and control stacks; the types of the
    loads, stores, numeric, vector and atomic instructions as tables over the opcode; one handler for each branch of the
    instruction switch, \<open>step\<close> for the switch, and \<open>validateBody\<close> for the loop.
  \<^item> ValidatorSafety: \<open>step\<close> keeps the invariant \<open>sts_ok\<close> (the stacks agree with the open blocks, positions are inside the
    body), hence the validator does not panic, unless a \<^verbatim>\<open>try_table\<close> lost the record of initialized locals; \<open>vstep\<close> is one
    round of the loop as a relation.
  \<^item> ValidatorTyping: the operand stack as an interface (locale \<open>operand_stack\<close>: values above the block's limit and whether code
    is unreachable), interpreted on the validator's stack; the typing rules of numeric instructions and of \<^verbatim>\<open>end\<close> follow
    from it.
  \<^item> ModuleValidation (\<^verbatim>\<open>module.go\<close>, \<^verbatim>\<open>table.go\<close>): every check of \<^verbatim>\<open>Module.Validate\<close>. What closures record while a constant expression
    is evaluated is modelled by \<open>resolverCalls\<close>, and \<open>resolverCalls_determine\<close> shows that these are the calls the evaluation
    depends on.
  \<^item> TypeIDs (\<^verbatim>\<open>store.go\<close>): the keys and numbers of function types. They decide structural equivalence when every type is a rec
    group of its own and refers to earlier types only. Since the decoder caches the key of a type before it sets the rec group, they
    ignore rec groups otherwise.
  \<^item> ModuleLifetime (\<^verbatim>\<open>execution.go\<close>): the counted links between instances, the search over the users of a closed instance, and the
    work list that releases instances. With the relation of all links made so far as a ghost, exactly the unused instances
    are released, cycles included.
  \<^item> ExecutionEpochs (\<^verbatim>\<open>execution.go\<close>): guest calls, closes and links as steps of concurrent threads. A thread has a program point
    between two accesses to shared data. What runs under the mutex up to the next atomic access is one step, since no
    other thread can see its parts; nested calls are further threads; the counters are unbounded; the queue of epochs is a
    list; the fields \<open>g_freed\<close>, \<open>g_links\<close>, \<open>g_allocated\<close>, \<open>g_retired\<close> and \<open>g_old\<close> are ghosts. A link is made by an instance that is
    not closed yet, or back from the exporter of a shared table to its importer. The invariant of reachable states gives: no
    use after free, exact release, no leak and no double free, no panic and no deadlock.
  \<^item> StoreModules (\<^verbatim>\<open>store_module_list.go\<close>, \<^verbatim>\<open>module_instance.go\<close>, \<^verbatim>\<open>store.go\<close>): the doubly linked list and the map of modules, entering
    and closing. An operation on the store is one step, \<^verbatim>\<open>Instantiate\<close> is two, so that instantiations overlap. The store
    refines \<open>registry\<close>, a list of live modules with what each has to close; the walk along the list has the number of modules
    plus one as its fuel, which suffices because the list has no repetitions. A module closed before it is registered keeps its name.
  \<^item> This theory: the properties of decoding and validation together.

  \<^bold>\<open>Termination.\<close> Loops over bytes are total functions whose measure is the number of bytes left; type equivalence and the
  walk along the module list use fuel, as described above; the loops over links end because every round finds a new instance or
  releases one.

  \<^bold>\<open>Not modelled.\<close> The optimizing compiler (\<^verbatim>\<open>internal/engine/wazevo\<close>) and the interpreter: their correctness is that of the
  code they run, which needs the semantics of machine code and of floating point and vector arithmetic. Of
  instantiation, the resolution of imports, the construction of tables, globals and memories and the application of segments,
  which share mutable instances between modules and call the engines. The runtime, configuration and builder
  API, host modules (WASI, Emscripten, AssemblyScript), file systems, the platform layer, the command line, the compilation
  cache, debugging and logging: input and output, operating-system calls and text. Within the modelled files: the arguments
  of error messages, the DWARF data collected while decoding, names used for messages only, and \<^verbatim>\<open>SplitCallStack\<close> and the
  \<^verbatim>\<open>build\<close> functions, which belong to instantiation.
\<close>

section \<open>From bytes to a validated module\<close>

lemma DecodeModule_decoded:
  assumes "length binary < 2 ^ 32" "DecodeModule binary features lim c d s = Ok m"
  shows "decoded m" "\<forall>c \<in> set (CodeSection m). \<not> code_GoFunc c"
proof -
  have "module_inv lim m \<and> length (FunctionSection m) = length (CodeSection m)"
    using holds_or_OkD [OF DecodeModule_inv [OF assms(1)] assms(2)] .
  then show "decoded m" "\<forall>c \<in> set (CodeSection m). \<not> code_GoFunc c"
    by (auto intro: module_inv_decoded simp: module_inv_def wf_code_entry_def)
qed

text \<open>
  C2 (decoding and validation do not panic). A module decoded from less than 4 GiB is validated without a panic, whatever
  its bytes, if the types of its functions exist and, with exception handling, no function has a local of a non-nullable
  reference type. Both conditions are needed: the validator panics when a body calls a later function whose type
  does not exist, and when a local without a default value is set after a \<^verbatim>\<open>try_table\<close>.
\<close>

theorem DecodeModule_Validate_safe:
  assumes "length binary < 2 ^ 32" "DecodeModule binary features lim c d s = Ok m" "functions_ok features m"
  shows "\<not> panics (Validate features hasCode m)"
  using holds_Validate [OF DecodeModule_decoded(1) [OF assms(1,2)] assms(3)] by (rule holds_not_panics)

theorem DecodeModule_Validate_safe_witness:
  "\<not> panics (bindO (DecodeModule tinyModule 0 65536 False False False) (Validate 0 True))"
proof -
  have "case DecodeModule tinyModule 0 65536 False False False of
      Ok m \<Rightarrow> length (TypeSection m) = 1 \<and> FunctionSection m = [0] | _ \<Rightarrow> False"
    by code_simp
  then obtain m where m: "DecodeModule tinyModule 0 65536 False False False = Ok m" "length (TypeSection m) = 1" "FunctionSection m = [0]"
    by (auto split: outcome.splits)
  have "functions_ok 0 m" using m(2,3) by (simp add: functions_ok_def inRange_def IsEnabled_def)
  from DecodeModule_Validate_safe [OF _ m(1) this, of True] m(1) show ?thesis by (simp add: tinyModule_def)
qed

text \<open>
  C3 (every body of a validated module is well typed to its end). Take a module that was decoded from less than 4 GiB and
  accepted by \<^verbatim>\<open>Validate\<close> (with exception handling: without locals of a non-nullable reference type). For each of its functions,
  the rounds of the validation loop lead from the start of the body to its last byte with only the function's block open;
  that byte is the \<^verbatim>\<open>end\<close> of the function, and the round for it leaves exactly the results of the function's type.
\<close>

theorem Validate_bodies:
  assumes "length binary < 2 ^ 32" "DecodeModule binary features lim c dw s = Ok m" "Validate features True m = Ok m'"
    and "IsEnabled features CoreFeaturesExceptionHandling \<longrightarrow>
      (\<forall>c \<in> set (CodeSection m). list_all (\<lambda>t. IsRef t \<longrightarrow> IsNullable t) (code_LocalTypes c))"
    and "i < length (CodeSection m)"
  shows "\<exists>d declared e start st final.
    AllDeclarations m' = Ok d \<and> declaredFunctionIndexes features m' = Ok declared \<and>
    e = functionEnv m' features d declared (typeAt m' (FunctionSection m' ! i)) (CodeSection m' ! i) \<and>
    (vstep e)\<^sup>*\<^sup>* (0, startStacks m' (fe_functionType e) start) (length (fe_body e) - 1, st) \<and>
    length (sts_cs st) = 1 \<and> fe_body e ! (length (fe_body e) - 1) = OpcodeEnd \<and>
    vstep e (length (fe_body e) - 1, st) (length (fe_body e), final) \<and>
    vs_stack (sts_vs final) = ft_Results (typeAt m' (FunctionSection m' ! i))"
proof -
  note dec = DecodeModule_decoded [OF assms(1,2)]
  have "\<not> code_GoFunc (CodeSection m ! i)" using dec(2) assms(5) by simp
  from Validate_function_ok [OF dec(1) assms(3,5) this] assms(4)
  obtain d declared sts sts' where v: "AllDeclarations m' = Ok d" "declaredFunctionIndexes features m' = Ok declared"
    "function_ok m' features d (of_nat i)" "validateFunction m' sts features (of_nat i) d declared = Ok sts'"
    by blast
  have "unat (of_nat i :: u32) = i"
    using dec(1) assms(5) by (simp add: decoded_def unsigned_of_nat take_bit_nat_eq_self)
  with validateFunction_accepts [OF v(3,4)] v(1,2) show ?thesis
    by (auto simp: typeAt_def functionEnv_def)
qed

theorem Validate_bodies_witness:
  "\<exists>m m' e st final. DecodeModule tinyModule 0 65536 False False False = Ok m \<and> Validate 0 True m = Ok m' \<and>
     vstep e (0, st) (1, final) \<and> fe_body e = [OpcodeEnd] \<and> vs_stack (sts_vs final) = []"
proof -
  have "case bindO (DecodeModule tinyModule 0 65536 False False False) (Validate 0 True) of
      Ok m \<Rightarrow> map code_Body (CodeSection m) = [[OpcodeEnd]] \<and> map ft_Results (TypeSection m) = [[]] \<and> FunctionSection m = [0]
    | _ \<Rightarrow> False"
    by code_simp
  then obtain m m' where m: "DecodeModule tinyModule 0 65536 False False False = Ok m" "Validate 0 True m = Ok m'"
    and m': "map code_Body (CodeSection m') = [[OpcodeEnd]]" "map ft_Results (TypeSection m') = [[]]" "FunctionSection m' = [0]"
    by (auto split: outcome.splits simp: bindO_Ok_iff)
  have "CodeSection m = CodeSection m'" using m(2) by (auto elim!: Validate_OkE simp: cached_def)
  then have len: "0 < length (CodeSection m)" using m'(1) by auto
  have code: "code_Body (CodeSection m' ! 0) = [OpcodeEnd]" "ft_Results (typeAt m' (FunctionSection m' ! 0)) = []"
    using m' by (auto simp: typeAt_def)
  have small: "length tinyModule < 2 ^ 32" by (simp add: tinyModule_def)
  have off: "IsEnabled 0 CoreFeaturesExceptionHandling \<longrightarrow>
      (\<forall>c \<in> set (CodeSection m). list_all (\<lambda>t. IsRef t \<longrightarrow> IsNullable t) (code_LocalTypes c))"
    by (simp add: IsEnabled_def)
  from Validate_bodies [OF small m off len]
  obtain d declared e st final where
    e: "e = functionEnv m' 0 d declared (typeAt m' (FunctionSection m' ! 0)) (CodeSection m' ! 0)" and
    r: "vstep e (length (fe_body e) - 1, st) (length (fe_body e), final)"
      "vs_stack (sts_vs final) = ft_Results (typeAt m' (FunctionSection m' ! 0))"
    by blast
  have "fe_body e = [OpcodeEnd]" using e code(1) by (simp add: functionEnv_def)
  with r code(2) have "vstep e (0, st) (1, final) \<and> fe_body e = [OpcodeEnd] \<and> vs_stack (sts_vs final) = []" by simp
  then show ?thesis using m by blast
qed

end
